(* ===== verification/Prelude.thy ===== *)
theory Prelude
  imports Main "HOL-Library.Word"
begin

text \<open>
  Shared vocabulary of the development: the machine integers of the C sources, the result
  type of a C function that can fail, byte order conversions, and the flat byte buffers that
  stand for the \<open>malloc\<close>ed regions the sources index with pointer arithmetic.  The lemmas
  declared here (\<open>buf_simps\<close>, \<open>be_simps\<close>) carry the component proofs.
\<close>

unbundle bit_operations_syntax

section \<open>Machine integers\<close>

type_synonym u8 = "8 word"
type_synonym u16 = "16 word"
type_synonym u32 = "32 word"
type_synonym bytes = "u8 list"

named_theorems buf_simps \<open>reading and writing flat buffers\<close>
named_theorems be_simps \<open>byte order conversions\<close>

lemma unat_of_nat_u8: "a < 256 \<Longrightarrow> unat (of_nat a :: u8) = a"
  by (simp add: unat_of_nat)

lemma of_nat_u8_eq: "a < 256 \<Longrightarrow> b < 256 \<Longrightarrow> (of_nat a :: u8) = of_nat b \<longleftrightarrow> a = b"
  by (metis unat_of_nat_u8)

section \<open>Results of C functions\<close>

text \<open>
  \<open>Ok v\<close>: the function returns normally and \<open>v\<close> is its result (and the state it wrote);
  \<open>Fail rc\<close>: it returns the error code \<open>rc\<close> and writes nothing the caller may read;
  \<open>UB\<close>: the execution reads or writes outside an object, or through a pointer whose object
  has been freed.  C gives such an execution no meaning, so no theorem may assume one.
  (A loop that cannot make progress is given the same value.)
\<close>

datatype 'a cres = Ok 'a | Fail int | UB

fun is_ok :: "'a cres \<Rightarrow> bool" where
  "is_ok (Ok _) = True"
| "is_ok _ = False"

fun cres_val :: "'a \<Rightarrow> 'a cres \<Rightarrow> 'a" where
  "cres_val d (Ok v) = v"
| "cres_val d _ = d"

fun cbind :: "'a cres \<Rightarrow> ('a \<Rightarrow> 'b cres) \<Rightarrow> 'b cres" where
  "cbind (Ok v) f = f v"
| "cbind (Fail c) f = Fail c"
| "cbind UB f = UB"

lemma cbind_Ok_iff: "cbind r f = Ok v \<longleftrightarrow> (\<exists>x. r = Ok x \<and> f x = Ok v)"
  by (cases r) auto

text \<open>Running a fallible operation over a list, stopping at the first failure.\<close>

fun cmap :: "('a \<Rightarrow> 'b cres) \<Rightarrow> 'a list \<Rightarrow> 'b list cres" where
  "cmap f [] = Ok []"
| "cmap f (x # xs) =
     (case f x of
        Ok y \<Rightarrow> (case cmap f xs of Ok ys \<Rightarrow> Ok (y # ys) | Fail e \<Rightarrow> Fail e | UB \<Rightarrow> UB)
      | Fail e \<Rightarrow> Fail e
      | UB \<Rightarrow> UB)"

lemma cmap_Ok: "(\<And>x. x \<in> set xs \<Longrightarrow> f x = Ok (g x)) \<Longrightarrow> cmap f xs = Ok (map g xs)"
  by (induction xs) simp_all

lemma is_ok_iff: "is_ok r \<longleftrightarrow> (\<exists>v. r = Ok v)"
  by (cases r) auto

section \<open>Lists\<close>

lemma list_eq_nthI:
  "length xs = length ys \<Longrightarrow> (\<And>i. i < length ys \<Longrightarrow> xs ! i = ys ! i) \<Longrightarrow> xs = ys"
  by (rule nth_equalityI) auto

lemma set_subset_nthI:
  "(\<And>i. i < length xs \<Longrightarrow> P (xs ! i)) \<Longrightarrow> \<forall>x\<in>set xs. P x"
  by (auto simp: in_set_conv_nth)

lemma fold_invariant_upt:
  assumes "P a s" and "\<And>i s. a \<le> i \<Longrightarrow> i < b \<Longrightarrow> P i s \<Longrightarrow> P (Suc i) (f i s)" and "a \<le> b"
  shows "P b (fold f [a..<b] s)"
  using assms(3,2)
proof (induction b rule: dec_induct)
  case base
  then show ?case using assms(1) by simp
next
  case (step n)
  then have "P n (fold f [a..<n] s)" by simp
  with step show ?case by simp
qed

text \<open>Loops that update an array in place, one index per round.\<close>

lemma length_fold_update [simp]:
  "length (fold (\<lambda>k b. b[h k := f k b]) ks b) = length b"
  by (induction ks arbitrary: b) simp_all

lemma fold_update_upt:
  assumes "m \<le> length b" and "j < length b"
  shows "fold (\<lambda>k b. b[k := f k (b ! k)]) [0..<m] b ! j = (if j < m then f j (b ! j) else b ! j)"
  using assms(1)
proof (induction m)
  case (Suc m)
  then show ?case using assms(2) by (auto simp: nth_list_update)
qed simp

text \<open>A descending loop that computes entry \<open>k\<close> from the not yet updated entries \<open>k - 1\<close>
  and \<open>k\<close>, and one that computes entry \<open>k\<close> from the updated entry \<open>k + 1\<close>.\<close>

lemma fold_update_down:
  assumes "m \<le> length b" and "j < length b"
  shows "fold (\<lambda>k b. b[k := f (b ! (k - 1)) (b ! k)]) (rev [1..<m]) b ! j =
           (if 1 \<le> j \<and> j < m then f (b ! (j - 1)) (b ! j) else b ! j)"
  using assms
proof (induction m arbitrary: b)
  case (Suc m)
  show ?case
  proof (cases "1 \<le> m")
    case True
    let ?b = "b[m := f (b ! (m - 1)) (b ! m)]"
    have "fold (\<lambda>k b. b[k := f (b ! (k - 1)) (b ! k)]) (rev [1..<Suc m]) b ! j =
            fold (\<lambda>k b. b[k := f (b ! (k - 1)) (b ! k)]) (rev [1..<m]) ?b ! j"
      using True by simp
    also have "\<dots> = (if 1 \<le> j \<and> j < m then f (?b ! (j - 1)) (?b ! j) else ?b ! j)"
      using Suc.IH [of ?b] Suc.prems by simp
    finally show ?thesis using Suc.prems True by (auto simp: nth_list_update)
  qed auto
qed simp

lemma fold_update_recur:
  assumes "m < length b" and "r = fold (\<lambda>k b. b[k := f k (b ! Suc k)]) (rev [0..<m]) b"
  shows "(\<forall>k<m. r ! k = f k (r ! Suc k)) \<and> (\<forall>k. m \<le> k \<longrightarrow> r ! k = b ! k)"
  using assms
proof (induction m arbitrary: b)
  case (Suc m)
  let ?b = "b[m := f m (b ! Suc m)]"
  have r: "r = fold (\<lambda>k b. b[k := f k (b ! Suc k)]) (rev [0..<m]) ?b"
    using Suc.prems(2) by simp
  have "(\<forall>k<m. r ! k = f k (r ! Suc k)) \<and> (\<forall>k. m \<le> k \<longrightarrow> r ! k = ?b ! k)"
    using Suc.IH [OF _ r] Suc.prems(1) by simp
  with Suc.prems(1) show ?case by (auto simp: less_Suc_eq)
qed simp

section \<open>Flat buffers\<close>

text \<open>
  \<open>memcpy\<close>, \<open>memset\<close> and slicing at an offset.  Out-of-bounds accesses are guarded where
  the operations are used, with \<open>in_bounds\<close>.
\<close>

definition in_bounds :: "bytes \<Rightarrow> nat \<Rightarrow> nat \<Rightarrow> bool" where
  "in_bounds b off n \<longleftrightarrow> off + n \<le> length b"

definition buf_read :: "bytes \<Rightarrow> nat \<Rightarrow> nat \<Rightarrow> bytes" where
  "buf_read b off n = take n (drop off b)"

definition buf_write :: "bytes \<Rightarrow> nat \<Rightarrow> bytes \<Rightarrow> bytes" where
  "buf_write b off d = take off b @ d @ drop (off + length d) b"

lemma length_buf_read [buf_simps]: "in_bounds b off n \<Longrightarrow> length (buf_read b off n) = n"
  by (simp add: buf_read_def in_bounds_def)

lemma length_buf_write [buf_simps]:
  "in_bounds b off (length d) \<Longrightarrow> length (buf_write b off d) = length b"
  by (simp add: buf_write_def in_bounds_def)

lemma in_bounds_buf_write [buf_simps]:
  "in_bounds b off (length d) \<Longrightarrow> in_bounds (buf_write b off d) o' n = in_bounds b o' n"
  by (simp add: in_bounds_def buf_write_def)

lemma buf_read_write_same [buf_simps]:
  "in_bounds b off (length d) \<Longrightarrow> n = length d \<Longrightarrow> buf_read (buf_write b off d) off n = d"
  by (simp add: buf_read_def buf_write_def in_bounds_def)

lemma buf_read_write_other [buf_simps]:
  assumes "in_bounds b off (length d)" and "o' + n \<le> off \<or> off + length d \<le> o'"
  shows "buf_read (buf_write b off d) o' n = buf_read b o' n"
proof (rule nth_equalityI)
  show "length (buf_read (buf_write b off d) o' n) = length (buf_read b o' n)"
    using length_buf_write [OF assms(1)] by (simp add: buf_read_def)
next
  fix i assume i: "i < length (buf_read (buf_write b off d) o' n)"
  have nth: "buf_write b off d ! j = b ! j" if "j < off \<or> off + length d \<le> j" for j
    using that assms(1) by (auto simp: buf_write_def in_bounds_def nth_append)
  from i have "i < n" and "o' + i < length b"
    using length_buf_write [OF assms(1)] by (auto simp: buf_read_def)
  moreover have "o' + i < off \<or> off + length d \<le> o' + i" using assms(2) \<open>i < n\<close> by linarith
  ultimately show "buf_read (buf_write b off d) o' n ! i = buf_read b o' n ! i"
    using length_buf_write [OF assms(1)] nth [of "o' + i"] by (simp add: buf_read_def)
qed

text \<open>Equal-sized slots of a buffer: slot \<open>i\<close> is the \<open>sl\<close> bytes at \<open>i * sl\<close>.\<close>

lemma slot_in_bounds [buf_simps]:
  "i < n \<Longrightarrow> length b = n * sl \<Longrightarrow> in_bounds b (i * sl) sl"
proof -
  assume "i < n" and l: "length b = n * sl"
  then have "Suc i * sl \<le> n * sl" by (intro mult_le_mono1) simp
  with l show ?thesis by (simp add: in_bounds_def)
qed

lemma slots_disjoint:
  fixes i j sl :: nat
  assumes "i \<noteq> j"
  shows "i * sl + sl \<le> j * sl \<or> j * sl + sl \<le> i * sl"
proof (cases "i < j")
  case True
  then have "Suc i * sl \<le> j * sl" by (intro mult_le_mono1) simp
  then show ?thesis by simp
next
  case False
  with assms have "Suc j * sl \<le> i * sl" by (intro mult_le_mono1) simp
  then show ?thesis by simp
qed

lemma slot_read_write [buf_simps]:
  assumes "length b = n * sl" and "i < n" and "j < n" and "length d = sl"
  shows "buf_read (buf_write b (i * sl) d) (j * sl) sl =
           (if i = j then d else buf_read b (j * sl) sl)"
proof (cases "i = j")
  case True
  with assms show ?thesis by (simp add: buf_simps)
next
  case False
  have "in_bounds b (i * sl) (length d)" using assms by (simp add: slot_in_bounds)
  moreover have "j * sl + sl \<le> i * sl \<or> i * sl + length d \<le> j * sl"
    using slots_disjoint [OF False, of sl] assms(4) by auto
  ultimately show ?thesis using False by (simp add: buf_read_write_other)
qed

section \<open>Network byte order\<close>

text \<open>
  A packed struct field in network order is the list of its bytes, most significant first:
  \<open>htons\<close>/\<open>htonl\<close> followed by the store is \<open>be16\<close>/\<open>be32\<close>, the load followed by
  \<open>ntohs\<close>/\<open>ntohl\<close> is \<open>of_be16\<close>/\<open>of_be32\<close>.
\<close>

definition be16 :: "u16 \<Rightarrow> bytes" where
  "be16 w = [ucast (drop_bit 8 w), ucast w]"

definition of_be16 :: "u8 \<Rightarrow> u8 \<Rightarrow> u16" where
  "of_be16 b0 b1 = push_bit 8 (ucast b0) OR ucast b1"

definition be32 :: "u32 \<Rightarrow> bytes" where
  "be32 w = [ucast (drop_bit 24 w), ucast (drop_bit 16 w), ucast (drop_bit 8 w), ucast w]"

definition of_be32 :: "u8 \<Rightarrow> u8 \<Rightarrow> u8 \<Rightarrow> u8 \<Rightarrow> u32" where
  "of_be32 b0 b1 b2 b3 =
     push_bit 24 (ucast b0) OR push_bit 16 (ucast b1) OR push_bit 8 (ucast b2) OR ucast b3"

lemma of_be16_be16 [be_simps]: "of_be16 (be16 w ! 0) (be16 w ! 1) = w"
  by (rule bit_word_eqI) (auto simp: be16_def of_be16_def bit_simps)

lemma of_be32_be32 [be_simps]:
  "of_be32 (be32 w ! 0) (be32 w ! 1) (be32 w ! 2) (be32 w ! 3) = w"
proof (rule bit_word_eqI)
  fix n assume "n < LENGTH(32)"
  then consider "n < 8" | "8 \<le> n" "n < 16" | "16 \<le> n" "n < 24" | "24 \<le> n" "n < 32"
    by fastforce
  then show "bit (of_be32 (be32 w ! 0) (be32 w ! 1) (be32 w ! 2) (be32 w ! 3)) n = bit w n"
    by cases (auto simp: be32_def of_be32_def bit_simps)
qed

lemma length_be [simp]: "length (be16 w) = 2" "length (be32 v) = 4"
  by (simp_all add: be16_def be32_def)

end
