(* ===== verification/Poly.thy ===== *)
theory Poly
  imports Main Prelude
begin

text \<open>
  Polynomials over a field, independent of the program: evaluation by Horner's rule, the
  fact that a polynomial with fewer coefficients than distinct roots vanishes, products of
  linear factors, and Lagrange interpolation in a field of characteristic two.  The locale
  \<open>char2_field\<close> is the interface between the arithmetic of \<open>fec.h\<close> (which provides such a
  field) and the polynomial engine of \<open>fec.c\<close> (which relies on one).
\<close>

section \<open>Evaluation\<close>

fun peval :: "'a::comm_ring_1 list \<Rightarrow> 'a \<Rightarrow> 'a" where
  "peval [] x = 0"
| "peval (c # cs) x = c + x * peval cs x"

definition feval :: "nat \<Rightarrow> (nat \<Rightarrow> 'a::comm_ring_1) \<Rightarrow> 'a \<Rightarrow> 'a" where
  "feval n c x = (\<Sum>k<n. c k * x ^ k)"

lemma feval_0 [simp]: "feval 0 c x = 0"
  by (simp add: feval_def)

lemma feval_Suc: "feval (Suc n) c x = c 0 + x * feval n (\<lambda>k. c (Suc k)) x"
  by (simp add: feval_def sum.lessThan_Suc_shift sum_distrib_left mult_ac del: sum.lessThan_Suc)

lemma peval_feval: "peval cs x = feval (length cs) (\<lambda>k. cs ! k) x"
  by (induction cs) (simp_all add: feval_Suc)

lemma feval_cong: "(\<And>k. k < n \<Longrightarrow> c k = d k) \<Longrightarrow> feval n c x = feval n d x"
  by (simp add: feval_def)

lemma peval_append_one: "peval (cs @ [c]) x = peval cs x + c * x ^ length cs"
  by (induction cs) (simp_all add: algebra_simps)

section \<open>Roots\<close>

lemma peval_factor:
  "length p = Suc n \<Longrightarrow>
     \<exists>q. length q = n \<and> (\<forall>x. peval p x = peval p a + (x - a) * peval q x)"
proof (induction p arbitrary: n)
  case Nil
  then show ?case by simp
next
  case (Cons c cs)
  show ?case
  proof (cases cs)
    case Nil
    with Cons.prems show ?thesis by auto
  next
    case (Cons c' cs')
    then obtain q where q: "length q = length cs'"
      "\<forall>x. peval cs x = peval cs a + (x - a) * peval q x"
      using Cons.IH [of "length cs'"] by auto
    have "peval (c # cs) x = peval (c # cs) a + (x - a) * peval (peval cs a # q) x" for x
      unfolding peval.simps q(2) [rule_format, of x] by (simp add: algebra_simps)
    moreover have "length (peval cs a # q) = n"
      using q(1) Cons Cons.prems by simp
    ultimately show ?thesis by blast
  qed
qed

lemma peval_zero_of_roots:
  fixes p :: "'a::idom list"
  assumes "distinct xs" and "length p \<le> length xs" and "\<forall>x\<in>set xs. peval p x = 0"
  shows "peval p z = 0"
  using assms
proof (induction xs arbitrary: p z)
  case Nil
  then show ?case by simp
next
  case (Cons a xs)
  show ?case
  proof (cases p)
    case Nil
    then show ?thesis by simp
  next
    case (Cons c cs)
    then obtain q where q: "length q = length cs"
      "\<forall>x. peval p x = peval p a + (x - a) * peval q x"
      using peval_factor [of p "length cs" a] by auto
    have "peval p x = (x - a) * peval q x" for x
      using q(2) Cons.prems(3) by simp
    moreover from this have "\<forall>x\<in>set xs. peval q x = 0"
      using Cons.prems(1,3) by fastforce
    then have "peval q z = 0"
      using Cons.IH Cons.prems(1,2) q(1) Cons by simp
    ultimately show ?thesis by simp
  qed
qed

lemma peval_diff:
  "length p = length q \<Longrightarrow> peval (map2 (-) p q) x = peval p x - peval q x"
  by (induction p q rule: list_induct2) (simp_all add: right_diff_distrib)

theorem peval_unique:
  fixes p q :: "'a::idom list"
  assumes "distinct xs" and "length p = length xs" and "length q = length xs"
    and "\<forall>x\<in>set xs. peval p x = peval q x"
  shows "peval p z = peval q z"
proof -
  have "peval (map2 (-) p q) z = 0"
    by (rule peval_zero_of_roots [of xs]) (use assms in \<open>auto simp: peval_diff\<close>)
  with assms show ?thesis by (simp add: peval_diff)
qed

section \<open>Products of linear factors\<close>

text \<open>\<open>lmul a c\<close> are the coefficients of \<open>(x + a) * c\<close>.\<close>

definition lmul :: "'a::comm_ring_1 \<Rightarrow> (nat \<Rightarrow> 'a) \<Rightarrow> nat \<Rightarrow> 'a" where
  "lmul a c = (\<lambda>k. (case k of 0 \<Rightarrow> 0 | Suc j \<Rightarrow> c j) + a * c k)"

definition master :: "'a::comm_ring_1 list \<Rightarrow> nat \<Rightarrow> 'a" where
  "master xs = fold lmul xs (\<lambda>k. if k = 0 then 1 else 0)"

lemma lmul_commute: "lmul a (lmul b c) = lmul b (lmul a c)"
  by (rule ext) (simp add: lmul_def algebra_simps split: nat.split)

lemma fold_lmul_commute: "fold lmul xs (lmul a c) = lmul a (fold lmul xs c)"
proof (induction xs arbitrary: c)
  case (Cons b xs)
  have "fold lmul (b # xs) (lmul a c) = fold lmul xs (lmul a (lmul b c))"
    by (simp only: fold_Cons o_apply lmul_commute [of b a])
  then show ?case by (simp only: Cons.IH fold_Cons o_apply)
qed simp

lemma master_snoc: "master (xs @ [a]) = lmul a (master xs)"
  by (simp add: master_def)

lemma master_Nil: "master [] = (\<lambda>k. if k = 0 then 1 else 0)"
  by (simp add: master_def)

lemma master_beyond: "length xs < k \<Longrightarrow> master xs k = 0"
proof (induction xs arbitrary: k rule: rev_induct)
  case (snoc a xs)
  then show ?case by (cases k) (simp_all add: master_snoc lmul_def)
qed (simp add: master_Nil)

lemma master_top: "master xs (length xs) = 1"
  by (induction xs rule: rev_induct) (simp_all add: master_Nil master_snoc lmul_def master_beyond)

definition others :: "'a list \<Rightarrow> nat \<Rightarrow> 'a list" where
  "others xs i = take i xs @ drop (Suc i) xs"

lemma length_others [simp]: "i < length xs \<Longrightarrow> length (others xs i) = length xs - 1"
  by (simp add: others_def)

lemma master_others: "i < length xs \<Longrightarrow> master xs = lmul (xs ! i) (master (others xs i))"
proof -
  assume i: "i < length xs"
  have "master xs = master (take i xs @ xs ! i # drop (Suc i) xs)"
    using id_take_nth_drop [OF i] by simp
  then show ?thesis by (simp add: master_def others_def fold_lmul_commute)
qed

lemma feval_lmul:
  assumes "\<And>k. n \<le> k \<Longrightarrow> c k = 0"
  shows "feval (Suc n) (lmul a c) x = (x + a) * feval n c x"
proof -
  have "feval (Suc n) (lmul a c) x =
          (\<Sum>k<Suc n. (case k of 0 \<Rightarrow> 0 | Suc j \<Rightarrow> c j) * x ^ k) + a * (\<Sum>k<Suc n. c k * x ^ k)"
    by (simp add: feval_def lmul_def algebra_simps sum.distrib sum_distrib_left
          del: sum.lessThan_Suc)
  also have "(\<Sum>k<Suc n. (case k of 0 \<Rightarrow> 0 | Suc j \<Rightarrow> c j) * x ^ k) = x * feval n c x"
    by (simp add: sum.lessThan_Suc_shift feval_def sum_distrib_left mult_ac del: sum.lessThan_Suc)
  also have "(\<Sum>k<Suc n. c k * x ^ k) = feval n c x"
    using assms [of n] by (simp add: feval_def)
  finally show ?thesis by (simp add: algebra_simps)
qed

lemma feval_master: "feval (Suc (length xs)) (master xs) x = prod_list (map ((+) x) xs)"
proof (induction xs rule: rev_induct)
  case (snoc a xs)
  then show ?case
    by (simp add: master_snoc feval_lmul master_beyond mult.commute)
qed (simp add: master_Nil feval_def)

section \<open>Characteristic two: synthetic division and Lagrange interpolation\<close>

locale char2_field =
  fixes ty :: "'a::field itself"
  assumes char2: "\<And>x::'a. x + x = 0"
begin

lemma add_cancel_char2 [simp]: "(x::'a) + (x + y) = y"
  by (simp add: add.assoc [symmetric] char2)

lemma add_eq_0_iff_eq: "(x::'a) + y = 0 \<longleftrightarrow> x = y"
  by (metis add_cancel_char2 add.right_neutral char2)

lemma uminus_char2: "- (x::'a) = x"
  by (metis char2 minus_unique)

text \<open>Dividing \<open>(x + a) * c\<close> by \<open>x + a\<close> from the top coefficient down gives back \<open>c\<close>.\<close>

lemma synthetic_division:
  assumes top: "q n = lmul a c (Suc n)" and c: "\<And>k. n < k \<Longrightarrow> c k = (0::'a)"
    and step: "\<And>k. k < n \<Longrightarrow> q k = lmul a c (Suc k) + q (Suc k) * a" and "k \<le> n"
  shows "q k = c k"
  using \<open>k \<le> n\<close>
proof (induction k rule: inc_induct)
  case base
  then show ?case using top c [of "Suc n"] by (simp add: lmul_def)
next
  case (step m)
  have "q m = (c m + a * c (Suc m)) + c (Suc m) * a"
    using assms(3) [OF step(2)] step(3) by (simp add: lmul_def)
  then show ?case by (simp add: add.assoc mult.commute char2)
qed

lemma master_others_eval:
  assumes "i < length xs" and "j < length xs" and "distinct xs" and "i \<noteq> j"
  shows "prod_list (map ((+) (xs ! j)) (others xs i)) = (0::'a)"
proof -
  have "xs ! j \<in> set (others xs i)"
  proof (cases "j < i")
    case True
    then have "take i xs ! j = xs ! j" and "j < length (take i xs)" using assms by simp_all
    then show ?thesis by (metis others_def UnI1 nth_mem set_append)
  next
    case False
    then have "drop (Suc i) xs ! (j - Suc i) = xs ! j" and "j - Suc i < length (drop (Suc i) xs)"
      using assms by simp_all
    then show ?thesis by (metis others_def UnI2 nth_mem set_append)
  qed
  then have "xs ! j + xs ! j \<in> set (map ((+) (xs ! j)) (others xs i))" by auto
  then show ?thesis by (simp add: char2 prod_list_zero_iff)
qed

lemma weight_nonzero:
  assumes "i < length xs" and "distinct xs"
  shows "prod_list (map ((+) (xs ! i)) (others xs i)) \<noteq> (0::'a)"
proof -
  have "distinct (take i xs @ xs ! i # drop (Suc i) xs)"
    using id_take_nth_drop [OF assms(1)] assms(2) by simp
  then have "xs ! i \<notin> set (others xs i)" by (simp add: others_def)
  then show ?thesis by (auto simp: prod_list_zero_iff add_eq_0_iff_eq)
qed

theorem lagrange_interpolates:
  fixes xs :: "'a list" and y :: "nat \<Rightarrow> 'a"
  assumes "distinct xs" and "j < length xs"
  defines "s i \<equiv> prod_list (map ((+) (xs ! i)) (others xs i))"
  shows "feval (length xs) (\<lambda>p. \<Sum>i<length xs. master (others xs i) p * inverse (s i) * y i) (xs ! j) = y j"
proof -
  let ?n = "length xs"
  have "feval ?n (\<lambda>p. \<Sum>i<?n. master (others xs i) p * inverse (s i) * y i) (xs ! j)
        = (\<Sum>i<?n. inverse (s i) * y i * feval ?n (master (others xs i)) (xs ! j))"
    unfolding feval_def by (simp add: sum_distrib_left sum_distrib_right mult_ac) (rule sum.swap)
  also have "\<dots> = (\<Sum>i<?n. if i = j then y j else 0)"
  proof (rule sum.cong [OF refl])
    fix i assume "i \<in> {..<?n}"
    then have i: "i < ?n" by simp
    have len: "Suc (length (others xs i)) = ?n" using i by (simp add: others_def)
    have "feval ?n (master (others xs i)) (xs ! j) = prod_list (map ((+) (xs ! j)) (others xs i))"
      by (rule feval_master [of "others xs i" "xs ! j", unfolded len])
    then show "inverse (s i) * y i * feval ?n (master (others xs i)) (xs ! j) = (if i = j then y j else 0)"
      using master_others_eval [OF i assms(2,1)] weight_nonzero [OF assms(2,1)]
      by (auto simp: s_def)
  qed
  also have "\<dots> = y j" using assms(2) by simp
  finally show ?thesis .
qed

end

end
