(* ===== verification/GF256.thy ===== *)
theory GF256
  imports Main Prelude Poly
begin

text \<open>
  The arithmetic of \<open>include/fec.h\<close> and the table construction \<open>fec_rs_init\<close> of
  \<open>src/fec.c\<close>.  The tables are lists of bytes, indexed as the C arrays are.  The theory shows
  that the table-driven operations are the operations of a field with 256 elements: the type
  \<open>gf\<close> is a copy of \<open>u8\<close> whose class operations are the table-driven functions on the tables
  that \<open>fec_rs_init\<close> builds, and it is instantiated as a \<open>field\<close> of characteristic two.
\<close>

section \<open>Tables and operations\<close>

definition FEC_GF_PRIMITIVE_POLY :: u16 where
  "FEC_GF_PRIMITIVE_POLY = 0x11d"

record fec_rs_ctx =
  exp_lut :: bytes
  log_lut :: bytes

definition gf256_add :: "u8 \<Rightarrow> u8 \<Rightarrow> u8" where
  "gf256_add a b = a XOR b"

definition gf256_mul :: "fec_rs_ctx \<Rightarrow> u8 \<Rightarrow> u8 \<Rightarrow> u8" where
  "gf256_mul ctx a b =
     (if a = 0 \<or> b = 0 then 0
      else exp_lut ctx ! (unat (log_lut ctx ! unat a) + unat (log_lut ctx ! unat b)))"

definition gf256_div :: "fec_rs_ctx \<Rightarrow> u8 \<Rightarrow> u8 \<Rightarrow> u8" where
  "gf256_div ctx a b =
     (if a = 0 \<or> b = 0 then 0
      else let diff = int (unat (log_lut ctx ! unat a)) - int (unat (log_lut ctx ! unat b));
               diff = (if diff < 0 then diff + 255 else diff)
           in exp_lut ctx ! nat diff)"

definition gf256_inv :: "fec_rs_ctx \<Rightarrow> u8 \<Rightarrow> u8" where
  "gf256_inv ctx a =
     (if a = 0 then 0 else exp_lut ctx ! (255 - unat (log_lut ctx ! unat a)))"

text \<open>
  One round of the first loop of \<open>fec_rs_init\<close>: store \<open>x\<close> and its logarithm, then double
  \<open>x\<close> and reduce it.  \<open>log_lut[x]\<close> is indexed with the 16-bit \<open>x\<close>.
\<close>

definition rs_double :: "u16 \<Rightarrow> u16" where
  "rs_double x =
     (let x = push_bit 1 x
      in if x AND 0x100 \<noteq> 0 then x XOR FEC_GF_PRIMITIVE_POLY else x)"

definition rs_init_step :: "nat \<Rightarrow> u16 \<times> fec_rs_ctx \<Rightarrow> u16 \<times> fec_rs_ctx" where
  "rs_init_step i = (\<lambda>(x, ctx).
     (rs_double x,
      ctx\<lparr>exp_lut := (exp_lut ctx)[i := ucast x],
          log_lut := (log_lut ctx)[unat x := of_nat i]\<rparr>))"

definition rs_dup_step :: "nat \<Rightarrow> fec_rs_ctx \<Rightarrow> fec_rs_ctx" where
  "rs_dup_step i ctx = ctx\<lparr>exp_lut := (exp_lut ctx)[i := exp_lut ctx ! (i - 255)]\<rparr>"

definition fec_rs_init :: "fec_rs_ctx option \<Rightarrow> fec_rs_ctx cres" where
  "fec_rs_init p =
     (case p of
        None \<Rightarrow> Fail (-1)
      | Some _ \<Rightarrow>
          let ctx = \<lparr>exp_lut = replicate 512 0, log_lut = replicate 256 0\<rparr>;
              ctx = snd (fold rs_init_step [0..<255] (1, ctx))
          in Ok (fold rs_dup_step [255..<512] ctx))"

text \<open>The tables every connection shares (\<open>fec_shared_ctx\<close> of \<open>tcp_output.c\<close>).\<close>

definition fec_shared_ctx :: fec_rs_ctx where
  "fec_shared_ctx =
     fold rs_dup_step [255..<512]
       (snd (fold rs_init_step [0..<255] (1, \<lparr>exp_lut = replicate 512 0, log_lut = replicate 256 0\<rparr>)))"

lemma fec_rs_init_Some: "fec_rs_init (Some c) = Ok fec_shared_ctx"
  by (simp add: fec_rs_init_def fec_shared_ctx_def Let_def)

section \<open>Powers of the generator\<close>

definition xtime :: "u8 \<Rightarrow> u8" where
  "xtime a = push_bit 1 a XOR (if bit a 7 then 0x1d else 0)"

definition gpow :: "nat \<Rightarrow> u8" where
  "gpow n = (xtime ^^ n) 1"

lemma xtime_xor: "xtime (a XOR b) = xtime a XOR xtime b"
  by (rule bit_word_eqI) (auto simp: xtime_def bit_simps)

lemma unat_u8_less [simp]: "unat (a::u8) < 256"
  using unsigned_less [of a] by simp

lemma unat_ucast_u8_u16: "unat (ucast (a::u8) :: u16) = unat a"
  using unat_u8_less [of a] by (simp add: unsigned_ucast_eq take_bit_nat_eq_self_iff del: unat_u8_less)

lemma ucast_u16_u8: "ucast (ucast (a::u8) :: u16) = a"
  by (rule bit_word_eqI) (simp add: bit_simps)

lemma no_high_bit: "8 \<le> n \<Longrightarrow> \<not> bit (a::u8) n"
  using bit_imp_le_length [of a n] by auto

lemma below_8: "n < (8 :: nat) \<longleftrightarrow> n \<in> {0, 1, 2, 3, 4, 5, 6, 7}"
  by (auto simp: less_Suc_eq numeral_eq_Suc)

lemma below_16: "n < (16 :: nat) \<longleftrightarrow> n \<in> {0, 1, 2, 3, 4, 5, 6, 7, 8, 9, 10, 11, 12, 13, 14, 15}"
  by (auto simp: less_Suc_eq numeral_eq_Suc)

lemma carry_bit: "push_bit (Suc 0) (ucast (a::u8) :: u16) AND 0x100 = (if bit a 7 then 0x100 else 0)"
proof (rule bit_word_eqI)
  fix n assume "n < LENGTH(16)"
  then have "n \<in> {0, 1, 2, 3, 4, 5, 6, 7, 8, 9, 10, 11, 12, 13, 14, 15}" by (simp add: below_16)
  then show "bit (push_bit (Suc 0) (ucast a :: u16) AND 0x100) n = bit (if bit a 7 then 0x100 else 0 :: u16) n"
    by (elim insertE emptyE) (simp_all add: bit_simps del: push_bit_Suc)
qed

lemma rs_double_ucast: "rs_double (ucast a) = ucast (xtime a)"
proof (rule bit_word_eqI)
  fix n assume "n < LENGTH(16)"
  then have "n \<in> {0, 1, 2, 3, 4, 5, 6, 7, 8, 9, 10, 11, 12, 13, 14, 15}" by (simp add: below_16)
  then show "bit (rs_double (ucast a)) n = bit (ucast (xtime a) :: u16) n"
    by (elim insertE emptyE) (simp_all add: bit_simps rs_double_def xtime_def carry_bit no_high_bit Let_def
        FEC_GF_PRIMITIVE_POLY_def del: push_bit_Suc)
qed

lemma xtime_eq_0: "xtime a = 0 \<Longrightarrow> a = 0"
proof (rule bit_word_eqI)
  fix n assume h: "xtime a = 0" and "n < LENGTH(8)"
  have b: "bit (xtime a) m = False" for m using h by simp
  from \<open>n < LENGTH(8)\<close> have "n \<in> {0, 1, 2, 3, 4, 5, 6, 7}" by (simp add: below_8)
  then show "bit a n = bit 0 n"
    using b [of 0] b [of 1] b [of 2] b [of 3] b [of 4] b [of 5] b [of 6] b [of 7]
    by (elim insertE emptyE) (auto simp: bit_simps xtime_def simp del: push_bit_Suc split: if_splits)
qed

lemma xor_eq_0_iff: "(a::u8) XOR b = 0 \<longleftrightarrow> a = b"
proof
  assume "a XOR b = 0"
  then have "(a XOR b) XOR b = 0 XOR b" by simp
  then show "a = b" by (simp add: xor.assoc)
qed simp

lemma xtime_inj: "xtime a = xtime b \<Longrightarrow> a = b"
  by (metis xor_eq_0_iff xtime_eq_0 xtime_xor)

lemma xtime_pow_inj: "(xtime ^^ n) a = (xtime ^^ n) b \<Longrightarrow> a = b"
  by (induction n) (auto dest: xtime_inj)

lemma xtime_pow_xor: "(xtime ^^ n) (a XOR b) = (xtime ^^ n) a XOR (xtime ^^ n) b"
  by (induction n) (simp_all add: xtime_xor)

lemma xtime_0 [simp]: "xtime 0 = 0"
  by (simp add: xtime_def)

lemma xtime_pow_0 [simp]: "(xtime ^^ n) 0 = 0"
  by (induction n) simp_all

lemma gpow_0 [simp]: "gpow 0 = 1"
  by (simp add: gpow_def)

lemma gpow_Suc: "gpow (Suc n) = xtime (gpow n)"
  by (simp add: gpow_def)

lemma gpow_add: "gpow (m + n) = (xtime ^^ m) (gpow n)"
  by (simp add: gpow_def funpow_add)

text \<open>The orbit of the generator, evaluated once: it returns to 1 after 255 steps and not before.\<close>

fun orbit :: "nat \<Rightarrow> u8 \<Rightarrow> u8 list" where
  "orbit 0 x = []"
| "orbit (Suc n) x = x # orbit n (xtime x)"

lemma orbit_nth: "i < n \<Longrightarrow> orbit n x ! i = (xtime ^^ i) x"
proof (induction n arbitrary: i x)
  case (Suc n)
  then show ?case by (cases i) (simp_all add: funpow_swap1)
qed simp

lemma length_orbit [simp]: "length (orbit n x) = n"
  by (induction n arbitrary: x) simp_all

lemma orbit_check: "orbit 256 1 ! 255 = 1 \<and> 1 \<notin> set (orbit 254 (xtime 1))"
  unfolding xtime_def by code_simp

lemma gpow_255: "gpow 255 = 1"
  using orbit_check orbit_nth [of 255 256 1] by (simp add: gpow_def)

lemma gpow_neq_1: "0 < n \<Longrightarrow> n < 255 \<Longrightarrow> gpow n \<noteq> 1"
proof
  assume n: "0 < n" "n < 255" and "gpow n = 1"
  then have "orbit 254 (xtime 1) ! (n - 1) = 1"
    by (cases n) (simp_all add: orbit_nth gpow_def funpow_swap1)
  moreover have "n - 1 < length (orbit 254 (xtime 1))" using n by simp
  ultimately have "1 \<in> set (orbit 254 (xtime 1))" by (metis nth_mem)
  with orbit_check show False by blast
qed

lemma gpow_period: "gpow (n + 255) = gpow n"
  by (simp only: gpow_add gpow_255) (simp add: gpow_def)

lemma gpow_inj: "i < 255 \<Longrightarrow> j < 255 \<Longrightarrow> gpow i = gpow j \<Longrightarrow> i = j"
proof (induction i j rule: linorder_wlog)
  case (le i j)
  then have "(xtime ^^ i) (gpow (j - i)) = (xtime ^^ i) 1"
    using gpow_add [of i "j - i"] by (simp add: gpow_def)
  then have "gpow (j - i) = 1" by (rule xtime_pow_inj)
  with le show ?case using gpow_neq_1 [of "j - i"] by fastforce
qed auto

lemma gpow_nonzero [simp]: "gpow n \<noteq> 0"
  by (induction n) (auto simp: gpow_Suc dest: xtime_eq_0)

lemma gpow_surj:
  assumes "a \<noteq> 0"
  obtains i where "i < 255" and "gpow i = a"
proof -
  have "gpow ` {..<255} = UNIV - {0}"
  proof (rule card_subset_eq)
    show "card (gpow ` {..<255}) = card (UNIV - {0::u8})"
      by (subst card_image) (auto intro!: inj_onI gpow_inj simp: card_Diff_singleton card_word)
  qed auto
  with assms have "a \<in> gpow ` {..<255}" by simp
  with that show thesis by auto
qed

section \<open>What \<open>fec_rs_init\<close> builds\<close>

lemma rs_init_loop:
  assumes "n \<le> 255" and "length (exp_lut c) = 512" and "length (log_lut c) = 256"
  shows "\<exists>c'. fold rs_init_step [0..<n] (1, c) = (ucast (gpow n), c') \<and>
     length (exp_lut c') = 512 \<and> length (log_lut c') = 256 \<and>
     (\<forall>i<n. exp_lut c' ! i = gpow i \<and> log_lut c' ! unat (gpow i) = of_nat i)"
  using assms(1)
proof (induction n)
  case 0
  then show ?case using assms by simp
next
  case (Suc n)
  then obtain c' where c': "fold rs_init_step [0..<n] (1, c) = (ucast (gpow n), c')"
    "length (exp_lut c') = 512" "length (log_lut c') = 256"
    "\<forall>i<n. exp_lut c' ! i = gpow i \<and> log_lut c' ! unat (gpow i) = of_nat i"
    by auto
  note x = unat_ucast_u8_u16 [of "gpow n"] ucast_u16_u8 [of "gpow n"] and b = unat_u8_less [of "gpow n"]
  have d: "unat (gpow n) \<noteq> unat (gpow i)" if "i < n" for i
    using gpow_inj [of n i] that Suc.prems by (auto simp: word_unat_eq_iff)
  let ?c = "c'\<lparr>exp_lut := (exp_lut c')[n := gpow n], log_lut := (log_lut c')[unat (gpow n) := of_nat n]\<rparr>"
  have "fold rs_init_step [0..<Suc n] (1, c) = (ucast (gpow (Suc n)), ?c)"
    using c'(1) x by (simp add: rs_init_step_def rs_double_ucast gpow_Suc)
  moreover have "\<forall>i<Suc n. exp_lut ?c ! i = gpow i \<and> log_lut ?c ! unat (gpow i) = of_nat i"
    using c' b d Suc.prems by (auto simp: less_Suc_eq nth_list_update)
  ultimately show ?case using c'(2,3) by (intro exI [of _ ?c]) simp
qed

lemma rs_dup_loop:
  assumes "\<forall>i<255. exp_lut c ! i = gpow i" and "length (exp_lut c) = 512" and "255 \<le> n" and "n \<le> 512"
  shows "length (exp_lut (fold rs_dup_step [255..<n] c)) = 512 \<and>
     log_lut (fold rs_dup_step [255..<n] c) = log_lut c \<and>
     (\<forall>i<n. exp_lut (fold rs_dup_step [255..<n] c) ! i = gpow i)"
  using assms(3,4)
proof (induction n rule: dec_induct)
  case base
  then show ?case using assms by simp
next
  case (step n)
  have "gpow n = gpow (n - 255)" using gpow_period [of "n - 255"] step by simp
  with step show ?case
    by (auto simp: rs_dup_step_def nth_list_update less_Suc_eq)
qed

lemma shared_ctx_tables:
  "length (exp_lut fec_shared_ctx) = 512 \<and> length (log_lut fec_shared_ctx) = 256 \<and>
   (\<forall>i<512. exp_lut fec_shared_ctx ! i = gpow i) \<and>
   (\<forall>i<255. log_lut fec_shared_ctx ! unat (gpow i) = of_nat i)"
proof -
  let ?c = "\<lparr>exp_lut = replicate 512 0, log_lut = replicate 256 0\<rparr> :: fec_rs_ctx"
  obtain c' where c': "fold rs_init_step [0..<255] (1, ?c) = (ucast (gpow 255), c')"
    "length (exp_lut c') = 512" "length (log_lut c') = 256"
    "\<forall>i<255. exp_lut c' ! i = gpow i \<and> log_lut c' ! unat (gpow i) = of_nat i"
    using rs_init_loop [of 255 ?c] by auto
  then show ?thesis
    using rs_dup_loop [of c' 512] unfolding fec_shared_ctx_def by simp
qed

definition glog :: "u8 \<Rightarrow> nat" where
  "glog a = unat (log_lut fec_shared_ctx ! unat a)"

lemma glog_gpow: "i < 255 \<Longrightarrow> glog (gpow i) = i"
  using shared_ctx_tables by (simp add: glog_def unat_of_nat)

lemma glog_bound: "a \<noteq> 0 \<Longrightarrow> glog a < 255"
  and gpow_glog: "a \<noteq> 0 \<Longrightarrow> gpow (glog a) = a"
  by (metis gpow_surj glog_gpow)+

lemma exp_nth: "i < 512 \<Longrightarrow> exp_lut fec_shared_ctx ! i = gpow i"
  using shared_ctx_tables by blast

lemma mul_gpow: "a \<noteq> 0 \<Longrightarrow> b \<noteq> 0 \<Longrightarrow> gf256_mul fec_shared_ctx a b = gpow (glog a + glog b)"
  using glog_bound [of a] glog_bound [of b] by (simp add: gf256_mul_def exp_nth flip: glog_def)

lemma inv_gpow: "a \<noteq> 0 \<Longrightarrow> gf256_inv fec_shared_ctx a = gpow (255 - glog a)"
  using glog_bound [of a] by (simp add: gf256_inv_def exp_nth flip: glog_def)

lemma mul_0 [simp]: "gf256_mul ctx 0 b = 0" "gf256_mul ctx a 0 = 0"
  by (simp_all add: gf256_mul_def)

lemma mul_nonzero: "a \<noteq> 0 \<Longrightarrow> b \<noteq> 0 \<Longrightarrow> gf256_mul fec_shared_ctx a b \<noteq> 0"
  by (simp add: mul_gpow)

text \<open>Multiplying by \<open>a\<close> is iterating the doubling, hence linear.\<close>

lemma mul_xtime: "a \<noteq> 0 \<Longrightarrow> gf256_mul fec_shared_ctx a b = (xtime ^^ glog a) b"
  by (cases "b = 0") (simp_all add: mul_gpow gpow_add gpow_glog)

lemma mul_commute: "gf256_mul fec_shared_ctx a b = gf256_mul fec_shared_ctx b a"
  by (cases "a = 0 \<or> b = 0") (auto simp: mul_gpow add.commute)

lemma mul_distrib:
  "gf256_mul fec_shared_ctx a (b XOR c) = gf256_mul fec_shared_ctx a b XOR gf256_mul fec_shared_ctx a c"
  by (cases "a = 0") (simp_all add: mul_xtime xtime_pow_xor)

lemma gpow_log_mul:
  assumes "a \<noteq> 0" and "b \<noteq> 0"
  shows "gf256_mul fec_shared_ctx (gf256_mul fec_shared_ctx a b) c = (xtime ^^ (glog a + glog b)) c"
proof (cases "c = 0")
  case False
  let ?m = "gf256_mul fec_shared_ctx a b"
  have m: "?m \<noteq> 0" using assms by (rule mul_nonzero)
  have "gf256_mul fec_shared_ctx ?m c = (xtime ^^ glog c) ?m"
    using False by (simp add: mul_xtime mul_commute [of ?m])
  also have "\<dots> = gpow (glog c + (glog a + glog b))"
    by (simp add: mul_gpow assms gpow_add)
  also have "\<dots> = (xtime ^^ (glog a + glog b)) c"
    using False by (simp add: gpow_add [of "glog a + glog b" "glog c", simplified add.commute] gpow_glog
        add.commute)
  finally show ?thesis .
qed simp

lemma mul_assoc:
  "gf256_mul fec_shared_ctx (gf256_mul fec_shared_ctx a b) c =
   gf256_mul fec_shared_ctx a (gf256_mul fec_shared_ctx b c)"
proof (cases "a = 0 \<or> b = 0")
  case False
  then have "gf256_mul fec_shared_ctx (gf256_mul fec_shared_ctx a b) c = (xtime ^^ glog a) ((xtime ^^ glog b) c)"
    by (simp add: gpow_log_mul funpow_add)
  with False show ?thesis by (simp add: mul_xtime)
qed auto

lemma mul_1: "gf256_mul fec_shared_ctx 1 a = a"
  using glog_gpow [of 0] by (simp add: mul_xtime)

lemma mul_inv: "a \<noteq> 0 \<Longrightarrow> gf256_mul fec_shared_ctx (gf256_inv fec_shared_ctx a) a = 1"
proof -
  assume a: "a \<noteq> 0"
  have "gf256_mul fec_shared_ctx (gf256_inv fec_shared_ctx a) a = (xtime ^^ glog a) (gpow (255 - glog a))"
    using a by (subst mul_commute) (simp add: mul_xtime inv_gpow)
  also have "\<dots> = gpow 255" using glog_bound [OF a] by (simp flip: gpow_add)
  finally show ?thesis by (simp add: gpow_255)
qed

lemma div_inv: "gf256_div fec_shared_ctx a b = gf256_mul fec_shared_ctx a (gf256_inv fec_shared_ctx b)"
proof (cases "a = 0 \<or> b = 0")
  case True
  then show ?thesis by (auto simp: gf256_div_def gf256_inv_def)
next
  case False
  then have bd: "glog a < 255" "glog b < 255" by (simp_all add: glog_bound)
  have "gf256_div fec_shared_ctx a b = gpow (if glog a < glog b then glog a + 255 - glog b else glog a - glog b)"
    using False bd by (simp add: gf256_div_def Let_def exp_nth nat_diff_distrib' flip: glog_def)
       (auto simp: nat_diff_distrib' nat_add_distrib intro!: arg_cong [where f = gpow])
  also have "\<dots> = gpow (glog a + (255 - glog b))"
    using bd gpow_period [of "glog a - glog b"] by auto
  also have "\<dots> = (xtime ^^ glog a) (gpow (255 - glog b))" by (rule gpow_add)
  finally show ?thesis using False by (simp add: mul_xtime inv_gpow)
qed

section \<open>The field\<close>

typedef gf = "UNIV :: u8 set"
  morphisms u8_of gf_of ..

setup_lifting type_definition_gf

instantiation gf :: field
begin

lift_definition zero_gf :: gf is 0 .
lift_definition one_gf :: gf is 1 .
lift_definition plus_gf :: "gf \<Rightarrow> gf \<Rightarrow> gf" is gf256_add .
lift_definition minus_gf :: "gf \<Rightarrow> gf \<Rightarrow> gf" is gf256_add .
lift_definition uminus_gf :: "gf \<Rightarrow> gf" is "\<lambda>a. a" .
lift_definition times_gf :: "gf \<Rightarrow> gf \<Rightarrow> gf" is "gf256_mul fec_shared_ctx" .
lift_definition divide_gf :: "gf \<Rightarrow> gf \<Rightarrow> gf" is "gf256_div fec_shared_ctx" .
lift_definition inverse_gf :: "gf \<Rightarrow> gf" is "gf256_inv fec_shared_ctx" .

instance
proof
  fix a b c :: gf
  show "a + b + c = a + (b + c)" by transfer (simp add: gf256_add_def xor.assoc)
  show "a + b = b + a" by transfer (simp add: gf256_add_def xor.commute)
  show "0 + a = a" by transfer (simp add: gf256_add_def)
  show "- a + a = 0" by transfer (simp add: gf256_add_def)
  show "a - b = a + - b" by transfer simp
  show "a * b * c = a * (b * c)" by transfer (rule mul_assoc)
  show "a * b = b * a" by transfer (rule mul_commute)
  show "1 * a = a" by transfer (rule mul_1)
  show "(a + b) * c = a * c + b * c"
    by transfer (metis gf256_add_def mul_commute mul_distrib)
  show "(0::gf) \<noteq> 1" by transfer simp
  show "a \<noteq> 0 \<Longrightarrow> inverse a * a = 1" by transfer (rule mul_inv)
  show "a div b = a * inverse b" by transfer (rule div_inv)
  show "inverse (0::gf) = 0" by transfer (simp add: gf256_inv_def)
qed

end

lemma gf_of_inject_iff [simp]: "gf_of a = gf_of b \<longleftrightarrow> a = b"
  by (simp add: gf_of_inject)

lemma u8_of_inverse [simp]: "gf_of (u8_of a) = a" and gf_of_inverse' [simp]: "u8_of (gf_of b) = b"
  by (simp_all add: u8_of_inverse gf_of_inverse)

text \<open>The byte operations, seen through \<open>gf_of\<close>.\<close>

named_theorems gf_simps \<open>byte operations as field operations\<close>

lemma gf_of_add [gf_simps]: "gf_of (gf256_add a b) = gf_of a + gf_of b"
  by (simp add: plus_gf.abs_eq eq_onp_def)

lemma gf_of_xor [gf_simps]: "gf_of (a XOR b) = gf_of a + gf_of b"
  using gf_of_add [of a b] by (simp add: gf256_add_def)

lemma gf_of_mul [gf_simps]: "gf_of (gf256_mul fec_shared_ctx a b) = gf_of a * gf_of b"
  by (simp add: times_gf.abs_eq eq_onp_def)

lemma gf_of_inv [gf_simps]: "gf_of (gf256_inv fec_shared_ctx a) = inverse (gf_of a)"
  by (simp add: inverse_gf.abs_eq eq_onp_def)

lemma gf_of_div [gf_simps]: "gf_of (gf256_div fec_shared_ctx a b) = gf_of a / gf_of b"
  by (simp add: divide_gf.abs_eq eq_onp_def)

lemma gf_of_0 [gf_simps]: "gf_of 0 = 0" and gf_of_1 [gf_simps]: "gf_of 1 = 1"
  by (simp_all add: zero_gf_def one_gf_def)

lemma gf_of_eq_0: "gf_of a = 0 \<longleftrightarrow> a = 0"
  by (simp flip: gf_of_0)

interpretation gf: char2_field "TYPE(gf)"
proof
  fix x :: gf
  show "x + x = 0" by transfer (simp add: gf256_add_def)
qed

end
