(* ===== verification/Fec_Poly.thy ===== *)
theory Fec_Poly
  imports Main Prelude Poly GF256
begin

text \<open>
  The polynomial engine of \<open>src/fec.c\<close>: \<open>fec_poly_encode_redundant\<close>,
  \<open>fec_poly_recover_missing_coefficient\<close> and \<open>fec_poly_interpolate_coefficients\<close>.

  A pointer argument is an option (\<open>None\<close> is \<open>NULL\<close>), an array of packet pointers a list of
  options, a packet its list of bytes.  Every early \<open>return -1\<close> is a branch that gives
  \<open>Fail (-1)\<close>; where the C would read or write past the end of an array the result is \<open>UB\<close>.
  The loops are folds over the index ranges of the source, in its order, and update the
  working arrays in place.  \<open>mem\<close> says whether the \<open>calloc\<close>s of the call succeed.
\<close>

section \<open>The functions\<close>

definition readable :: "bytes list \<Rightarrow> nat \<Rightarrow> bool" where
  "readable ps n \<longleftrightarrow> list_all (\<lambda>p. n \<le> length p) ps"

text \<open>The inner loop of the encoder at one byte offset: Horner's method, downwards.\<close>

definition horner :: "fec_rs_ctx \<Rightarrow> bytes list \<Rightarrow> nat \<Rightarrow> u8 \<Rightarrow> nat \<Rightarrow> u8" where
  "horner ctx ps k x off =
     fold (\<lambda>i y. gf256_add (gf256_mul ctx y x) (ps ! i ! off)) (rev [0..<k - 1]) (ps ! (k - 1) ! off)"

definition fec_poly_encode_redundant ::
  "fec_rs_ctx option \<Rightarrow> bytes option list option \<Rightarrow> int \<Rightarrow> nat \<Rightarrow> u8 \<Rightarrow> bytes option \<Rightarrow> bytes cres" where
  "fec_poly_encode_redundant ctx src_packets source_count packet_len redundant_x redundant_packet_out =
     (case (ctx, src_packets, redundant_packet_out) of
        (Some ctx, Some srcs, Some out) \<Rightarrow>
          if source_count \<le> 0 \<or> source_count > 255 then Fail (-1)
          else let k = nat source_count in
          if length srcs < k then UB
          else if list_ex Option.is_none (take k srcs) then Fail (-1)
          else let ps = map the (take k srcs) in
          if \<not> readable ps packet_len \<or> length out < packet_len then UB
          else Ok (fold (\<lambda>off out. out[off := horner ctx ps k redundant_x off]) [0..<packet_len] out)
      | _ \<Rightarrow> Fail (-1))"

text \<open>\<open>missing_weight\<close>, then the per-byte sum of the known terms and the recovered byte.\<close>

definition pow_loop :: "fec_rs_ctx \<Rightarrow> u8 \<Rightarrow> nat \<Rightarrow> u8" where
  "pow_loop ctx x n = fold (\<lambda>_ w. gf256_mul ctx w x) [0..<n] 1"

definition known_sum :: "fec_rs_ctx \<Rightarrow> (nat \<Rightarrow> u8) \<Rightarrow> nat \<Rightarrow> nat \<Rightarrow> u8 \<Rightarrow> u8" where
  "known_sum ctx a k missing_index x =
     fst (fold (\<lambda>i (s, x_pow).
            (if i \<noteq> missing_index then gf256_add s (gf256_mul ctx (a i) x_pow) else s,
             gf256_mul ctx x_pow x))
          [0..<k] (0, 1))"

definition fec_poly_recover_missing_coefficient ::
  "fec_rs_ctx option \<Rightarrow> bytes option list option \<Rightarrow> int \<Rightarrow> nat \<Rightarrow> int \<Rightarrow> u8 \<Rightarrow>
   bytes option \<Rightarrow> bytes option \<Rightarrow> bytes cres" where
  "fec_poly_recover_missing_coefficient ctx src_packets source_count packet_len missing_index
       redundant_x redundant_packet recovered_packet_out =
     (case (ctx, src_packets, redundant_packet, recovered_packet_out) of
        (Some ctx, Some srcs, Some red, Some out) \<Rightarrow>
          if source_count \<le> 0 \<or> source_count > 255 then Fail (-1)
          else if missing_index < 0 \<or> missing_index \<ge> source_count then Fail (-1)
          else let k = nat source_count; m = nat missing_index in
          if length srcs < k then UB
          else if list_ex (\<lambda>i. i \<noteq> m \<and> srcs ! i = None) [0..<k] then Fail (-1)
          else let missing_weight = pow_loop ctx redundant_x m in
          if missing_weight = 0 then Fail (-1)
          else let inv_weight = gf256_inv ctx missing_weight in
          if list_ex (\<lambda>i. i \<noteq> m \<and> length (the (srcs ! i)) < packet_len) [0..<k]
             \<or> length red < packet_len \<or> length out < packet_len then UB
          else Ok (fold (\<lambda>off out. out[off :=
                     gf256_mul ctx
                       (gf256_add (red ! off)
                          (known_sum ctx (\<lambda>i. the (srcs ! i) ! off) k m redundant_x))
                       inv_weight]) [0..<packet_len] out)
      | _ \<Rightarrow> Fail (-1))"

text \<open>The master polynomial \<open>omega\<close>, multiplied in place by one linear factor per point.\<close>

definition omega_step :: "fec_rs_ctx \<Rightarrow> bytes \<Rightarrow> nat \<Rightarrow> bytes \<Rightarrow> bytes" where
  "omega_step ctx xs j omega =
     (let xj = xs ! j;
          omega = fold (\<lambda>k om. om[k := gf256_add (om ! (k - 1)) (gf256_mul ctx (om ! k) xj)])
                    (rev [1..<j + 2]) omega
      in omega[0 := gf256_mul ctx (omega ! 0) xj])"

definition build_omega :: "fec_rs_ctx \<Rightarrow> bytes \<Rightarrow> nat \<Rightarrow> bytes" where
  "build_omega ctx xs n = fold (omega_step ctx xs) [0..<n] ((replicate (n + 1) 0)[0 := 1])"

text \<open>Synthetic division of \<open>omega\<close> by \<open>x + xi\<close> into the array \<open>qi\<close>.\<close>

definition synth_div :: "fec_rs_ctx \<Rightarrow> bytes \<Rightarrow> u8 \<Rightarrow> nat \<Rightarrow> bytes \<Rightarrow> bytes" where
  "synth_div ctx omega xi n qi =
     fold (\<lambda>k qi. qi[k := gf256_add (omega ! (k + 1)) (gf256_mul ctx (qi ! Suc k) xi)])
       (rev [0..<n - 1]) (qi[n - 1 := omega ! n])"

definition bary_weight :: "fec_rs_ctx \<Rightarrow> bytes \<Rightarrow> nat \<Rightarrow> nat \<Rightarrow> u8" where
  "bary_weight ctx xs n i =
     fold (\<lambda>j si. if j \<noteq> i then gf256_mul ctx si (gf256_add (xs ! i) (xs ! j)) else si) [0..<n] 1"

text \<open>One round of the loop over the points: column \<open>i\<close> of the matrix \<open>T\<close>, or \<open>return -1\<close>.\<close>

definition lagrange_column ::
  "fec_rs_ctx \<Rightarrow> bytes \<Rightarrow> nat \<Rightarrow> bytes \<Rightarrow> nat \<Rightarrow> (bytes \<times> bytes) cres \<Rightarrow> (bytes \<times> bytes) cres" where
  "lagrange_column ctx xs n omega i st =
     (case st of
        Ok (qi, T) \<Rightarrow>
          let qi = synth_div ctx omega (xs ! i) n qi;
              si = bary_weight ctx xs n i
          in if si = 0 then Fail (-1)
             else let inv_si = gf256_inv ctx si
                  in Ok (qi, fold (\<lambda>p T. T[p * n + i := gf256_mul ctx (qi ! p) inv_si]) [0..<n] T)
      | r \<Rightarrow> r)"

text \<open>Applying \<open>T\<close>: a 256-entry product table per matrix element, xored into packet \<open>p\<close>.\<close>

definition mul_table :: "fec_rs_ctx \<Rightarrow> u8 \<Rightarrow> bytes" where
  "mul_table ctx t =
     fold (\<lambda>v tab. tab[v := gf256_mul ctx t (of_nat v)]) [1..<256] (replicate 256 0)"

definition xor_lane :: "bytes \<Rightarrow> bytes \<Rightarrow> nat \<Rightarrow> bytes \<Rightarrow> bytes" where
  "xor_lane mul_t y packet_len c =
     fold (\<lambda>off c. c[off := c ! off XOR mul_t ! unat (y ! off)]) [0..<packet_len] c"

definition apply_column ::
  "fec_rs_ctx \<Rightarrow> bytes \<Rightarrow> bytes list \<Rightarrow> nat \<Rightarrow> nat \<Rightarrow> nat \<Rightarrow> bytes list \<Rightarrow> bytes list" where
  "apply_column ctx T ys n packet_len i cs =
     fold (\<lambda>p cs. let t = T ! (p * n + i) in
              cs[p := if t = 0 then cs ! p else xor_lane (mul_table ctx t) (ys ! i) packet_len (cs ! p)])
       [0..<n] cs"

definition fec_poly_interpolate_coefficients ::
  "fec_rs_ctx option \<Rightarrow> bytes option \<Rightarrow> bytes option list option \<Rightarrow> int \<Rightarrow> nat \<Rightarrow>
   bytes option list option \<Rightarrow> bool \<Rightarrow> bytes list cres" where
  "fec_poly_interpolate_coefficients ctx points_x points_y point_count packet_len coeff_packets_out mem =
     (case (ctx, points_x, points_y, coeff_packets_out) of
        (Some ctx, Some xs, Some ys, Some cs) \<Rightarrow>
          if point_count \<le> 0 \<or> point_count > 255 then Fail (-1)
          else let n = nat point_count in
          if length xs < n \<or> length ys < n \<or> length cs < n then UB
          else let xs = take n xs; ys = take n ys; cs = take n cs in
          if list_ex (\<lambda>i. ys ! i = None \<or> cs ! i = None \<or>
                       list_ex (\<lambda>j. xs ! i = xs ! j) [i + 1..<n]) [0..<n] then Fail (-1)
          else if \<not> mem then Fail (-1)
          else let ys = map the ys; cs = map the cs; omega = build_omega ctx xs n in
          (case fold (lagrange_column ctx xs n omega) [0..<n] (Ok (replicate n 0, replicate (n * n) 0)) of
             Ok (qi, T) \<Rightarrow>
               if \<not> readable ys packet_len \<or> \<not> readable cs packet_len then UB
               else let cs = map (\<lambda>c. replicate packet_len 0 @ drop packet_len c) cs
                    in Ok (fold (apply_column ctx T ys n packet_len) [0..<n] cs)
           | Fail rc \<Rightarrow> Fail rc
           | UB \<Rightarrow> UB)
      | _ \<Rightarrow> Fail (-1))"

section \<open>Encoding evaluates the polynomial\<close>

definition lane :: "bytes list \<Rightarrow> nat \<Rightarrow> gf list" where
  "lane ps off = map (\<lambda>p. gf_of (p ! off)) ps"

lemma length_lane [simp]: "length (lane ps off) = length ps"
  by (simp add: lane_def)

lemma horner_fold:
  "gf_of (fold (\<lambda>i y. gf256_add (gf256_mul fec_shared_ctx y x) (ps ! i ! off)) (rev [0..<m]) y0) =
     peval (map (\<lambda>i. gf_of (ps ! i ! off)) [0..<m]) (gf_of x) + gf_of y0 * gf_of x ^ m"
proof (induction m arbitrary: y0)
  case (Suc m)
  then show ?case
    by (simp add: gf_simps peval_append_one algebra_simps)
qed simp

lemma horner_peval:
  assumes "0 < length ps"
  shows "gf_of (horner fec_shared_ctx ps (length ps) x off) = peval (lane ps off) (gf_of x)"
proof -
  obtain m where m: "length ps = Suc m" using assms by (cases "length ps") auto
  have "lane ps off = map (\<lambda>i. gf_of (ps ! i ! off)) [0..<Suc m]"
    by (rule list_eq_nthI) (simp_all add: lane_def m del: upt_Suc)
  then show ?thesis
    by (simp add: horner_def m horner_fold peval_append_one)
qed

lemma encode_redundant_Ok:
  assumes "srcs = map Some ps" and "k = int (length ps)" and "0 < length ps" and "length ps \<le> 255"
    and "readable ps n" and "length out = n"
  shows "\<exists>red. fec_poly_encode_redundant (Some fec_shared_ctx) (Some srcs) k n x (Some out) = Ok red \<and>
           length red = n \<and> (\<forall>off<n. gf_of (red ! off) = peval (lane ps off) (gf_of x))"
proof -
  let ?red = "fold (\<lambda>off out. out[off := horner fec_shared_ctx ps (length ps) x off]) [0..<n] out"
  have "fec_poly_encode_redundant (Some fec_shared_ctx) (Some srcs) k n x (Some out) = Ok ?red"
    using assms by (auto simp: fec_poly_encode_redundant_def list_ex_iff comp_def)
  moreover have "?red ! off = horner fec_shared_ctx ps (length ps) x off" if "off < n" for off
    using fold_update_upt [of n out off "\<lambda>off _. horner fec_shared_ctx ps (length ps) x off"] that assms(6)
    by simp
  ultimately show ?thesis using assms(3,6) by (auto simp: horner_peval)
qed

section \<open>Interpolation\<close>

lemma omega_step_nth:
  assumes "j < n" and "length om = n + 1" and "k \<le> n" and "\<forall>k>j. k \<le> n \<longrightarrow> gf_of (om ! k) = 0"
  shows "gf_of (omega_step fec_shared_ctx xs j om ! k) = lmul (gf_of (xs ! j)) (\<lambda>k. if k \<le> n then gf_of (om ! k) else 0) k"
proof -
  let ?om = "fold (\<lambda>k om. om[k := gf256_add (om ! (k - 1)) (gf256_mul fec_shared_ctx (om ! k) (xs ! j))])
               (rev [1..<j + 2]) om"
  have om: "?om ! k = (if 1 \<le> k \<and> k < j + 2 then gf256_add (om ! (k - 1)) (gf256_mul fec_shared_ctx (om ! k) (xs ! j)) else om ! k)"
    if "k \<le> n" for k
    by (rule fold_update_down) (use assms that in auto)
  show ?thesis
    using assms om [of k] om [of 0]
    by (cases k) (auto simp: omega_step_def Let_def lmul_def gf_simps mult.commute nth_list_update)
qed

lemma length_omega_step [simp]: "length (omega_step ctx xs j om) = length om"
  by (simp add: omega_step_def Let_def)

lemma build_omega_prefix:
  assumes "j \<le> n" and "n \<le> length xs"
  shows "length (fold (omega_step fec_shared_ctx xs) [0..<j] ((replicate (n + 1) 0)[0 := 1])) = n + 1 \<and>
    (\<forall>k\<le>n. gf_of (fold (omega_step fec_shared_ctx xs) [0..<j] ((replicate (n + 1) 0)[0 := 1]) ! k) =
       master (map gf_of (take j xs)) k)"
  using assms(1)
proof (induction j)
  case 0
  then show ?case by (auto simp: master_Nil gf_simps nth_list_update)
next
  case (Suc j)
  let ?om = "fold (omega_step fec_shared_ctx xs) [0..<j] ((replicate (n + 1) 0)[0 := 1])"
  have len: "length ?om = n + 1" and om: "\<forall>k\<le>n. gf_of (?om ! k) = master (map gf_of (take j xs)) k"
    using Suc by auto
  have z: "\<forall>k>j. k \<le> n \<longrightarrow> gf_of (?om ! k) = 0"
    using om Suc.prems assms(2) by (auto intro: master_beyond)
  have tk: "map gf_of (take (Suc j) xs) = map gf_of (take j xs) @ [gf_of (xs ! j)]"
    using Suc.prems assms(2) by (simp add: take_Suc_conv_app_nth)
  have "gf_of (omega_step fec_shared_ctx xs j ?om ! k) = master (map gf_of (take (Suc j) xs)) k" if "k \<le> n" for k
    using omega_step_nth [OF _ len that z] Suc.prems om that
    by (simp add: tk master_snoc lmul_def split: nat.split)
  then show ?case using len by simp
qed
lemma build_omega_nth:
  assumes "length xs = n" and "k \<le> n"
  shows "gf_of (build_omega fec_shared_ctx xs n ! k) = master (map gf_of xs) k"
  using build_omega_prefix [of n n xs] assms by (simp add: build_omega_def)

lemma map_others: "map f (others xs i) = others (map f xs) i"
  by (simp add: others_def take_map drop_map)

lemma synth_div_nth:
  assumes "i < n" and "length xs = n" and "length qi = n" and "p < n"
  shows "gf_of (synth_div fec_shared_ctx (build_omega fec_shared_ctx xs n) (xs ! i) n qi ! p) =
           master (others (map gf_of xs) i) p"
proof -
  let ?om = "build_omega fec_shared_ctx xs n" and ?gxs = "map gf_of xs"
  let ?c = "master (others ?gxs i)"
  let ?f = "\<lambda>k z. gf256_add (?om ! (k + 1)) (gf256_mul fec_shared_ctx z (xs ! i))"
  let ?b = "qi[n - 1 := ?om ! n]"
  let ?r = "synth_div fec_shared_ctx ?om (xs ! i) n qi"
  have r: "(\<forall>k<n - 1. ?r ! k = ?f k (?r ! Suc k)) \<and> (\<forall>k. n - 1 \<le> k \<longrightarrow> ?r ! k = ?b ! k)"
    by (rule fold_update_recur [where b = ?b]) (use assms in \<open>simp_all add: synth_div_def\<close>)
  have m: "master ?gxs = lmul (gf_of (xs ! i)) ?c"
    using master_others [of i ?gxs] assms by simp
  have "gf_of (?r ! p) = ?c p"
  proof (rule gf.synthetic_division [where q = "\<lambda>k. gf_of (?r ! k)" and n = "n - 1" and a = "gf_of (xs ! i)"])
    show "gf_of (?r ! (n - 1)) = lmul (gf_of (xs ! i)) ?c (Suc (n - 1))"
      using r assms build_omega_nth [of xs n n] by (simp flip: m)
    show "\<And>k. n - 1 < k \<Longrightarrow> ?c k = 0"
      using assms by (intro master_beyond) simp
    show "gf_of (?r ! k) = lmul (gf_of (xs ! i)) ?c (Suc k) + gf_of (?r ! Suc k) * gf_of (xs ! i)"
      if "k < n - 1" for k
      using r that assms build_omega_nth [of xs n "Suc k"] by (simp add: gf_simps flip: m)
  qed (use assms in simp)
  then show ?thesis .
qed

lemma length_synth_div [simp]: "length (synth_div ctx om x n qi) = length qi"
  by (simp add: synth_div_def)

lemma fold_mult_skip:
  fixes g :: "'b \<Rightarrow> gf"
  assumes "\<And>j s. j \<noteq> i \<Longrightarrow> gf_of (h j s) = gf_of s * g (xs ! j)" and "i < length xs"
  shows "gf_of (fold (\<lambda>j s. if j \<noteq> i then h j s else s) [0..<length xs] s) =
           gf_of s * prod_list (map g (others xs i))"
proof -
  have run: "gf_of (fold (\<lambda>j s. if j \<noteq> i then h j s else s) js s) = gf_of s * prod_list (map (\<lambda>j. g (xs ! j)) js)"
    if "i \<notin> set js" for js s
    using that by (induction js arbitrary: s) (auto simp: assms(1) mult.assoc)
  have "[0..<length xs] = [0..<i] @ i # [Suc i..<length xs]"
    using assms(2) by (metis less_imp_le_nat upt_add_eq_append upt_conv_Cons zero_le le_add_diff_inverse)
  moreover have "map g (others xs i) = map (\<lambda>j. g (xs ! j)) ([0..<i] @ [Suc i..<length xs])"
    using assms(2) by (auto simp: others_def take_map drop_map map_nth intro!: nth_equalityI)
  ultimately show ?thesis
    by (simp add: run mult.assoc)
qed

lemma bary_weight_gf:
  assumes "i < n" and "length xs = n"
  shows "gf_of (bary_weight fec_shared_ctx xs n i) =
           prod_list (map ((+) (gf_of (xs ! i))) (others (map gf_of xs) i))"
  using fold_mult_skip [of i "\<lambda>j si. gf256_mul fec_shared_ctx si (gf256_add (xs ! i) (xs ! j))"
      "\<lambda>x. gf_of (xs ! i) + gf_of x" xs 1] assms
  by (simp add: bary_weight_def gf_simps flip: map_others) (simp add: comp_def)

lemma bary_weight_nonzero:
  assumes "i < n" and "length xs = n" and "distinct xs"
  shows "bary_weight fec_shared_ctx xs n i \<noteq> 0"
proof -
  have "distinct (map gf_of xs)" using assms by (simp add: distinct_map inj_on_def)
  then have "gf_of (bary_weight fec_shared_ctx xs n i) \<noteq> 0"
    using gf.weight_nonzero [of i "map gf_of xs"] assms by (simp add: bary_weight_gf)
  then show ?thesis by (simp add: gf_of_eq_0)
qed

text \<open>Entry \<open>(p, i)\<close> of the Lagrange matrix: coefficient \<open>p\<close> of the \<open>i\<close>-th basis polynomial.\<close>

definition lcoef :: "bytes \<Rightarrow> nat \<Rightarrow> nat \<Rightarrow> gf" where
  "lcoef xs p i = master (others (map gf_of xs) i) p *
     inverse (prod_list (map ((+) (gf_of (xs ! i))) (others (map gf_of xs) i)))"

lemma flat_index_eq:
  fixes p q n i j :: nat
  assumes "i < n" and "j < n"
  shows "p * n + i = q * n + j \<longleftrightarrow> p = q \<and> i = j"
proof
  assume h: "p * n + i = q * n + j"
  have "(p * n + i) div n = p" "(q * n + j) div n = q" using assms by simp_all
  with h have "p = q" by metis
  with h show "p = q \<and> i = j" by simp
qed simp

lemma flat_index_bound: "p < n \<Longrightarrow> i < n \<Longrightarrow> p * n + i < n * (n::nat)"
proof -
  assume "p < n" and "i < n"
  then have "p * n + i < Suc p * n" by simp
  also have "\<dots> \<le> n * n" using \<open>p < n\<close> by (intro mult_le_mono1) simp
  finally show ?thesis .
qed

lemma fold_update_column:
  assumes "length T = n * n" and "m \<le> n" and "p < n" and "i < n" and "j < n"
  shows "fold (\<lambda>p T. T[p * n + i := v p]) [0..<m] T ! (p * n + j) =
           (if p < m \<and> j = i then v p else T ! (p * n + j))"
  using assms(2)
proof (induction m)
  case (Suc m)
  then show ?case
    using assms flat_index_bound [of m n i] by (auto simp: nth_list_update flat_index_eq)
qed simp

lemma lagrange_columns:
  assumes "length xs = n" and "distinct xs" and "m \<le> n"
  shows "\<exists>qi T. fold (lagrange_column fec_shared_ctx xs n (build_omega fec_shared_ctx xs n)) [0..<m]
              (Ok (replicate n 0, replicate (n * n) 0)) = Ok (qi, T) \<and>
            length qi = n \<and> length T = n * n \<and>
            (\<forall>p<n. \<forall>i<m. gf_of (T ! (p * n + i)) = lcoef xs p i)"
  using assms(3)
proof (induction m)
  case (Suc m)
  then obtain qi T where IH: "fold (lagrange_column fec_shared_ctx xs n (build_omega fec_shared_ctx xs n)) [0..<m]
              (Ok (replicate n 0, replicate (n * n) 0)) = Ok (qi, T)"
    "length qi = n" "length T = n * n" "\<forall>p<n. \<forall>i<m. gf_of (T ! (p * n + i)) = lcoef xs p i"
    by auto
  let ?q = "synth_div fec_shared_ctx (build_omega fec_shared_ctx xs n) (xs ! m) n qi"
  let ?s = "bary_weight fec_shared_ctx xs n m"
  let ?T = "fold (\<lambda>p T. T[p * n + m := gf256_mul fec_shared_ctx (?q ! p) (gf256_inv fec_shared_ctx ?s)]) [0..<n] T"
  have "fold (lagrange_column fec_shared_ctx xs n (build_omega fec_shared_ctx xs n)) [0..<Suc m]
              (Ok (replicate n 0, replicate (n * n) 0)) = Ok (?q, ?T)"
    using IH(1) bary_weight_nonzero [of m n xs] assms Suc.prems
    by (simp add: lagrange_column_def Let_def)
  moreover have "gf_of (?T ! (p * n + i)) = lcoef xs p i" if "p < n" and "i < Suc m" for p i
  proof (cases "i = m")
    case True
    with that Suc.prems IH(2,3) assms show ?thesis
      by (simp add: fold_update_column gf_simps synth_div_nth bary_weight_gf lcoef_def)
  next
    case False
    with that Suc.prems IH(3,4) show ?thesis by (simp add: fold_update_column)
  qed
  ultimately show ?case using IH(2,3) by (intro exI [of _ ?q] exI [of _ ?T]) simp
qed simp

lemma mul_table_nth: "mul_table fec_shared_ctx t ! unat v = gf256_mul fec_shared_ctx t v"
proof -
  have "fold (\<lambda>v tab. tab[v := gf256_mul fec_shared_ctx t (of_nat v)]) [1..<m] (replicate 256 0) ! j =
          (if 1 \<le> j \<and> j < m then gf256_mul fec_shared_ctx t (of_nat j) else 0)"
    if "m \<le> 256" and "j < 256" for m j
    using that(1) by (induction m) (use that(2) in \<open>auto simp: nth_list_update not_less_eq_eq\<close>)
  from this [of 256 "unat v"] show ?thesis
    by (cases "unat v = 0") (auto simp: mul_table_def unat_eq_zero Suc_le_eq)
qed

lemma xor_lane_nth:
  assumes "packet_len \<le> length c" and "off < packet_len"
  shows "gf_of (xor_lane (mul_table fec_shared_ctx t) y packet_len c ! off) =
           gf_of (c ! off) + gf_of t * gf_of (y ! off)"
  using fold_update_upt [of packet_len c off "\<lambda>off z. z XOR mul_table fec_shared_ctx t ! unat (y ! off)"] assms
  by (simp add: xor_lane_def gf_simps mul_table_nth)

lemma length_xor_lane [simp]: "length (xor_lane mt y n c) = length c"
  by (simp add: xor_lane_def)

lemma apply_column_nth:
  assumes "length cs = n" and "p < n"
  shows "apply_column ctx T ys n len i cs ! p =
     (if T ! (p * n + i) = 0 then cs ! p else xor_lane (mul_table ctx (T ! (p * n + i))) (ys ! i) len (cs ! p))"
  using fold_update_upt [of n cs p "\<lambda>p c. if T ! (p * n + i) = 0 then c
      else xor_lane (mul_table ctx (T ! (p * n + i))) (ys ! i) len c"] assms
  by (simp add: apply_column_def Let_def)

lemma length_apply_column [simp]: "length (apply_column ctx T ys n len i cs) = length cs"
  by (simp add: apply_column_def Let_def)

lemma apply_columns:
  assumes "length cs = n" and "\<forall>c\<in>set cs. length c = len" and "m \<le> n"
    and "\<forall>p<n. \<forall>off<len. cs ! p ! off = 0"
    and "\<forall>p<n. \<forall>i<n. gf_of (T ! (p * n + i)) = lcoef xs p i"
  shows "let cs' = fold (apply_column fec_shared_ctx T ys n len) [0..<m] cs in
           length cs' = n \<and> (\<forall>p<n. length (cs' ! p) = len \<and>
             (\<forall>off<len. gf_of (cs' ! p ! off) = (\<Sum>i<m. lcoef xs p i * gf_of (ys ! i ! off))))"
  using assms(3)
proof (induction m)
  case 0
  then show ?case using assms by (simp add: gf_simps)
next
  case (Suc m)
  let ?cs = "fold (apply_column fec_shared_ctx T ys n len) [0..<m] cs"
  have IH: "length ?cs = n" "\<forall>p<n. length (?cs ! p) = len \<and>
      (\<forall>off<len. gf_of (?cs ! p ! off) = (\<Sum>i<m. lcoef xs p i * gf_of (ys ! i ! off)))"
    using Suc by (simp_all add: Let_def)
  have "gf_of (apply_column fec_shared_ctx T ys n len m ?cs ! p ! off) =
          (\<Sum>i<Suc m. lcoef xs p i * gf_of (ys ! i ! off))" if "p < n" and "off < len" for p off
  proof -
    have t: "gf_of (T ! (p * n + m)) = lcoef xs p m" using assms(5) that Suc.prems by simp
    then have "lcoef xs p m = 0" if "T ! (p * n + m) = 0" using that by (simp add: gf_simps)
    then show ?thesis
      using IH that t xor_lane_nth [of len "?cs ! p" off "T ! (p * n + m)" "ys ! m"]
      by (auto simp: apply_column_nth)
  qed
  then show ?case using IH by (simp add: Let_def apply_column_nth)
qed

lemma interpolate_take:
  assumes "0 < n" and "n \<le> length xs" and "n \<le> length ys"
  shows "fec_poly_interpolate_coefficients ctx (Some xs) (Some ys) (int n) len cs mem =
         fec_poly_interpolate_coefficients ctx (Some (take n xs)) (Some (take n ys)) (int n) len cs mem"
  using assms by (simp add: fec_poly_interpolate_coefficients_def Let_def split: option.split)

text \<open>The engine interpolates: the coefficients it writes define, in every byte lane, a
  polynomial that passes through all the given points.\<close>

lemma interpolate_Ok:
  assumes "length xs = n" and "distinct xs" and "0 < n" and "n \<le> 255"
    and "ys = map Some ps" and "length ps = n" and "readable ps len"
    and "cs = map Some outs" and "length outs = n" and "\<forall>c\<in>set outs. length c = len"
  shows "\<exists>co. fec_poly_interpolate_coefficients (Some fec_shared_ctx) (Some xs) (Some ys) (int n) len
                (Some cs) True = Ok co \<and> length co = n \<and> (\<forall>c\<in>set co. length c = len) \<and>
           (\<forall>off<len. \<forall>j<n. peval (lane co off) (gf_of (xs ! j)) = gf_of (ps ! j ! off))"
proof -
  obtain qi T where T: "fold (lagrange_column fec_shared_ctx xs n (build_omega fec_shared_ctx xs n)) [0..<n]
              (Ok (replicate n 0, replicate (n * n) 0)) = Ok (qi, T)"
    "\<forall>p<n. \<forall>i<n. gf_of (T ! (p * n + i)) = lcoef xs p i"
    using lagrange_columns [OF assms(1,2) order_refl] by blast
  let ?z = "map (\<lambda>c. replicate len 0 @ drop len c) outs"
  let ?co = "fold (apply_column fec_shared_ctx T ps n len) [0..<n] ?z"
  have "xs ! i \<noteq> xs ! j" if "i < n" and "j < n" and "i < j" for i j
    using assms(1,2) that by (simp add: nth_eq_iff_index_eq)
  then have "fec_poly_interpolate_coefficients (Some fec_shared_ctx) (Some xs) (Some ys) (int n) len
               (Some cs) True = Ok ?co"
    using assms T(1) by (auto simp: fec_poly_interpolate_coefficients_def list_ex_iff readable_def list_all_iff comp_def)
  moreover have co: "length ?co = n \<and> (\<forall>p<n. length (?co ! p) = len \<and>
      (\<forall>off<len. gf_of (?co ! p ! off) = (\<Sum>i<n. lcoef xs p i * gf_of (ps ! i ! off))))"
    using apply_columns [of ?z n len n T xs ps] T(2) assms(9,10) by (auto simp: Let_def)
  moreover have "peval (lane ?co off) (gf_of (xs ! j)) = gf_of (ps ! j ! off)" if "off < len" and "j < n" for off j
  proof -
    have "peval (lane ?co off) (gf_of (xs ! j)) =
            feval n (\<lambda>p. \<Sum>i<n. lcoef xs p i * gf_of (ps ! i ! off)) (gf_of (xs ! j))"
      using co that(1) by (simp add: peval_feval lane_def cong: feval_cong) (auto intro!: feval_cong simp: co)
    also have "\<dots> = gf_of (ps ! j ! off)"
      using gf.lagrange_interpolates [of "map gf_of xs" j "\<lambda>i. gf_of (ps ! i ! off)"] that assms(1,2)
      by (simp add: lcoef_def distinct_map inj_on_def)
    finally show ?thesis .
  qed
  ultimately show ?thesis by (intro exI [of _ ?co]) (auto simp: in_set_conv_nth)
qed

section \<open>Recovering one missing coefficient\<close>

lemma pow_loop_gf: "gf_of (pow_loop fec_shared_ctx x n) = gf_of x ^ n"
  by (induction n) (simp_all add: pow_loop_def gf_simps mult.commute)

lemma known_sum_gf:
  "gf_of (known_sum fec_shared_ctx a k m x) = (\<Sum>i<k. if i \<noteq> m then gf_of (a i) * gf_of x ^ i else 0)"
proof -
  let ?step = "\<lambda>i (s, w). (if i \<noteq> m then gf256_add s (gf256_mul fec_shared_ctx (a i) w) else s,
      gf256_mul fec_shared_ctx w x)"
  have "gf_of (fst (fold ?step [0..<k] (0, 1))) = (\<Sum>i<k. if i \<noteq> m then gf_of (a i) * gf_of x ^ i else 0)
      \<and> gf_of (snd (fold ?step [0..<k] (0, 1))) = gf_of x ^ k"
    by (induction k) (auto simp: gf_simps case_prod_unfold mult.commute)
  then show ?thesis by (simp add: known_sum_def)
qed

lemma recover_byte:
  assumes "m < k" and "gf_of x ^ m \<noteq> 0" and "gf_of red = (\<Sum>i<k. gf_of (a i) * gf_of x ^ i)"
  shows "gf256_mul fec_shared_ctx (gf256_add red (known_sum fec_shared_ctx a k m x))
           (gf256_inv fec_shared_ctx (pow_loop fec_shared_ctx x m)) = a m"
proof -
  have "(\<Sum>i<k. gf_of (a i) * gf_of x ^ i) =
          (\<Sum>i<k. if i \<noteq> m then gf_of (a i) * gf_of x ^ i else 0) + gf_of (a m) * gf_of x ^ m"
    using assms(1) by (simp add: sum.remove [of "{..<k}" m] add.commute)
  then have "gf_of red + gf_of (known_sum fec_shared_ctx a k m x) = gf_of (a m) * gf_of x ^ m"
    by (simp add: assms(3) known_sum_gf gf.char2 add.assoc add.commute add.left_commute)
  then have "gf_of (gf256_mul fec_shared_ctx (gf256_add red (known_sum fec_shared_ctx a k m x))
           (gf256_inv fec_shared_ctx (pow_loop fec_shared_ctx x m))) = gf_of (a m)"
    using assms(2) by (simp add: gf_simps pow_loop_gf)
  then show ?thesis by simp
qed

lemma pow_loop_zero: "pow_loop fec_shared_ctx x m = 0 \<longleftrightarrow> x = 0 \<and> 0 < m"
proof -
  have "pow_loop fec_shared_ctx x m = 0 \<longleftrightarrow> gf_of x ^ m = 0"
    by (metis pow_loop_gf gf_of_eq_0)
  then show ?thesis by (simp add: gf_of_eq_0)
qed

lemma recover_missing_Ok:
  assumes len: "length ps = k" "0 < k" "k \<le> 255" and m: "m < k" and x: "x \<noteq> 0 \<or> m = 0"
    and rd: "readable ps n" and srcs: "length srcs = k" "\<forall>i<k. i \<noteq> m \<longrightarrow> srcs ! i = Some (ps ! i)"
    and red: "n \<le> length red" "\<forall>off<n. gf_of (red ! off) = peval (lane ps off) (gf_of x)"
    and out: "length out = n"
  shows "fec_poly_recover_missing_coefficient (Some fec_shared_ctx) (Some srcs) (int k) n (int m) x
           (Some red) (Some out) = Ok (take n (ps ! m))"
proof -
  let ?v = "\<lambda>off. gf256_mul fec_shared_ctx
      (gf256_add (red ! off) (known_sum fec_shared_ctx (\<lambda>i. the (srcs ! i) ! off) k m x))
      (gf256_inv fec_shared_ctx (pow_loop fec_shared_ctx x m))"
  have w: "pow_loop fec_shared_ctx x m \<noteq> 0" using x by (simp add: pow_loop_zero)
  have ks: "known_sum fec_shared_ctx (\<lambda>i. the (srcs ! i) ! off) k m x = known_sum fec_shared_ctx (\<lambda>i. ps ! i ! off) k m x" for off
  proof -
    have "gf_of (known_sum fec_shared_ctx (\<lambda>i. the (srcs ! i) ! off) k m x) =
          gf_of (known_sum fec_shared_ctx (\<lambda>i. ps ! i ! off) k m x)"
      unfolding known_sum_gf using srcs(2) by (intro sum.cong) auto
    then show ?thesis by simp
  qed
  have v: "?v off = ps ! m ! off" if "off < n" for off
    unfolding ks
    by (rule recover_byte) (use m x red(2) that len in
        \<open>auto simp: gf_of_eq_0 peval_feval feval_def lane_def\<close>)
  have "fec_poly_recover_missing_coefficient (Some fec_shared_ctx) (Some srcs) (int k) n (int m) x
           (Some red) (Some out) = Ok (fold (\<lambda>off out. out[off := ?v off]) [0..<n] out)"
    using len m w srcs rd red out
    by (auto simp: fec_poly_recover_missing_coefficient_def list_ex_iff readable_def list_all_length Let_def)
  moreover have "fold (\<lambda>off out. out[off := ?v off]) [0..<n] out = take n (ps ! m)"
  proof (rule list_eq_nthI)
    have "n \<le> length (ps ! m)" using rd m len by (simp add: readable_def list_all_length)
    then show "length (fold (\<lambda>off out. out[off := ?v off]) [0..<n] out) = length (take n (ps ! m))"
      using out by simp
  next
    fix i assume "i < length (take n (ps ! m))"
    then show "fold (\<lambda>off out. out[off := ?v off]) [0..<n] out ! i = take n (ps ! m) ! i"
      using fold_update_upt [of n out i "\<lambda>off _. ?v off"] out v [of i] by simp
  qed
  ultimately show ?thesis by simp
qed

section \<open>The engine as the codec uses it\<close>

text \<open>
  \<open>eval_packet cs x n\<close> is what \<open>fec_poly_encode_redundant\<close> writes to the first \<open>n\<close> bytes of
  its output; \<open>poly_interp\<close> is \<open>fec_poly_interpolate_coefficients\<close> on freshly zeroed
  coefficient buffers, the way the codec calls it.
\<close>

definition eval_packet :: "bytes list \<Rightarrow> u8 \<Rightarrow> nat \<Rightarrow> bytes" where
  "eval_packet cs x n = map (horner fec_shared_ctx cs (length cs) x) [0..<n]"

definition poly_interp :: "bytes \<Rightarrow> bytes list \<Rightarrow> nat \<Rightarrow> bytes list cres" where
  "poly_interp xs ys n =
     fec_poly_interpolate_coefficients (Some fec_shared_ctx) (Some xs) (Some (map Some ys)) (int (length ys)) n
       (Some (map Some (replicate (length ys) (replicate n 0)))) True"

lemma encode_redundant_eval:
  assumes "0 < length ps" and "length ps \<le> 255" and "readable ps n" and "n \<le> length out"
  shows "fec_poly_encode_redundant (Some fec_shared_ctx) (Some (map Some ps)) (int (length ps)) n x (Some out)
           = Ok (eval_packet ps x n @ drop n out)"
proof -
  let ?red = "fold (\<lambda>off out. out[off := horner fec_shared_ctx ps (length ps) x off]) [0..<n] out"
  have "?red = eval_packet ps x n @ drop n out"
  proof (rule list_eq_nthI)
    fix i assume "i < length (eval_packet ps x n @ drop n out)"
    then show "?red ! i = (eval_packet ps x n @ drop n out) ! i"
      using fold_update_upt [of n out i "\<lambda>off _. horner fec_shared_ctx ps (length ps) x off"] assms(4)
      by (auto simp: eval_packet_def nth_append)
  qed (use assms in \<open>simp add: eval_packet_def\<close>)
  then show ?thesis
    using assms by (auto simp: fec_poly_encode_redundant_def list_ex_iff comp_def)
qed

lemma eval_packet_eq_iff:
  assumes "0 < length cs" and "length y = n"
  shows "eval_packet cs x n = y \<longleftrightarrow> (\<forall>off<n. peval (lane cs off) (gf_of x) = gf_of (y ! off))"
proof -
  have "eval_packet cs x n = y \<longleftrightarrow> (\<forall>off<n. horner fec_shared_ctx cs (length cs) x off = y ! off)"
    using assms(2) by (auto simp: eval_packet_def list_eq_iff_nth_eq)
  also have "\<dots> \<longleftrightarrow> (\<forall>off<n. gf_of (horner fec_shared_ctx cs (length cs) x off) = gf_of (y ! off))"
    by simp
  finally show ?thesis by (simp only: horner_peval [OF assms(1)])
qed

lemma length_eval_packet [simp]: "length (eval_packet cs x n) = n"
  by (simp add: eval_packet_def)

text \<open>What the block codec relies on: interpolation through distinct points succeeds and
  passes through them, and a polynomial is determined by its values at as many points as it
  has coefficients.\<close>

locale poly_engine =
  fixes interp :: "bytes \<Rightarrow> bytes list \<Rightarrow> nat \<Rightarrow> bytes list cres"
    and ev :: "bytes list \<Rightarrow> u8 \<Rightarrow> nat \<Rightarrow> bytes"
  assumes interp_Ok: "\<lbrakk>length xs = length ys; distinct xs; xs \<noteq> []; length xs \<le> 255;
      \<forall>y\<in>set ys. length y = n\<rbrakk> \<Longrightarrow>
      \<exists>cs. interp xs ys n = Ok cs \<and> length cs = length xs \<and> (\<forall>c\<in>set cs. length c = n) \<and>
           (\<forall>j<length xs. ev cs (xs ! j) n = ys ! j)"
    and ev_unique: "\<lbrakk>distinct xs; xs \<noteq> []; length cs = length xs; length ds = length xs;
      \<forall>x\<in>set xs. ev cs x n = ev ds x n\<rbrakk> \<Longrightarrow> ev cs z n = ev ds z n"
begin

text \<open>Any \<open>k\<close> values of a polynomial with \<open>k\<close> coefficients determine all its values: the
  reason why any \<open>k\<close> of the \<open>k + r\<close> symbols of a block recover it.\<close>

lemma any_k_points:
  assumes "length cs = length xs" and "distinct xs" and "xs \<noteq> []" and "length xs \<le> 255"
    and "\<And>x. length (ev cs x n) = n"
  shows "\<exists>ds. interp xs (map (\<lambda>x. ev cs x n) xs) n = Ok ds \<and> length ds = length xs \<and>
           (\<forall>d\<in>set ds. length d = n) \<and> (\<forall>z. ev ds z n = ev cs z n)"
proof -
  obtain ds where ds: "interp xs (map (\<lambda>x. ev cs x n) xs) n = Ok ds" "length ds = length xs"
    "\<forall>d\<in>set ds. length d = n" "\<forall>j<length xs. ev ds (xs ! j) n = map (\<lambda>x. ev cs x n) xs ! j"
    using interp_Ok [of xs "map (\<lambda>x. ev cs x n) xs" n] assms by auto
  then have "\<forall>x\<in>set xs. ev ds x n = ev cs x n" by (auto simp: in_set_conv_nth)
  then have "ev ds z n = ev cs z n" for z
    by (rule ev_unique [OF assms(2,3) ds(2) assms(1)])
  with ds show ?thesis by blast
qed

end

interpretation rs: poly_engine poly_interp eval_packet
proof
  fix xs :: bytes and ys :: "bytes list" and n
  assume a: "length xs = length ys" "distinct xs" "xs \<noteq> []" "length xs \<le> 255" "\<forall>y\<in>set ys. length y = n"
  have "readable ys n" using a(5) by (auto simp: readable_def list_all_iff)
  then have "\<exists>co. poly_interp xs ys n = Ok co \<and> length co = length ys \<and> (\<forall>c\<in>set co. length c = n) \<and>
      (\<forall>off<n. \<forall>j<length ys. peval (lane co off) (gf_of (xs ! j)) = gf_of (ys ! j ! off))"
    unfolding poly_interp_def using a
    by (intro interpolate_Ok [where ps = ys and outs = "replicate (length ys) (replicate n 0)"]) auto
  then obtain co where co: "poly_interp xs ys n = Ok co" "length co = length xs" "\<forall>c\<in>set co. length c = n"
    "\<forall>off<n. \<forall>j<length xs. peval (lane co off) (gf_of (xs ! j)) = gf_of (ys ! j ! off)"
    unfolding a(1) by blast
  moreover have "eval_packet co (xs ! j) n = ys ! j" if "j < length xs" for j
    using co a that by (subst eval_packet_eq_iff) auto
  ultimately show "\<exists>cs. poly_interp xs ys n = Ok cs \<and> length cs = length xs \<and> (\<forall>c\<in>set cs. length c = n) \<and>
           (\<forall>j<length xs. eval_packet cs (xs ! j) n = ys ! j)"
    by blast
next
  fix xs :: bytes and cs ds :: "bytes list" and n z
  assume a: "distinct xs" "xs \<noteq> []" "length cs = length xs" "length ds = length xs"
    "\<forall>x\<in>set xs. eval_packet cs x n = eval_packet ds x n"
  have ne: "0 < length cs" "0 < length ds" using a by auto
  have v: "gf_of (eval_packet ps x n ! off) = peval (lane ps off) (gf_of x)" if "0 < length ps" "off < n" for ps x off
    using that by (simp add: eval_packet_def horner_peval)
  have "peval (lane cs off) (gf_of z) = peval (lane ds off) (gf_of z)" if "off < n" for off
  proof (rule peval_unique [of "map gf_of xs"])
    show "\<forall>x\<in>set (map gf_of xs). peval (lane cs off) x = peval (lane ds off) x"
    proof
      fix x assume "x \<in> set (map gf_of xs)"
      then obtain b where b: "b \<in> set xs" "x = gf_of b" by auto
      with a(5) have "eval_packet cs b n = eval_packet ds b n" by blast
      then show "peval (lane cs off) x = peval (lane ds off) x"
        using v [OF ne(1) that, of b] v [OF ne(2) that, of b] b(2) by (simp only:)
    qed
  qed (use a in \<open>auto simp: distinct_map inj_on_def\<close>)
  then show "eval_packet cs z n = eval_packet ds z n"
    using ne by (subst eval_packet_eq_iff) (auto simp: v)
qed
end
