(* ===== verification/Fec_Codec.thy ===== *)
theory Fec_Codec
  imports Main Prelude Poly GF256 Fec_Poly
begin

text \<open>
  The block codec of \<open>src/fec_codec.c\<close> and \<open>include/fec_codec.h\<close>: the encoder and decoder
  structs and every function on them.

  The structs hold pointers to symbol buffers they do not own.  The type of pointers is a
  parameter \<open>'p\<close>, and the functions that read the symbols (\<open>fec_encoder_generate\<close>,
  \<open>fec_decoder_recover\<close>) take \<open>load\<close>, the memory at the time of the call: \<open>load p\<close> is the
  buffer behind \<open>p\<close>, \<open>None\<close> once that buffer has been freed.  A dangling pointer reads as an
  empty packet, which the bounds check of the polynomial engine turns into \<open>UB\<close>.
\<close>

section \<open>Data\<close>

definition FEC_BLK_MAX_K :: int where "FEC_BLK_MAX_K = 128"
definition FEC_BLK_MAX_R :: int where "FEC_BLK_MAX_R = 32"

record 'p fec_encoder =
  enc_ctx :: "fec_rs_ctx option"
  enc_k :: int
  enc_r :: int
  enc_sym_len :: nat
  enc_src_x :: bytes
  enc_red_x :: bytes
  enc_filled :: int
  enc_src :: "'p option list"

record 'p fec_decoder =
  dec_ctx :: "fec_rs_ctx option"
  dec_k :: int
  dec_r :: int
  dec_sym_len :: nat
  dec_src_x :: bytes
  dec_red_x :: bytes
  dec_src_present :: "bool list"
  dec_red_present :: "bool list"
  dec_src_count :: int
  dec_red_count :: int
  dec_src :: "'p option list"
  dec_red :: "'p option list"

definition deref :: "('p \<Rightarrow> bytes option) \<Rightarrow> 'p option \<Rightarrow> bytes option" where
  "deref load q = map_option (\<lambda>p. case load p of Some b \<Rightarrow> b | None \<Rightarrow> []) q"

section \<open>Encoder\<close>

text \<open>The evaluation points: \<open>1, \<dots>, k\<close> for the sources, then the caller's or \<open>k+1, \<dots>, k+r\<close>.\<close>

definition source_points :: "nat \<Rightarrow> bytes" where
  "source_points k = map (\<lambda>i. of_nat (i + 1)) [0..<k]"

definition red_points :: "bytes option \<Rightarrow> nat \<Rightarrow> nat \<Rightarrow> bytes" where
  "red_points red_x k r =
     map (\<lambda>i. case red_x of Some xs \<Rightarrow> xs ! i | None \<Rightarrow> of_nat (k + i + 1)) [0..<r]"

definition red_x_short :: "bytes option \<Rightarrow> nat \<Rightarrow> bool" where
  "red_x_short red_x r = (case red_x of Some xs \<Rightarrow> length xs < r | None \<Rightarrow> False)"

text \<open>The two validation loops over \<open>seen[256]\<close>; the second also rejects the point 0.\<close>

fun check_seen :: "bool \<Rightarrow> bytes \<Rightarrow> bool list \<Rightarrow> bool list option" where
  "check_seen nonzero [] seen = Some seen"
| "check_seen nonzero (x # xs) seen =
     (if nonzero \<and> x = 0 then None
      else if seen ! unat x then None
      else check_seen nonzero xs (seen[unat x := True]))"

definition fec_encoder_init ::
  "'p fec_encoder option \<Rightarrow> fec_rs_ctx option \<Rightarrow> int \<Rightarrow> int \<Rightarrow> nat \<Rightarrow> bytes option \<Rightarrow> 'p fec_encoder cres" where
  "fec_encoder_init enc ctx k r sym_len red_x =
     (if Option.is_none enc \<or> Option.is_none ctx then Fail (-1)
      else if k \<le> 0 \<or> k > FEC_BLK_MAX_K then Fail (-1)
      else if r \<le> 0 \<or> r > FEC_BLK_MAX_R then Fail (-1)
      else if k + r > 255 then Fail (-1)
      else if red_x_short red_x (nat r) then UB
      else let xs = source_points (nat k); rx = red_points red_x (nat k) (nat r) in
      (case check_seen False xs (replicate 256 False) of
         None \<Rightarrow> Fail (-1)
       | Some seen \<Rightarrow>
           (case check_seen True rx seen of
              None \<Rightarrow> Fail (-1)
            | Some _ \<Rightarrow>
                Ok \<lparr>enc_ctx = ctx, enc_k = k, enc_r = r, enc_sym_len = sym_len,
                    enc_src_x = xs @ replicate (nat (FEC_BLK_MAX_K - k)) 0,
                    enc_red_x = rx @ replicate (nat (FEC_BLK_MAX_R - r)) 0,
                    enc_filled = 0, enc_src = replicate (nat FEC_BLK_MAX_K) None\<rparr>)))"

definition fec_encoder_add_source :: "'p fec_encoder option \<Rightarrow> 'p option \<Rightarrow> 'p fec_encoder cres" where
  "fec_encoder_add_source enc data =
     (case (enc, data) of
        (Some e, Some p) \<Rightarrow>
          if enc_filled e \<ge> enc_k e then Fail (-1)
          else Ok (e\<lparr>enc_src := (enc_src e)[nat (enc_filled e) := Some p],
                     enc_filled := enc_filled e + 1\<rparr>)
      | _ \<Rightarrow> Fail (-1))"

definition fec_encoder_generate ::
  "('p \<Rightarrow> bytes option) \<Rightarrow> 'p fec_encoder option \<Rightarrow> bytes option list option \<Rightarrow> bool \<Rightarrow> bytes list cres" where
  "fec_encoder_generate load enc redundant_out mem =
     (case enc of
        None \<Rightarrow> UB
      | Some e \<Rightarrow>
          let k = enc_k e; sym_len = enc_sym_len e; r = nat (enc_r e) in
          (case redundant_out of
             None \<Rightarrow> Fail (-1)
           | Some outs \<Rightarrow>
               if enc_filled e \<noteq> k then Fail (-1)
               else if length outs < r then UB
               else if list_ex Option.is_none (take r outs) then Fail (-1)
               else if \<not> mem then Fail (-1)
               else
                 (case fec_poly_interpolate_coefficients (enc_ctx e) (Some (enc_src_x e))
                         (Some (map (deref load) (enc_src e))) k sym_len
                         (Some (replicate (nat k) (Some (replicate sym_len 0)))) mem of
                    Ok coeffs \<Rightarrow>
                      cmap (\<lambda>j. fec_poly_encode_redundant (enc_ctx e) (Some (map Some coeffs)) k sym_len
                                   (enc_red_x e ! j) (outs ! j)) [0..<r]
                  | Fail _ \<Rightarrow> Fail (-1)
                  | UB \<Rightarrow> UB)))"

definition fec_encoder_reset :: "'p fec_encoder option \<Rightarrow> 'p fec_encoder option" where
  "fec_encoder_reset enc =
     (case enc of
        None \<Rightarrow> None
      | Some e \<Rightarrow> Some (e\<lparr>enc_filled := 0, enc_src := replicate (nat FEC_BLK_MAX_K) None\<rparr>))"

section \<open>Decoder\<close>

definition fec_decoder_init ::
  "'p fec_decoder option \<Rightarrow> fec_rs_ctx option \<Rightarrow> int \<Rightarrow> int \<Rightarrow> nat \<Rightarrow> bytes option \<Rightarrow> 'p fec_decoder cres" where
  "fec_decoder_init dec ctx k r sym_len red_x =
     (if Option.is_none dec \<or> Option.is_none ctx then Fail (-1)
      else if k \<le> 0 \<or> k > FEC_BLK_MAX_K then Fail (-1)
      else if r \<le> 0 \<or> r > FEC_BLK_MAX_R then Fail (-1)
      else if k + r > 255 then Fail (-1)
      else if red_x_short red_x (nat r) then UB
      else Ok \<lparr>dec_ctx = ctx, dec_k = k, dec_r = r, dec_sym_len = sym_len,
               dec_src_x = source_points (nat k) @ replicate (nat (FEC_BLK_MAX_K - k)) 0,
               dec_red_x = red_points red_x (nat k) (nat r) @ replicate (nat (FEC_BLK_MAX_R - r)) 0,
               dec_src_present = replicate (nat FEC_BLK_MAX_K) False,
               dec_red_present = replicate (nat FEC_BLK_MAX_R) False,
               dec_src_count = 0, dec_red_count = 0,
               dec_src = replicate (nat FEC_BLK_MAX_K) None,
               dec_red = replicate (nat FEC_BLK_MAX_R) None\<rparr>)"

definition fec_decoder_add_source :: "'p fec_decoder option \<Rightarrow> int \<Rightarrow> 'p option \<Rightarrow> 'p fec_decoder cres" where
  "fec_decoder_add_source dec index data =
     (case (dec, data) of
        (Some d, Some p) \<Rightarrow>
          if index < 0 \<or> index \<ge> dec_k d then Fail (-1)
          else if dec_src_present d ! nat index then Fail (-1)
          else Ok (d\<lparr>dec_src := (dec_src d)[nat index := Some p],
                     dec_src_present := (dec_src_present d)[nat index := True],
                     dec_src_count := dec_src_count d + 1\<rparr>)
      | _ \<Rightarrow> Fail (-1))"

definition fec_decoder_add_redundant :: "'p fec_decoder option \<Rightarrow> int \<Rightarrow> 'p option \<Rightarrow> 'p fec_decoder cres" where
  "fec_decoder_add_redundant dec index data =
     (case (dec, data) of
        (Some d, Some p) \<Rightarrow>
          if index < 0 \<or> index \<ge> dec_r d then Fail (-1)
          else if dec_red_present d ! nat index then Fail (-1)
          else Ok (d\<lparr>dec_red := (dec_red d)[nat index := Some p],
                     dec_red_present := (dec_red_present d)[nat index := True],
                     dec_red_count := dec_red_count d + 1\<rparr>)
      | _ \<Rightarrow> Fail (-1))"

definition fec_decoder_complete :: "'p fec_decoder option \<Rightarrow> bool" where
  "fec_decoder_complete dec = (case dec of None \<Rightarrow> False | Some d \<Rightarrow> dec_src_count d = dec_k d)"

definition fec_decoder_recoverable :: "'p fec_decoder option \<Rightarrow> bool" where
  "fec_decoder_recoverable dec =
     (case dec of
        None \<Rightarrow> False
      | Some d \<Rightarrow> let missing = dec_k d - dec_src_count d in dec_red_count d \<ge> missing)"

text \<open>The two collection loops: surviving sources first, then parity, until \<open>k\<close> points.\<close>

definition collect_points ::
  "bool list \<Rightarrow> bytes \<Rightarrow> 'p option list \<Rightarrow> nat \<Rightarrow> nat \<Rightarrow> (u8 \<times> 'p option) list \<Rightarrow> (u8 \<times> 'p option) list" where
  "collect_points present xs ps bound k pts =
     fold (\<lambda>i pts. if length pts < k \<and> present ! i then pts @ [(xs ! i, ps ! i)] else pts)
       [0..<bound] pts"

definition recover_loop ::
  "fec_rs_ctx option \<Rightarrow> bytes list \<Rightarrow> int \<Rightarrow> nat \<Rightarrow> bool list \<Rightarrow> bytes \<Rightarrow> bytes option list \<Rightarrow> bytes option list cres" where
  "recover_loop ctx coeffs k sym_len present xs outs =
     fold (\<lambda>i st.
        case st of
          Ok outs \<Rightarrow>
            if present ! i then Ok outs
            else (case fec_poly_encode_redundant ctx (Some (map Some coeffs)) k sym_len (xs ! i) (outs ! i) of
                    Ok b \<Rightarrow> Ok (outs[i := Some b])
                  | Fail _ \<Rightarrow> Fail (-1)
                  | UB \<Rightarrow> UB)
        | r \<Rightarrow> r) [0..<nat k] (Ok outs)"

definition fec_decoder_recover ::
  "('p \<Rightarrow> bytes option) \<Rightarrow> 'p fec_decoder option \<Rightarrow> bytes option list option \<Rightarrow> bool \<Rightarrow> bytes option list cres" where
  "fec_decoder_recover load dec recovered_out mem =
     (case dec of
        None \<Rightarrow> UB
      | Some d \<Rightarrow>
          let k = dec_k d; sym_len = dec_sym_len d; missing = k - dec_src_count d in
          (case recovered_out of
             None \<Rightarrow> Fail (-1)
           | Some outs \<Rightarrow>
               if missing = 0 then Ok outs
               else if dec_red_count d < missing then Fail (-1)
               else if list_ex (\<lambda>i. \<not> dec_src_present d ! i \<and> length outs \<le> i) [0..<nat k] then UB
               else if list_ex (\<lambda>i. \<not> dec_src_present d ! i \<and> outs ! i = None) [0..<nat k] then Fail (-1)
               else
                 let pts = collect_points (dec_src_present d) (dec_src_x d) (dec_src d) (nat k) (nat k) [];
                     pts = collect_points (dec_red_present d) (dec_red_x d) (dec_red d) (nat (dec_r d)) (nat k) pts in
                 if length pts < nat k then Fail (-1)
                 else if \<not> mem then Fail (-1)
                 else
                   (case fec_poly_interpolate_coefficients (dec_ctx d) (Some (map fst pts))
                           (Some (map (deref load \<circ> snd) pts)) k sym_len
                           (Some (replicate (nat k) (Some (replicate sym_len 0)))) mem of
                      Ok coeffs \<Rightarrow> recover_loop (dec_ctx d) coeffs k sym_len (dec_src_present d) (dec_src_x d) outs
                    | Fail _ \<Rightarrow> Fail (-1)
                    | UB \<Rightarrow> UB)))"

definition fec_decoder_reset :: "'p fec_decoder option \<Rightarrow> 'p fec_decoder option" where
  "fec_decoder_reset dec =
     (case dec of
        None \<Rightarrow> None
      | Some d \<Rightarrow>
          Some (d\<lparr>dec_src_count := 0, dec_red_count := 0,
                  dec_src_present := replicate (nat FEC_BLK_MAX_K) False,
                  dec_red_present := replicate (nat FEC_BLK_MAX_R) False,
                  dec_src := replicate (nat FEC_BLK_MAX_K) None,
                  dec_red := replicate (nat FEC_BLK_MAX_R) None\<rparr>))"


section \<open>Evaluation points\<close>

lemma length_source_points [simp]: "length (source_points k) = k"
  by (simp add: source_points_def)

lemma length_red_points [simp]: "length (red_points red_x k r) = r"
  by (simp add: red_points_def)

lemma source_points_nth: "i < k \<Longrightarrow> source_points k ! i = of_nat (i + 1)"
  by (simp add: source_points_def)

lemma default_points: "source_points k @ red_points None k r = map (\<lambda>i. of_nat (i + 1)) [0..<k + r]"
  by (rule list_eq_nthI) (auto simp: nth_append source_points_def red_points_def)

lemma distinct_default_points: "k + r < 256 \<Longrightarrow> distinct (source_points k @ red_points None k r)"
  by (auto simp: default_points distinct_conv_nth of_nat_u8_eq simp del: of_nat_Suc of_nat_add)

lemma distinct_source_points: "k < 256 \<Longrightarrow> distinct (source_points k)"
  using distinct_default_points [of k 0] by simp

lemma check_seen_iff:
  assumes "length seen = 256"
  shows "if distinct xs \<and> (\<forall>x\<in>set xs. \<not> seen ! unat x) \<and> (z \<longrightarrow> 0 \<notin> set xs)
         then \<exists>seen'. check_seen z xs seen = Some seen' \<and> length seen' = 256 \<and>
                (\<forall>y. seen' ! unat y \<longleftrightarrow> seen ! unat y \<or> y \<in> set xs)
         else check_seen z xs seen = None"
  using assms
proof (induction xs arbitrary: seen)
  case (Cons x xs)
  have upd: "seen[unat x := True] ! unat y \<longleftrightarrow> seen ! unat y \<or> y = x" for y
    using Cons.prems by (auto simp: nth_list_update word_unat_eq_iff)
  show ?case
  proof (cases "(z \<and> x = 0) \<or> seen ! unat x")
    case False
    then show ?thesis
      using Cons.IH [of "seen[unat x := True]"] Cons.prems by (auto simp: upd split: if_splits)
  qed auto
qed simp

text \<open>The constructor accepts exactly the geometries whose points are distinct and nonzero.\<close>

lemma points_accepted_iff:
  assumes "k < 256"
  shows "(case check_seen False (source_points k) (replicate 256 False) of
            None \<Rightarrow> False | Some seen \<Rightarrow> check_seen True rx seen \<noteq> None) \<longleftrightarrow>
         distinct (source_points k @ rx) \<and> 0 \<notin> set rx"
proof -
  obtain seen where seen: "check_seen False (source_points k) (replicate 256 False) = Some seen"
    "length seen = 256" "\<forall>y. seen ! unat y \<longleftrightarrow> y \<in> set (source_points k)"
    using check_seen_iff [of "replicate 256 False" "source_points k" False] distinct_source_points [OF assms]
    by auto
  then show ?thesis
    using check_seen_iff [of seen rx True] distinct_source_points [OF assms] by (auto split: if_splits)
qed

section \<open>The code\<close>

text \<open>The polynomial of a block of source symbols \<open>S\<close> and its symbol at the point \<open>x\<close>.\<close>

definition block_coeffs :: "bytes list \<Rightarrow> nat \<Rightarrow> bytes list" where
  "block_coeffs S L = cres_val [] (poly_interp (source_points (length S)) S L)"

definition code_symbol :: "bytes list \<Rightarrow> nat \<Rightarrow> u8 \<Rightarrow> bytes" where
  "code_symbol S L x = eval_packet (block_coeffs S L) x L"

definition block_ok :: "bytes list \<Rightarrow> nat \<Rightarrow> bool" where
  "block_ok S L \<longleftrightarrow> S \<noteq> [] \<and> length S \<le> 128 \<and> (\<forall>s\<in>set S. length s = L)"

lemma length_code_symbol [simp]: "length (code_symbol S L x) = L"
  by (simp add: code_symbol_def)

lemma block_coeffs_Ok:
  assumes "block_ok S L"
  shows "poly_interp (source_points (length S)) S L = Ok (block_coeffs S L)"
    and "length (block_coeffs S L) = length S"
    and "\<forall>c\<in>set (block_coeffs S L). length c = L"
    and "\<forall>i<length S. code_symbol S L (of_nat (i + 1)) = S ! i"
proof -
  have ne: "source_points (length S) \<noteq> []" using assms by (auto simp: block_ok_def source_points_def)
  obtain cs where "poly_interp (source_points (length S)) S L = Ok cs"
    "length cs = length S" "\<forall>c\<in>set cs. length c = L"
    "\<forall>j<length S. eval_packet cs (source_points (length S) ! j) L = S ! j"
    using rs.interp_Ok [OF _ _ ne, of S L] assms distinct_source_points [of "length S"]
    by (auto simp: block_ok_def)
  then show "poly_interp (source_points (length S)) S L = Ok (block_coeffs S L)"
    and "length (block_coeffs S L) = length S"
    and "\<forall>c\<in>set (block_coeffs S L). length c = L"
    and "\<forall>i<length S. code_symbol S L (of_nat (i + 1)) = S ! i"
    by (simp_all add: block_coeffs_def code_symbol_def source_points_nth)
qed

lemma map_deref:
  "(\<And>q. q \<in> set qs \<Longrightarrow> \<exists>p. q = Some p \<and> load p = Some (f q)) \<Longrightarrow> map (deref load) qs = map Some (map f qs)"
  by (induction qs) (fastforce simp: deref_def)+

text \<open>The interpolation call of the codec: longer arrays than needed, fresh coefficient buffers.\<close>

lemma interpolate_poly_interp:
  assumes "n = int (length ys)" and "0 < length ys" and "length ys \<le> length xs"
    and "length ys \<le> length qs" and "take (length ys) qs = map Some ys"
  shows "fec_poly_interpolate_coefficients (Some fec_shared_ctx) (Some xs) (Some qs) n L
           (Some (replicate (nat n) (Some (replicate L 0)))) True = poly_interp (take (length ys) xs) ys L"
proof -
  have "fec_poly_interpolate_coefficients (Some fec_shared_ctx) (Some xs) (Some qs) (int (length ys)) L
          (Some (replicate (length ys) (Some (replicate L 0)))) True =
        fec_poly_interpolate_coefficients (Some fec_shared_ctx) (Some (take (length ys) xs))
          (Some (take (length ys) qs)) (int (length ys)) L
          (Some (replicate (length ys) (Some (replicate L 0)))) True"
    by (rule interpolate_take) (use assms in simp_all)
  then show ?thesis using assms(1,5) by (simp add: poly_interp_def)
qed

section \<open>Encoder: well-formedness and parity\<close>

definition enc_wf :: "'p fec_encoder \<Rightarrow> bool" where
  "enc_wf e \<longleftrightarrow>
     enc_ctx e = Some fec_shared_ctx \<and> 0 < enc_k e \<and> enc_k e \<le> FEC_BLK_MAX_K \<and>
     0 < enc_r e \<and> enc_r e \<le> FEC_BLK_MAX_R \<and>
     length (enc_src_x e) = 128 \<and> take (nat (enc_k e)) (enc_src_x e) = source_points (nat (enc_k e)) \<and>
     length (enc_red_x e) = 32 \<and>
     distinct (source_points (nat (enc_k e)) @ take (nat (enc_r e)) (enc_red_x e)) \<and>
     0 \<notin> set (take (nat (enc_r e)) (enc_red_x e)) \<and>
     0 \<le> enc_filled e \<and> enc_filled e \<le> enc_k e \<and>
     length (enc_src e) = 128 \<and> (\<forall>i<128. enc_src e ! i \<noteq> None \<longleftrightarrow> int i < enc_filled e)"

lemma enc_wf_add_source:
  "enc_wf e \<Longrightarrow> fec_encoder_add_source (Some e) (Some p) = Ok e' \<Longrightarrow> enc_wf e'"
  by (auto simp: enc_wf_def fec_encoder_add_source_def nth_list_update FEC_BLK_MAX_K_def split: if_splits)

lemma enc_wf_reset: "enc_wf e \<Longrightarrow> enc_wf (the (fec_encoder_reset (Some e)))"
  by (auto simp: enc_wf_def fec_encoder_reset_def FEC_BLK_MAX_K_def)

lemma enc_wf_init:
  assumes "fec_encoder_init enc (Some fec_shared_ctx) k r L red_x = Ok e"
  shows "enc_wf e" and "enc_k e = k" and "enc_r e = r" and "enc_sym_len e = L" and "enc_filled e = 0"
    and "take (nat r) (enc_red_x e) = red_points red_x (nat k) (nat r)"
proof -
  have b: "0 < k" "k \<le> 128" "0 < r" "r \<le> 32"
    using assms by (auto simp: fec_encoder_init_def FEC_BLK_MAX_K_def FEC_BLK_MAX_R_def split: if_splits)
  let ?rx = "red_points red_x (nat k) (nat r)"
  have e: "e = \<lparr>enc_ctx = Some fec_shared_ctx, enc_k = k, enc_r = r, enc_sym_len = L,
                    enc_src_x = source_points (nat k) @ replicate (nat (FEC_BLK_MAX_K - k)) 0,
                    enc_red_x = ?rx @ replicate (nat (FEC_BLK_MAX_R - r)) 0,
                    enc_filled = 0, enc_src = replicate (nat FEC_BLK_MAX_K) None\<rparr>"
    and ok: "case check_seen False (source_points (nat k)) (replicate 256 False) of
            None \<Rightarrow> False | Some seen \<Rightarrow> check_seen True ?rx seen \<noteq> None"
    using assms by (auto simp: fec_encoder_init_def Let_def split: if_splits option.splits)
  have "nat k < 256" using b by simp
  from ok [unfolded points_accepted_iff [OF this]] show "enc_wf e"
    using b by (auto simp: e enc_wf_def FEC_BLK_MAX_K_def FEC_BLK_MAX_R_def)
  show "enc_k e = k" "enc_r e = r" "enc_sym_len e = L" "enc_filled e = 0"
    "take (nat r) (enc_red_x e) = red_points red_x (nat k) (nat r)"
    by (simp_all add: e)
qed

lemma encoder_init_iff:
  "is_ok (fec_encoder_init (Some enc) (Some ctx) k r L red_x) \<longleftrightarrow>
     0 < k \<and> k \<le> 128 \<and> 0 < r \<and> r \<le> 32 \<and> \<not> red_x_short red_x (nat r) \<and>
     distinct (source_points (nat k) @ red_points red_x (nat k) (nat r)) \<and>
     0 \<notin> set (red_points red_x (nat k) (nat r))"
proof (cases "0 < k \<and> k \<le> 128 \<and> 0 < r \<and> r \<le> 32 \<and> \<not> red_x_short red_x (nat r)")
  case True
  then have "nat k < 256" by linarith
  have "is_ok (fec_encoder_init (Some enc) (Some ctx) k r L red_x) \<longleftrightarrow>
      (case check_seen False (source_points (nat k)) (replicate 256 False) of
            None \<Rightarrow> False | Some seen \<Rightarrow> check_seen True (red_points red_x (nat k) (nat r)) seen \<noteq> None)"
    using True
    by (auto simp: fec_encoder_init_def Let_def FEC_BLK_MAX_K_def FEC_BLK_MAX_R_def split: option.splits)
  then show ?thesis using True unfolding points_accepted_iff [OF \<open>nat k < 256\<close>] by simp
next
  case False
  then show ?thesis
    by (auto simp: fec_encoder_init_def FEC_BLK_MAX_K_def FEC_BLK_MAX_R_def)
qed

text \<open>The parity symbols are the values of the block polynomial at the redundant points.\<close>

lemma generate_parity:
  assumes "enc_wf e" and "enc_filled e = enc_k e" and "block_ok S (enc_sym_len e)"
    and "enc_k e = int (length S)"
    and "\<forall>i<length S. \<exists>p. enc_src e ! i = Some p \<and> load p = Some (S ! i)"
    and "length outs = nat (enc_r e)" and "\<forall>out\<in>set outs. length out = enc_sym_len e"
  shows "fec_encoder_generate load (Some e) (Some (map Some outs)) True =
           Ok (map (code_symbol S (enc_sym_len e)) (take (nat (enc_r e)) (enc_red_x e)))"
proof -
  let ?L = "enc_sym_len e" and ?r = "nat (enc_r e)"
  let ?cs = "block_coeffs S ?L"
  note cs = block_coeffs_Ok [OF assms(3)]
  have S: "0 < length S" "length S \<le> 128" using assms(3) by (auto simp: block_ok_def)
  have src: "take (length S) (map (deref load) (enc_src e)) = map Some S"
  proof (rule nth_equalityI)
    fix i assume "i < length (take (length S) (map (deref load) (enc_src e)))"
    then have "i < length S" "i < length (enc_src e)" by simp_all
    moreover from assms(5) this(1) obtain p where "enc_src e ! i = Some p" "load p = Some (S ! i)" by blast
    ultimately show "take (length S) (map (deref load) (enc_src e)) ! i = map Some S ! i"
      by (simp add: deref_def)
  qed (use assms(1) S in \<open>simp add: enc_wf_def\<close>)
  have "fec_poly_interpolate_coefficients (Some fec_shared_ctx) (Some (enc_src_x e))
          (Some (map (deref load) (enc_src e))) (enc_k e) ?L
          (Some (replicate (nat (enc_k e)) (Some (replicate ?L 0)))) True = Ok ?cs"
    using interpolate_poly_interp [of "enc_k e" S "enc_src_x e" "map (deref load) (enc_src e)" ?L]
      assms(1,4) S src cs(1) by (simp add: enc_wf_def)
  moreover have "fec_poly_encode_redundant (Some fec_shared_ctx) (Some (map Some ?cs)) (enc_k e) ?L
          (enc_red_x e ! j) (map Some outs ! j) = Ok (code_symbol S ?L (enc_red_x e ! j))" if "j < ?r" for j
    using encode_redundant_eval [of ?cs ?L "outs ! j" "enc_red_x e ! j"] that S cs(2,3) assms(4,6,7)
    by (simp add: code_symbol_def readable_def list_all_iff)
  then have "cmap (\<lambda>j. fec_poly_encode_redundant (Some fec_shared_ctx) (Some (map Some ?cs)) (enc_k e) ?L
          (enc_red_x e ! j) (map Some outs ! j)) [0..<?r] = Ok (map (\<lambda>j. code_symbol S ?L (enc_red_x e ! j)) [0..<?r])"
    by (intro cmap_Ok) simp
  moreover have "map (\<lambda>j. code_symbol S ?L (enc_red_x e ! j)) [0..<?r] =
      map (code_symbol S ?L) (take ?r (enc_red_x e))"
    using assms(1) by (intro nth_equalityI) (auto simp: enc_wf_def FEC_BLK_MAX_R_def)
  moreover have "\<not> list_ex Option.is_none (take ?r (map Some outs))"
    by (auto simp: list_ex_iff take_map)
  ultimately show ?thesis
    using assms(1,2,6) by (simp add: fec_encoder_generate_def enc_wf_def Let_def)
qed

section \<open>Decoder: well-formedness\<close>

definition dec_wf :: "'p fec_decoder \<Rightarrow> bool" where
  "dec_wf d \<longleftrightarrow>
     dec_ctx d = Some fec_shared_ctx \<and> 0 < dec_k d \<and> dec_k d \<le> FEC_BLK_MAX_K \<and>
     0 < dec_r d \<and> dec_r d \<le> FEC_BLK_MAX_R \<and>
     length (dec_src_x d) = 128 \<and> take (nat (dec_k d)) (dec_src_x d) = source_points (nat (dec_k d)) \<and>
     length (dec_red_x d) = 32 \<and> length (dec_src_present d) = 128 \<and> length (dec_red_present d) = 32 \<and>
     length (dec_src d) = 128 \<and> length (dec_red d) = 32 \<and>
     dec_src_count d = int (length (filter ((!) (dec_src_present d)) [0..<nat (dec_k d)])) \<and>
     dec_red_count d = int (length (filter ((!) (dec_red_present d)) [0..<nat (dec_r d)]))"

lemma count_present_update:
  assumes "i < n" and "n \<le> length bs" and "\<not> bs ! i"
  shows "length (filter ((!) (bs[i := True])) [0..<n]) = Suc (length (filter ((!) bs) [0..<n]))"
proof -
  have "{j. j < n \<and> bs[i := True] ! j} = insert i {j. j < n \<and> bs ! j}"
    using assms by (auto simp: nth_list_update)
  then show ?thesis
    using assms by (simp add: length_filter_conv_card card_insert_if) (simp add: conj_commute cong: conj_cong)
qed

lemma dec_wf_add_source:
  "dec_wf d \<Longrightarrow> fec_decoder_add_source (Some d) i (Some p) = Ok d' \<Longrightarrow> dec_wf d'"
  by (auto simp: dec_wf_def fec_decoder_add_source_def FEC_BLK_MAX_K_def count_present_update split: if_splits)

lemma dec_wf_add_redundant:
  "dec_wf d \<Longrightarrow> fec_decoder_add_redundant (Some d) i (Some p) = Ok d' \<Longrightarrow> dec_wf d'"
  by (auto simp: dec_wf_def fec_decoder_add_redundant_def FEC_BLK_MAX_R_def count_present_update split: if_splits)

lemma dec_wf_reset: "dec_wf d \<Longrightarrow> dec_wf (the (fec_decoder_reset (Some d)))"
  by (auto simp: dec_wf_def fec_decoder_reset_def FEC_BLK_MAX_K_def FEC_BLK_MAX_R_def filter_empty_conv)

lemma dec_wf_init:
  assumes "fec_decoder_init dec (Some fec_shared_ctx) k r L red_x = Ok d"
  shows "dec_wf d" and "dec_k d = k" and "dec_r d = r" and "dec_sym_len d = L"
    and "take (nat r) (dec_red_x d) = red_points red_x (nat k) (nat r)"
    and "dec_src_present d = replicate 128 False" and "dec_red_present d = replicate 32 False"
    and "dec_src_count d = 0" and "dec_red_count d = 0"
  using assms
  by (auto simp: fec_decoder_init_def dec_wf_def FEC_BLK_MAX_K_def FEC_BLK_MAX_R_def filter_empty_conv
      split: if_splits)

section \<open>Recovery from any \<open>k\<close> symbols\<close>

lemma collect_points_eq:
  assumes "length pts \<le> k"
  shows "collect_points present xs ps bound k pts =
           take k (pts @ map (\<lambda>i. (xs ! i, ps ! i)) (filter ((!) present) [0..<bound]))"
proof (induction bound)
  case 0
  then show ?case using assms by (simp add: collect_points_def)
next
  case (Suc bound)
  then show ?case by (auto simp: collect_points_def min_def)
qed

text \<open>What a decoder holds: the pointer behind every present slot leads to the symbol of the
  block \<open>S\<close> at that slot's point.\<close>

definition dec_holds :: "('p \<Rightarrow> bytes option) \<Rightarrow> bytes list \<Rightarrow> 'p fec_decoder \<Rightarrow> bool" where
  "dec_holds load S d \<longleftrightarrow>
     (\<forall>i<nat (dec_k d). dec_src_present d ! i \<longrightarrow>
        (\<exists>p. dec_src d ! i = Some p \<and> load p = Some (S ! i))) \<and>
     (\<forall>j<nat (dec_r d). dec_red_present d ! j \<longrightarrow>
        (\<exists>p. dec_red d ! j = Some p \<and> load p = Some (code_symbol S (dec_sym_len d) (dec_red_x d ! j))))"

lemma src_x_nth: "dec_wf d \<Longrightarrow> i < nat (dec_k d) \<Longrightarrow> dec_src_x d ! i = of_nat (i + 1)"
  by (metis dec_wf_def nth_take source_points_nth)

definition dec_points :: "'p fec_decoder \<Rightarrow> (u8 \<times> 'p option) list" where
  "dec_points d = take (nat (dec_k d))
     (map (\<lambda>i. (dec_src_x d ! i, dec_src d ! i)) (filter ((!) (dec_src_present d)) [0..<nat (dec_k d)]) @
      map (\<lambda>j. (dec_red_x d ! j, dec_red d ! j)) (filter ((!) (dec_red_present d)) [0..<nat (dec_r d)]))"

lemma collect_dec_points:
  "collect_points (dec_red_present d) (dec_red_x d) (dec_red d) (nat (dec_r d)) (nat (dec_k d))
     (collect_points (dec_src_present d) (dec_src_x d) (dec_src d) (nat (dec_k d)) (nat (dec_k d)) []) =
   dec_points d"
proof -
  have "length (filter ((!) (dec_src_present d)) [0..<nat (dec_k d)]) \<le> nat (dec_k d)"
    using length_filter_le [of "(!) (dec_src_present d)" "[0..<nat (dec_k d)]"] by simp
  then show ?thesis by (simp add: collect_points_eq dec_points_def)
qed

lemma dec_points_distinct:
  assumes "dec_wf d" and "distinct (source_points (nat (dec_k d)) @ take (nat (dec_r d)) (dec_red_x d))"
  shows "distinct (map fst (dec_points d))"
proof -
  let ?k = "nat (dec_k d)" and ?r = "nat (dec_r d)"
  have k: "?k < 256" and r: "?r \<le> length (dec_red_x d)"
    using assms(1) by (auto simp: dec_wf_def FEC_BLK_MAX_K_def FEC_BLK_MAX_R_def)
  have sx: "map ((!) (dec_src_x d)) (filter P [0..<?k]) = map (\<lambda>i. of_nat (i + 1)) (filter P [0..<?k])" for P
    using src_x_nth [OF assms(1)] by auto
  have d1: "distinct (map ((!) (dec_src_x d)) (filter P [0..<?k]))" for P
    unfolding sx using k by (auto simp: distinct_map inj_on_def of_nat_u8_eq simp del: of_nat_Suc of_nat_add)
  have d2: "distinct (map ((!) (dec_red_x d)) (filter P [0..<?r]))" for P
  proof -
    have "inj_on ((!) (dec_red_x d)) {0..<?r}"
      using assms(2) r by (auto simp: inj_on_def distinct_conv_nth [of "take ?r _"])
    then show ?thesis by (auto simp: distinct_map intro: inj_on_subset)
  qed
  have "dec_src_x d ! i \<noteq> dec_red_x d ! j" if "i < ?k" and "j < ?r" for i j
  proof -
    have "dec_src_x d ! i \<in> set (source_points ?k)"
      using that(1) src_x_nth [OF assms(1) that(1)] by (simp add: source_points_def)
    moreover have "dec_red_x d ! j \<in> set (take ?r (dec_red_x d))"
      using that(2) r by (metis in_set_conv_nth length_take min.absorb2 nth_take)
    ultimately show ?thesis using assms(2) by auto
  qed
  with d1 d2 have "distinct (map ((!) (dec_src_x d)) (filter ((!) (dec_src_present d)) [0..<?k]) @
      map ((!) (dec_red_x d)) (filter ((!) (dec_red_present d)) [0..<?r]))"
    by auto
  then show ?thesis
    unfolding dec_points_def take_map [symmetric] by (intro distinct_take) (simp add: comp_def)
qed

lemma dec_points_value:
  assumes "dec_wf d" and "dec_holds load S d" and "block_ok S (dec_sym_len d)" and "dec_k d = int (length S)"
    and "(x, q) \<in> set (dec_points d)"
  shows "deref load q = Some (code_symbol S (dec_sym_len d) x)"
proof -
  note S = block_coeffs_Ok(4) [OF assms(3)]
  from assms(5) consider i where "i < nat (dec_k d)" "dec_src_present d ! i" "x = dec_src_x d ! i" "q = dec_src d ! i"
    | j where "j < nat (dec_r d)" "dec_red_present d ! j" "x = dec_red_x d ! j" "q = dec_red d ! j"
    by (auto simp: dec_points_def dest!: in_set_takeD)
  then show ?thesis
  proof cases
    case 1
    with assms(2) obtain p where "dec_src d ! i = Some p" "load p = Some (S ! i)"
      by (auto simp: dec_holds_def)
    with 1 S assms(4) show ?thesis by (simp add: deref_def src_x_nth [OF assms(1)])
  next
    case 2
    with assms(2) obtain p where "dec_red d ! j = Some p"
      "load p = Some (code_symbol S (dec_sym_len d) (dec_red_x d ! j))"
      by (auto simp: dec_holds_def)
    with 2 show ?thesis by (simp add: deref_def)
  qed
qed

lemma recover_loop_Ok:
  assumes "length cs = nat k" and "0 < k" and "k \<le> 255" and "readable cs L"
    and "nat k \<le> length outs"
    and "\<forall>i<nat k. \<not> present ! i \<longrightarrow> (\<exists>b. outs ! i = Some b \<and> length b = L)"
  shows "\<exists>outs'. recover_loop (Some fec_shared_ctx) cs k L present xs outs = Ok outs' \<and>
           length outs' = length outs \<and>
           (\<forall>i<length outs. outs' ! i = (if i < nat k \<and> \<not> present ! i then Some (eval_packet cs (xs ! i) L) else outs ! i))"
proof -
  let ?step = "\<lambda>i st.
        case st of
          Ok outs \<Rightarrow>
            if present ! i then Ok outs
            else (case fec_poly_encode_redundant (Some fec_shared_ctx) (Some (map Some cs)) k L (xs ! i) (outs ! i) of
                    Ok b \<Rightarrow> Ok (outs[i := Some b])
                  | Fail _ \<Rightarrow> Fail (-1)
                  | UB \<Rightarrow> UB)
        | r \<Rightarrow> r"
  have "\<exists>outs'. fold ?step [0..<m] (Ok outs) = Ok outs' \<and> length outs' = length outs \<and>
     (\<forall>i<length outs. outs' ! i = (if i < m \<and> \<not> present ! i then Some (eval_packet cs (xs ! i) L) else outs ! i))"
    if "m \<le> nat k" for m
    using that
  proof (induction m)
    case (Suc m)
    then obtain o' where o': "fold ?step [0..<m] (Ok outs) = Ok o'" "length o' = length outs"
      "\<forall>i<length outs. o' ! i = (if i < m \<and> \<not> present ! i then Some (eval_packet cs (xs ! i) L) else outs ! i)"
      by auto
    show ?case
    proof (cases "present ! m")
      case True
      with o' show ?thesis by (auto simp: less_Suc_eq)
    next
      case False
      have "m < nat k" using Suc.prems by simp
      with assms(6) False obtain b where b: "outs ! m = Some b" "length b = L" by blast
      then have "o' ! m = Some b" using o'(3) assms(5) Suc.prems by simp
      then have "fec_poly_encode_redundant (Some fec_shared_ctx) (Some (map Some cs)) k L (xs ! m) (o' ! m)
                   = Ok (eval_packet cs (xs ! m) L)"
        using encode_redundant_eval [of cs L b "xs ! m"] b assms by simp
      with False o' Suc.prems assms(5) show ?thesis by (auto simp: nth_list_update less_Suc_eq)
    qed
  qed simp
  then show ?thesis unfolding recover_loop_def by blast
qed

theorem recover_any_k:
  assumes wf: "dec_wf d" and S: "block_ok S (dec_sym_len d)" "dec_k d = int (length S)"
    and dist: "distinct (source_points (nat (dec_k d)) @ take (nat (dec_r d)) (dec_red_x d))"
    and holds: "dec_holds load S d" and enough: "fec_decoder_recoverable (Some d)"
    and outs: "nat (dec_k d) \<le> length outs"
      "\<forall>i<nat (dec_k d). \<not> dec_src_present d ! i \<longrightarrow> (\<exists>b. outs ! i = Some b \<and> length b = dec_sym_len d)"
  shows "\<exists>outs'. fec_decoder_recover load (Some d) (Some outs) True = Ok outs' \<and> length outs' = length outs \<and>
           (\<forall>i<length outs. outs' ! i =
              (if i < nat (dec_k d) \<and> \<not> dec_src_present d ! i then Some (S ! i) else outs ! i))"
proof (cases "dec_k d = dec_src_count d")
  case True
  let ?k = "nat (dec_k d)"
  have "length (filter ((!) (dec_src_present d)) [0..<?k]) = length [0..<?k]"
  proof -
    have "dec_src_count d = int (length (filter ((!) (dec_src_present d)) [0..<?k]))"
      using wf by (simp add: dec_wf_def)
    with True show ?thesis by simp
  qed
  then have "filter ((!) (dec_src_present d)) [0..<?k] = [0..<?k]"
    by (metis length_filter_less less_irrefl filter_True)
  then have "\<forall>i<?k. dec_src_present d ! i" by (auto simp: filter_id_conv)
  then show ?thesis using True by (auto simp: fec_decoder_recover_def)
next
  case False
  let ?k = "nat (dec_k d)" and ?L = "dec_sym_len d" and ?pts = "dec_points d"
  let ?cs = "block_coeffs S ?L"
  note cs = block_coeffs_Ok [OF S(1)]
  have k: "0 < ?k" "?k \<le> 128" "length S = ?k"
    using wf S by (auto simp: dec_wf_def FEC_BLK_MAX_K_def)
  have len: "length ?pts = ?k"
    using enough wf by (auto simp: dec_points_def fec_decoder_recoverable_def dec_wf_def Let_def)
  have val: "map (deref load \<circ> snd) ?pts = map Some (map (\<lambda>x. eval_packet ?cs x ?L) (map fst ?pts))"
    using dec_points_value [OF wf holds S] by (auto simp: code_symbol_def)
  have "?pts \<noteq> []" using len k by auto
  then obtain ds where ds: "poly_interp (map fst ?pts) (map (\<lambda>x. eval_packet ?cs x ?L) (map fst ?pts)) ?L = Ok ds"
    "length ds = ?k" "\<forall>c\<in>set ds. length c = ?L" "\<forall>z. eval_packet ds z ?L = eval_packet ?cs z ?L"
    using rs.any_k_points [of ?cs "map fst ?pts" ?L] dec_points_distinct [OF wf dist] len k cs(2) by (auto simp del: map_map)
  have "fec_poly_interpolate_coefficients (Some fec_shared_ctx) (Some (map fst ?pts))
          (Some (map (deref load \<circ> snd) ?pts)) (dec_k d) ?L
          (Some (replicate ?k (Some (replicate ?L 0)))) True = Ok ds"
    unfolding val
    using interpolate_poly_interp [of "dec_k d" "map (\<lambda>x. eval_packet ?cs x ?L) (map fst ?pts)"
        "map fst ?pts" "map Some (map (\<lambda>x. eval_packet ?cs x ?L) (map fst ?pts))" ?L] len k ds(1)
    by (simp del: map_map)
  moreover have "dec_k d \<le> 255" using k by linarith
  then obtain outs' where o': "recover_loop (Some fec_shared_ctx) ds (dec_k d) ?L (dec_src_present d) (dec_src_x d) outs = Ok outs'"
    "length outs' = length outs"
    "\<forall>i<length outs. outs' ! i = (if i < ?k \<and> \<not> dec_src_present d ! i then Some (eval_packet ds (dec_src_x d ! i) ?L) else outs ! i)"
    using recover_loop_Ok [of ds "dec_k d" ?L outs "dec_src_present d" "dec_src_x d"] ds k outs
    by (auto simp: readable_def list_all_iff)
  ultimately have "fec_decoder_recover load (Some d) (Some outs) True = Ok outs'"
    using False enough wf outs len
    by (auto simp: fec_decoder_recover_def Let_def collect_dec_points fec_decoder_recoverable_def dec_wf_def list_ex_iff)
  moreover have "eval_packet ds (dec_src_x d ! i) ?L = S ! i" if "i < ?k" for i
    using ds(4) cs(4) that k src_x_nth [OF wf that] by (simp add: code_symbol_def)
  ultimately show ?thesis using o' by auto
qed

section \<open>A receiver feeding arrivals to the decoder\<close>

text \<open>Symbols arrive in any order and possibly more than once; a rejected symbol leaves the
  decoder as it was, since the functions write nothing before they return -1.\<close>

datatype 'p arrival = Source nat 'p | Redundant nat 'p

fun absorb :: "'p arrival \<Rightarrow> 'p fec_decoder \<Rightarrow> 'p fec_decoder" where
  "absorb (Source i p) d = cres_val d (fec_decoder_add_source (Some d) (int i) (Some p))"
| "absorb (Redundant j p) d = cres_val d (fec_decoder_add_redundant (Some d) (int j) (Some p))"

fun honest :: "('p \<Rightarrow> bytes option) \<Rightarrow> bytes list \<Rightarrow> nat \<Rightarrow> bytes \<Rightarrow> 'p arrival \<Rightarrow> bool" where
  "honest load S L rx (Source i p) \<longleftrightarrow> i < length S \<and> load p = Some (S ! i)"
| "honest load S L rx (Redundant j p) \<longleftrightarrow> j < length rx \<and> load p = Some (code_symbol S L (rx ! j))"

definition arrived_src :: "'p arrival list \<Rightarrow> nat set" where
  "arrived_src as = {i. \<exists>p. Source i p \<in> set as}"

definition arrived_red :: "'p arrival list \<Rightarrow> nat set" where
  "arrived_red as = {j. \<exists>p. Redundant j p \<in> set as}"

text \<open>The decoder state after a sequence of honest arrivals.\<close>

definition dec_tracks ::
  "('p \<Rightarrow> bytes option) \<Rightarrow> bytes list \<Rightarrow> nat \<Rightarrow> bytes \<Rightarrow> nat set \<Rightarrow> nat set \<Rightarrow> 'p fec_decoder \<Rightarrow> bool" where
  "dec_tracks load S L rx A B d \<longleftrightarrow>
     dec_wf d \<and> dec_k d = int (length S) \<and> dec_sym_len d = L \<and> dec_r d = int (length rx) \<and>
     take (length rx) (dec_red_x d) = rx \<and> dec_holds load S d \<and>
     (\<forall>i<length S. dec_src_present d ! i \<longleftrightarrow> i \<in> A) \<and> (\<forall>j<length rx. dec_red_present d ! j \<longleftrightarrow> j \<in> B)"

lemma tracks_red_x: "dec_tracks load S L rx A B d \<Longrightarrow> j < length rx \<Longrightarrow> dec_red_x d ! j = rx ! j"
  by (metis dec_tracks_def nth_take)

lemma absorb_source:
  assumes t: "dec_tracks load S L rx A B d" and h: "honest load S L rx (Source i p)"
  shows "dec_tracks load S L rx (insert i A) B (absorb (Source i p) d)"
proof (cases "dec_src_present d ! i")
  case True
  then have "i \<in> A" and "fec_decoder_add_source (Some d) (int i) (Some p) = Fail (-1)"
    using t h by (auto simp: dec_tracks_def fec_decoder_add_source_def)
  with t show ?thesis by (simp add: insert_absorb)
next
  case False
  define d' where "d' = d\<lparr>dec_src := (dec_src d)[i := Some p], dec_src_present := (dec_src_present d)[i := True],
      dec_src_count := dec_src_count d + 1\<rparr>"
  have add: "fec_decoder_add_source (Some d) (int i) (Some p) = Ok d'"
    using False t h by (auto simp: dec_tracks_def fec_decoder_add_source_def d'_def)
  have "length (dec_src d) = 128" "length (dec_src_present d) = 128" "length S \<le> 128"
    using t by (auto simp: dec_tracks_def dec_wf_def FEC_BLK_MAX_K_def)
  then have "dec_tracks load S L rx (insert i A) B d'"
    using dec_wf_add_source [OF _ add] t h
    by (auto simp: dec_tracks_def dec_holds_def d'_def nth_list_update)
  then show ?thesis by (simp add: add)
qed

lemma absorb_redundant:
  assumes t: "dec_tracks load S L rx A B d" and h: "honest load S L rx (Redundant j p)"
  shows "dec_tracks load S L rx A (insert j B) (absorb (Redundant j p) d)"
proof (cases "dec_red_present d ! j")
  case True
  then have "j \<in> B" and "fec_decoder_add_redundant (Some d) (int j) (Some p) = Fail (-1)"
    using t h by (auto simp: dec_tracks_def fec_decoder_add_redundant_def)
  with t show ?thesis by (simp add: insert_absorb)
next
  case False
  define d' where "d' = d\<lparr>dec_red := (dec_red d)[j := Some p], dec_red_present := (dec_red_present d)[j := True],
      dec_red_count := dec_red_count d + 1\<rparr>"
  have add: "fec_decoder_add_redundant (Some d) (int j) (Some p) = Ok d'"
    using False t h by (auto simp: dec_tracks_def fec_decoder_add_redundant_def d'_def)
  have "length (dec_red d) = 32" "length (dec_red_present d) = 32" "length rx \<le> 32"
    using t by (auto simp: dec_tracks_def dec_wf_def FEC_BLK_MAX_R_def)
  then have "dec_tracks load S L rx A (insert j B) d'"
    using dec_wf_add_redundant [OF _ add] t h tracks_red_x [OF t]
    by (auto simp: dec_tracks_def dec_holds_def d'_def nth_list_update)
  then show ?thesis by (simp add: add)
qed

lemma absorb_all:
  "dec_tracks load S L rx A B d \<Longrightarrow> \<forall>a\<in>set as. honest load S L rx a \<Longrightarrow>
     dec_tracks load S L rx (A \<union> arrived_src as) (B \<union> arrived_red as) (fold absorb as d)"
proof (induction as arbitrary: d A B)
  case Nil
  then show ?case by (simp add: arrived_src_def arrived_red_def)
next
  case (Cons a as)
  show ?case
  proof (cases a)
    case (Source i p)
    then have "A \<union> arrived_src (a # as) = insert i A \<union> arrived_src as" "arrived_red (a # as) = arrived_red as"
      by (auto simp: arrived_src_def arrived_red_def)
    with Cons.IH [OF absorb_source [OF Cons.prems(1)]] Cons.prems(2) Source show ?thesis by simp
  next
    case (Redundant j p)
    then have "B \<union> arrived_red (a # as) = insert j B \<union> arrived_red as" "arrived_src (a # as) = arrived_src as"
      by (auto simp: arrived_src_def arrived_red_def)
    with Cons.IH [OF absorb_redundant [OF Cons.prems(1)]] Cons.prems(2) Redundant show ?thesis by simp
  qed
qed

lemma tracks_recoverable_iff:
  assumes "dec_tracks load S L rx A B d" and "A \<subseteq> {..<length S}" and "B \<subseteq> {..<length rx}"
  shows "fec_decoder_recoverable (Some d) \<longleftrightarrow> length S \<le> card A + card B"
proof -
  have "{i. i < length S \<and> dec_src_present d ! i} = A" "{j. j < length rx \<and> dec_red_present d ! j} = B"
    using assms by (auto simp: dec_tracks_def)
  then have "dec_src_count d = int (card A)" "dec_red_count d = int (card B)"
    using assms(1) by (auto simp: dec_tracks_def dec_wf_def length_filter_conv_card cong: conj_cong)
  with assms(1) show ?thesis by (auto simp: fec_decoder_recoverable_def dec_tracks_def)
qed

lemma honest_arrived:
  "\<forall>a\<in>set as. honest load S L rx a \<Longrightarrow> arrived_src as \<subseteq> {..<length S} \<and> arrived_red as \<subseteq> {..<length rx}"
  by (force simp: arrived_src_def arrived_red_def)

lemma decoder_init_tracks:
  assumes "fec_decoder_init dec (Some fec_shared_ctx) (int (length S)) r L red_x = Ok d"
  shows "dec_tracks load S L (red_points red_x (length S) (nat r)) {} {} d"
    and "0 < length S" and "length S \<le> 128" and "0 < r"
proof -
  show "0 < length S" "length S \<le> 128" "0 < r"
    using assms by (auto simp: fec_decoder_init_def FEC_BLK_MAX_K_def split: if_splits)
  moreover have "r \<le> 32" using assms by (auto simp: fec_decoder_init_def FEC_BLK_MAX_R_def split: if_splits)
  ultimately show "dec_tracks load S L (red_points red_x (length S) (nat r)) {} {} d"
    using dec_wf_init [OF assms] by (auto simp: dec_tracks_def dec_holds_def)
qed

lemma decode_arrivals:
  assumes init: "fec_decoder_init dec (Some fec_shared_ctx) (int (length S)) r L red_x = Ok d"
    and S: "\<forall>s\<in>set S. length s = L"
    and dist: "distinct (source_points (length S) @ red_points red_x (length S) (nat r))"
    and honest: "\<forall>a\<in>set as. honest load S L (red_points red_x (length S) (nat r)) a"
    and enough: "length S \<le> card (arrived_src as) + card (arrived_red as)"
    and outs: "length outs = length S" "\<forall>out\<in>set outs. length out = L"
  shows "fec_decoder_recover load (Some (fold absorb as d)) (Some (map Some outs)) True =
           Ok (map (\<lambda>i. if i \<in> arrived_src as then Some (outs ! i) else Some (S ! i)) [0..<length S])"
proof -
  let ?rx = "red_points red_x (length S) (nat r)" and ?d = "fold absorb as d"
  note i = decoder_init_tracks(1) [OF init, where load = load] decoder_init_tracks(2-4) [OF init]
  have t: "dec_tracks load S L ?rx (arrived_src as) (arrived_red as) ?d"
    using absorb_all [OF i(1) honest] by simp
  then have f: "dec_wf ?d" "dec_k ?d = int (length S)" "dec_sym_len ?d = L" "dec_holds load S ?d"
    "take (nat (dec_r ?d)) (dec_red_x ?d) = ?rx"
    by (auto simp: dec_tracks_def)
  have "block_ok S L" using S i by (auto simp: block_ok_def)
  moreover have "fec_decoder_recoverable (Some ?d)"
    using tracks_recoverable_iff [OF t] honest_arrived [OF honest] enough by simp
  ultimately obtain o' where o': "fec_decoder_recover load (Some ?d) (Some (map Some outs)) True = Ok o'"
    "length o' = length S"
    "\<forall>i<length S. o' ! i = (if i < length S \<and> \<not> dec_src_present ?d ! i then Some (S ! i) else map Some outs ! i)"
    using recover_any_k [of ?d S load "map Some outs"] f dist outs by auto
  then have "o' = map (\<lambda>i. if i \<in> arrived_src as then Some (outs ! i) else Some (S ! i)) [0..<length S]"
    using t outs(1) by (intro nth_equalityI) (auto simp: dec_tracks_def)
  with o'(1) show ?thesis by simp
qed

lemma decode_too_few:
  assumes init: "fec_decoder_init dec (Some fec_shared_ctx) (int (length S)) r L red_x = Ok d"
    and honest: "\<forall>a\<in>set as. honest load S L (red_points red_x (length S) (nat r)) a"
    and few: "card (arrived_src as) + card (arrived_red as) < length S"
  shows "fec_decoder_recover load (Some (fold absorb as d)) (Some outs) mem = Fail (-1)"
proof -
  let ?rx = "red_points red_x (length S) (nat r)" and ?d = "fold absorb as d"
  have t: "dec_tracks load S L ?rx (arrived_src as) (arrived_red as) ?d"
    using absorb_all [OF decoder_init_tracks(1) [OF init, where load = load] honest] by simp
  have "\<not> fec_decoder_recoverable (Some ?d)"
    using tracks_recoverable_iff [OF t] honest_arrived [OF honest] few by simp
  moreover have "0 \<le> dec_red_count ?d" using t by (simp add: dec_tracks_def dec_wf_def)
  ultimately show ?thesis by (auto simp: fec_decoder_recover_def fec_decoder_recoverable_def Let_def)
qed

section \<open>A sender filling a block\<close>

fun fill_encoder :: "'p list \<Rightarrow> 'p fec_encoder \<Rightarrow> 'p fec_encoder cres" where
  "fill_encoder [] e = Ok e"
| "fill_encoder (p # ps) e =
     (case fec_encoder_add_source (Some e) (Some p) of Ok e' \<Rightarrow> fill_encoder ps e' | Fail c \<Rightarrow> Fail c | UB \<Rightarrow> UB)"

lemma fill_encoder_Ok:
  assumes "enc_wf e" and "enc_filled e + int (length ps) \<le> enc_k e"
  shows "\<exists>e'. fill_encoder ps e = Ok e' \<and> enc_wf e' \<and> enc_k e' = enc_k e \<and> enc_r e' = enc_r e \<and>
           enc_sym_len e' = enc_sym_len e \<and> enc_red_x e' = enc_red_x e \<and>
           enc_filled e' = enc_filled e + int (length ps) \<and>
           take (nat (enc_filled e')) (enc_src e') = take (nat (enc_filled e)) (enc_src e) @ map Some ps"
  using assms
proof (induction ps arbitrary: e)
  case Nil
  then show ?case by simp
next
  case (Cons p ps)
  define e1 where "e1 = e\<lparr>enc_src := (enc_src e)[nat (enc_filled e) := Some p], enc_filled := enc_filled e + 1\<rparr>"
  have add: "fec_encoder_add_source (Some e) (Some p) = Ok e1"
    using Cons.prems by (simp add: fec_encoder_add_source_def e1_def)
  have "0 \<le> enc_filled e" "nat (enc_filled e) < length (enc_src e)"
    using Cons.prems by (auto simp: enc_wf_def FEC_BLK_MAX_K_def)
  then have "take (nat (enc_filled e1)) (enc_src e1) = take (nat (enc_filled e)) (enc_src e) @ [Some p]"
    by (simp add: e1_def nat_add_distrib take_Suc_conv_app_nth)
  moreover have "enc_k e1 = enc_k e" "enc_r e1 = enc_r e" "enc_sym_len e1 = enc_sym_len e"
    "enc_red_x e1 = enc_red_x e" "enc_filled e1 = enc_filled e + 1"
    by (simp_all add: e1_def)
  ultimately show ?case
    using Cons.IH [OF enc_wf_add_source [OF Cons.prems(1) add]] Cons.prems(2) add by auto
qed

lemma encode_block:
  assumes init: "fec_encoder_init enc (Some fec_shared_ctx) (int (length S)) r L red_x = Ok e"
    and S: "\<forall>s\<in>set S. length s = L" and ps: "map load ps = map Some S"
    and outs: "length outs = nat r" "\<forall>out\<in>set outs. length out = L"
  shows "\<exists>e'. fill_encoder ps e = Ok e' \<and>
           fec_encoder_generate load (Some e') (Some (map Some outs)) True =
             Ok (map (code_symbol S L) (red_points red_x (length S) (nat r)))"
proof -
  note i = enc_wf_init [OF init]
  have len: "length ps = length S" using ps by (metis length_map)
  obtain e' where e': "fill_encoder ps e = Ok e'" "enc_wf e'" "enc_k e' = int (length S)" "enc_r e' = r"
    "enc_sym_len e' = L" "enc_red_x e' = enc_red_x e" "enc_filled e' = int (length S)"
    "take (length S) (enc_src e') = map Some ps"
    using fill_encoder_Ok [OF i(1), of ps] i len by auto
  have "block_ok S L"
    using S i by (auto simp: block_ok_def enc_wf_def FEC_BLK_MAX_K_def)
  moreover have "\<exists>p. enc_src e' ! i = Some p \<and> load p = Some (S ! i)" if "i < length S" for i
  proof -
    have "enc_src e' ! i = Some (ps ! i)" using e'(8) that len by (metis nth_map nth_take)
    moreover have "load (ps ! i) = Some (S ! i)" using ps that len by (metis nth_map)
    ultimately show ?thesis by simp
  qed
  ultimately show ?thesis
    using generate_parity [of e' S load outs] e' outs i(6) by simp
qed

lemma encoder_init_distinct:
  assumes "fec_encoder_init enc ctx (int (length S)) r L red_x = Ok e"
  shows "distinct (source_points (length S) @ red_points red_x (length S) (nat r))"
proof -
  obtain en c where "enc = Some en" "ctx = Some c"
    using assms by (cases enc; cases ctx) (auto simp: fec_encoder_init_def)
  with assms have "is_ok (fec_encoder_init (Some en) (Some c) (int (length S)) r L red_x)" by simp
  then show ?thesis unfolding encoder_init_iff by simp
qed

lemma default_inits:
  assumes "0 < k" and "k \<le> 128" and "0 < r" and "r \<le> 32"
  shows "\<exists>e. fec_encoder_init (Some enc) (Some ctx) (int k) r L None = Ok e"
    and "\<exists>d. fec_decoder_init (Some dec) (Some ctx) (int k) r L None = Ok d"
proof -
  have "distinct (source_points k @ red_points None k (nat r))"
    using assms by (intro distinct_default_points) simp
  moreover have "0 \<notin> set (red_points None k (nat r))"
  proof
    assume "0 \<in> set (red_points None k (nat r))"
    then obtain i where "i < nat r" "(of_nat (k + i + 1) :: u8) = 0"
      by (auto simp: red_points_def simp del: of_nat_add of_nat_Suc)
    moreover have "k + i + 1 < 256" using \<open>i < nat r\<close> assms by linarith
    ultimately show False using of_nat_u8_eq [of "k + i + 1" 0] by simp
  qed
  ultimately have "is_ok (fec_encoder_init (Some enc) (Some ctx) (int k) r L None)"
    unfolding encoder_init_iff using assms by (simp add: red_x_short_def)
  then show "\<exists>e. fec_encoder_init (Some enc) (Some ctx) (int k) r L None = Ok e" by (simp add: is_ok_iff)
  show "\<exists>d. fec_decoder_init (Some dec) (Some ctx) (int k) r L None = Ok d"
    using assms by (simp add: fec_decoder_init_def red_x_short_def FEC_BLK_MAX_K_def FEC_BLK_MAX_R_def)
qed

end
