(* ===== verification/Fec_Sim.thy ===== *)
theory Fec_Sim
  imports Complex_Main Fec_Codec
begin

text \<open>
  The loss simulator \<open>tools/fec-sim.c\<close>: the xorshift generator, the stalls of a transfer, the encoding,
  erasure and decoding of a block with the real codec, and \<open>main\<close> after its arguments have been
  converted.  Values of type \<open>double\<close> are rationals, so the times are those of exact arithmetic; a random
  draw is a multiple of \<open>2 ^ -24\<close>, which a \<open>double\<close> holds exactly.  A stall that never ends is the value
  \<open>None\<close>.  Shown: the counter of failed recoveries stays 0, whatever is lost.
\<close>

section \<open>Random numbers and stalls\<close>

definition rng_u32 :: "u32 \<Rightarrow> u32" where
  "rng_u32 x =
     (let x = x XOR push_bit 13 x;
          x = x XOR drop_bit 17 x
      in x XOR push_bit 5 x)"

definition coin :: "rat \<Rightarrow> u32 \<Rightarrow> bool \<times> u32" where
  "coin p s = (let s = rng_u32 s in (of_int (uint (drop_bit 8 s)) / 16777216 < p, s))"

fun coins :: "rat \<Rightarrow> nat \<Rightarrow> u32 \<Rightarrow> bool list \<times> u32" where
  "coins p 0 s = ([], s)"
| "coins p (Suc n) s = (let (c, s) = coin p s; (cs, s) = coins p n s in (c # cs, s))"

partial_function (option) rto_stall_loop :: "rat \<Rightarrow> rat \<Rightarrow> rat \<Rightarrow> rat \<Rightarrow> u32 \<Rightarrow> (rat \<times> u32) option" where
  "rto_stall_loop p cap cur stall s =
     (let stall = stall + cur; (lost, s) = coin p s
      in if \<not> lost then Some (stall, s)
         else let cur = cur * 2; cur = (if cur > cap then cap else cur) in rto_stall_loop p cap cur stall s)"

definition rto_stall :: "rat \<Rightarrow> rat \<Rightarrow> rat \<Rightarrow> u32 \<Rightarrow> (rat \<times> u32) option" where
  "rto_stall p rto_min rto_cap s = rto_stall_loop p rto_cap rto_min 0 s"

text \<open>One stall after the other, for the segments of a list that need one.\<close>

fun rto_stalls :: "rat \<Rightarrow> rat \<Rightarrow> rat \<Rightarrow> nat \<Rightarrow> u32 \<Rightarrow> (rat \<times> u32) option" where
  "rto_stalls p rto_min rto_cap 0 s = Some (0, s)"
| "rto_stalls p rto_min rto_cap (Suc n) s =
     Option.bind (rto_stall p rto_min rto_cap s) (\<lambda>(st, s).
     Option.bind (rto_stalls p rto_min rto_cap n s) (\<lambda>(st', s). Some (st + st', s)))"

definition window_segments :: "rat \<Rightarrow> rat \<Rightarrow> nat \<Rightarrow> nat" where
  "window_segments rate_bps rtt_ms sym_len =
     (let w = nat \<lfloor>rate_bps * (rtt_ms / 1000) / 8 / of_nat sym_len\<rfloor> in if w < 1 then 1 else w)"

text \<open>The rounds in which the holes of one window are sent again until none is lost.\<close>

partial_function (option) relost_rounds :: "rat \<Rightarrow> rat \<Rightarrow> nat \<Rightarrow> rat \<Rightarrow> u32 \<Rightarrow> (rat \<times> u32) option" where
  "relost_rounds p rtt remaining stall s =
     (if remaining = 0 then Some (stall, s)
      else let (cs, s) = coins p remaining s;
               relost = length (filter id cs);
               stall = (if relost \<noteq> 0 then stall + rtt else stall)
           in relost_rounds p rtt relost stall s)"

partial_function (option) sack_windows :: "rat \<Rightarrow> rat \<Rightarrow> nat \<Rightarrow> nat list \<Rightarrow> rat \<Rightarrow> u32 \<Rightarrow> (rat \<times> u32) option" where
  "sack_windows p rtt W lost stall s =
     (if lost = [] then Some (stall, s)
      else let run = takeWhile (\<lambda>j. j div W = hd lost div W) lost in
        Option.bind (relost_rounds p rtt (length run) (stall + rtt) s) (\<lambda>(stall, s).
          sack_windows p rtt W (drop (length run) lost) stall s))"

definition sack_stall :: "nat list \<Rightarrow> nat \<Rightarrow> rat \<Rightarrow> nat \<Rightarrow> rat \<Rightarrow> rat \<Rightarrow> u32 \<Rightarrow> (rat \<times> u32) option" where
  "sack_stall lost segs p W rtt rto_min s =
     (if lost = [] then Some (0, s)
      else Option.bind (sack_windows p rtt W lost 0 s) (\<lambda>(stall, s).
        Some (if list_ex (\<lambda>j. j + 3 \<ge> segs) lost then stall + (rto_min - rtt) else stall, s)))"

section \<open>One block\<close>

definition sim_byte :: "nat \<Rightarrow> nat \<Rightarrow> nat \<Rightarrow> u8" where
  "sim_byte b i j = of_nat (b * 131 + i * 31 + j * 7 + 5)"

definition sim_sources :: "nat \<Rightarrow> nat \<Rightarrow> nat \<Rightarrow> bytes list" where
  "sim_sources b blk_k sym_len = map (\<lambda>i. map (sim_byte b i) [0..<sym_len]) [0..<blk_k]"

definition sim_block_k :: "nat \<Rightarrow> nat \<Rightarrow> nat \<Rightarrow> nat \<Rightarrow> nat" where
  "sim_block_k k segs nblocks b =
     (let blk_k = (if b = nblocks - 1 then segs - b * k else k) in if blk_k < 1 then 1 else blk_k)"

text \<open>The two structures on the stack before their initialisation, and the buffers of the parity and of
  the rebuilt symbols with what earlier blocks left in them; below, every block of every trial finds
  some store of its own.\<close>

record sim_store =
  st_enc :: "nat fec_encoder"
  st_dec :: "nat fec_decoder"
  st_red :: "bytes list"
  st_out :: "bytes list"

fun add_all :: "nat list \<Rightarrow> nat fec_encoder \<Rightarrow> nat fec_encoder" where
  "add_all [] e = e"
| "add_all (p # ps) e = add_all ps (cres_val e (fec_encoder_add_source (Some e) (Some p)))"

definition sim_encode :: "sim_store \<Rightarrow> bool \<Rightarrow> int \<Rightarrow> nat \<Rightarrow> bytes list \<Rightarrow> bytes list cres" where
  "sim_encode st mem r sym_len S =
     (case fec_encoder_init (Some (st_enc st)) (Some fec_shared_ctx) (int (length S)) r sym_len None of
        Ok e \<Rightarrow>
          (case fec_encoder_generate (\<lambda>p. Some (S ! p)) (Some (add_all [0..<length S] e)) (Some (map Some (take (nat r) (st_red st)))) mem of
             Ok parity \<Rightarrow> Ok parity
           | Fail _ \<Rightarrow> Fail 1
           | UB \<Rightarrow> UB)
      | Fail _ \<Rightarrow> Fail 1
      | UB \<Rightarrow> UB)"

definition sim_arrivals :: "nat \<Rightarrow> bool list \<Rightarrow> bool list \<Rightarrow> nat arrival list" where
  "sim_arrivals k src_lost red_lost =
     map (\<lambda>i. Source i i) (filter (\<lambda>i. \<not> src_lost ! i) [0..<k]) @
     map (\<lambda>j. Redundant j (k + j)) (filter (\<lambda>j. \<not> red_lost ! j) [0..<length red_lost])"

text \<open>The decode and the comparison, with the number of failures.\<close>

definition sim_verify ::
  "sim_store \<Rightarrow> bool \<Rightarrow> int \<Rightarrow> nat \<Rightarrow> bytes list \<Rightarrow> bytes list \<Rightarrow> bool list \<Rightarrow> bool list \<Rightarrow> nat cres" where
  "sim_verify st mem r sym_len S parity src_lost red_lost =
     (case fec_decoder_init (Some (st_dec st)) (Some fec_shared_ctx) (int (length S)) r sym_len None of
        Ok d \<Rightarrow>
          let d = fold absorb (sim_arrivals (length S) src_lost red_lost) d;
              out = map (\<lambda>i. if src_lost ! i then Some (st_out st ! i) else None) [0..<length S]
          in if \<not> fec_decoder_recoverable (Some d) then Ok 1
             else (case fec_decoder_recover (\<lambda>p. Some ((S @ parity) ! p)) (Some d) (Some out) mem of
                     Ok out \<Rightarrow> Ok (length (filter (\<lambda>i. src_lost ! i \<and> out ! i \<noteq> Some (S ! i)) [0..<length S]))
                   | Fail _ \<Rightarrow> Ok 1
                   | UB \<Rightarrow> UB)
      | Fail _ \<Rightarrow> Fail 1
      | UB \<Rightarrow> UB)"

section \<open>Trials\<close>

record sim_params =
  sm_k :: int
  sm_r :: int
  sm_sym_len :: nat
  sm_file_bytes :: nat
  sm_loss_pct :: rat
  sm_trials :: int
  sm_rate_bps :: rat
  sm_rtt_ms :: rat
  sm_rto_min :: rat
  sm_rto_cap :: rat

abbreviation sm_p :: "sim_params \<Rightarrow> rat" where
  "sm_p q \<equiv> sm_loss_pct q / 100"

definition sim_segs :: "sim_params \<Rightarrow> nat" where
  "sim_segs q = (let n = (sm_file_bytes q + sm_sym_len q - 1) div sm_sym_len q in if n = 0 then 1 else n)"

definition sim_nblocks :: "sim_params \<Rightarrow> nat" where
  "sim_nblocks q = (sim_segs q + nat (sm_k q) - 1) div nat (sm_k q)"

text \<open>A block: failures, whether it was lost for good, the stall, the random state.\<close>

definition sim_block :: "sim_store \<Rightarrow> bool \<Rightarrow> sim_params \<Rightarrow> nat \<Rightarrow> u32 \<Rightarrow> (nat \<times> nat \<times> rat \<times> u32) cres option" where
  "sim_block st mem q b s =
     (let S = sim_sources b (sim_block_k (nat (sm_k q)) (sim_segs q) (sim_nblocks q) b) (sm_sym_len q) in
      case sim_encode st mem (sm_r q) (sm_sym_len q) S of
        Ok parity \<Rightarrow>
          let (src_lost, s) = coins (sm_p q) (length S) s;
              (red_lost, s) = coins (sm_p q) (nat (sm_r q)) s;
              lost_src = length (filter id src_lost); lost_red = length (filter id red_lost);
              received = (length S + nat (sm_r q)) - (lost_src + lost_red)
          in if lost_src = 0 then Some (Ok (0, 0, 0, s))
             else if received \<ge> length S then
               Some (cbind (sim_verify st mem (sm_r q) (sm_sym_len q) S parity src_lost red_lost) (\<lambda>f. Ok (f, 0, 0, s)))
             else Option.bind (rto_stalls (sm_p q) (sm_rto_min q) (sm_rto_cap q) lost_src s) (\<lambda>(stall, s). Some (Ok (0, 1, stall, s)))
      | Fail c \<Rightarrow> Some (Fail c)
      | UB \<Rightarrow> Some UB)"

fun sim_blocks :: "(nat \<Rightarrow> sim_store) \<Rightarrow> bool \<Rightarrow> sim_params \<Rightarrow> nat list \<Rightarrow> u32 \<Rightarrow> (nat \<times> nat \<times> rat \<times> u32) cres option" where
  "sim_blocks st mem q [] s = Some (Ok (0, 0, 0, s))"
| "sim_blocks st mem q (b # bs) s =
     Option.bind (sim_block (st b) mem q b s) (\<lambda>res.
       case res of
         Ok (f, busted, stall, s) \<Rightarrow>
           Option.bind (sim_blocks st mem q bs s) (\<lambda>res. Some (cbind res (\<lambda>(f', busted', stall', s). Ok (f + f', busted + busted', stall + stall', s))))
       | Fail c \<Rightarrow> Some (Fail c)
       | UB \<Rightarrow> Some UB)"

text \<open>The plain transfer: which segments are lost, and their stalls.\<close>

fun tcp_losses :: "sim_params \<Rightarrow> nat list \<Rightarrow> u32 \<Rightarrow> (rat \<times> nat list \<times> u32) option" where
  "tcp_losses q [] s = Some (0, [], s)"
| "tcp_losses q (i # is) s =
     (let (lost, s) = coin (sm_p q) s in
      if lost then
        Option.bind (rto_stall (sm_p q) (sm_rto_min q) (sm_rto_cap q) s) (\<lambda>(st, s).
        Option.bind (tcp_losses q is s) (\<lambda>(st', ls, s). Some (st + st', i # ls, s)))
      else tcp_losses q is s)"

text \<open>The sums over the trials: plain, idealised and coded completion time, lost blocks, failures.\<close>

record sim_sums =
  sum_t_tcp :: rat
  sum_t_tcp_fast :: rat
  sum_t_fec :: rat
  sum_busted :: nat
  recover_failures :: nat

definition serialize_tcp :: "sim_params \<Rightarrow> rat" where
  "serialize_tcp q = of_nat (sim_segs q * sm_sym_len q) / sm_rate_bps q * 8000"

definition serialize_fec :: "sim_params \<Rightarrow> rat" where
  "serialize_fec q = of_nat ((sim_segs q + nat (sm_r q) * sim_nblocks q) * sm_sym_len q) / sm_rate_bps q * 8000"

definition sim_trial :: "(nat \<Rightarrow> sim_store) \<Rightarrow> bool \<Rightarrow> sim_params \<Rightarrow> sim_sums \<times> u32 \<Rightarrow> (sim_sums \<times> u32) cres option" where
  "sim_trial st mem q acc =
     (let (row, s) = acc in
      Option.bind (tcp_losses q [0..<sim_segs q] s) (\<lambda>(tcp_stall, lost, s).
      Option.bind (sack_stall lost (sim_segs q) (sm_p q) (window_segments (sm_rate_bps q) (sm_rtt_ms q) (sm_sym_len q)) (sm_rtt_ms q) (sm_rto_min q) s)
        (\<lambda>(fast_stall, s).
      Option.bind (sim_blocks st mem q [0..<sim_nblocks q] s) (\<lambda>res.
        Some (cbind res (\<lambda>(f, busted, fec_stall, s).
          Ok (row\<lparr>sum_t_tcp := sum_t_tcp row + (serialize_tcp q + sm_rtt_ms q + tcp_stall),
                   sum_t_tcp_fast := sum_t_tcp_fast row + (serialize_tcp q + sm_rtt_ms q + fast_stall),
                   sum_t_fec := sum_t_fec row + (serialize_fec q + sm_rtt_ms q + fec_stall),
                   sum_busted := sum_busted row + busted,
                   recover_failures := recover_failures row + f\<rparr>, s)))))))"

fun sim_trials :: "nat \<Rightarrow> (nat \<Rightarrow> nat \<Rightarrow> sim_store) \<Rightarrow> bool \<Rightarrow> sim_params \<Rightarrow> sim_sums \<times> u32 \<Rightarrow> (sim_sums \<times> u32) cres option" where
  "sim_trials 0 st mem q acc = Some (Ok acc)"
| "sim_trials (Suc n) st mem q acc =
     Option.bind (sim_trial (st n) mem q acc) (\<lambda>res.
       case res of Ok acc \<Rightarrow> sim_trials n st mem q acc | Fail c \<Rightarrow> Some (Fail c) | UB \<Rightarrow> Some UB)"

definition sim_accepts :: "sim_params \<Rightarrow> bool" where
  "sim_accepts q \<longleftrightarrow>
     \<not> (sm_k q < 1 \<or> sm_k q > FEC_BLK_MAX_K \<or> sm_r q < 1 \<or> sm_r q > FEC_BLK_MAX_R \<or> sm_sym_len q = 0 \<or> sm_trials q < 1)"

text \<open>\<open>main\<close> after the arguments have been converted: the exit code and the sums of the CSV row.\<close>

definition sim_main :: "(nat \<Rightarrow> nat \<Rightarrow> sim_store) \<Rightarrow> bool \<Rightarrow> bool \<Rightarrow> sim_params \<Rightarrow> u32 \<Rightarrow> (int \<times> sim_sums option) cres option" where
  "sim_main st oom mem q seed =
     (let s = (if seed = 0 then 0x9e3779b9 else seed) in
      if \<not> sim_accepts q then Some (Ok (2, None))
      else if oom then Some (Ok (1, None))
      else Option.bind (sim_trials (nat (sm_trials q)) st mem q (\<lparr>sum_t_tcp = 0, sum_t_tcp_fast = 0, sum_t_fec = 0, sum_busted = 0, recover_failures = 0\<rparr>, s))
        (\<lambda>res. Some (case res of
             Ok (row, _) \<Rightarrow> Ok (if recover_failures row \<noteq> 0 then 3 else 0, Some row)
           | Fail c \<Rightarrow> Ok (c, None)
           | UB \<Rightarrow> UB)))"

section \<open>No recovery fails\<close>

lemma length_coins [simp]: "length (fst (coins p n s)) = n"
  by (induction n arbitrary: s) (simp_all add: Let_def case_prod_beta)

lemma add_all_fill: "fill_encoder ps e = Ok e' \<Longrightarrow> add_all ps e = e'"
  by (induction ps arbitrary: e) (auto split: cres.splits)

text \<open>The store holds buffers of the sizes that \<open>main\<close> allocates.\<close>

definition store_ok :: "sim_params \<Rightarrow> sim_store \<Rightarrow> bool" where
  "store_ok q st \<longleftrightarrow> length (st_red st) = nat (sm_r q) \<and> length (st_out st) = nat (sm_k q) \<and>
     (\<forall>b\<in>set (st_red st) \<union> set (st_out st). length b = sm_sym_len q)"

lemma map_load: "map (\<lambda>p. Some (S ! p)) [0..<length S] = map Some S"
  by (rule nth_equalityI) auto

lemma sim_encode_Ok:
  assumes "0 < length S" and "length S \<le> 128" and "0 < r" and "r \<le> 32" and "\<forall>x\<in>set S. length x = L"
    and "length (st_red st) = nat r" and "\<forall>b\<in>set (st_red st). length b = L"
  shows "sim_encode st True r L S = Ok (map (code_symbol S L) (red_points None (length S) (nat r)))"
proof -
  obtain e where e: "fec_encoder_init (Some (st_enc st)) (Some fec_shared_ctx) (int (length S)) r L None = Ok e"
    using default_inits(1) [OF assms(1-4)] by blast
  obtain e' where e': "fill_encoder [0..<length S] e = Ok e'"
    "fec_encoder_generate (\<lambda>p. Some (S ! p)) (Some e') (Some (map Some (st_red st))) True = Ok (map (code_symbol S L) (red_points None (length S) (nat r)))"
    using encode_block [OF e assms(5) map_load assms(6,7)] by blast
  show ?thesis using e e' add_all_fill [OF e'(1)] assms(6) by (simp add: sim_encode_def)
qed

lemma card_not_lost: "card {i. i < length xs \<and> \<not> xs ! i} = length xs - length (filter id xs)"
proof -
  have "card {i. i < length xs \<and> \<not> xs ! i} = length (filter (\<lambda>x. \<not> x) xs)" by (simp add: length_filter_conv_card)
  then show ?thesis using sum_length_filter_compl [of id xs] by (simp add: id_def)
qed

lemma sim_verify_zero:
  assumes S: "0 < length S" "length S \<le> 128" "\<forall>x\<in>set S. length x = L" and r: "0 < r" "r \<le> 32"
    and out: "length S \<le> length (st_out st)" "\<forall>b\<in>set (st_out st). length b = L"
    and l: "length src_lost = length S" "length red_lost = nat r"
    and enough: "length S \<le> (length S + nat r) - (length (filter id src_lost) + length (filter id red_lost))"
  shows "sim_verify st True r L S (map (code_symbol S L) (red_points None (length S) (nat r))) src_lost red_lost = Ok 0"
proof -
  let ?rx = "red_points None (length S) (nat r)"
  let ?par = "map (code_symbol S L) ?rx" and ?as = "sim_arrivals (length S) src_lost red_lost"
  let ?load = "\<lambda>p. Some ((S @ ?par) ! p)"
  let ?out = "map (\<lambda>i. if src_lost ! i then Some (st_out st ! i) else None) [0..<length S]"
  obtain d0 where d0: "fec_decoder_init (Some (st_dec st)) (Some fec_shared_ctx) (int (length S)) r L None = Ok d0"
    using default_inits(2) [OF S(1,2) r] by blast
  let ?d = "fold absorb ?as d0"
  have h: "\<forall>a\<in>set ?as. honest ?load S L ?rx a" using l by (auto simp: sim_arrivals_def nth_append red_points_def)
  have A: "arrived_src ?as = {i. i < length S \<and> \<not> src_lost ! i}" and B: "arrived_red ?as = {j. j < nat r \<and> \<not> red_lost ! j}"
    using l(2) by (auto simp: sim_arrivals_def arrived_src_def arrived_red_def)
  have le: "length (filter id src_lost) \<le> length S" "length (filter id red_lost) \<le> nat r" using l length_filter_le by metis+
  have cA: "card (arrived_src ?as) = length S - length (filter id src_lost)" unfolding A using card_not_lost [of src_lost] l(1) by simp
  have cB: "card (arrived_red ?as) = nat r - length (filter id red_lost)" unfolding B using card_not_lost [of red_lost] l(2) by simp
  have t: "dec_tracks ?load S L ?rx (arrived_src ?as) (arrived_red ?as) ?d"
    using absorb_all [OF decoder_init_tracks(1) [OF d0, where load = ?load] h] by simp
  have rec: "fec_decoder_recoverable (Some ?d)"
    using tracks_recoverable_iff [OF t] honest_arrived [OF h] enough cA cB le by simp
  have f: "dec_wf ?d" "dec_k ?d = int (length S)" "dec_sym_len ?d = L" "dec_holds ?load S ?d" "take (nat (dec_r ?d)) (dec_red_x ?d) = ?rx"
    "\<forall>i<length S. dec_src_present ?d ! i = (i \<in> arrived_src ?as)"
    using t by (auto simp: dec_tracks_def)
  have "block_ok S L" using S by (auto simp: block_ok_def)
  moreover have "distinct (source_points (length S) @ ?rx)" using S(2) r by (intro distinct_default_points) simp
  moreover have "\<exists>b. ?out ! i = Some b \<and> length b = L" if "i < length S" "\<not> dec_src_present ?d ! i" for i
    using that f(6) out by (auto simp: A)
  ultimately obtain o' where o': "fec_decoder_recover ?load (Some ?d) (Some ?out) True = Ok o'"
    "\<forall>i<length S. o' ! i = (if i < length S \<and> \<not> dec_src_present ?d ! i then Some (S ! i) else ?out ! i)"
    using recover_any_k [of ?d S ?load ?out] f rec by auto
  have "filter (\<lambda>i. src_lost ! i \<and> o' ! i \<noteq> Some (S ! i)) [0..<length S] = []"
    using o'(2) f(6) by (auto simp: filter_empty_conv A)
  then show ?thesis using d0 rec o'(1) by (simp add: sim_verify_def)
qed

lemma sim_block_k_bounds:
  assumes "0 < k" and "nblocks = (segs + k - 1) div k"
  shows "1 \<le> sim_block_k k segs nblocks b" and "sim_block_k k segs nblocks b \<le> k"
proof -
  show "1 \<le> sim_block_k k segs nblocks b" by (simp add: sim_block_k_def Let_def)
  have "segs + k - 1 < k * (nblocks + 1)" using assms dividend_less_times_div [of k "segs + k - 1"] by (simp add: mult.commute)
  then have "segs \<le> nblocks * k" using assms(1) by (simp add: algebra_simps)
  then have "segs - (nblocks - 1) * k \<le> k" by (cases nblocks) simp_all
  then show "sim_block_k k segs nblocks b \<le> k" using assms(1) by (simp add: sim_block_k_def Let_def)
qed

lemma sim_sources_shape [simp]: "length (sim_sources b n L) = n" "\<forall>x\<in>set (sim_sources b n L). length x = L"
  by (auto simp: sim_sources_def)

definition clean :: "(nat \<times> nat \<times> rat \<times> u32) cres option \<Rightarrow> bool" where
  "clean res \<longleftrightarrow> (case res of None \<Rightarrow> True | Some (Ok (f, _)) \<Rightarrow> f = 0 | Some _ \<Rightarrow> False)"

lemma sim_block_clean:
  assumes "sim_accepts q" and "store_ok q st"
  shows "clean (sim_block st True q b s)"
proof -
  let ?n = "sim_block_k (nat (sm_k q)) (sim_segs q) (sim_nblocks q) b" and ?L = "sm_sym_len q" and ?r = "sm_r q"
  let ?S = "sim_sources b ?n ?L"
  have q: "0 < nat (sm_k q)" "nat (sm_k q) \<le> 128" "0 < ?r" "?r \<le> 32"
    using assms(1) by (auto simp: sim_accepts_def FEC_BLK_MAX_K_def FEC_BLK_MAX_R_def)
  have n: "1 \<le> ?n" "?n \<le> nat (sm_k q)" using sim_block_k_bounds [OF q(1) sim_nblocks_def] by simp_all
  have st: "length (st_red st) = nat ?r" "\<forall>b\<in>set (st_red st). length b = ?L" "?n \<le> length (st_out st)" "\<forall>b\<in>set (st_out st). length b = ?L"
    using assms(2) n(2) by (auto simp: store_ok_def)
  have S: "0 < length ?S" "length ?S \<le> 128" using n q(2) by simp_all
  have enc: "sim_encode st True ?r ?L ?S = Ok (map (code_symbol ?S ?L) (red_points None (length ?S) (nat ?r)))"
    by (rule sim_encode_Ok [OF S q(3,4) sim_sources_shape(2) st(1,2)])
  obtain sl s1 where sl: "coins (sm_p q) ?n s = (sl, s1)" by fastforce
  obtain rl s2 where rl: "coins (sm_p q) (nat ?r) s1 = (rl, s2)" by fastforce
  have len: "length sl = length ?S" "length rl = nat ?r" using length_coins [of "sm_p q" ?n s] length_coins [of "sm_p q" "nat ?r" s1] sl rl by simp_all
  have ver: "sim_verify st True ?r ?L ?S (map (code_symbol ?S ?L) (red_points None (length ?S) (nat ?r))) sl rl = Ok 0"
    if "length ?S \<le> (length ?S + nat ?r) - (length (filter id sl) + length (filter id rl))"
    using sim_verify_zero [OF S sim_sources_shape(2) q(3,4) _ st(4) len that] st(3) by simp
  show ?thesis
    unfolding sim_block_def Let_def enc cres.case sim_sources_shape sl rl prod.case
    using ver by (simp add: clean_def split: option.splits bind_splits)
qed

lemma sim_blocks_clean:
  assumes "sim_accepts q" and "\<forall>b. store_ok q (st b)"
  shows "clean (sim_blocks st True q bs s)"
proof (induction bs arbitrary: s)
  case (Cons b bs)
  have "clean (sim_block (st b) True q b s)" by (rule sim_block_clean [OF assms(1) assms(2) [rule_format]])
  then consider "sim_block (st b) True q b s = None" | busted stall s' where "sim_block (st b) True q b s = Some (Ok (0, busted, stall, s'))"
    by (auto simp: clean_def split: option.splits cres.splits)
  then show ?case
  proof cases
    case 2
    have "clean (sim_blocks st True q bs s')" by (rule Cons.IH)
    then show ?thesis using 2 by (auto simp: clean_def split: option.splits cres.splits bind_splits)
  qed (simp add: clean_def)
qed (simp add: clean_def)

lemma sim_trials_clean:
  assumes "sim_accepts q" and "\<forall>n b. store_ok q (st n b)" and "recover_failures (fst acc) = 0"
  shows "sim_trials n st True q acc = None \<or> (\<exists>row s. sim_trials n st True q acc = Some (Ok (row, s)) \<and> recover_failures row = 0)"
  using assms(3)
proof (induction n arbitrary: acc)
  case 0
  then show ?case by (cases acc) simp
next
  case (Suc n)
  have b: "sim_blocks (st n) True q [0..<sim_nblocks q] s = None \<or>
      (\<exists>busted stall s'. sim_blocks (st n) True q [0..<sim_nblocks q] s = Some (Ok (0, busted, stall, s')))" for s
    using sim_blocks_clean [OF assms(1), of "st n" "[0..<sim_nblocks q]" s] assms(2) by (auto simp: clean_def split: option.splits cres.splits)
  have "sim_trial (st n) True q acc = None \<or> (\<exists>acc'. sim_trial (st n) True q acc = Some (Ok acc') \<and> recover_failures (fst acc') = 0)"
  proof (cases "tcp_losses q [0..<sim_segs q] (snd acc)")
    case (Some a)
    obtain st1 ls s1 where a: "tcp_losses q [0..<sim_segs q] (snd acc) = Some (st1, ls, s1)" using Some by (cases a) auto
    show ?thesis
    proof (cases "sack_stall ls (sim_segs q) (sm_p q) (window_segments (sm_rate_bps q) (sm_rtt_ms q) (sm_sym_len q)) (sm_rtt_ms q) (sm_rto_min q) s1")
      case (Some c)
      then show ?thesis using a b [of "snd c"] Suc.prems by (auto simp: sim_trial_def case_prod_beta)
    qed (simp add: sim_trial_def a case_prod_beta)
  qed (simp add: sim_trial_def case_prod_beta)
  then show ?case
  proof (elim disjE exE conjE)
    fix acc' assume "sim_trial (st n) True q acc = Some (Ok acc')" "recover_failures (fst acc') = 0"
    then show ?thesis using Suc.IH [of acc'] by simp
  qed simp
qed

text \<open>With valid parameters the driver never exits with 1 or 3: whenever its stalls end, every block that
  lost at most \<open>r\<close> symbols was rebuilt byte for byte.\<close>

lemma sim_main_no_failures:
  assumes "sim_accepts q" and "\<forall>n b. store_ok q (st n b)"
  shows "sim_main st False True q seed = None \<or>
    (\<exists>row. sim_main st False True q seed = Some (Ok (0, Some row)) \<and> recover_failures row = 0)"
proof -
  let ?a = "(\<lparr>sum_t_tcp = 0, sum_t_tcp_fast = 0, sum_t_fec = 0, sum_busted = 0, recover_failures = 0\<rparr>, if seed = 0 then 0x9e3779b9 else seed)"
  have "recover_failures (fst ?a) = 0" by simp
  from sim_trials_clean [OF assms this, of "nat (sm_trials q)"] show ?thesis
    using assms(1) by (auto simp: sim_main_def Let_def)
qed

text \<open>Without loss the stalls end at once, and the driver returns.\<close>

lemma coin_no_loss: "p \<le> 0 \<Longrightarrow> \<exists>s'. coin p s = (False, s')"
proof -
  assume p: "p \<le> 0"
  have "0 \<le> (of_int (uint (drop_bit 8 (rng_u32 s))) :: rat)" unfolding of_int_0_le_iff by (rule uint_ge_0)
  then have "p \<le> of_int (uint (drop_bit 8 (rng_u32 s))) / 16777216" using p by (intro order_trans [OF p] divide_nonneg_nonneg) simp_all
  then show ?thesis by (simp add: coin_def Let_def del: of_int_uint)
qed

lemma coins_no_loss: "p \<le> 0 \<Longrightarrow> \<exists>s'. coins p n s = (replicate n False, s')"
proof (induction n arbitrary: s)
  case (Suc n)
  obtain s1 where "coin p s = (False, s1)" using coin_no_loss [OF Suc.prems] by blast
  moreover obtain s2 where "coins p n s1 = (replicate n False, s2)" using Suc by blast
  ultimately show ?case by simp
qed simp

lemma losses_no_loss: "sm_p q \<le> 0 \<Longrightarrow> \<exists>s'. tcp_losses q is s = Some (0, [], s')"
proof (induction "is" arbitrary: s)
  case (Cons i "is")
  obtain s1 where "coin (sm_p q) s = (False, s1)" using coin_no_loss [OF Cons.prems] by blast
  then show ?case using Cons by simp
qed simp

lemma sim_main_returns:
  assumes "sim_accepts q" and "\<forall>n b. store_ok q (st n b)" and "sm_loss_pct q \<le> 0"
  shows "\<exists>row. sim_main st False True q seed = Some (Ok (0, Some row)) \<and> recover_failures row = 0"
proof -
  have p: "sm_p q \<le> 0" using assms(3) by simp
  have block: "sim_block st1 True q b s \<noteq> None" for b s and st1 :: sim_store
  proof -
    obtain s1 where "coins (sm_p q) (sim_block_k (nat (sm_k q)) (sim_segs q) (sim_nblocks q) b) s =
        (replicate (sim_block_k (nat (sm_k q)) (sim_segs q) (sim_nblocks q) b) False, s1)" using coins_no_loss [OF p] by blast
    then show ?thesis by (auto simp: sim_block_def Let_def split: cres.splits prod.splits)
  qed
  have blocks: "sim_blocks st1 True q bs s \<noteq> None" for bs s st1
  proof (induction bs arbitrary: s)
    case (Cons b bs)
    obtain res where r: "sim_block (st1 b) True q b s = Some res" using block [of "st1 b" b s] by blast
    show ?case
    proof (cases res)
      case (Ok x)
      obtain y where "sim_blocks st1 True q bs (snd (snd (snd x))) = Some y" using Cons.IH [of "snd (snd (snd x))"] by blast
      then show ?thesis using r Ok by (cases x) simp
    qed (simp_all add: r)
  qed simp
  have trial: "sim_trial st1 True q acc \<noteq> None" for acc st1
  proof -
    obtain s1 where "tcp_losses q [0..<sim_segs q] (snd acc) = Some (0, [], s1)" using losses_no_loss [OF p] by blast
    moreover obtain y where "sim_blocks st1 True q [0..<sim_nblocks q] s1 = Some y" using blocks [of st1 "[0..<sim_nblocks q]" s1] by blast
    ultimately show ?thesis by (simp add: sim_trial_def sack_stall_def case_prod_beta)
  qed
  have "sim_trials n st True q acc \<noteq> None" for n acc
  proof (induction n arbitrary: acc)
    case (Suc n)
    then show ?case using trial [of "st n" acc] by (auto split: bind_splits cres.splits)
  qed simp
  then have "\<exists>y. sim_trials n st True q acc = Some y" for n acc by blast
  then have "sim_main st False True q seed \<noteq> None" using assms(1) by (auto simp: sim_main_def Let_def split: bind_splits) (metis option.distinct(1))+
  note ne = this
  show ?thesis
  proof (rule disjE [OF sim_main_no_failures [OF assms(1,2), of seed]])
    assume "sim_main st False True q seed = None"
    then show ?thesis using ne by simp
  qed
qed

end
