(* ===== verification/Fec_Shim.thy ===== *)
theory Fec_Shim
  imports Fec_Codec
begin

text \<open>
  The flat interface \<open>tools/fec-demo/fecsim_shim.c\<close> over the block codec, called by the live demo: one shared
  context that is built on first use, sources and parity in flat buffers, a flag per symbol that arrived.
  The structures on the stack before their initialisation (\<open>enc\<close>, \<open>dec\<close>) and the result of the codec's
  allocations (\<open>mem\<close>) are arguments.  Shown: what is encoded and then loses at most \<open>r\<close> of its \<open>k + r\<close> symbols
  comes back byte for byte, and which return codes can occur.
\<close>

section \<open>The calls\<close>

text \<open>The shared context and its flag.\<close>

record fecsim =
  g_ctx :: fec_rs_ctx
  g_ready :: bool

definition ensure_ctx :: "fecsim \<Rightarrow> int \<times> fecsim" where
  "ensure_ctx g =
     (if \<not> g_ready g then
        (case fec_rs_init (Some (g_ctx g)) of
           Ok c \<Rightarrow> (0, g\<lparr>g_ctx := c, g_ready := True\<rparr>)
         | _ \<Rightarrow> (-1, g))
      else (0, g))"

definition fecsim_max_k :: int where "fecsim_max_k = FEC_BLK_MAX_K"
definition fecsim_max_r :: int where "fecsim_max_r = FEC_BLK_MAX_R"

definition fecsim_refuses :: "int \<Rightarrow> int \<Rightarrow> int \<Rightarrow> bool" where
  "fecsim_refuses k r sym_len \<longleftrightarrow> k < 1 \<or> k > FEC_BLK_MAX_K \<or> r < 1 \<or> r > FEC_BLK_MAX_R \<or> sym_len < 1"

text \<open>A pointer into a flat buffer is its offset; what the codec finds behind it are \<open>L\<close> bytes.\<close>

definition load_at :: "bytes \<Rightarrow> nat \<Rightarrow> nat \<Rightarrow> bytes option" where
  "load_at buf L p = (if in_bounds buf p L then Some (buf_read buf p L) else None)"

definition symbol :: "bytes \<Rightarrow> nat \<Rightarrow> nat \<Rightarrow> bytes" where
  "symbol buf L i = buf_read buf (i * L) L"

text \<open>Writing the results of the codec back through the pointers it was given.\<close>

definition store_symbols :: "nat \<Rightarrow> bytes option list \<Rightarrow> bytes \<Rightarrow> bytes" where
  "store_symbols L outs buf =
     fold (\<lambda>i buf. case outs ! i of Some b \<Rightarrow> buf_write buf (i * L) b | None \<Rightarrow> buf) [0..<length outs] buf"

definition fecsim_encode ::
  "nat fec_encoder \<Rightarrow> bool \<Rightarrow> bytes \<Rightarrow> int \<Rightarrow> int \<Rightarrow> int \<Rightarrow> bytes \<Rightarrow> fecsim \<Rightarrow> bytes cres \<times> fecsim" where
  "fecsim_encode enc mem src k r sym_len parity_out g =
     (let (rc, g) = ensure_ctx g; L = nat sym_len in
      (if rc \<noteq> 0 then Fail (-1)
       else if fecsim_refuses k r sym_len then Fail (-2)
       else case fec_encoder_init (Some enc) (Some (g_ctx g)) k r L None of
         UB \<Rightarrow> UB
       | Fail _ \<Rightarrow> Fail (-3)
       | Ok enc \<Rightarrow>
           if length src < nat k * L \<or> length parity_out < nat r * L then UB
           else (case fill_encoder (map (\<lambda>i. i * L) [0..<nat k]) enc of
             UB \<Rightarrow> UB
           | Fail _ \<Rightarrow> Fail (-4)
           | Ok enc \<Rightarrow>
               (case fec_encoder_generate (load_at src L) (Some enc)
                       (Some (map (\<lambda>j. Some (symbol parity_out L j)) [0..<nat r])) mem of
                  UB \<Rightarrow> UB
                | Fail _ \<Rightarrow> Fail (-5)
                | Ok ps \<Rightarrow> Ok (store_symbols L (map Some ps) parity_out))), g))"

text \<open>The two loops that hand the received symbols to the decoder; the results of its calls are ignored.\<close>

definition feed_sources :: "nat \<Rightarrow> nat \<Rightarrow> bytes \<Rightarrow> bytes \<Rightarrow> nat fec_decoder \<times> bytes \<times> int \<Rightarrow> nat fec_decoder \<times> bytes \<times> int" where
  "feed_sources k L present symbols =
     fold (\<lambda>i (dec, out, have_src).
        if present ! i \<noteq> 0 then
          (cres_val dec (fec_decoder_add_source (Some dec) (int i) (Some (i * L))),
           buf_write out (i * L) (symbol symbols L i), have_src + 1)
        else (dec, out, have_src)) [0..<k]"

definition feed_parity :: "nat \<Rightarrow> nat \<Rightarrow> nat \<Rightarrow> bytes \<Rightarrow> nat fec_decoder \<Rightarrow> nat fec_decoder" where
  "feed_parity k r L present =
     fold (\<lambda>j dec. if present ! (k + j) \<noteq> 0
        then cres_val dec (fec_decoder_add_redundant (Some dec) (int j) (Some ((k + j) * L))) else dec) [0..<r]"

text \<open>\<open>Ok (0, out)\<close>: every source is in \<open>out\<close>; \<open>Ok (1, out)\<close>: too few symbols.\<close>

definition fecsim_recover ::
  "nat fec_decoder \<Rightarrow> bool \<Rightarrow> bytes \<Rightarrow> bytes \<Rightarrow> int \<Rightarrow> int \<Rightarrow> int \<Rightarrow> bytes \<Rightarrow> fecsim \<Rightarrow> (int \<times> bytes) cres \<times> fecsim" where
  "fecsim_recover dec mem symbols present k r sym_len out g =
     (let (rc, g) = ensure_ctx g; L = nat sym_len; n = nat k in
      (if rc \<noteq> 0 then Fail (-1)
       else if fecsim_refuses k r sym_len then Fail (-2)
       else case fec_decoder_init (Some dec) (Some (g_ctx g)) k r L None of
         UB \<Rightarrow> UB
       | Fail _ \<Rightarrow> Fail (-3)
       | Ok dec \<Rightarrow>
           if length symbols < (n + nat r) * L \<or> length present < n + nat r \<or> length out < n * L then UB
           else
             let (dec, out, have_src) = feed_sources n L present symbols (dec, out, 0);
                 dec = feed_parity n (nat r) L present dec in
             if have_src = k then Ok (0, out)
             else if \<not> fec_decoder_recoverable (Some dec) then Ok (1, out)
             else let outp = map (\<lambda>i. if present ! i \<noteq> 0 then None else Some (symbol out L i)) [0..<n] in
               (case fec_decoder_recover (load_at symbols L) (Some dec) (Some outp) mem of
                  UB \<Rightarrow> UB
                | Fail _ \<Rightarrow> Fail (-4)
                | Ok outs \<Rightarrow> Ok (0, store_symbols L outs out)), g))"

section \<open>Flat buffers of symbols\<close>

definition symbols_of :: "nat \<Rightarrow> nat \<Rightarrow> bytes \<Rightarrow> bytes list" where
  "symbols_of L n buf = map (symbol buf L) [0..<n]"

lemma symbols_eqI:
  assumes "length a = n * L" and "length b = n * L" and "\<And>i. i < n \<Longrightarrow> symbol a L i = symbol b L i"
  shows "a = b"
proof (rule nth_equalityI)
  fix j assume "j < length a"
  then have j: "j < n * L" using assms(1) by simp
  then have L: "0 < L" and i: "j div L < n" by (cases L; simp add: less_mult_imp_div_less)+
  have nth: "symbol c L (j div L) ! (j mod L) = c ! j" if "length c = n * L" for c
  proof -
    have "in_bounds c (j div L * L) L" by (rule slot_in_bounds [OF i that])
    then show ?thesis using L by (simp add: symbol_def buf_read_def in_bounds_def)
  qed
  show "a ! j = b ! j" using assms(3) [OF i] nth [OF assms(1)] nth [OF assms(2)] by simp
qed (use assms in simp)

lemma symbol_write:
  assumes "length c = n * L" and "m < n" and "length b = L"
  shows "length (buf_write c (m * L) b) = n * L"
    and "i < n \<Longrightarrow> symbol (buf_write c (m * L) b) L i = (if m = i then b else symbol c L i)"
proof -
  have "in_bounds c (m * L) (length b)" using assms by (simp add: slot_in_bounds)
  then show "length (buf_write c (m * L) b) = n * L" using assms(1) by (simp add: length_buf_write)
  assume "i < n"
  then show "symbol (buf_write c (m * L) b) L i = (if m = i then b else symbol c L i)"
    unfolding symbol_def by (rule slot_read_write [OF assms(1,2) _ assms(3)])
qed

lemma store_symbols_upt:
  assumes "length buf = n * L" and "length outs \<le> n" and "\<forall>i<length outs. \<forall>b. outs ! i = Some b \<longrightarrow> length b = L"
  shows "length (store_symbols L outs buf) = n * L \<and>
    (\<forall>i<n. symbol (store_symbols L outs buf) L i =
       (if i < length outs then case outs ! i of Some b \<Rightarrow> b | None \<Rightarrow> symbol buf L i else symbol buf L i))"
proof -
  let ?f = "\<lambda>i buf. case outs ! i of Some b \<Rightarrow> buf_write buf (i * L) b | None \<Rightarrow> buf"
  let ?P = "\<lambda>m c. length c = n * L \<and>
    (\<forall>i<n. symbol c L i = (if i < m then case outs ! i of Some b \<Rightarrow> b | None \<Rightarrow> symbol buf L i else symbol buf L i))"
  have "?P (length outs) (fold ?f [0..<length outs] buf)"
  proof (rule fold_invariant_upt [where P = ?P])
    fix m c assume m: "m < length outs" and P: "?P m c"
    show "?P (Suc m) (?f m c)"
    proof (cases "outs ! m")
      case (Some b)
      have b: "length b = L" and mn: "m < n" using Some m assms(2,3) by auto
      have "length c = n * L" using P by simp
      then show ?thesis using P Some by (auto simp: symbol_write [OF _ mn b] less_Suc_eq)
    qed (use P in \<open>auto simp: less_Suc_eq\<close>)
  qed (use assms(1) in simp_all)
  then show ?thesis by (simp add: store_symbols_def)
qed

lemmas store_symbols_simps = store_symbols_upt [THEN conjunct1] store_symbols_upt [THEN conjunct2]

section \<open>What the two calls compute\<close>

definition got :: "bytes \<Rightarrow> nat \<Rightarrow> nat list" where
  "got present n = filter (\<lambda>i. present ! i \<noteq> 0) [0..<n]"

lemma got_Suc: "got present (Suc n) = got present n @ (if present ! n \<noteq> 0 then [n] else [])"
  by (simp add: got_def)

lemma set_got: "set (got present n) = {i. i < n \<and> present ! i \<noteq> 0}"
  by (auto simp: got_def)

lemma length_got: "length (got present n) = card {i. i < n \<and> present ! i \<noteq> 0}"
  unfolding set_got [symmetric] by (rule distinct_card [symmetric]) (simp add: got_def)

lemma feed_sources_eq:
  assumes "length out = N * L" and "n \<le> N" and "length symbols = M * L" and "N \<le> M"
  shows "\<exists>out'. feed_sources n L present symbols (dec, out, 0) =
      (fold absorb (map (\<lambda>i. Source i (i * L)) (got present n)) dec, out', int (length (got present n))) \<and>
    length out' = N * L \<and> (\<forall>i<N. symbol out' L i = (if i < n \<and> present ! i \<noteq> 0 then symbol symbols L i else symbol out L i))"
  using assms(2)
proof (induction n)
  case 0
  then show ?case using assms(1) by (simp add: feed_sources_def got_def)
next
  case (Suc n)
  obtain out' where IH: "feed_sources n L present symbols (dec, out, 0) =
      (fold absorb (map (\<lambda>i. Source i (i * L)) (got present n)) dec, out', int (length (got present n)))"
    "length out' = N * L" "\<forall>i<N. symbol out' L i = (if i < n \<and> present ! i \<noteq> 0 then symbol symbols L i else symbol out L i)"
    using Suc by auto
  have sl: "length (symbol symbols L n) = L"
    unfolding symbol_def by (rule length_buf_read, rule slot_in_bounds [where n = M]) (use Suc.prems assms in auto)
  have n: "n < N" using Suc.prems by simp
  have step: "feed_sources (Suc n) L present symbols (dec, out, 0) =
      (if present ! n \<noteq> 0 then (absorb (Source n (n * L)) (fold absorb (map (\<lambda>i. Source i (i * L)) (got present n)) dec),
           buf_write out' (n * L) (symbol symbols L n), int (length (got present n)) + 1)
       else (fold absorb (map (\<lambda>i. Source i (i * L)) (got present n)) dec, out', int (length (got present n))))"
    using IH(1) by (simp add: feed_sources_def)
  show ?case
  proof (cases "present ! n \<noteq> 0")
    case True
    then show ?thesis unfolding step got_Suc using IH(3) n
      by (auto simp: symbol_write [OF IH(2) n sl] less_Suc_eq)
  next
    case False
    then show ?thesis unfolding step got_Suc using IH(2,3) by (auto simp: less_Suc_eq)
  qed
qed

lemma feed_parity_eq:
  "feed_parity k r L present dec =
     fold absorb (map (\<lambda>j. Redundant j ((k + j) * L)) (filter (\<lambda>j. present ! (k + j) \<noteq> 0) [0..<r])) dec"
  by (induction r) (simp_all add: feed_parity_def)

definition shim_arrivals :: "nat \<Rightarrow> nat \<Rightarrow> nat \<Rightarrow> bytes \<Rightarrow> nat arrival list" where
  "shim_arrivals k r L present =
     map (\<lambda>i. Source i (i * L)) (got present k) @
     map (\<lambda>j. Redundant j ((k + j) * L)) (filter (\<lambda>j. present ! (k + j) \<noteq> 0) [0..<r])"

lemma shim_arrived:
  "arrived_src (shim_arrivals k r L present) = {i. i < k \<and> present ! i \<noteq> 0}"
  "arrived_red (shim_arrivals k r L present) = {j. j < r \<and> present ! (k + j) \<noteq> 0}"
  by (auto simp: shim_arrivals_def arrived_src_def arrived_red_def got_def)

lemma card_shim_arrived:
  "card (arrived_src (shim_arrivals k r L present)) + card (arrived_red (shim_arrivals k r L present)) =
     card {i. i < k + r \<and> present ! i \<noteq> 0}"
proof -
  let ?A = "{i. i < k \<and> present ! i \<noteq> 0}" and ?B = "{j. j < r \<and> present ! (k + j) \<noteq> 0}"
  have "{i. i < k + r \<and> present ! i \<noteq> 0} = ?A \<union> (+) k ` ?B"
  proof (rule set_eqI)
    fix i
    show "i \<in> {i. i < k + r \<and> present ! i \<noteq> 0} \<longleftrightarrow> i \<in> ?A \<union> (+) k ` ?B"
      by (cases "i < k") (auto simp: image_iff intro!: exI [of _ "i - k"])
  qed
  moreover have "card (?A \<union> (+) k ` ?B) = card ?A + card ((+) k ` ?B)" by (rule card_Un_disjoint) auto
  moreover have "card ((+) k ` ?B) = card ?B" by (rule card_image) simp
  ultimately show ?thesis by (simp add: shim_arrived)
qed

lemma ensure_ctx_eq:
  assumes "g_ready g \<Longrightarrow> g_ctx g = fec_shared_ctx"
  shows "ensure_ctx g = (0, \<lparr>g_ctx = fec_shared_ctx, g_ready = True\<rparr>)"
  using assms by (cases g) (simp add: ensure_ctx_def fec_rs_init_Some)

abbreviation shim_ready :: "fecsim \<Rightarrow> bool" where
  "shim_ready g \<equiv> g_ready g \<longrightarrow> g_ctx g = fec_shared_ctx"

lemma load_symbol: "i < n \<Longrightarrow> length buf = n * L \<Longrightarrow> load_at buf L (i * L) = Some (symbol buf L i)"
  by (simp add: load_at_def symbol_def slot_in_bounds)

lemma length_symbol: "i < n \<Longrightarrow> length buf = n * L \<Longrightarrow> length (symbol buf L i) = L"
  unfolding symbol_def by (intro length_buf_read slot_in_bounds)

lemma symbols_of_shape [simp]: "length (symbols_of L n buf) = n" "i < n \<Longrightarrow> symbols_of L n buf ! i = symbol buf L i"
  by (simp_all add: symbols_of_def)

lemma symbols_of_length: "length buf = n * L \<Longrightarrow> \<forall>x\<in>set (symbols_of L n buf). length x = L"
  by (auto simp: symbols_of_def intro: length_symbol)

definition shim_parity :: "nat \<Rightarrow> nat \<Rightarrow> nat \<Rightarrow> bytes \<Rightarrow> nat \<Rightarrow> bytes" where
  "shim_parity k r L src j = code_symbol (symbols_of L k src) L (red_points None k r ! j)"

lemma fecsim_encode_Ok:
  assumes "0 < k" and "k \<le> 128" and "0 < r" and "r \<le> 32" and "0 < L" and "length src = k * L" and "length out = r * L" and "shim_ready g"
  shows "\<exists>par. fecsim_encode enc True src (int k) (int r) (int L) out g = (Ok par, \<lparr>g_ctx = fec_shared_ctx, g_ready = True\<rparr>) \<and>
    length par = r * L \<and> (\<forall>j<r. symbol par L j = shim_parity k r L src j)"
proof -
  let ?S = "symbols_of L k src" and ?outs = "map (symbol out L) [0..<r]" and ?ps = "map (\<lambda>i. i * L) [0..<k]"
  let ?par = "map (code_symbol ?S L) (red_points None k r)"
  obtain e where "fec_encoder_init (Some enc) (Some fec_shared_ctx) (int k) (int r) L None = Ok e"
    using default_inits(1) [of k "int r" enc fec_shared_ctx L] assms by auto
  then have e: "fec_encoder_init (Some enc) (Some fec_shared_ctx) (int (length ?S)) (int r) L None = Ok e" by simp
  have "map (load_at src L) ?ps = map Some ?S" by (rule nth_equalityI) (simp_all add: load_symbol [OF _ assms(6)])
  then obtain e' where e': "fill_encoder ?ps e = Ok e'"
    "fec_encoder_generate (load_at src L) (Some e') (Some (map Some ?outs)) True = Ok ?par"
    using encode_block [OF e symbols_of_length [OF assms(6)], of "load_at src L" ?ps ?outs] length_symbol [OF _ assms(7)] by auto
  have m: "map (\<lambda>j. Some (symbol out L j)) [0..<r] = map Some ?outs" by simp
  have ok: "\<not> fecsim_refuses (int k) (int r) (int L)"
    using assms by (simp add: fecsim_refuses_def FEC_BLK_MAX_K_def FEC_BLK_MAX_R_def)
  have "fecsim_encode enc True src (int k) (int r) (int L) out g =
      (Ok (store_symbols L (map Some ?par) out), \<lparr>g_ctx = fec_shared_ctx, g_ready = True\<rparr>)"
    unfolding fecsim_encode_def Let_def using ensure_ctx_eq [of g] assms(6-8) ok e e' by (simp add: m del: map_map)
  moreover have "length (store_symbols L (map Some ?par) out) = r * L"
    "\<forall>j<r. symbol (store_symbols L (map Some ?par) out) L j = shim_parity k r L src j"
    using store_symbols_simps [of out r L "map Some ?par"] assms(7) by (simp_all add: shim_parity_def)
  ultimately show ?thesis by blast
qed

text \<open>The symbols that a receiver holds agree with what was sent wherever they are marked as present.\<close>

definition shim_received :: "nat \<Rightarrow> nat \<Rightarrow> nat \<Rightarrow> bytes \<Rightarrow> bytes \<Rightarrow> bytes \<Rightarrow> bytes \<Rightarrow> bool" where
  "shim_received k r L src par present symbols \<longleftrightarrow>
     length symbols = (k + r) * L \<and> length present = k + r \<and>
     (\<forall>i<k + r. present ! i \<noteq> 0 \<longrightarrow> symbol symbols L i = (if i < k then symbol src L i else symbol par L (i - k)))"

text \<open>The decoder after both loops, and the copies made on the way.\<close>

lemma shim_state:
  assumes "0 < k" and "k \<le> 128" and "0 < r" and "r \<le> 32" and "0 < L" and "length src = k * L" and "length out = k * L"
    and "\<forall>j<r. symbol par L j = shim_parity k r L src j" and rx: "shim_received k r L src par present symbols"
  shows "\<exists>d0 d out'. fec_decoder_init (Some dec) (Some fec_shared_ctx) (int k) (int r) L None = Ok d0 \<and>
    feed_sources k L present symbols (d0, out, 0) = (fold absorb (map (\<lambda>i. Source i (i * L)) (got present k)) d0, out', int (length (got present k))) \<and>
    feed_parity k r L present (fold absorb (map (\<lambda>i. Source i (i * L)) (got present k)) d0) = d \<and>
    length out' = k * L \<and> (\<forall>i<k. present ! i \<noteq> 0 \<longrightarrow> symbol out' L i = symbol src L i) \<and>
    dec_tracks (load_at symbols L) (symbols_of L k src) L (red_points None k r)
      {i. i < k \<and> present ! i \<noteq> 0} {j. j < r \<and> present ! (k + j) \<noteq> 0} d"
proof -
  let ?S = "symbols_of L k src" and ?as = "shim_arrivals k r L present" and ?rx = "red_points None k r"
  have len: "length symbols = (k + r) * L" "length present = k + r" using rx by (simp_all add: shim_received_def)
  obtain d0 where d0: "fec_decoder_init (Some dec) (Some fec_shared_ctx) (int k) (int r) L None = Ok d0"
    using default_inits(2) [of k "int r" dec fec_shared_ctx L] assms by auto
  then have d0': "fec_decoder_init (Some dec) (Some fec_shared_ctx) (int (length ?S)) (int r) L None = Ok d0" by simp
  have "honest (load_at symbols L) ?S L ?rx a" if a: "a \<in> set ?as" for a
  proof -
    from a consider i where "a = Source i (i * L)" "i < k" "present ! i \<noteq> 0"
      | j where "a = Redundant j ((k + j) * L)" "j < r" "present ! (k + j) \<noteq> 0"
      by (auto simp: shim_arrivals_def got_def)
    then show ?thesis
    proof cases
      case 1
      then show ?thesis using rx load_symbol [OF _ len(1), of i] by (simp add: shim_received_def)
    next
      case 2
      then show ?thesis using rx load_symbol [OF _ len(1), of "k + j"] assms(8) by (simp add: shim_received_def shim_parity_def del: add_mult_distrib)
    qed
  qed
  then have "dec_tracks (load_at symbols L) ?S L ?rx (arrived_src ?as) (arrived_red ?as) (fold absorb ?as d0)"
    using absorb_all [OF decoder_init_tracks(1) [OF d0', where load = "load_at symbols L"], of ?as] by simp
  note t = this [unfolded shim_arrived]
  obtain out' where o: "feed_sources k L present symbols (d0, out, 0) =
      (fold absorb (map (\<lambda>i. Source i (i * L)) (got present k)) d0, out', int (length (got present k)))" "length out' = k * L"
    "\<forall>i<k. symbol out' L i = (if i < k \<and> present ! i \<noteq> 0 then symbol symbols L i else symbol out L i)"
    using feed_sources_eq [OF assms(7) order_refl len(1), of present d0] by auto
  have "\<forall>i<k. present ! i \<noteq> 0 \<longrightarrow> symbol out' L i = symbol src L i" using o(3) rx by (simp add: shim_received_def)
  moreover have "feed_parity k r L present (fold absorb (map (\<lambda>i. Source i (i * L)) (got present k)) d0) = fold absorb ?as d0"
    by (simp add: feed_parity_eq shim_arrivals_def)
  ultimately show ?thesis using d0 o(1,2) t by blast
qed

lemma all_got_iff: "length (got present k) = k \<longleftrightarrow> (\<forall>i<k. present ! i \<noteq> 0)"
proof
  assume eq: "length (got present k) = k"
  show "\<forall>i<k. present ! i \<noteq> 0"
  proof (rule ccontr)
    assume "\<not> (\<forall>i<k. present ! i \<noteq> 0)"
    then obtain i where "i \<in> set [0..<k]" "\<not> present ! i \<noteq> 0" by auto
    then show False using eq length_filter_less [of i "[0..<k]" "\<lambda>i. present ! i \<noteq> 0"] by (simp add: got_def)
  qed
qed (simp add: got_def)

lemma all_present_eq:
  assumes "length out' = k * L" and "length src = k * L" and "\<forall>i<k. symbol out' L i = symbol src L i"
  shows "out' = src"
  by (rule symbols_eqI [OF assms(1,2)]) (use assms(3) in simp)

theorem fecsim_recovers:
  assumes "0 < k" and "k \<le> 128" and "0 < r" and "r \<le> 32" and "0 < L" and "length src = k * L" and "length out = k * L" and "shim_ready g"
    and "\<forall>j<r. symbol par L j = shim_parity k r L src j" and "shim_received k r L src par present symbols"
    and "k \<le> card {i. i < k + r \<and> present ! i \<noteq> 0}"
  shows "fecsim_recover dec True symbols present (int k) (int r) (int L) out g = (Ok (0, src), \<lparr>g_ctx = fec_shared_ctx, g_ready = True\<rparr>)"
proof -
  let ?A = "{i. i < k \<and> present ! i \<noteq> 0}" and ?B = "{j. j < r \<and> present ! (k + j) \<noteq> 0}" and ?S = "symbols_of L k src"
  obtain d0 d out' where s: "fec_decoder_init (Some dec) (Some fec_shared_ctx) (int k) (int r) L None = Ok d0"
    "feed_sources k L present symbols (d0, out, 0) = (fold absorb (map (\<lambda>i. Source i (i * L)) (got present k)) d0, out', int (length (got present k)))"
    "feed_parity k r L present (fold absorb (map (\<lambda>i. Source i (i * L)) (got present k)) d0) = d"
    "length out' = k * L" "\<forall>i<k. present ! i \<noteq> 0 \<longrightarrow> symbol out' L i = symbol src L i"
    and t: "dec_tracks (load_at symbols L) ?S L (red_points None k r) ?A ?B d"
    using shim_state [OF assms(1-7,9,10), of dec] by blast
  have ok: "\<not> fecsim_refuses (int k) (int r) (int L)"
    using assms by (simp add: fecsim_refuses_def FEC_BLK_MAX_K_def FEC_BLK_MAX_R_def)
  have len: "length symbols = (k + r) * L" "length present = k + r" using assms(10) by (simp_all add: shim_received_def)
  have rec: "fec_decoder_recoverable (Some d)"
    using tracks_recoverable_iff [OF t] card_shim_arrived [of k r L present] assms(11) by (simp add: shim_arrived subset_iff)
  have f: "dec_wf d" "dec_k d = int k" "dec_sym_len d = L" "dec_holds (load_at symbols L) ?S d" "take (nat (dec_r d)) (dec_red_x d) = red_points None k r"
    "\<forall>i<k. dec_src_present d ! i \<longleftrightarrow> present ! i \<noteq> 0"
    using t by (auto simp: dec_tracks_def)
  let ?outp = "map (\<lambda>i. if present ! i \<noteq> 0 then None else Some (symbol out' L i)) [0..<k]"
  have "block_ok ?S L" using assms(1,2) symbols_of_length [OF assms(6)] by (simp add: block_ok_def symbols_of_def)
  moreover have "distinct (source_points (length ?S) @ red_points None k r)" using assms by (simp add: distinct_default_points del: distinct_append)
  moreover have "\<exists>b. ?outp ! i = Some b \<and> length b = L" if "i < k" "\<not> dec_src_present d ! i" for i
    using that f(6) length_symbol [OF _ s(4)] by auto
  ultimately obtain o' where o': "fec_decoder_recover (load_at symbols L) (Some d) (Some ?outp) True = Ok o'" "length o' = k"
    "\<forall>i<k. o' ! i = (if i < k \<and> \<not> dec_src_present d ! i then Some (?S ! i) else ?outp ! i)"
    using recover_any_k [of d ?S "load_at symbols L" ?outp] f rec by (auto simp del: distinct_append)
  have O: "\<forall>i<k. o' ! i = (if present ! i \<noteq> 0 then None else Some (symbol src L i))" using o'(3) f(6) by auto
  have st: "length (store_symbols L o' out') = k * L" "\<forall>i<k. symbol (store_symbols L o' out') L i = symbol src L i"
    using store_symbols_simps [of out' k L o'] s(4,5) O o'(2) length_symbol [OF _ assms(6)] by auto
  have full: "out' = src" if "int (length (got present k)) = int k"
    using that s(4,5) assms(6) all_got_iff [of present k] by (intro all_present_eq [of _ k L]) auto
  have "store_symbols L o' out' = src" by (rule all_present_eq [OF st(1) assms(6) st(2)])
  then show ?thesis
    unfolding fecsim_recover_def Let_def nat_int using ensure_ctx_eq [of g] assms(7,8) ok s(1-3) len rec o'(1) full by simp
qed

theorem fecsim_gives_up:
  assumes "0 < k" and "k \<le> 128" and "0 < r" and "r \<le> 32" and "0 < L" and "length src = k * L" and "length out = k * L" and "shim_ready g"
    and "\<forall>j<r. symbol par L j = shim_parity k r L src j" and "shim_received k r L src par present symbols"
    and "card {i. i < k + r \<and> present ! i \<noteq> 0} < k"
  shows "\<exists>out'. fecsim_recover dec mem symbols present (int k) (int r) (int L) out g = (Ok (1, out'), \<lparr>g_ctx = fec_shared_ctx, g_ready = True\<rparr>) \<and>
    length out' = k * L \<and> (\<forall>i<k. present ! i \<noteq> 0 \<longrightarrow> symbol out' L i = symbol src L i)"
proof -
  let ?A = "{i. i < k \<and> present ! i \<noteq> 0}" and ?B = "{j. j < r \<and> present ! (k + j) \<noteq> 0}"
  obtain d0 d out' where s: "fec_decoder_init (Some dec) (Some fec_shared_ctx) (int k) (int r) L None = Ok d0"
    "feed_sources k L present symbols (d0, out, 0) = (fold absorb (map (\<lambda>i. Source i (i * L)) (got present k)) d0, out', int (length (got present k)))"
    "feed_parity k r L present (fold absorb (map (\<lambda>i. Source i (i * L)) (got present k)) d0) = d"
    "length out' = k * L" "\<forall>i<k. present ! i \<noteq> 0 \<longrightarrow> symbol out' L i = symbol src L i"
    and t: "dec_tracks (load_at symbols L) (symbols_of L k src) L (red_points None k r) ?A ?B d"
    using shim_state [OF assms(1-7,9,10), of dec] by blast
  have ok: "\<not> fecsim_refuses (int k) (int r) (int L)"
    using assms by (simp add: fecsim_refuses_def FEC_BLK_MAX_K_def FEC_BLK_MAX_R_def)
  have len: "length symbols = (k + r) * L" "length present = k + r" using assms(10) by (simp_all add: shim_received_def)
  have rec: "\<not> fec_decoder_recoverable (Some d)"
    using tracks_recoverable_iff [OF t] card_shim_arrived [of k r L present] assms(11) by (simp add: shim_arrived subset_iff)
  have "card ?A < k" using card_shim_arrived [of k r L present] assms(11) by (simp add: shim_arrived)
  then have "length (got present k) \<noteq> k" by (simp add: length_got)
  then show ?thesis
    unfolding fecsim_recover_def Let_def nat_int using ensure_ctx_eq [of g] assms(7,8) ok s len rec by simp
qed

section \<open>The demo's promise\<close>

text \<open>Encode, lose symbols, recover: with at least \<open>k\<close> of the \<open>k + r\<close> symbols the call returns 0 and the
  sources, with fewer it returns 1 and leaves what survived.\<close>

theorem fecsim_roundtrip:
  assumes "0 < k" and "k \<le> 128" and "0 < r" and "r \<le> 32" and "0 < L" and "length src = k * L" and "length out = k * L"
    and "length parity_out = r * L" and "shim_ready g"
    and enc: "fecsim_encode enc True src (int k) (int r) (int L) parity_out g = (Ok par, g')"
    and rx: "shim_received k r L src par present symbols"
  shows "if k \<le> card {i. i < k + r \<and> present ! i \<noteq> 0}
    then fst (fecsim_recover dec True symbols present (int k) (int r) (int L) out g') = Ok (0, src)
    else \<exists>out'. fst (fecsim_recover dec True symbols present (int k) (int r) (int L) out g') = Ok (1, out') \<and>
           (\<forall>i<k. present ! i \<noteq> 0 \<longrightarrow> symbol out' L i = symbol src L i)"
proof -
  have par: "\<forall>j<r. symbol par L j = shim_parity k r L src j" and g: "shim_ready g'"
    using fecsim_encode_Ok [OF assms(1-6,8,9), of enc] enc by auto
  show ?thesis
    using fecsim_recovers [OF assms(1-7) g par rx, of dec] fecsim_gives_up [OF assms(1-7) g par rx, of dec True] by auto
qed

text \<open>Of the error codes only -2, for the geometry, and -5 or -4, for memory, can occur.\<close>

lemma fecsim_encode_codes:
  assumes "shim_ready g" and "fst (fecsim_encode enc mem src k r sym_len parity_out g) = Fail c"
  shows "c = -2 \<and> fecsim_refuses k r sym_len \<or> c = -5 \<and> \<not> fecsim_refuses k r sym_len"
proof (cases "fecsim_refuses k r sym_len")
  case True
  then show ?thesis using assms ensure_ctx_eq [of g] by (simp add: fecsim_encode_def)
next
  case False
  then have b: "0 < nat k" "nat k \<le> 128" "0 < r" "r \<le> 32" "int (nat k) = k"
    by (auto simp: fecsim_refuses_def FEC_BLK_MAX_K_def FEC_BLK_MAX_R_def)
  obtain e where e: "fec_encoder_init (Some enc) (Some fec_shared_ctx) k r (nat sym_len) None = Ok e"
    using default_inits(1) [OF b(1-4), of enc fec_shared_ctx "nat sym_len"] b(5) by auto
  obtain e' where "fill_encoder (map (\<lambda>i. i * nat sym_len) [0..<nat k]) e = Ok e'"
    using fill_encoder_Ok [OF enc_wf_init(1) [OF e], of "map (\<lambda>i. i * nat sym_len) [0..<nat k]"] enc_wf_init [OF e] b by auto
  then show ?thesis using assms ensure_ctx_eq [of g] False e by (auto simp: fecsim_encode_def Let_def split: if_splits cres.splits)
qed

lemma fecsim_recover_codes:
  assumes "shim_ready g" and "fst (fecsim_recover dec mem symbols present k r sym_len out g) = Fail c"
  shows "c = -2 \<and> fecsim_refuses k r sym_len \<or> c = -4 \<and> \<not> fecsim_refuses k r sym_len"
proof (cases "fecsim_refuses k r sym_len")
  case True
  then show ?thesis using assms ensure_ctx_eq [of g] by (simp add: fecsim_recover_def)
next
  case False
  then have b: "0 < nat k" "nat k \<le> 128" "0 < r" "r \<le> 32" "int (nat k) = k"
    by (auto simp: fecsim_refuses_def FEC_BLK_MAX_K_def FEC_BLK_MAX_R_def)
  obtain d where "fec_decoder_init (Some dec) (Some fec_shared_ctx) k r (nat sym_len) None = Ok d"
    using default_inits(2) [OF b(1-4), of dec fec_shared_ctx "nat sym_len"] b(5) by auto
  then show ?thesis using assms ensure_ctx_eq [of g] False by (auto simp: fecsim_recover_def Let_def split: if_splits cres.splits prod.splits)
qed

end
