(* ===== verification/Wire.thy ===== *)
theory Wire
  imports Main Prelude
begin

text \<open>
  The wire formats: the TCP option walker of \<open>src/tcp_optparse.c\<close>, the option kinds and
  FEC structures of \<open>include/tcp_optparse.h\<close> and \<open>include/fec_frame.h\<close>, and the packed
  \<open>struct tcphdr\<close> and \<open>struct iphdr\<close>.  A pointer into a packet is an index into the bytes of
  the allocation it points into, so a read past the allocation is visible as \<open>UB\<close>.
\<close>

section \<open>Constants\<close>

definition TCP_OPT_END :: u8 where "TCP_OPT_END = 0"
definition TCP_OPT_NOOP :: u8 where "TCP_OPT_NOOP = 1"
definition TCP_OPT_MSS :: u8 where "TCP_OPT_MSS = 2"
definition TCP_OPTLEN_MSS :: u8 where "TCP_OPTLEN_MSS = 4"
definition TCP_OPT_SACK_OK :: u8 where "TCP_OPT_SACK_OK = 4"
definition TCP_OPT_SACK :: u8 where "TCP_OPT_SACK = 5"
definition TCP_OPTLEN_SACK :: u8 where "TCP_OPTLEN_SACK = 2"
definition TCP_OPT_TS :: u8 where "TCP_OPT_TS = 8"

definition FEC_WIRE_VERSION :: u8 where "FEC_WIRE_VERSION = 1"
definition TCP_OPT_FEC_PERM :: u8 where "TCP_OPT_FEC_PERM = 30"
definition TCP_OPT_FEC :: u8 where "TCP_OPT_FEC = 31"
definition TCP_OPTLEN_FEC_PERM :: u8 where "TCP_OPTLEN_FEC_PERM = 8"
definition TCP_OPTLEN_FEC :: u8 where "TCP_OPTLEN_FEC = 8"
definition TCP_FEC_DEFAULT_K :: u8 where "TCP_FEC_DEFAULT_K = 8"
definition TCP_FEC_DEFAULT_R :: u8 where "TCP_FEC_DEFAULT_R = 2"
definition TCP_FEC_DEFAULT_SYM_LEN :: u16 where "TCP_FEC_DEFAULT_SYM_LEN = 512"
definition FEC_SYM_SOURCE :: u8 where "FEC_SYM_SOURCE = 0"
definition FEC_SYM_REPAIR :: u8 where "FEC_SYM_REPAIR = 1"

lemmas opt_consts =
  TCP_OPT_END_def TCP_OPT_NOOP_def TCP_OPT_MSS_def TCP_OPTLEN_MSS_def TCP_OPT_SACK_OK_def
  TCP_OPT_SACK_def TCP_OPTLEN_SACK_def TCP_OPT_TS_def

lemmas fec_consts =
  FEC_WIRE_VERSION_def TCP_OPT_FEC_PERM_def TCP_OPT_FEC_def TCP_OPTLEN_FEC_PERM_def
  TCP_OPTLEN_FEC_def TCP_FEC_DEFAULT_K_def TCP_FEC_DEFAULT_R_def TCP_FEC_DEFAULT_SYM_LEN_def
  FEC_SYM_SOURCE_def FEC_SYM_REPAIR_def

section \<open>The option walker\<close>

record tcp_parsed_opts =
  po_sack_ok :: bool
  po_ts_seen :: bool
  po_fec_perm :: bool
  po_mss :: u16

definition no_opts :: tcp_parsed_opts where
  "no_opts = \<lparr>po_sack_ok = False, po_ts_seen = False, po_fec_perm = False, po_mss = 0\<rparr>"

text \<open>The body of the \<open>switch\<close>: the option at \<open>ptr\<close> has the kind and length already read.
  The FEC-permitted case loads \<open>ptr[6]\<close> and \<open>ptr[7]\<close> before it looks at the length.\<close>

definition walk_option ::
  "bytes \<Rightarrow> nat \<Rightarrow> u8 \<Rightarrow> u8 \<Rightarrow> tcp_parsed_opts \<Rightarrow> tcp_parsed_opts cres" where
  "walk_option mem ptr kind len out =
     (if kind = TCP_OPT_MSS then
        if len = TCP_OPTLEN_MSS then
          if \<not> in_bounds mem ptr 4 then UB
          else let mss = of_be16 (mem ! (ptr + 2)) (mem ! (ptr + 3)) in
               if 536 < mss \<and> mss \<le> 1460 then Ok (out\<lparr>po_mss := mss\<rparr>) else Ok out
        else Ok out
      else if kind = TCP_OPT_SACK_OK then Ok (out\<lparr>po_sack_ok := True\<rparr>)
      else if kind = TCP_OPT_TS then Ok (out\<lparr>po_ts_seen := True\<rparr>)
      else if kind = TCP_OPT_FEC_PERM then
        if \<not> in_bounds mem ptr 8 then UB
        else let sym_len = of_be16 (mem ! (ptr + 6)) (mem ! (ptr + 7)) in
             if len = TCP_OPTLEN_FEC_PERM \<and> mem ! (ptr + 2) = FEC_WIRE_VERSION \<and>
                mem ! (ptr + 3) = TCP_FEC_DEFAULT_K \<and> mem ! (ptr + 4) = TCP_FEC_DEFAULT_R \<and>
                sym_len = TCP_FEC_DEFAULT_SYM_LEN
             then Ok (out\<lparr>po_fec_perm := True\<rparr>) else Ok out
      else Ok out)"

lemma optlen_decreases:
  fixes optlen len :: u8
  assumes "len \<noteq> 0" and "len \<le> optlen"
  shows "unat (optlen - len) < unat optlen"
proof -
  have "0 < unat len" using assms(1) by (simp add: unat_gt_0)
  moreover have "unat len \<le> unat optlen" using assms(2) by (simp add: word_le_nat_alt)
  ultimately show ?thesis using assms(2) by (simp add: unat_sub)
qed

function tcp_walk_options ::
  "bytes \<Rightarrow> nat \<Rightarrow> u8 \<Rightarrow> tcp_parsed_opts \<Rightarrow> tcp_parsed_opts cres" where
  "tcp_walk_options mem ptr optlen out =
     (if optlen = 0 then Ok out
      else if \<not> in_bounds mem ptr 1 then UB
      else let kind = mem ! ptr in
        if kind = TCP_OPT_END then Ok out
        else if kind = TCP_OPT_NOOP then tcp_walk_options mem (ptr + 1) (optlen - 1) out
        else if optlen < 2 then Ok out
        else if \<not> in_bounds mem ptr 2 then UB
        else let len = mem ! (ptr + 1) in
          if len < 2 \<or> optlen < len then Ok out
          else (case walk_option mem ptr kind len out of
                  Ok out' \<Rightarrow> tcp_walk_options mem (ptr + unat len) (optlen - len) out'
                | Fail c \<Rightarrow> Fail c
                | UB \<Rightarrow> UB))"
  by pat_completeness auto

termination
proof (relation "measure (\<lambda>(mem, ptr, optlen, out). unat optlen)")
  fix mem :: bytes and ptr :: nat and optlen :: u8 and out kind len x1
  assume "optlen \<noteq> 0"
  then have "1 \<le> optlen" by (simp add: word_le_nat_alt Suc_leI unat_gt_0)
  then show "((mem, ptr + 1, optlen - 1, out), mem, ptr, optlen, out)
      \<in> measure (\<lambda>(mem, ptr, optlen, out). unat optlen)"
    using optlen_decreases [of 1 optlen] by simp
next
  fix mem :: bytes and ptr :: nat and optlen :: u8 and out kind and len :: u8 and out'
  assume "\<not> (len < 2 \<or> optlen < len)"
  then have "len \<noteq> 0" and "len \<le> optlen" by auto
  then show "((mem, ptr + unat len, optlen - len, out'), mem, ptr, optlen, out)
      \<in> measure (\<lambda>(mem, ptr, optlen, out). unat optlen)"
    using optlen_decreases by simp
qed simp_all

declare tcp_walk_options.simps [simp del]


section \<open>What the walker computes\<close>

text \<open>The option area as RFC 793 describes it, a list of options, and the effect of each on
  the parse result.\<close>

datatype tcp_option = Noop | Opt u8 bytes

fun opt_bytes :: "tcp_option \<Rightarrow> bytes" where
  "opt_bytes Noop = [TCP_OPT_NOOP]"
| "opt_bytes (Opt kind d) = kind # of_nat (length d + 2) # d"

fun opt_wf :: "tcp_option \<Rightarrow> bool" where
  "opt_wf Noop = True"
| "opt_wf (Opt kind d) \<longleftrightarrow> kind \<noteq> TCP_OPT_END \<and> kind \<noteq> TCP_OPT_NOOP"

fun opt_effect :: "tcp_option \<Rightarrow> tcp_parsed_opts \<Rightarrow> tcp_parsed_opts" where
  "opt_effect Noop out = out"
| "opt_effect (Opt kind d) out =
     (if kind = TCP_OPT_MSS \<and> length d = 2 \<and> 536 < of_be16 (d ! 0) (d ! 1) \<and> of_be16 (d ! 0) (d ! 1) \<le> 1460
      then out\<lparr>po_mss := of_be16 (d ! 0) (d ! 1)\<rparr>
      else if kind = TCP_OPT_SACK_OK then out\<lparr>po_sack_ok := True\<rparr>
      else if kind = TCP_OPT_TS then out\<lparr>po_ts_seen := True\<rparr>
      else if kind = TCP_OPT_FEC_PERM \<and> length d = 6 \<and> d ! 0 = FEC_WIRE_VERSION \<and>
              d ! 1 = TCP_FEC_DEFAULT_K \<and> d ! 2 = TCP_FEC_DEFAULT_R \<and>
              of_be16 (d ! 4) (d ! 5) = TCP_FEC_DEFAULT_SYM_LEN
      then out\<lparr>po_fec_perm := True\<rparr>
      else out)"

lemma nth_after: "(pre @ d) ! (length pre + i) = d ! i"
  by (simp add: nth_append)

lemma nth_at: "(pre @ d) ! length pre = d ! 0"
  by (simp add: nth_append)

lemma walk_option_effect:
  assumes "length d + 2 < 256" and "6 \<le> length post"
  shows "walk_option (pre @ opt_bytes (Opt kind d) @ post) (length pre) kind (of_nat (length d + 2)) out =
           Ok (opt_effect (Opt kind d) out)"
proof -
  have l4: "(of_nat (length d + 2) :: u8) = TCP_OPTLEN_MSS \<longleftrightarrow> length d = 2"
    and l8: "(of_nat (length d + 2) :: u8) = TCP_OPTLEN_FEC_PERM \<longleftrightarrow> length d = 6"
    using of_nat_u8_eq [of "length d + 2" 4] of_nat_u8_eq [of "length d + 2" 8] assms(1)
    by (auto simp: opt_consts fec_consts)
  have nth: "(pre @ opt_bytes (Opt kind d) @ post) ! (length pre + (i + 2)) = (d @ post) ! i" for i
    unfolding nth_after by simp
  note n = nth [of 0] nth [of 1] nth [of 2] nth [of 3] nth [of 4] nth [of 5]
  show ?thesis
    unfolding walk_option_def l4 l8 using n assms(2)
    by (auto simp: in_bounds_def Let_def nth_append opt_consts fec_consts)
qed

lemma walk_refines:
  assumes "\<forall>op\<in>set ops. opt_wf op" and "length (concat (map opt_bytes ops)) + n < 256"
    and "6 \<le> length post" and "n = 0 \<or> post ! 0 = TCP_OPT_END"
  shows "tcp_walk_options (pre @ concat (map opt_bytes ops) @ post) (length pre)
           (of_nat (length (concat (map opt_bytes ops)) + n)) out = Ok (fold opt_effect ops out)"
  using assms(1,2)
proof (induction ops arbitrary: pre out)
  case Nil
  then show ?case using assms(3,4)
    by (auto simp: tcp_walk_options.simps [of "pre @ post" "length pre" "of_nat n"] in_bounds_def nth_at Let_def)
next
  case (Cons op ops)
  let ?rest = "concat (map opt_bytes ops)"
  let ?m = "length ?rest + n"
  show ?case
  proof (cases op)
    case Noop
    have "(of_nat (Suc ?m) :: u8) \<noteq> 0"
      using of_nat_u8_eq [of "Suc ?m" 0] Cons.prems(2) Noop by simp
    moreover have "(of_nat (Suc ?m) :: u8) - 1 = of_nat ?m" by simp
    moreover have "tcp_walk_options ((pre @ [TCP_OPT_NOOP]) @ ?rest @ post) (length (pre @ [TCP_OPT_NOOP]))
        (of_nat ?m) out = Ok (fold opt_effect ops out)"
      by (rule Cons.IH) (use Cons.prems Noop in auto)
    ultimately show ?thesis using Noop
      by (simp add: tcp_walk_options.simps [of _ "length pre" "of_nat (Suc ?m)"] in_bounds_def nth_at Let_def opt_consts
          del: of_nat_Suc of_nat_add)
  next
    case (Opt kind d)
    let ?len = "length d + 2" and ?mem = "pre @ opt_bytes (Opt kind d) @ ?rest @ post"
    have b: "?len + ?m < 256" using Cons.prems(2) Opt by simp
    have u: "unat (of_nat x :: u8) = x" if "x < 256" for x
      using that by (simp add: unat_of_nat)
    have sub: "(of_nat (?len + ?m) :: u8) - of_nat ?len = of_nat ?m" by simp
    have ge2: "\<not> (of_nat (?len + ?m) :: u8) < 2" "\<not> (of_nat ?len :: u8) < 2"
      "\<not> (of_nat (?len + ?m) :: u8) < of_nat ?len"
      using b by (simp_all only: word_less_nat_alt u) auto
    have nz: "(of_nat (?len + ?m) :: u8) \<noteq> 0"
      using of_nat_u8_eq [of "?len + ?m" 0] b by simp
    have step: "walk_option ?mem (length pre) kind (of_nat ?len) out = Ok (opt_effect op out)"
      using walk_option_effect [of d "?rest @ post" pre kind out] b assms(3) Opt by simp
    have IH: "tcp_walk_options ((pre @ opt_bytes (Opt kind d)) @ ?rest @ post)
        (length (pre @ opt_bytes (Opt kind d))) (of_nat ?m) (opt_effect op out) =
        Ok (fold opt_effect ops (opt_effect op out))"
      by (rule Cons.IH) (use Cons.prems Opt in auto)
    have rd: "?mem ! length pre = kind" "?mem ! (length pre + 1) = of_nat ?len"
      by (simp_all add: nth_append)
    have ib: "in_bounds ?mem (length pre) 1" "in_bounds ?mem (length pre) 2"
      by (simp_all add: in_bounds_def)
    have kind: "kind \<noteq> TCP_OPT_END" "kind \<noteq> TCP_OPT_NOOP" using Cons.prems(1) Opt by auto
    have "tcp_walk_options ?mem (length pre) (of_nat (?len + ?m)) out =
        tcp_walk_options ?mem (length pre + unat (of_nat ?len :: u8)) (of_nat ?m) (opt_effect op out)"
      unfolding tcp_walk_options.simps [of ?mem "length pre" "of_nat (?len + ?m)"]
      by (simp only: Let_def rd ib nz kind ge2 step sub if_False not_False_eq_True if_True simp_thms cres.case)
    then show ?thesis using IH b Opt by (simp add: u add.assoc del: of_nat_Suc of_nat_add)
  qed
qed

text \<open>Safety of the walk on arbitrary bytes: six readable bytes after the option area are
  enough, and they never influence the result.\<close>

lemma word_len_split:
  fixes optlen len :: u8
  assumes "len \<le> optlen"
  shows "unat len + unat (optlen - len) = unat optlen"
  using assms by (simp add: unat_sub word_le_nat_alt)

lemma walk_option_Ok:
  assumes "2 \<le> len" and "in_bounds mem ptr (unat len + 6)"
  shows "\<exists>out'. walk_option mem ptr kind len out = Ok out'"
proof -
  have "2 \<le> unat len" using assms(1) by (simp add: word_le_nat_alt)
  with assms(2) have "in_bounds mem ptr 8" "in_bounds mem ptr 4" by (simp_all add: in_bounds_def)
  then show ?thesis by (simp add: walk_option_def Let_def)
qed

lemma unat_ge_1: "(w::u8) \<noteq> 0 \<Longrightarrow> 1 \<le> unat w"
  by (metis One_nat_def Suc_leI unat_gt_0 word_neq_0_conv)

lemma unat_pred: "(w::u8) \<noteq> 0 \<Longrightarrow> unat w = Suc (unat (w - 1))"
  using word_len_split [of 1 w] unat_ge_1 [of w] by (simp add: word_le_nat_alt)

lemma walk_0: "tcp_walk_options mem ptr 0 out = Ok out"
  by (simp add: tcp_walk_options.simps [of mem ptr 0])

lemma walk_safe:
  "in_bounds mem ptr (unat optlen + 6) \<Longrightarrow> \<exists>out'. tcp_walk_options mem ptr optlen out = Ok out'"
proof (induction mem ptr optlen out rule: tcp_walk_options.induct)
  case (1 mem ptr optlen out)
  show ?case
  proof (cases "optlen = 0")
    case True
    then show ?thesis by (simp add: walk_0)
  next
    case nz: False
    note pred = unat_pred [OF nz]
    let ?kind = "mem ! ptr" and ?len = "mem ! (ptr + 1)"
    have ib: "in_bounds mem ptr 1" "in_bounds mem ptr 2" using 1(3) pred by (simp_all add: in_bounds_def)
    consider "?kind = TCP_OPT_END" | "?kind \<noteq> TCP_OPT_END" "?kind = TCP_OPT_NOOP"
      | "?kind \<noteq> TCP_OPT_END" "?kind \<noteq> TCP_OPT_NOOP" "optlen < 2 \<or> ?len < 2 \<or> optlen < ?len"
      | "?kind \<noteq> TCP_OPT_END" "?kind \<noteq> TCP_OPT_NOOP" "\<not> optlen < 2" "\<not> (?len < 2 \<or> optlen < ?len)"
      by blast
    then show ?thesis
    proof cases
      case 2
      then have "\<exists>out'. tcp_walk_options mem (ptr + 1) (optlen - 1) out = Ok out'"
        using 1(1) nz ib 1(3) pred by (simp add: in_bounds_def)
      with 2 show ?thesis using nz ib by (simp add: tcp_walk_options.simps [of mem ptr optlen] Let_def)
    next
      case 4
      then have le: "2 \<le> ?len" "?len \<le> optlen" by auto
      then have "in_bounds mem ptr (unat ?len + 6)"
        using 1(3) by (simp add: in_bounds_def word_le_nat_alt)
      then obtain o' where o': "walk_option mem ptr ?kind ?len out = Ok o'"
        using walk_option_Ok [OF le(1)] by blast
      have "in_bounds mem (ptr + unat ?len) (unat (optlen - ?len) + 6)"
        using 1(3) word_len_split [OF le(2)] by (simp add: in_bounds_def)
      then have "\<exists>out'. tcp_walk_options mem (ptr + unat ?len) (optlen - ?len) o' = Ok out'"
        using 1(2) [OF nz _ refl _ _ _ _ refl _ o'] 4 ib by simp
      with 4 o' show ?thesis using nz ib by (simp add: tcp_walk_options.simps [of mem ptr optlen] Let_def)
    qed (use nz ib in \<open>auto simp: tcp_walk_options.simps [of mem ptr optlen] Let_def\<close>)
  qed
qed

text \<open>The bytes after the area never matter: two allocations that agree on the option area
  give the same result.\<close>

lemma walk_option_local:
  assumes "\<forall>i<unat len. m1 ! (ptr + i) = m2 ! (ptr + i)" and "2 \<le> len"
    and "in_bounds m1 ptr (unat len + 6)" and "in_bounds m2 ptr (unat len + 6)"
  shows "walk_option m1 ptr kind len out = walk_option m2 ptr kind len out"
proof -
  have "2 \<le> unat len" using assms(2) by (simp add: word_le_nat_alt)
  then have ib: "in_bounds m1 ptr 8" "in_bounds m1 ptr 4" "in_bounds m2 ptr 8" "in_bounds m2 ptr 4"
    using assms(3,4) by (simp_all add: in_bounds_def)
  have e4: "m1 ! (ptr + 2) = m2 ! (ptr + 2) \<and> m1 ! (ptr + 3) = m2 ! (ptr + 3)" if "len = TCP_OPTLEN_MSS"
    using assms(1) [rule_format, of 2] assms(1) [rule_format, of 3] that by (simp add: opt_consts)
  have e8: "m1 ! (ptr + 2) = m2 ! (ptr + 2) \<and> m1 ! (ptr + 3) = m2 ! (ptr + 3) \<and>
      m1 ! (ptr + 4) = m2 ! (ptr + 4) \<and> m1 ! (ptr + 6) = m2 ! (ptr + 6) \<and> m1 ! (ptr + 7) = m2 ! (ptr + 7)"
    if "len = TCP_OPTLEN_FEC_PERM"
    using assms(1) [rule_format, of 2] assms(1) [rule_format, of 3] assms(1) [rule_format, of 4]
      assms(1) [rule_format, of 6] assms(1) [rule_format, of 7] that
    by (simp add: fec_consts)
  show ?thesis
    unfolding walk_option_def Let_def using ib e4 e8 by (simp cong: conj_cong)
qed

lemma walk_local:
  "\<forall>i<unat optlen. m1 ! (ptr + i) = m2 ! (ptr + i) \<Longrightarrow> in_bounds m1 ptr (unat optlen + 6) \<Longrightarrow>
   in_bounds m2 ptr (unat optlen + 6) \<Longrightarrow>
     tcp_walk_options m1 ptr optlen out = tcp_walk_options m2 ptr optlen out"
proof (induction m1 ptr optlen out rule: tcp_walk_options.induct)
  case (1 mem ptr optlen out)
  show ?case
  proof (cases "optlen = 0")
    case True
    then show ?thesis by (simp add: walk_0)
  next
    case nz: False
    note pred = unat_pred [OF nz]
    let ?kind = "mem ! ptr" and ?len = "mem ! (ptr + 1)"
    note unf = tcp_walk_options.simps [of mem ptr optlen] tcp_walk_options.simps [of m2 ptr optlen]
    have ib: "in_bounds mem ptr 1" "in_bounds mem ptr 2" "in_bounds m2 ptr 1" "in_bounds m2 ptr 2"
      using 1(4,5) pred by (simp_all add: in_bounds_def)
    have k: "m2 ! ptr = ?kind" using 1(3) pred by (metis add.right_neutral zero_less_Suc)
    have l: "m2 ! (ptr + 1) = ?len" if "\<not> optlen < 2"
      using 1(3) [rule_format, of 1] that by (simp add: word_less_nat_alt)
    consider "?kind = TCP_OPT_END" | "?kind \<noteq> TCP_OPT_END" "?kind = TCP_OPT_NOOP"
      | "?kind \<noteq> TCP_OPT_END" "?kind \<noteq> TCP_OPT_NOOP" "optlen < 2 \<or> ?len < 2 \<or> optlen < ?len"
      | "?kind \<noteq> TCP_OPT_END" "?kind \<noteq> TCP_OPT_NOOP" "\<not> optlen < 2" "\<not> (?len < 2 \<or> optlen < ?len)"
      by blast
    then show ?thesis
    proof cases
      case 2
      have "\<forall>i<unat (optlen - 1). mem ! (ptr + 1 + i) = m2 ! (ptr + 1 + i)"
        using 1(3) pred by (metis Suc_less_eq add.assoc plus_1_eq_Suc)
      with 2 have "tcp_walk_options mem (ptr + 1) (optlen - 1) out = tcp_walk_options m2 (ptr + 1) (optlen - 1) out"
        using 1(1) nz ib 1(4,5) pred by (simp add: in_bounds_def)
      with 2 show ?thesis using nz ib k by (simp add: unf Let_def)
    next
      case 4
      then have le: "2 \<le> ?len" "?len \<le> optlen" by auto
      note sp = word_len_split [OF le(2)]
      have eq: "walk_option mem ptr ?kind ?len out = walk_option m2 ptr ?kind ?len out"
        by (rule walk_option_local) (use 1(3-5) le sp in \<open>auto simp: in_bounds_def\<close>)
      have "in_bounds mem ptr (unat ?len + 6)" using 1(4) sp by (simp add: in_bounds_def)
      then obtain o' where o': "walk_option mem ptr ?kind ?len out = Ok o'"
        using walk_option_Ok [OF le(1)] by blast
      have "\<forall>i<unat (optlen - ?len). mem ! (ptr + unat ?len + i) = m2 ! (ptr + unat ?len + i)"
        using 1(3) sp by (metis add.assoc nat_add_left_cancel_less)
      then have "tcp_walk_options mem (ptr + unat ?len) (optlen - ?len) o' =
          tcp_walk_options m2 (ptr + unat ?len) (optlen - ?len) o'"
        using 1(2) [OF nz _ refl _ _ _ _ refl _ o'] 4 ib 1(4,5) sp by (simp add: in_bounds_def)
      with 4 o' o' [unfolded eq] show ?thesis using nz ib k l by (simp add: unf Let_def)
    qed (use nz ib k l in \<open>auto simp: unf Let_def\<close>)
  qed
qed

text \<open>Without those six bytes the walk can leave the allocation: a truncated FEC-permitted
  option is read up to its eighth byte.\<close>

lemma walk_overread: "tcp_walk_options [TCP_OPT_FEC_PERM, 2] 0 2 out = UB"
  by (simp add: tcp_walk_options.simps [of _ 0 2] walk_option_def in_bounds_def opt_consts fec_consts Let_def)

section \<open>Host byte order and packed headers\<close>

text \<open>The sources store and load header fields through packed structs on a little-endian host
  (the bit-fields of \<open>struct tcphdr\<close> and \<open>struct iphdr\<close> are laid out for one), and convert
  with \<open>htons\<close> and friends, which swap the bytes there.\<close>

definition le16 :: "u16 \<Rightarrow> bytes" where "le16 w = rev (be16 w)"
definition le32 :: "u32 \<Rightarrow> bytes" where "le32 w = rev (be32 w)"
definition get_le16 :: "bytes \<Rightarrow> nat \<Rightarrow> u16" where
  "get_le16 b i = of_be16 (b ! (i + 1)) (b ! i)"
definition get_le32 :: "bytes \<Rightarrow> nat \<Rightarrow> u32" where
  "get_le32 b i = of_be32 (b ! (i + 3)) (b ! (i + 2)) (b ! (i + 1)) (b ! i)"
definition get_be16 :: "bytes \<Rightarrow> nat \<Rightarrow> u16" where
  "get_be16 b i = of_be16 (b ! i) (b ! (i + 1))"
definition get_be32 :: "bytes \<Rightarrow> nat \<Rightarrow> u32" where
  "get_be32 b i = of_be32 (b ! i) (b ! (i + 1)) (b ! (i + 2)) (b ! (i + 3))"

definition htons :: "u16 \<Rightarrow> u16" where "htons w = get_le16 (be16 w) 0"
definition htonl :: "u32 \<Rightarrow> u32" where "htonl w = get_le32 (be32 w) 0"
abbreviation ntohs :: "u16 \<Rightarrow> u16" where "ntohs \<equiv> htons"
abbreviation ntohl :: "u32 \<Rightarrow> u32" where "ntohl \<equiv> htonl"

record tcphdr =
  th_sport :: u16
  th_dport :: u16
  th_seq :: u32
  th_ack_seq :: u32
  th_rsvd :: "4 word"
  th_hl :: "4 word"
  th_fin :: bool
  th_syn :: bool
  th_rst :: bool
  th_psh :: bool
  th_ack :: bool
  th_urg :: bool
  th_ece :: bool
  th_cwr :: bool
  th_win :: u16
  th_csum :: u16
  th_urp :: u16

definition nibbles :: "4 word \<Rightarrow> 4 word \<Rightarrow> u8" where
  "nibbles lo hi = ucast lo OR push_bit 4 (ucast hi)"

definition flag_byte :: "bool list \<Rightarrow> u8" where
  "flag_byte fs = fold (\<lambda>i w. if fs ! i then set_bit i w else w) [0..<8] 0"

definition tcphdr_bytes :: "tcphdr \<Rightarrow> bytes" where
  "tcphdr_bytes h =
     le16 (th_sport h) @ le16 (th_dport h) @ le32 (th_seq h) @ le32 (th_ack_seq h) @
     [nibbles (th_rsvd h) (th_hl h),
      flag_byte [th_fin h, th_syn h, th_rst h, th_psh h, th_ack h, th_urg h, th_ece h, th_cwr h]] @
     le16 (th_win h) @ le16 (th_csum h) @ le16 (th_urp h)"

definition tcphdr_of :: "bytes \<Rightarrow> tcphdr" where
  "tcphdr_of b =
     \<lparr>th_sport = get_le16 b 0, th_dport = get_le16 b 2, th_seq = get_le32 b 4, th_ack_seq = get_le32 b 8,
      th_rsvd = ucast (b ! 12), th_hl = ucast (drop_bit 4 (b ! 12)),
      th_fin = bit (b ! 13) 0, th_syn = bit (b ! 13) 1, th_rst = bit (b ! 13) 2, th_psh = bit (b ! 13) 3,
      th_ack = bit (b ! 13) 4, th_urg = bit (b ! 13) 5, th_ece = bit (b ! 13) 6, th_cwr = bit (b ! 13) 7,
      th_win = get_le16 b 14, th_csum = get_le16 b 16, th_urp = get_le16 b 18\<rparr>"

record iphdr =
  ip_ihl :: "4 word"
  ip_version :: "4 word"
  ip_tos :: u8
  ip_tot_len :: u16
  ip_ident :: u16
  ip_frag_offset :: u16
  ip_ttl :: u8
  ip_proto :: u8
  ip_csum :: u16
  ip_saddr :: u32
  ip_daddr :: u32

definition iphdr_bytes :: "iphdr \<Rightarrow> bytes" where
  "iphdr_bytes h =
     [nibbles (ip_ihl h) (ip_version h), ip_tos h] @ le16 (ip_tot_len h) @ le16 (ip_ident h) @
     le16 (ip_frag_offset h) @ [ip_ttl h, ip_proto h] @ le16 (ip_csum h) @
     le32 (ip_saddr h) @ le32 (ip_daddr h)"

definition iphdr_of :: "bytes \<Rightarrow> iphdr" where
  "iphdr_of b =
     \<lparr>ip_ihl = ucast (b ! 0), ip_version = ucast (drop_bit 4 (b ! 0)), ip_tos = b ! 1,
      ip_tot_len = get_le16 b 2, ip_ident = get_le16 b 4, ip_frag_offset = get_le16 b 6,
      ip_ttl = b ! 8, ip_proto = b ! 9, ip_csum = get_le16 b 10,
      ip_saddr = get_le32 b 12, ip_daddr = get_le32 b 16\<rparr>"

text \<open>\<open>tcp_hlen\<close> and \<open>ip_len\<close> of the headers, as the C expressions evaluate (in \<open>int\<close>).\<close>

definition tcp_hlen :: "tcphdr \<Rightarrow> int" where "tcp_hlen h = 4 * uint (th_hl h)"
definition ip_len :: "iphdr \<Rightarrow> int" where "ip_len h = uint (ip_tot_len h) - 4 * uint (ip_ihl h)"

lemmas le_defs = le16_def le32_def get_le16_def get_le32_def

lemma be_split:
  "\<exists>a b. be16 w = [a, b] \<and> of_be16 a b = w"
  "\<exists>a b c d. be32 v = [a, b, c, d] \<and> of_be32 a b c d = v"
  using of_be16_be16 [of w] of_be32_be32 [of v] by (auto simp: be16_def be32_def)

lemma get_le16_append [be_simps]: "get_le16 (le16 w @ xs) 0 = w"
  using of_be16_be16 [of w] by (simp add: le_defs be16_def)

lemma get_le32_append [be_simps]: "get_le32 (le32 w @ xs) 0 = w"
  using of_be32_be32 [of w] by (simp add: le_defs be32_def numeral_2_eq_2 numeral_3_eq_3)

lemma get_le_skip [be_simps]:
  "length xs \<le> i \<Longrightarrow> get_le16 (xs @ ys) i = get_le16 ys (i - length xs)"
  "length xs \<le> i \<Longrightarrow> get_le32 (xs @ ys) i = get_le32 ys (i - length xs)"
  "1 \<le> i \<Longrightarrow> get_le16 (x # ys) i = get_le16 ys (i - 1)"
  "1 \<le> i \<Longrightarrow> get_le32 (x # ys) i = get_le32 ys (i - 1)"
  by (simp_all add: get_le16_def get_le32_def nth_append nth_Cons' Suc_diff_le)

lemma length_le [simp]: "length (le16 w) = 2" "length (le32 v) = 4"
  by (simp_all add: le16_def le32_def)

lemma u8_high_bit [simp]: "8 \<le> n \<Longrightarrow> \<not> bit (b :: u8) n"
  using bit_imp_le_length [of b n] by auto

lemma nibble_high_bit [simp]: "4 \<le> n \<Longrightarrow> \<not> bit (b :: 4 word) n"
  using bit_imp_le_length [of b n] by auto

lemma bytes_of_be16: "be16 (of_be16 a b) = [a, b]"
  by (auto simp: be16_def of_be16_def intro!: bit_word_eqI simp: bit_simps)

lemma bytes_of_be32: "be32 (of_be32 a b c d) = [a, b, c, d]"
  by (auto simp: be32_def of_be32_def intro!: bit_word_eqI simp: bit_simps)

lemma htons_htons [simp]: "htons (htons w) = w"
  using be_split(1) [of w] by (auto simp: htons_def get_le16_def bytes_of_be16)

lemma htonl_htonl [simp]: "htonl (htonl w) = w"
  using be_split(2) [of w]
  by (auto simp: htonl_def get_le32_def bytes_of_be32 numeral_2_eq_2 numeral_3_eq_3)

text \<open>A swapped value stored in host order is the value in network order.\<close>

lemma le16_htons [be_simps]: "le16 (htons w) = be16 w"
  using be_split(1) [of w] by (auto simp: htons_def le_defs bytes_of_be16)

lemma le32_htonl [be_simps]: "le32 (htonl w) = be32 w"
  using be_split(2) [of w]
  by (auto simp: htonl_def le_defs bytes_of_be32 numeral_2_eq_2 numeral_3_eq_3)

lemma nibbles_lo [simp]: "ucast (nibbles a b) = a"
  by (rule bit_word_eqI) (auto simp: nibbles_def bit_simps)

lemma nibbles_hi [simp]: "ucast (drop_bit 4 (nibbles a b)) = b"
  by (rule bit_word_eqI) (auto simp: nibbles_def bit_simps)

lemma flag_byte_bit:
  assumes "length fs = 8" and "i < 8"
  shows "bit (flag_byte fs) i \<longleftrightarrow> fs ! i"
proof -
  have "bit (fold (\<lambda>i w. if fs ! i then set_bit i w else w) [0..<n] (0::u8)) i \<longleftrightarrow> i < n \<and> fs ! i"
    if "n \<le> 8" for n
    using that assms(2) by (induction n) (auto simp: bit_simps less_Suc_eq)
  from this [of 8] show ?thesis using assms by (simp add: flag_byte_def)
qed

lemma length_tcphdr_bytes [simp]: "length (tcphdr_bytes h) = 20"
  by (simp add: tcphdr_bytes_def)

lemma length_iphdr_bytes [simp]: "length (iphdr_bytes h) = 20"
  by (simp add: iphdr_bytes_def)

lemma tcphdr_of_bytes [simp]: "tcphdr_of (tcphdr_bytes h @ xs) = h"
  by (simp add: tcphdr_of_def tcphdr_bytes_def be_simps nth_append flag_byte_bit)

lemma iphdr_of_bytes [simp]: "iphdr_of (iphdr_bytes h @ xs) = h"
  by (simp add: iphdr_of_def iphdr_bytes_def be_simps nth_append)

section \<open>FEC structures on the wire\<close>

record tcp_opt_fec =
  fo_type :: u8
  fo_index :: u8
  fo_block_id :: u32

definition tcp_opt_fec_bytes :: "tcp_opt_fec \<Rightarrow> bytes" where
  "tcp_opt_fec_bytes o' =
     [TCP_OPT_FEC, TCP_OPTLEN_FEC, fo_type o', fo_index o'] @ be32 (fo_block_id o')"

definition tcp_opt_fec_of :: "bytes \<Rightarrow> tcp_opt_fec" where
  "tcp_opt_fec_of b = \<lparr>fo_type = b ! 2, fo_index = b ! 3, fo_block_id = get_be32 b 4\<rparr>"

record fec_repair_hdr =
  rh_version :: u8
  rh_k :: u8
  rh_r :: u8
  rh_repair_index :: u8
  rh_block_id :: u32
  rh_base_seq :: u32
  rh_sym_len :: u16
  rh_tail_len :: u16

definition fec_repair_hdr_bytes :: "fec_repair_hdr \<Rightarrow> bytes" where
  "fec_repair_hdr_bytes h =
     [rh_version h, rh_k h, rh_r h, rh_repair_index h] @ be32 (rh_block_id h) @ be32 (rh_base_seq h) @
     be16 (rh_sym_len h) @ be16 (rh_tail_len h)"

definition fec_repair_hdr_of :: "bytes \<Rightarrow> fec_repair_hdr" where
  "fec_repair_hdr_of b =
     \<lparr>rh_version = b ! 0, rh_k = b ! 1, rh_r = b ! 2, rh_repair_index = b ! 3,
      rh_block_id = get_be32 b 4, rh_base_seq = get_be32 b 8,
      rh_sym_len = get_be16 b 12, rh_tail_len = get_be16 b 14\<rparr>"

definition tcp_opt_fec_perm_bytes :: "u8 \<Rightarrow> u8 \<Rightarrow> u8 \<Rightarrow> u8 \<Rightarrow> u16 \<Rightarrow> bytes" where
  "tcp_opt_fec_perm_bytes version k r flags sym_len =
     [TCP_OPT_FEC_PERM, TCP_OPTLEN_FEC_PERM, version, k, r, flags] @ be16 sym_len"

lemma get_be_append [be_simps]:
  "get_be16 (be16 w @ xs) 0 = w" "get_be32 (be32 v @ xs) 0 = v"
  using of_be16_be16 [of w] of_be32_be32 [of v]
  by (simp_all add: get_be16_def get_be32_def be16_def be32_def numeral_2_eq_2 numeral_3_eq_3)

lemma get_be_skip [be_simps]:
  "length xs \<le> i \<Longrightarrow> get_be16 (xs @ ys) i = get_be16 ys (i - length xs)"
  "length xs \<le> i \<Longrightarrow> get_be32 (xs @ ys) i = get_be32 ys (i - length xs)"
  "1 \<le> i \<Longrightarrow> get_be16 (x # ys) i = get_be16 ys (i - 1)"
  "1 \<le> i \<Longrightarrow> get_be32 (x # ys) i = get_be32 ys (i - 1)"
  by (simp_all add: get_be16_def get_be32_def nth_append nth_Cons' Suc_diff_le)

lemma length_fec_bytes [simp]:
  "length (tcp_opt_fec_bytes o') = 8" "length (fec_repair_hdr_bytes h) = 16"
  "length (tcp_opt_fec_perm_bytes v k r f s) = 8"
  by (simp_all add: tcp_opt_fec_bytes_def fec_repair_hdr_bytes_def tcp_opt_fec_perm_bytes_def)

lemma tcp_opt_fec_of_bytes [simp]: "tcp_opt_fec_of (tcp_opt_fec_bytes o' @ xs) = o'"
  by (simp add: tcp_opt_fec_of_def tcp_opt_fec_bytes_def be_simps nth_append)

lemma fec_repair_hdr_of_bytes [simp]: "fec_repair_hdr_of (fec_repair_hdr_bytes h @ xs) = h"
  by (simp add: fec_repair_hdr_of_def fec_repair_hdr_bytes_def be_simps nth_append)

section \<open>The option area of a SYN\<close>

record tcp_options =
  opt_mss :: u16
  opt_sack :: bool
  opt_fec :: bool

text \<open>\<open>tcp_write_syn_options\<close>: the bytes it stores from \<open>th->data\<close> on, and the data offset
  it puts into \<open>th->hl\<close>.\<close>

definition tcp_write_syn_options :: "tcp_options \<Rightarrow> nat \<Rightarrow> bytes \<times> 4 word" where
  "tcp_write_syn_options opts optlen =
     (let area = [TCP_OPT_MSS, TCP_OPTLEN_MSS] @ be16 (opt_mss opts);
          area = (if opt_fec opts
                  then area @ tcp_opt_fec_perm_bytes FEC_WIRE_VERSION TCP_FEC_DEFAULT_K TCP_FEC_DEFAULT_R 0
                                TCP_FEC_DEFAULT_SYM_LEN
                  else area);
          area = (if opt_sack opts
                  then area @ [TCP_OPT_NOOP, TCP_OPT_NOOP, TCP_OPT_SACK_OK, TCP_OPTLEN_SACK]
                  else area);
          area = area @ replicate (optlen - length area) TCP_OPT_NOOP
      in (area, of_nat (5 + optlen div 4)))"

text \<open>\<open>tcp_syn_options\<close>: what to advertise and how many option bytes that takes.\<close>

definition TCP_OPT_MAX :: nat where "TCP_OPT_MAX = 40"

definition align4 :: "nat \<Rightarrow> nat" where "align4 n = (n + 3) div 4 * 4"

definition tcp_syn_options :: "u16 \<Rightarrow> bool \<Rightarrow> bool \<Rightarrow> nat \<times> tcp_options" where
  "tcp_syn_options rmss sackok fecok =
     (let optlen = unat TCP_OPTLEN_MSS;
          optlen = (if sackok then optlen + unat TCP_OPT_NOOP * 2 + unat TCP_OPTLEN_SACK else optlen);
          optlen = (if fecok then optlen + unat TCP_OPTLEN_FEC_PERM else optlen);
          drop = (optlen > TCP_OPT_MAX \<and> fecok);
          optlen = (if drop then optlen - unat TCP_OPTLEN_FEC_PERM else optlen)
      in (align4 optlen, \<lparr>opt_mss = rmss, opt_sack = sackok, opt_fec = (fecok \<and> \<not> drop)\<rparr>))"

lemma syn_options_cases:
  "tcp_syn_options rmss sackok fecok =
     (4 + (if sackok then 4 else 0) + (if fecok then 8 else 0),
      \<lparr>opt_mss = rmss, opt_sack = sackok, opt_fec = fecok\<rparr>)"
  by (simp add: tcp_syn_options_def opt_consts fec_consts TCP_OPT_MAX_def align4_def)

text \<open>The writer lays out exactly a list of options the walker's reference understands.\<close>

lemma syn_area_options:
  assumes "tcp_syn_options rmss sackok fecok = (optlen, opts)"
  shows "tcp_write_syn_options opts optlen =
     (concat (map opt_bytes
        ([Opt TCP_OPT_MSS (be16 rmss)] @
         (if fecok then [Opt TCP_OPT_FEC_PERM ([FEC_WIRE_VERSION, TCP_FEC_DEFAULT_K, TCP_FEC_DEFAULT_R, 0] @
              be16 TCP_FEC_DEFAULT_SYM_LEN)] else []) @
         (if sackok then [Noop, Noop, Opt TCP_OPT_SACK_OK []] else []))),
      of_nat (5 + optlen div 4))"
  using assms
  by (auto simp: syn_options_cases tcp_write_syn_options_def tcp_opt_fec_perm_bytes_def opt_consts fec_consts)

lemma syn_area_length:
  assumes "tcp_syn_options rmss sackok fecok = (optlen, opts)"
  shows "length (fst (tcp_write_syn_options opts optlen)) = optlen"
    and "optlen \<le> 16" and "optlen mod 4 = 0"
  using assms by (auto simp: syn_options_cases tcp_write_syn_options_def)

lemma of_be16_be16_nth: "of_be16 (be16 w ! 0) (be16 w ! Suc 0) = w"
  using of_be16_be16 [of w] by simp

lemma opt_effect_syn:
  "opt_effect (Opt TCP_OPT_MSS (be16 w)) out = (if 536 < w \<and> w \<le> 1460 then out\<lparr>po_mss := w\<rparr> else out)"
  "opt_effect (Opt TCP_OPT_SACK_OK []) out = out\<lparr>po_sack_ok := True\<rparr>"
  "opt_effect (Opt TCP_OPT_FEC_PERM ([FEC_WIRE_VERSION, TCP_FEC_DEFAULT_K, TCP_FEC_DEFAULT_R, 0] @
     be16 TCP_FEC_DEFAULT_SYM_LEN)) out = out\<lparr>po_fec_perm := True\<rparr>"
proof -
  show "opt_effect (Opt TCP_OPT_MSS (be16 w)) out = (if 536 < w \<and> w \<le> 1460 then out\<lparr>po_mss := w\<rparr> else out)"
    by (simp add: of_be16_be16_nth opt_consts fec_consts)
  show "opt_effect (Opt TCP_OPT_SACK_OK []) out = out\<lparr>po_sack_ok := True\<rparr>"
    by (simp add: opt_consts)
  have "([FEC_WIRE_VERSION, TCP_FEC_DEFAULT_K, TCP_FEC_DEFAULT_R, 0] @ be16 TCP_FEC_DEFAULT_SYM_LEN) ! 4 =
      be16 TCP_FEC_DEFAULT_SYM_LEN ! 0"
    "([FEC_WIRE_VERSION, TCP_FEC_DEFAULT_K, TCP_FEC_DEFAULT_R, 0] @ be16 TCP_FEC_DEFAULT_SYM_LEN) ! 5 =
      be16 TCP_FEC_DEFAULT_SYM_LEN ! Suc 0"
    by simp_all
  then show "opt_effect (Opt TCP_OPT_FEC_PERM ([FEC_WIRE_VERSION, TCP_FEC_DEFAULT_K, TCP_FEC_DEFAULT_R, 0] @
     be16 TCP_FEC_DEFAULT_SYM_LEN)) out = out\<lparr>po_fec_perm := True\<rparr>"
    by (simp add: of_be16_be16_nth) (simp add: opt_consts fec_consts)
qed

lemma syn_options_roundtrip:
  assumes "tcp_syn_options rmss sackok fecok = (optlen, opts)" and "6 \<le> length post"
  shows "tcp_walk_options (pre @ fst (tcp_write_syn_options opts optlen) @ post) (length pre) (of_nat optlen) no_opts =
           Ok \<lparr>po_sack_ok = sackok, po_ts_seen = False, po_fec_perm = fecok,
               po_mss = (if 536 < rmss \<and> rmss \<le> 1460 then rmss else 0)\<rparr>"
proof -
  let ?ops = "[Opt TCP_OPT_MSS (be16 rmss)] @
         (if fecok then [Opt TCP_OPT_FEC_PERM ([FEC_WIRE_VERSION, TCP_FEC_DEFAULT_K, TCP_FEC_DEFAULT_R, 0] @
              be16 TCP_FEC_DEFAULT_SYM_LEN)] else []) @
         (if sackok then [Noop, Noop, Opt TCP_OPT_SACK_OK []] else [])"
  have area: "fst (tcp_write_syn_options opts optlen) = concat (map opt_bytes ?ops)"
    using syn_area_options [OF assms(1)] by simp
  have len: "length (concat (map opt_bytes ?ops)) = optlen" "optlen \<le> 16"
    using syn_area_length [OF assms(1)] area by simp_all
  have wf: "\<forall>op\<in>set ?ops. opt_wf op" by (auto simp: opt_consts fec_consts)
  have "tcp_walk_options (pre @ concat (map opt_bytes ?ops) @ post) (length pre)
           (of_nat (length (concat (map opt_bytes ?ops)) + 0)) no_opts = Ok (fold opt_effect ?ops no_opts)"
    by (rule walk_refines [OF wf]) (use len assms(2) in simp_all)
  moreover have "fold opt_effect ?ops no_opts =
      \<lparr>po_sack_ok = sackok, po_ts_seen = False, po_fec_perm = fecok,
               po_mss = (if 536 < rmss \<and> rmss \<le> 1460 then rmss else 0)\<rparr>"
    by (cases fecok; cases sackok)
      (simp_all add: no_opts_def opt_effect_syn [unfolded append.simps] del: opt_effect.simps(2))
  ultimately show ?thesis unfolding area len(1) by (simp only: add_0_right)
qed
end
