(* ===== verification/Skbuff.thy ===== *)
theory Skbuff
  imports Main Prelude Wire
begin

text \<open>
  Packet buffers and their queues: \<open>src/skbuff.c\<close>, \<open>include/skbuff.h\<close>.  A buffer keeps the
  bytes between \<open>head\<close> and \<open>end\<close>; the pointers \<open>data\<close> and \<open>payload\<close> are offsets from \<open>head\<close>
  (integers, so that a push too many shows as a negative offset).  \<open>skb_id\<close> is the identity
  of the allocation, which the intrusive list of a queue links.
\<close>

definition ETH_HDR_LEN :: nat where "ETH_HDR_LEN = 14"
definition IP_HDR_LEN :: nat where "IP_HDR_LEN = 20"
definition TCP_HDR_LEN :: nat where "TCP_HDR_LEN = 20"

lemmas hdr_lens = ETH_HDR_LEN_def IP_HDR_LEN_def TCP_HDR_LEN_def

record sk_buff =
  skb_id :: nat
  skb_refcnt :: int
  skb_protocol :: u16
  skb_len :: u32
  skb_dlen :: u32
  skb_seq :: u32
  skb_end_seq :: u32
  skb_head :: bytes
  skb_data :: int
  skb_payload :: int

definition alloc_skb :: "nat \<Rightarrow> nat \<Rightarrow> sk_buff" where
  "alloc_skb i n =
     \<lparr>skb_id = i, skb_refcnt = 0, skb_protocol = 0, skb_len = 0, skb_dlen = 0, skb_seq = 0, skb_end_seq = 0,
      skb_head = replicate n 0, skb_data = 0, skb_payload = 0\<rparr>"

text \<open>\<open>free_skb\<close> releases the buffer (\<open>None\<close>) unless somebody still refers to it.\<close>

definition free_skb :: "sk_buff \<Rightarrow> sk_buff option" where
  "free_skb skb = (if skb_refcnt skb < 1 then None else Some skb)"

definition skb_reserve :: "sk_buff \<Rightarrow> nat \<Rightarrow> sk_buff" where
  "skb_reserve skb len = skb\<lparr>skb_data := skb_data skb + int len\<rparr>"

definition skb_push :: "sk_buff \<Rightarrow> nat \<Rightarrow> sk_buff" where
  "skb_push skb len = skb\<lparr>skb_data := skb_data skb - int len, skb_len := skb_len skb + of_nat len\<rparr>"

definition skb_reset_header :: "sk_buff \<Rightarrow> sk_buff" where
  "skb_reset_header skb =
     skb\<lparr>skb_data := int (length (skb_head skb)) - int (unat (skb_dlen skb)), skb_len := skb_dlen skb\<rparr>"

section \<open>Headers inside a buffer\<close>

definition tcp_hdr :: "sk_buff \<Rightarrow> tcphdr" where
  "tcp_hdr skb = tcphdr_of (drop (ETH_HDR_LEN + IP_HDR_LEN) (skb_head skb))"

definition set_tcp_hdr :: "tcphdr \<Rightarrow> sk_buff \<Rightarrow> sk_buff" where
  "set_tcp_hdr th skb = skb\<lparr>skb_head := buf_write (skb_head skb) (ETH_HDR_LEN + IP_HDR_LEN) (tcphdr_bytes th)\<rparr>"

definition ip_hdr :: "sk_buff \<Rightarrow> iphdr" where
  "ip_hdr skb = iphdr_of (drop ETH_HDR_LEN (skb_head skb))"

definition set_ip_hdr :: "iphdr \<Rightarrow> sk_buff \<Rightarrow> sk_buff" where
  "set_ip_hdr ih skb = skb\<lparr>skb_head := buf_write (skb_head skb) ETH_HDR_LEN (iphdr_bytes ih)\<rparr>"

definition th_data :: "sk_buff \<Rightarrow> bytes" where
  "th_data skb = drop (ETH_HDR_LEN + IP_HDR_LEN + TCP_HDR_LEN) (skb_head skb)"

definition set_th_data :: "nat \<Rightarrow> bytes \<Rightarrow> sk_buff \<Rightarrow> sk_buff" where
  "set_th_data off d skb =
     skb\<lparr>skb_head := buf_write (skb_head skb) (ETH_HDR_LEN + IP_HDR_LEN + TCP_HDR_LEN + off) d\<rparr>"

text \<open>The bytes from \<open>skb->data\<close> to the end of the buffer, and a store at \<open>skb->data\<close>.\<close>

definition skb_bytes :: "sk_buff \<Rightarrow> bytes" where
  "skb_bytes skb = drop (nat (skb_data skb)) (skb_head skb)"

definition skb_store :: "bytes \<Rightarrow> nat \<Rightarrow> sk_buff \<Rightarrow> sk_buff" where
  "skb_store d off skb = skb\<lparr>skb_head := buf_write (skb_head skb) (nat (skb_data skb) + off) d\<rparr>"

section \<open>Queues\<close>

record sk_buff_head =
  q_list :: "sk_buff list"
  qlen :: u32

definition skb_queue_init :: sk_buff_head where
  "skb_queue_init = \<lparr>q_list = [], qlen = 0\<rparr>"

definition skb_queue_len :: "sk_buff_head \<Rightarrow> u32" where
  "skb_queue_len q = qlen q"

fun insert_before :: "nat \<Rightarrow> sk_buff \<Rightarrow> sk_buff list \<Rightarrow> sk_buff list" where
  "insert_before i new [] = []"
| "insert_before i new (x # xs) = (if skb_id x = i then new # x # xs else x # insert_before i new xs)"

definition skb_queue_add :: "sk_buff_head \<Rightarrow> sk_buff \<Rightarrow> sk_buff \<Rightarrow> sk_buff_head" where
  "skb_queue_add q new nxt = q\<lparr>q_list := insert_before (skb_id nxt) new (q_list q), qlen := qlen q + 1\<rparr>"

definition skb_queue_tail :: "sk_buff_head \<Rightarrow> sk_buff \<Rightarrow> sk_buff_head" where
  "skb_queue_tail q new = q\<lparr>q_list := q_list q @ [new], qlen := qlen q + 1\<rparr>"

text \<open>Unlinking from an empty list would take the list head for a buffer; no caller does it.\<close>

definition skb_dequeue :: "sk_buff_head \<Rightarrow> (sk_buff \<times> sk_buff_head) cres" where
  "skb_dequeue q =
     (case q_list q of [] \<Rightarrow> UB | x # xs \<Rightarrow> Ok (x, q\<lparr>q_list := xs, qlen := qlen q - 1\<rparr>))"

definition skb_queue_empty :: "sk_buff_head \<Rightarrow> bool" where
  "skb_queue_empty q \<longleftrightarrow> skb_queue_len q < 1"

definition skb_peek :: "sk_buff_head \<Rightarrow> sk_buff option" where
  "skb_peek q = (if skb_queue_empty q then None else case q_list q of [] \<Rightarrow> None | x # _ \<Rightarrow> Some x)"

text \<open>\<open>skb_queue_free\<close>: pop until empty, dropping one reference of each buffer; the result is
  the buffers that are still referenced afterwards.  The loop is bounded by the queue's list.\<close>

fun skb_queue_free_loop :: "nat \<Rightarrow> sk_buff_head \<Rightarrow> sk_buff list \<Rightarrow> (sk_buff_head \<times> sk_buff list) cres" where
  "skb_queue_free_loop 0 q kept = Ok (q, kept)"
| "skb_queue_free_loop (Suc n) q kept =
     (case skb_peek q of
        None \<Rightarrow> Ok (q, kept)
      | Some _ \<Rightarrow>
          (case skb_dequeue q of
             Ok (skb, q') \<Rightarrow>
               (case free_skb (skb\<lparr>skb_refcnt := skb_refcnt skb - 1\<rparr>) of
                  None \<Rightarrow> skb_queue_free_loop n q' kept
                | Some s \<Rightarrow> skb_queue_free_loop n q' (kept @ [s]))
           | Fail c \<Rightarrow> Fail c
           | UB \<Rightarrow> UB))"

definition skb_queue_free :: "sk_buff_head \<Rightarrow> (sk_buff_head \<times> sk_buff list) cres" where
  "skb_queue_free q = skb_queue_free_loop (length (q_list q)) q []"


section \<open>Header accessors\<close>

named_theorems skb_simps \<open>fields and regions of a packet buffer\<close>

lemma buf_write_drop: "off + length d \<le> length b \<Longrightarrow> drop off (buf_write b off d) = d @ drop (off + length d) b"
  by (simp add: buf_write_def)

lemma buf_write_drop_later:
  "off + length d \<le> n \<Longrightarrow> off + length d \<le> length b \<Longrightarrow> drop n (buf_write b off d) = drop n b"
  by (auto simp: buf_write_def)

lemma tcp_hdr_set [skb_simps]: "54 \<le> length (skb_head s) \<Longrightarrow> tcp_hdr (set_tcp_hdr th s) = th"
  by (simp add: tcp_hdr_def set_tcp_hdr_def hdr_lens buf_write_drop)

lemma ip_hdr_set [skb_simps]: "54 \<le> length (skb_head s) \<Longrightarrow> ip_hdr (set_ip_hdr ih s) = ih"
  by (simp add: ip_hdr_def set_ip_hdr_def hdr_lens buf_write_drop)

lemma tcp_hdr_set_ip [skb_simps]: "54 \<le> length (skb_head s) \<Longrightarrow> tcp_hdr (set_ip_hdr ih s) = tcp_hdr s"
  by (simp add: tcp_hdr_def set_ip_hdr_def hdr_lens buf_write_drop_later)

lemma th_data_set [skb_simps]:
  "54 \<le> length (skb_head s) \<Longrightarrow> th_data (set_tcp_hdr th s) = th_data s"
  "54 \<le> length (skb_head s) \<Longrightarrow> th_data (set_ip_hdr ih s) = th_data s"
  by (simp_all add: th_data_def set_tcp_hdr_def set_ip_hdr_def hdr_lens buf_write_drop_later)

lemma tcphdr_of_cong: "20 \<le> length b \<Longrightarrow> tcphdr_of (take 20 b) = tcphdr_of b"
  by (simp add: tcphdr_of_def get_le16_def get_le32_def)

lemma tcp_hdr_set_data [skb_simps]:
  assumes "54 \<le> length (skb_head s)"
  shows "tcp_hdr (set_th_data off d s) = tcp_hdr s"
proof -
  have "take 20 (drop 34 (buf_write (skb_head s) (54 + off) d)) = take 20 (drop 34 (skb_head s))"
    using assms by (auto simp: buf_write_def min_def drop_take)
  moreover have "54 \<le> length (buf_write (skb_head s) (54 + off) d)"
    using assms by (auto simp: buf_write_def)
  ultimately show ?thesis
    using tcphdr_of_cong [of "drop 34 (skb_head s)"] assms
      tcphdr_of_cong [of "drop 34 (buf_write (skb_head s) (54 + off) d)"]
    by (simp add: tcp_hdr_def set_th_data_def hdr_lens)
qed

lemma th_data_set_data [skb_simps]:
  "54 \<le> length (skb_head s) \<Longrightarrow> th_data (set_th_data off d s) = buf_write (th_data s) off d"
  by (auto simp: th_data_def set_th_data_def hdr_lens buf_write_def ac_simps drop_take min_def)

lemma skb_set_fields [simp]:
  "skb_id (set_tcp_hdr th s) = skb_id s" "skb_dlen (set_tcp_hdr th s) = skb_dlen s"
  "skb_seq (set_tcp_hdr th s) = skb_seq s" "skb_end_seq (set_tcp_hdr th s) = skb_end_seq s"
  "skb_refcnt (set_tcp_hdr th s) = skb_refcnt s" "skb_data (set_tcp_hdr th s) = skb_data s"
  "skb_len (set_tcp_hdr th s) = skb_len s" "skb_payload (set_tcp_hdr th s) = skb_payload s"
  "skb_id (set_th_data off d s) = skb_id s" "skb_dlen (set_th_data off d s) = skb_dlen s"
  "skb_seq (set_th_data off d s) = skb_seq s" "skb_end_seq (set_th_data off d s) = skb_end_seq s"
  "skb_refcnt (set_th_data off d s) = skb_refcnt s" "skb_data (set_th_data off d s) = skb_data s"
  "skb_len (set_th_data off d s) = skb_len s"
  "skb_id (skb_push s n) = skb_id s" "skb_dlen (skb_push s n) = skb_dlen s"
  "skb_seq (skb_push s n) = skb_seq s" "skb_end_seq (skb_push s n) = skb_end_seq s"
  "skb_refcnt (skb_push s n) = skb_refcnt s" "skb_head (skb_push s n) = skb_head s"
  "skb_id (skb_reset_header s) = skb_id s" "skb_dlen (skb_reset_header s) = skb_dlen s"
  "skb_seq (skb_reset_header s) = skb_seq s" "skb_end_seq (skb_reset_header s) = skb_end_seq s"
  "skb_refcnt (skb_reset_header s) = skb_refcnt s" "skb_head (skb_reset_header s) = skb_head s"
  by (simp_all add: set_tcp_hdr_def set_th_data_def skb_push_def skb_reset_header_def)

lemma length_head_set [skb_simps]:
  "54 \<le> length (skb_head s) \<Longrightarrow> length (skb_head (set_tcp_hdr th s)) = length (skb_head s)"
  "54 + off + length d \<le> length (skb_head s) \<Longrightarrow> length (skb_head (set_th_data off d s)) = length (skb_head s)"
  by (simp_all add: set_tcp_hdr_def set_th_data_def hdr_lens length_buf_write in_bounds_def)

section \<open>The queue contract\<close>

fun pop_n :: "('q \<Rightarrow> ('a \<times> 'q) cres) \<Rightarrow> nat \<Rightarrow> 'q \<Rightarrow> ('a list \<times> 'q) cres" where
  "pop_n deq 0 q = Ok ([], q)"
| "pop_n deq (Suc n) q =
     (case deq q of
        Ok (x, q') \<Rightarrow> (case pop_n deq n q' of Ok (xs, q'') \<Rightarrow> Ok (x # xs, q'') | Fail c \<Rightarrow> Fail c | UB \<Rightarrow> UB)
      | Fail c \<Rightarrow> Fail c
      | UB \<Rightarrow> UB)"

locale fifo =
  fixes init :: 'q
    and enq :: "'q \<Rightarrow> 'a \<Rightarrow> 'q"
    and deq :: "'q \<Rightarrow> ('a \<times> 'q) cres"
    and peek :: "'q \<Rightarrow> 'a option"
    and abs :: "'q \<Rightarrow> 'a list"
    and inv :: "'q \<Rightarrow> bool"
    and cap :: nat
  assumes init_inv: "inv init" and init_abs: "abs init = []"
    and enq_inv: "inv q \<Longrightarrow> length (abs q) < cap \<Longrightarrow> inv (enq q x)"
    and enq_abs: "inv q \<Longrightarrow> abs (enq q x) = abs q @ [x]"
    and peek_abs: "inv q \<Longrightarrow> peek q = (case abs q of [] \<Rightarrow> None | x # xs \<Rightarrow> Some x)"
    and deq_abs: "inv q \<Longrightarrow> abs q = x # xs \<Longrightarrow> \<exists>q'. deq q = Ok (x, q') \<and> inv q' \<and> abs q' = xs"
begin

lemma enq_all:
  assumes "inv q" and "length (abs q) + length xs \<le> cap"
  shows "inv (fold (\<lambda>x q. enq q x) xs q) \<and> abs (fold (\<lambda>x q. enq q x) xs q) = abs q @ xs"
  using assms by (induction xs arbitrary: q) (simp_all add: enq_inv enq_abs)

lemma pop_prefix:
  "inv q \<Longrightarrow> n \<le> length (abs q) \<Longrightarrow>
     \<exists>q'. pop_n deq n q = Ok (take n (abs q), q') \<and> inv q' \<and> abs q' = drop n (abs q)"
proof (induction n arbitrary: q)
  case (Suc n)
  then obtain x xs where x: "abs q = x # xs" by (cases "abs q") auto
  with Suc.prems obtain q' where "deq q = Ok (x, q')" "inv q'" "abs q' = xs"
    using deq_abs by blast
  with Suc.IH [of q'] Suc.prems(2) x show ?case by auto
qed simp

lemma fifo_order:
  assumes "length xs \<le> cap" and "n \<le> length xs"
  shows "\<exists>q'. pop_n deq n (fold (\<lambda>x q. enq q x) xs init) = Ok (take n xs, q') \<and> inv q' \<and> abs q' = drop n xs"
  using pop_prefix [of "fold (\<lambda>x q. enq q x) xs init" n] enq_all [OF init_inv, of xs] assms
  by (simp add: init_abs)

end

definition q_wf :: "sk_buff_head \<Rightarrow> bool" where
  "q_wf q \<longleftrightarrow> length (q_list q) < 2 ^ 32 \<and> unat (qlen q) = length (q_list q)"

lemma q_wf_empty_iff: "q_wf q \<Longrightarrow> skb_queue_empty q \<longleftrightarrow> q_list q = []"
  by (auto simp: q_wf_def skb_queue_empty_def skb_queue_len_def word_less_nat_alt)

lemma q_wf_peek: "q_wf q \<Longrightarrow> skb_peek q = (case q_list q of [] \<Rightarrow> None | x # xs \<Rightarrow> Some x)"
  by (auto simp: skb_peek_def q_wf_empty_iff split: list.splits)

lemma q_wf_tail: "q_wf q \<Longrightarrow> length (q_list q) < 2 ^ 32 - 1 \<Longrightarrow> q_wf (skb_queue_tail q x)"
  by (auto simp: q_wf_def skb_queue_tail_def unat_word_ariths)

lemma q_wf_dequeue:
  assumes "q_wf q" and "q_list q = x # xs"
  shows "\<exists>q'. skb_dequeue q = Ok (x, q') \<and> q_wf q' \<and> q_list q' = xs"
proof -
  have "1 \<le> qlen q" using assms by (simp add: q_wf_def word_le_nat_alt)
  then have "unat (qlen q - 1) = length xs" using assms by (simp add: q_wf_def unat_sub)
  with assms show ?thesis by (simp add: skb_dequeue_def q_wf_def)
qed

interpretation skbq: fifo skb_queue_init skb_queue_tail skb_dequeue skb_peek q_list q_wf "2 ^ 32 - 1"
proof
  show "q_wf skb_queue_init" "q_list skb_queue_init = []"
    by (simp_all add: q_wf_def skb_queue_init_def)
  show "q_wf q \<Longrightarrow> length (q_list q) < 2 ^ 32 - 1 \<Longrightarrow> q_wf (skb_queue_tail q x)" for q x
    by (rule q_wf_tail)
  show "q_wf q \<Longrightarrow> q_list (skb_queue_tail q x) = q_list q @ [x]" for q x
    by (simp add: skb_queue_tail_def)
  show "q_wf q \<Longrightarrow> skb_peek q = (case q_list q of [] \<Rightarrow> None | x # xs \<Rightarrow> Some x)" for q
    by (rule q_wf_peek)
  show "q_wf q \<Longrightarrow> q_list q = x # xs \<Longrightarrow> \<exists>q'. skb_dequeue q = Ok (x, q') \<and> q_wf q' \<and> q_list q' = xs" for q x xs
    by (rule q_wf_dequeue)
qed

lemma queue_free_loop_empties:
  "q_wf q \<Longrightarrow> length (q_list q) = n \<Longrightarrow>
     \<exists>q'. skb_queue_free_loop n q kept =
            Ok (q', kept @ filter (\<lambda>s. \<not> skb_refcnt s < 1)
                      (map (\<lambda>s. s\<lparr>skb_refcnt := skb_refcnt s - 1\<rparr>) (q_list q))) \<and>
          q_wf q' \<and> q_list q' = []"
proof (induction n arbitrary: q kept)
  case (Suc n)
  then obtain x xs where x: "q_list q = x # xs" by (cases "q_list q") auto
  with Suc.prems obtain q' where q': "skb_dequeue q = Ok (x, q')" "q_wf q'" "q_list q' = xs"
    using q_wf_dequeue by blast
  have "skb_peek q = Some x" using Suc.prems x by (simp add: q_wf_peek)
  then show ?case
    using Suc.IH [of q' kept] Suc.IH [of q' "kept @ [x\<lparr>skb_refcnt := skb_refcnt x - 1\<rparr>]"] q' x Suc.prems(2)
    by (cases "skb_refcnt x < 2") (simp_all add: free_skb_def)
qed simp
end
