(* ===== verification/Timer.thy ===== *)
theory Timer
  imports Main Prelude "HOL-Library.Multiset"
begin

text \<open>
  The timer list of \<open>src/timer.c\<close>.  A timer handle is the identity of its allocation; the
  callback and its argument are one value of the type \<open>'h\<close>.  The tick counter is kept as the
  32-bit pattern that every comparison in the source converts it to.  \<open>timers_tick\<close> starts a
  thread per expired timer; the model returns the callbacks in the order the threads are
  created.
\<close>

record 'h timer =
  tm_id :: nat
  tm_refcnt :: int
  tm_expires :: u32
  tm_cancelled :: bool
  tm_handler :: 'h

record 'h timers =
  ts_tick :: u32
  ts_list :: "'h timer list"
  ts_next :: nat

definition timers_init :: "'h timers" where
  "timers_init = \<lparr>ts_tick = 0, ts_list = [], ts_next = 0\<rparr>"

definition timer_get_tick :: "'h timers \<Rightarrow> u32" where
  "timer_get_tick ts = ts_tick ts"

definition timer_insert :: "int \<Rightarrow> u32 \<Rightarrow> 'h \<Rightarrow> 'h timers \<Rightarrow> 'h timers" where
  "timer_insert refs expire h ts =
     ts\<lparr>ts_list := ts_list ts @
          [\<lparr>tm_id = ts_next ts, tm_refcnt = refs, tm_expires = timer_get_tick ts + expire,
            tm_cancelled = False, tm_handler = h\<rparr>],
        ts_next := ts_next ts + 1\<rparr>"

definition timer_oneshot :: "u32 \<Rightarrow> 'h \<Rightarrow> 'h timers \<Rightarrow> 'h timers" where
  "timer_oneshot expire h ts = timer_insert 0 expire h ts"

definition timer_add :: "u32 \<Rightarrow> 'h \<Rightarrow> 'h timers \<Rightarrow> nat \<times> 'h timers" where
  "timer_add expire h ts = (ts_next ts, timer_insert 1 expire h ts)"

definition timer_update :: "('h timer \<Rightarrow> 'h timer) \<Rightarrow> nat option \<Rightarrow> 'h timers \<Rightarrow> 'h timers" where
  "timer_update f t ts =
     (case t of
        None \<Rightarrow> ts
      | Some i \<Rightarrow> ts\<lparr>ts_list := map (\<lambda>u. if tm_id u = i then f u else u) (ts_list ts)\<rparr>)"

definition timer_release :: "nat option \<Rightarrow> 'h timers \<Rightarrow> 'h timers" where
  "timer_release = timer_update (\<lambda>u. u\<lparr>tm_refcnt := tm_refcnt u - 1\<rparr>)"

definition timer_cancel :: "nat option \<Rightarrow> 'h timers \<Rightarrow> 'h timers" where
  "timer_cancel = timer_update (\<lambda>u. u\<lparr>tm_refcnt := tm_refcnt u - 1, tm_cancelled := True\<rparr>)"

text \<open>One pass of \<open>timers_tick\<close> at the given tick: the surviving timers and the callbacks
  started.  \<open>timers_start\<close> advances the tick by 10 before each pass.\<close>

fun tick_list :: "u32 \<Rightarrow> 'h timer list \<Rightarrow> 'h timer list \<times> 'h list" where
  "tick_list now [] = ([], [])"
| "tick_list now (t # ts) =
     (let fire = (\<not> tm_cancelled t \<and> tm_expires t < now);
          t' = (if fire then t\<lparr>tm_cancelled := True\<rparr> else t);
          (rest, fired) = tick_list now ts
      in ((if tm_cancelled t' \<and> tm_refcnt t' = 0 then rest else t' # rest),
          (if fire then tm_handler t # fired else fired)))"

definition timers_tick :: "'h timers \<Rightarrow> 'h timers \<times> 'h list" where
  "timers_tick ts =
     (let (l, fired) = tick_list (ts_tick ts) (ts_list ts) in (ts\<lparr>ts_list := l\<rparr>, fired))"

definition timers_step :: "'h timers \<Rightarrow> 'h timers \<times> 'h list" where
  "timers_step ts = timers_tick (ts\<lparr>ts_tick := ts_tick ts + 10\<rparr>)"

definition timer_find :: "'h timers \<Rightarrow> nat \<Rightarrow> 'h timer option" where
  "timer_find ts i = find (\<lambda>u. tm_id u = i) (ts_list ts)"

section \<open>Properties of a pass\<close>

lemma tick_list_fired:
  "snd (tick_list now ts) = map tm_handler (filter (\<lambda>t. \<not> tm_cancelled t \<and> tm_expires t < now) ts)"
  by (induction ts) (auto simp: Let_def split: prod.splits)

lemma tick_list_kept:
  "fst (tick_list now ts) =
     filter (\<lambda>t. \<not> (tm_cancelled t \<and> tm_refcnt t = 0))
       (map (\<lambda>t. if \<not> tm_cancelled t \<and> tm_expires t < now then t\<lparr>tm_cancelled := True\<rparr> else t) ts)"
  by (induction ts) (auto simp: Let_def split: prod.splits)

text \<open>A timer whose handle is held is never freed by a pass, and one that has fired, or was
  cancelled, never fires in a later pass whatever the tick.\<close>

lemma tick_keeps_held:
  assumes "t \<in> set ts" and "tm_refcnt t \<noteq> 0"
  shows "\<exists>t'\<in>set (fst (tick_list now ts)).
           tm_id t' = tm_id t \<and> tm_refcnt t' = tm_refcnt t \<and> tm_expires t' = tm_expires t"
proof (intro bexI)
  let ?f = "\<lambda>t. if \<not> tm_cancelled t \<and> tm_expires t < now then t\<lparr>tm_cancelled := True\<rparr> else t"
  show "tm_id (?f t) = tm_id t \<and> tm_refcnt (?f t) = tm_refcnt t \<and> tm_expires (?f t) = tm_expires t"
    by simp
  show "?f t \<in> set (fst (tick_list now ts))"
    using assms unfolding tick_list_kept by (auto intro!: image_eqI [where x = t])
qed

text \<open>Live timers: those that have not fired and were not cancelled.  Over any number of
  passes each live timer fires at most once and no other timer fires.\<close>

definition live :: "'h timer list \<Rightarrow> 'h list" where
  "live ts = map tm_handler (filter (\<lambda>t. \<not> tm_cancelled t) ts)"

fun run_steps :: "nat \<Rightarrow> 'h timers \<Rightarrow> 'h timers \<times> 'h list" where
  "run_steps 0 ts = (ts, [])"
| "run_steps (Suc n) ts =
     (let (ts1, f1) = timers_step ts; (ts2, f2) = run_steps n ts1 in (ts2, f1 @ f2))"

lemma tick_live:
  "mset (snd (tick_list now ts)) + mset (live (fst (tick_list now ts))) = mset (live ts)"
  by (induction ts) (auto simp: live_def Let_def split: prod.splits)

lemma run_steps_live:
  "mset (snd (run_steps n ts)) + mset (live (ts_list (fst (run_steps n ts)))) = mset (live (ts_list ts))"
proof (induction n arbitrary: ts)
  case (Suc n)
  let ?now = "ts_tick ts + 10"
  let ?ts1 = "fst (timers_step ts)"
  have 1: "snd (timers_step ts) = snd (tick_list ?now (ts_list ts))"
    "ts_list ?ts1 = fst (tick_list ?now (ts_list ts))"
    by (simp_all add: timers_step_def timers_tick_def split: prod.splits)
  have "mset (snd (run_steps (Suc n) ts)) + mset (live (ts_list (fst (run_steps (Suc n) ts)))) =
      mset (snd (timers_step ts)) + (mset (snd (run_steps n ?ts1)) + mset (live (ts_list (fst (run_steps n ?ts1)))))"
    by (simp add: Let_def split: prod.splits)
  then show ?case using Suc.IH [of ?ts1] tick_live [of ?now "ts_list ts"] 1 by simp
qed simp

text \<open>A timer fires no earlier than the first tick past its expiry.\<close>

lemma step_fires_expired:
  "h \<in> set (snd (timers_step ts)) \<Longrightarrow>
     \<exists>t\<in>set (ts_list ts). tm_handler t = h \<and> \<not> tm_cancelled t \<and> tm_expires t < ts_tick ts + 10"
  by (force simp: timers_step_def timers_tick_def tick_list_fired split: prod.splits dest!: arg_cong [where f = snd])

end
