(* ===== verification/Checksum.thy ===== *)
theory Checksum
  imports Main Prelude Wire
begin

text \<open>
  The Internet checksum of \<open>src/utils.c\<close> and its users in \<open>src/tcp.c\<close>: 16-bit words are
  loaded in host order and summed into a \<open>uint32_t\<close>, the sum is folded to 16 bits and
  complemented.
\<close>

fun sum_every_16bits :: "bytes \<Rightarrow> u32 \<Rightarrow> u32" where
  "sum_every_16bits (a # b # bs) s = sum_every_16bits bs (s + ucast (get_le16 [a, b] 0))"
| "sum_every_16bits [a] s = s + ucast a"
| "sum_every_16bits [] s = s"

lemma unat_bound: "unat (w :: 'a::len word) < 2 ^ LENGTH('a)"
  by (rule unsigned_less)

lemma unat_low16: "unat ((s::u32) AND 0xffff) = unat s mod 65536"
proof -
  have "s AND 0xffff = take_bit 16 s" by (simp add: take_bit_eq_mask mask_eq_exp_minus_1)
  then have "unat (s AND 0xffff) = take_bit 16 (unat s)" by (simp add: unsigned_take_bit_eq)
  then show ?thesis by (simp add: take_bit_eq_mod)
qed

lemma unat_high16: "unat (drop_bit 16 (s::u32)) = unat s div 65536"
proof -
  have "unat (drop_bit 16 s) = drop_bit 16 (unat s)" by (rule unat_drop_bit_eq)
  then show ?thesis by (simp add: drop_bit_eq_div)
qed

lemma unat_fold: "unat (((s::u32) AND 0xffff) + drop_bit 16 s) = unat s mod 65536 + unat s div 65536"
proof -
  have "unat s < 2 ^ 32" using unat_bound [of s] by simp
  then have "unat s div 65536 < 65536" by (simp add: less_mult_imp_div_less)
  then have "unat s mod 65536 + unat s div 65536 < 2 ^ 32" by (simp add: add_less_mono [of _ 65536 _ 65536, THEN less_trans])
  then show ?thesis by (simp add: unat_word_ariths unat_low16 unat_high16)
qed

lemma fold_decreases:
  assumes "drop_bit 16 (s::u32) \<noteq> 0"
  shows "unat ((s AND 0xffff) + drop_bit 16 s) < unat s"
proof -
  have "0 < unat s div 65536" using assms unat_high16 [of s] by (metis unat_gt_0)
  then have "unat s div 65536 < 65536 * (unat s div 65536)" by simp
  then show ?thesis unfolding unat_fold using div_mult_mod_eq [of "unat s" 65536] by linarith
qed

function fold16 :: "u32 \<Rightarrow> u32" where
  "fold16 s = (if drop_bit 16 s \<noteq> 0 then fold16 ((s AND 0xffff) + drop_bit 16 s) else s)"
  by pat_completeness auto
termination
  by (relation "measure unat") (use fold_decreases in auto)

declare fold16.simps [simp del]

definition checksum :: "bytes \<Rightarrow> u32 \<Rightarrow> u16" where
  "checksum b start_sum = NOT (ucast (fold16 (sum_every_16bits b start_sum)))"

definition tcp_udp_checksum :: "u32 \<Rightarrow> u32 \<Rightarrow> u8 \<Rightarrow> bytes \<Rightarrow> u16 \<Rightarrow> u16" where
  "tcp_udp_checksum saddr daddr proto d len =
     checksum (take (unat len) d)
       (saddr + daddr + ucast (htons (ucast proto)) + ucast (htons len))"

section \<open>Ones' complement arithmetic\<close>

lemma fold16_spec:
  "unat (fold16 s) < 65536 \<and> unat (fold16 s) mod 65535 = unat s mod 65535 \<and> (fold16 s = 0 \<longleftrightarrow> s = 0)"
proof (induction s rule: fold16.induct)
  case (1 s)
  show ?case
  proof (cases "drop_bit 16 s = 0")
    case True
    then have "unat s div 65536 = 0" using unat_high16 [of s] by simp
    then have "unat s < 65536" by (simp add: div_eq_0_iff)
    with True show ?thesis by (simp add: fold16.simps [of s])
  next
    case False
    let ?t = "(s AND 0xffff) + drop_bit 16 s"
    have "unat s mod 65535 = (unat s mod 65536 + 65536 * (unat s div 65536)) mod 65535"
      by simp
    also have "\<dots> = (unat s mod 65536 + unat s div 65536 + 65535 * (unat s div 65536)) mod 65535"
      by (simp add: algebra_simps)
    also have "\<dots> = unat ?t mod 65535" unfolding unat_fold by (metis mod_mult_self2)
    finally have "unat ?t mod 65535 = unat s mod 65535" by simp
    moreover have "0 < unat s div 65536" using False unat_high16 [of s] by (metis unat_gt_0)
    then have "unat ?t \<noteq> 0" unfolding unat_fold by simp
    then have "?t \<noteq> 0" by auto
    moreover have "s \<noteq> 0" using False by auto
    ultimately show ?thesis using 1 False by (simp add: fold16.simps [of s])
  qed
qed

fun word_sum :: "bytes \<Rightarrow> nat" where
  "word_sum (a # b # bs) = unat (get_le16 [a, b] 0) + word_sum bs"
| "word_sum [a] = unat a"
| "word_sum [] = 0"

lemma unat_ucast_32:
  "unat (ucast (w :: u16) :: u32) = unat w" "unat (ucast (v :: u8) :: u32) = unat v"
proof -
  have "unat w < 2 ^ 32" "unat v < 2 ^ 32"
    using unat_bound [of w] unat_bound [of v] by simp_all
  then show "unat (ucast w :: u32) = unat w" "unat (ucast v :: u32) = unat v"
    by (simp_all add: unsigned_ucast_eq take_bit_nat_eq_self)
qed

lemma sum_every_16bits_unat:
  "unat s + word_sum b < 2 ^ 32 \<Longrightarrow> unat (sum_every_16bits b s) = unat s + word_sum b"
proof (induction b s rule: sum_every_16bits.induct)
  case (1 a b bs s)
  have u: "unat (ucast (get_le16 [a, b] 0) :: u32) = unat (get_le16 [a, b] 0)"
    by (simp add: unat_ucast_32)
  then have "unat (s + ucast (get_le16 [a, b] 0)) = unat s + unat (get_le16 [a, b] 0)"
    using 1(2) by (simp add: unat_word_ariths)
  with 1 show ?case by simp
next
  case (2 a s)
  then show ?case by (simp add: unat_word_ariths unat_ucast_32)
qed simp

lemma word_sum_append: "even (length xs) \<Longrightarrow> word_sum (xs @ ys) = word_sum xs + word_sum ys"
  by (induction xs rule: word_sum.induct) auto

lemma word_sum_bound: "word_sum b \<le> 65535 * ((length b + 1) div 2)"
proof (induction b rule: word_sum.induct)
  case (1 a b bs)
  have "unat (get_le16 [a, b] 0) \<le> 65535" using unat_bound [of "get_le16 [a, b] 0"] by simp
  with 1 show ?case by simp
next
  case (2 a)
  then show ?case using unat_bound [of a] by simp
qed simp

text \<open>A region whose checksum field was filled in while it was zero sums to zero: what the
  sender writes, the receiver accepts.\<close>

lemma unat_NOT16: "unat (NOT (w :: u16)) = 65535 - unat w"
proof -
  have "NOT w = - 1 - w" unfolding not_eq_complement by simp
  moreover have "w \<le> - 1" by simp
  ultimately have "unat (NOT w) = unat (- 1 :: u16) - unat w" by (simp add: unat_sub)
  moreover have "unat (- 1 :: u16) = 65535" by (simp add: unsigned_minus_1_eq_mask mask_eq_exp_minus_1)
  ultimately show ?thesis by simp
qed

lemma unat_checksum:
  assumes "unat s + word_sum b < 2 ^ 32"
  shows "\<exists>F. unat (checksum b s) = 65535 - F \<and> F < 65536 \<and>
           F mod 65535 = (unat s + word_sum b) mod 65535 \<and> (F = 0 \<longleftrightarrow> unat s + word_sum b = 0)"
proof -
  let ?t = "sum_every_16bits b s"
  have t: "unat ?t = unat s + word_sum b" by (rule sum_every_16bits_unat [OF assms])
  have "unat (ucast (fold16 ?t) :: u16) = unat (fold16 ?t)"
    using fold16_spec [of ?t] by (simp add: unsigned_ucast_eq take_bit_nat_eq_self)
  then have "unat (checksum b s) = 65535 - unat (fold16 ?t)"
    by (simp add: checksum_def unat_NOT16)
  moreover have "unat (fold16 ?t) = 0 \<longleftrightarrow> unat ?t = 0"
    using fold16_spec [of ?t] by (simp add: unsigned_eq_0_iff)
  ultimately show ?thesis using fold16_spec [of ?t] t by metis
qed

lemma word_sum_le16: "word_sum (le16 w @ ys) = unat w + word_sum ys"
proof -
  obtain a b where "le16 w = [a, b]" using be_split(1) [of w] by (auto simp: le16_def)
  moreover from this have "get_le16 [a, b] 0 = w" using get_le16_append [of w "[]"] by simp
  ultimately show ?thesis by simp
qed

lemma checksum_verifies:
  assumes "even (length xs)" and "unat s + word_sum xs + word_sum ys + 65536 < 2 ^ 32"
  shows "checksum (xs @ le16 (checksum (xs @ le16 0 @ ys) s) @ ys) s = 0"
proof -
  let ?c = "checksum (xs @ le16 0 @ ys) s" and ?S = "unat s + word_sum xs + word_sum ys"
  have "word_sum (xs @ le16 0 @ ys) = word_sum xs + word_sum ys"
    using assms(1) by (simp add: word_sum_append word_sum_le16)
  then obtain F where F: "unat ?c = 65535 - F" "F < 65536" "F mod 65535 = ?S mod 65535" "F = 0 \<longleftrightarrow> ?S = 0"
    using unat_checksum [of s "xs @ le16 0 @ ys"] assms(2) by (auto simp: add.assoc)
  let ?S' = "?S + (65535 - F)"
  have w: "unat s + word_sum (xs @ le16 ?c @ ys) = ?S'"
    using assms(1) F(1) by (simp add: word_sum_append word_sum_le16)
  have "(?S' + F) mod 65535 = F mod 65535" using F(2,3) by simp
  then have "65535 dvd ?S'" using mod_eq_dvd_iff_nat [of F "?S' + F" 65535] by simp
  then have "?S' mod 65535 = 0" by simp
  moreover have "?S' \<noteq> 0" using F(2,4) by auto
  moreover have "?S' < 2 ^ 32" using assms(2) by linarith
  then obtain G where "unat (checksum (xs @ le16 ?c @ ys) s) = 65535 - G" "G < 65536"
    "G mod 65535 = ?S' mod 65535" "G = 0 \<longleftrightarrow> ?S' = 0"
    using unat_checksum [of s "xs @ le16 ?c @ ys"] w by (metis (no_types, lifting))
  ultimately have "unat (checksum (xs @ le16 ?c @ ys) s) = 65535 - G" "G \<noteq> 0" "G mod 65535 = 0" "G < 65536"
    by auto
  then have "G = 65535" by (auto simp: mod_eq_0_iff_dvd elim!: dvdE)
  then show ?thesis using \<open>unat (checksum (xs @ le16 ?c @ ys) s) = 65535 - G\<close> by (simp add: unsigned_eq_0_iff)
qed

end
