(* ===== verification/Tcp_Sock.thy ===== *)
theory Tcp_Sock
  imports Main Prelude Wire Skbuff Timer Fec_Codec
begin

text \<open>
  The connection state: \<open>struct sock\<close>, \<open>struct socket\<close> and \<open>struct tcp_sock\<close>
  (\<open>include/sock.h\<close>, \<open>include/socket.h\<close>, \<open>include/tcp.h\<close>) as one record, with the parts of
  the environment a connection changes: the timer list, the identity of the next packet
  buffer, and \<open>tx_log\<close>, the buffers handed to \<open>ip_output\<close> so far (a history variable).
  The functions here are those of \<open>src/tcp.c\<close> and \<open>src/sock.c\<close> the other TCP files rely on.
  Locks are not modelled: every function runs with the socket write lock held.
\<close>

section \<open>Constants\<close>

definition TCP_FIN :: u8 where "TCP_FIN = 0x01"
definition TCP_PSH :: u8 where "TCP_PSH = 0x08"
definition TCP_SYN_BACKOFF :: u32 where "TCP_SYN_BACKOFF = 500"
definition TCP_CONN_RETRIES :: u8 where "TCP_CONN_RETRIES = 3"
definition TCP_2MSL :: u32 where "TCP_2MSL = 60000"
definition TCP_USER_TIMEOUT :: u32 where "TCP_USER_TIMEOUT = 180000"
definition TCP_FEC_RX_BLOCKS :: nat where "TCP_FEC_RX_BLOCKS = 4"

text \<open>The Linux values of the \<open>poll\<close> events and error numbers the sources use.\<close>

definition POLLIN :: u16 where "POLLIN = 0x001"
definition POLLPRI :: u16 where "POLLPRI = 0x002"
definition POLLOUT :: u16 where "POLLOUT = 0x004"
definition POLLERR :: u16 where "POLLERR = 0x008"
definition POLLHUP :: u16 where "POLLHUP = 0x010"
definition POLLRDNORM :: u16 where "POLLRDNORM = 0x040"
definition POLLRDBAND :: u16 where "POLLRDBAND = 0x080"
definition POLLWRNORM :: u16 where "POLLWRNORM = 0x100"
definition POLLWRBAND :: u16 where "POLLWRBAND = 0x200"

definition EBADF :: int where "EBADF = 9"
definition EAGAIN :: int where "EAGAIN = 11"
definition EINVAL :: int where "EINVAL = 22"
definition EPIPE :: int where "EPIPE = 32"
definition EAFNOSUPPORT :: int where "EAFNOSUPPORT = 97"
definition ECONNRESET :: int where "ECONNRESET = 104"
definition EISCONN :: int where "EISCONN = 106"
definition ETIMEDOUT :: int where "ETIMEDOUT = 110"
definition ECONNREFUSED :: int where "ECONNREFUSED = 111"
definition EALREADY :: int where "EALREADY = 114"
definition EINPROGRESS :: int where "EINPROGRESS = 115"

section \<open>State\<close>

datatype tcp_states =
    TCP_LISTEN | TCP_SYN_SENT | TCP_SYN_RECEIVED | TCP_ESTABLISHED | TCP_FIN_WAIT_1 | TCP_FIN_WAIT_2
  | TCP_CLOSE | TCP_CLOSE_WAIT | TCP_CLOSING | TCP_LAST_ACK | TCP_TIME_WAIT

datatype socket_state = SS_FREE | SS_UNCONNECTED | SS_CONNECTING | SS_CONNECTED | SS_DISCONNECTING

datatype handler =
    H_connect_rto | H_retransmission_timeout | H_send_delack | H_linger | H_user_timeout
  | H_socket_garbage_collect

record tcb =
  snd_una :: u32
  snd_nxt :: u32
  snd_wnd :: u32
  snd_up :: u32
  snd_wl1 :: u32
  snd_wl2 :: u32
  iss :: u32
  rcv_nxt :: u32
  rcv_wnd :: u32
  rcv_up :: u32
  irs :: u32

record tcp_sack_block =
  sb_left :: u32
  sb_right :: u32

record tcp_fec_block_rx =
  rx_active :: bool
  rx_recovered :: bool
  rx_blk_k :: u8
  rx_block_id :: u32
  rx_base_seq :: u32
  rx_tail_len :: u16
  rx_src_present :: "bool list"
  rx_red_present :: "bool list"
  rx_src_count :: u8
  rx_red_count :: u8
  rx_symbol_buf :: "bytes option"

text \<open>What the encoder's source pointers refer to: the payload of a packet buffer (zero copy),
  or a slot of \<open>tx_src_buf\<close> (ragged symbols).\<close>

datatype sym_ptr = SkbPayload nat nat | SrcSlot nat

record tcp_fec =
  fec_k :: u8
  fec_r :: u8
  fec_sym_len :: u16
  fec_ctx :: "fec_rs_ctx option"
  tx_block_id :: u32
  tx_base_seq :: u32
  tx_filled :: u8
  tx_tail_len :: u16
  tx_enc :: "sym_ptr fec_encoder"
  tx_src_buf :: bytes
  tx_repair_buf :: bytes
  fec_rx :: "tcp_fec_block_rx list"

record tcp_sock =
  sk_state :: tcp_states
  sk_err :: int
  sk_poll_events :: u16
  sk_sport :: u16
  sk_dport :: u16
  sk_saddr :: u32
  sk_daddr :: u32
  sk_recv_sleeping :: bool
  sk_receive_queue :: sk_buff_head
  sk_write_queue :: sk_buff_head
  so_state :: socket_state
  so_flags :: u32
  so_sleeping :: bool
  tcp_header_len :: u16
  tcb :: tcb
  tsk_flags :: u8
  backoff :: u8
  srtt :: int
  rttvar :: int
  rto :: u32
  retransmit :: "nat option"
  delack :: "nat option"
  keepalive :: "nat option"
  linger :: "nat option"
  delacks :: u8
  rmss :: u16
  smss :: u16
  inflight :: u32
  sackok :: bool
  sacks_allowed :: u8
  sacklen :: u8
  sacks :: "tcp_sack_block list"
  tsopt :: bool
  fecok :: bool
  tsk_fec :: "tcp_fec option"
  ofo_queue :: sk_buff_head
  tsk_timers :: "handler timers"
  next_skb :: nat
  tx_log :: "sk_buff list"

abbreviation upd_tcb :: "(tcb \<Rightarrow> tcb) \<Rightarrow> tcp_sock \<Rightarrow> tcp_sock" where
  "upd_tcb f tsk \<equiv> tsk\<lparr>tcb := f (tcb tsk)\<rparr>"

section \<open>Allocation\<close>

definition tcb_zero :: tcb where
  "tcb_zero = \<lparr>snd_una = 0, snd_nxt = 0, snd_wnd = 0, snd_up = 0, snd_wl1 = 0, snd_wl2 = 0, iss = 0,
     rcv_nxt = 0, rcv_wnd = 0, rcv_up = 0, irs = 0\<rparr>"

text \<open>\<open>tcp_alloc_sock\<close> followed by \<open>sock_init_data\<close> on a socket fresh from \<open>alloc_socket\<close>
  (\<open>O_RDWR\<close> is 2), in the environment it is created in.\<close>

definition tcp_alloc_sock :: "handler timers \<Rightarrow> nat \<Rightarrow> tcp_sock" where
  "tcp_alloc_sock ts nxt =
     \<lparr>sk_state = TCP_CLOSE, sk_err = 0, sk_poll_events = 0, sk_sport = 0, sk_dport = 0, sk_saddr = 0, sk_daddr = 0,
      sk_recv_sleeping = False, sk_receive_queue = skb_queue_init, sk_write_queue = skb_queue_init,
      so_state = SS_UNCONNECTED, so_flags = 2, so_sleeping = False, tcp_header_len = 0, tcb = tcb_zero, tsk_flags = 0, backoff = 0,
      srtt = 0, rttvar = 0, rto = 0, retransmit = None, delack = None, keepalive = None, linger = None,
      delacks = 0, rmss = 1460, smss = 536, inflight = 0, sackok = True, sacks_allowed = 0, sacklen = 0,
      sacks = replicate 4 \<lparr>sb_left = 0, sb_right = 0\<rparr>, tsopt = False, fecok = True, tsk_fec = None,
      ofo_queue = skb_queue_init, tsk_timers = ts, next_skb = nxt, tx_log = []\<rparr>"

section \<open>Small operations\<close>

definition tcp_set_state :: "tcp_states \<Rightarrow> tcp_sock \<Rightarrow> tcp_sock" where
  "tcp_set_state st tsk = tsk\<lparr>sk_state := st\<rparr>"

definition wait_wakeup_sleep :: "tcp_sock \<Rightarrow> tcp_sock" where
  "wait_wakeup_sleep tsk = tsk\<lparr>so_sleeping := False\<rparr>"

definition tcp_recv_notify :: "tcp_sock \<Rightarrow> tcp_sock" where
  "tcp_recv_notify tsk = tsk\<lparr>sk_recv_sleeping := False\<rparr>"

definition sock_connected :: "tcp_sock \<Rightarrow> tcp_sock" where
  "sock_connected tsk =
     wait_wakeup_sleep (tsk\<lparr>so_state := SS_CONNECTED, sk_err := 0,
                            sk_poll_events := POLLOUT OR POLLWRNORM OR POLLWRBAND\<rparr>)"

definition tcp_stop_rto_timer :: "tcp_sock \<Rightarrow> tcp_sock" where
  "tcp_stop_rto_timer tsk =
     tsk\<lparr>tsk_timers := timer_cancel (retransmit tsk) (tsk_timers tsk), retransmit := None, backoff := 0\<rparr>"

definition tcp_release_rto_timer :: "tcp_sock \<Rightarrow> tcp_sock" where
  "tcp_release_rto_timer tsk =
     tsk\<lparr>tsk_timers := timer_release (retransmit tsk) (tsk_timers tsk), retransmit := None\<rparr>"

definition tcp_stop_delack_timer :: "tcp_sock \<Rightarrow> tcp_sock" where
  "tcp_stop_delack_timer tsk =
     tsk\<lparr>tsk_timers := timer_cancel (delack tsk) (tsk_timers tsk), delack := None\<rparr>"

definition tcp_release_delack_timer :: "tcp_sock \<Rightarrow> tcp_sock" where
  "tcp_release_delack_timer tsk =
     tsk\<lparr>tsk_timers := timer_release (delack tsk) (tsk_timers tsk), delack := None\<rparr>"

definition cancel_linger :: "tcp_sock \<Rightarrow> tcp_sock" where
  "cancel_linger tsk = tsk\<lparr>tsk_timers := timer_cancel (linger tsk) (tsk_timers tsk), linger := None\<rparr>"

definition tcp_clear_timers :: "tcp_sock \<Rightarrow> tcp_sock" where
  "tcp_clear_timers tsk =
     (let tsk = tcp_stop_rto_timer tsk;
          tsk = tcp_stop_delack_timer tsk;
          tsk = tsk\<lparr>tsk_timers := timer_cancel (keepalive tsk) (tsk_timers tsk), keepalive := None\<rparr>
      in cancel_linger tsk)"

definition add_timer :: "u32 \<Rightarrow> handler \<Rightarrow> tcp_sock \<Rightarrow> nat \<times> tcp_sock" where
  "add_timer expire h tsk =
     (let (i, ts) = timer_add expire h (tsk_timers tsk) in (i, tsk\<lparr>tsk_timers := ts\<rparr>))"

definition tcp_clear_queues :: "tcp_sock \<Rightarrow> tcp_sock" where
  "tcp_clear_queues tsk =
     (case skb_queue_free (ofo_queue tsk) of Ok (q, kept) \<Rightarrow> tsk\<lparr>ofo_queue := q\<rparr> | _ \<Rightarrow> tsk)"

definition tcp_fec_release :: "tcp_sock \<Rightarrow> tcp_sock" where
  "tcp_fec_release tsk = tsk\<lparr>tsk_fec := None\<rparr>"

definition tcp_free :: "tcp_sock \<Rightarrow> tcp_sock" where
  "tcp_free tsk = wait_wakeup_sleep (tcp_fec_release (tcp_clear_queues (tcp_clear_timers tsk)))"

definition socket_delete :: "tcp_sock \<Rightarrow> tcp_sock" where
  "socket_delete tsk =
     (if so_state tsk = SS_DISCONNECTING then tsk
      else tsk\<lparr>so_state := SS_DISCONNECTING,
               tsk_timers := timer_oneshot 10000 H_socket_garbage_collect (tsk_timers tsk)\<rparr>)"

definition tcp_done :: "tcp_sock \<Rightarrow> tcp_sock" where
  "tcp_done tsk = socket_delete (tcp_free (tcp_set_state TCP_CLOSING tsk))"

definition tcp_handle_fin_state :: "tcp_sock \<Rightarrow> tcp_sock" where
  "tcp_handle_fin_state tsk =
     (case sk_state tsk of
        TCP_CLOSE_WAIT \<Rightarrow> tcp_set_state TCP_LAST_ACK tsk
      | TCP_ESTABLISHED \<Rightarrow> tcp_set_state TCP_FIN_WAIT_1 tsk
      | _ \<Rightarrow> tsk)"

definition tcp_enter_time_wait :: "tcp_sock \<Rightarrow> tcp_sock" where
  "tcp_enter_time_wait tsk =
     (let tsk = tcp_clear_timers (tcp_set_state TCP_TIME_WAIT tsk);
          (i, tsk) = add_timer TCP_2MSL H_linger tsk
      in tsk\<lparr>linger := Some i\<rparr>)"

definition tcp_rearm_user_timeout :: "tcp_sock \<Rightarrow> tcp_sock" where
  "tcp_rearm_user_timeout tsk =
     (if sk_state tsk = TCP_TIME_WAIT then tsk
      else let tsk = tsk\<lparr>tsk_timers := timer_cancel (linger tsk) (tsk_timers tsk)\<rparr>;
               (i, tsk) = add_timer TCP_USER_TIMEOUT H_user_timeout tsk
           in tsk\<lparr>linger := Some i\<rparr>)"


section \<open>Round-trip time\<close>

text \<open>Conversion of a quotient to \<open>int\<close> truncates towards zero.  The source computes the
  smoothed values in \<open>double\<close> with the weights 1/8 and 1/4, which is exact for 32-bit
  operands, and truncates on assignment.\<close>

definition ctrunc :: "int \<Rightarrow> int \<Rightarrow> int" where
  "ctrunc a b = (if 0 \<le> a then a div b else - (- a div b))"

definition tcp_rtt :: "tcp_sock \<Rightarrow> tcp_sock" where
  "tcp_rtt tsk =
     (if backoff tsk > 0 then tsk
      else case retransmit tsk of
        None \<Rightarrow> tsk
      | Some i \<Rightarrow>
          (case timer_find (tsk_timers tsk) i of
             None \<Rightarrow> tsk
           | Some t \<Rightarrow>
               let r = sint (timer_get_tick (tsk_timers tsk) - (tm_expires t - rto tsk)) in
               if r < 0 then tsk
               else let (srtt', rttvar') =
                          (if srtt tsk = 0 then (r, ctrunc r 2)
                           else (ctrunc (7 * srtt tsk + r) 8,
                                 ctrunc (3 * rttvar tsk + \<bar>srtt tsk - r\<bar>) 4));
                        k = 4 * rttvar';
                        k = (if k < 200 then 200 else k)
                    in tsk\<lparr>srtt := srtt', rttvar := rttvar', rto := of_int (srtt' + k)\<rparr>))"

text \<open>What a sample \<open>r\<close> does to the estimates; they stay non-negative, so truncation is rounding down.\<close>

lemma ctrunc_nonneg: "0 \<le> a \<Longrightarrow> ctrunc a b = a div b"
  by (simp add: ctrunc_def)

lemma tcp_rtt_sample:
  assumes "backoff tsk = 0" and "retransmit tsk = Some i" and "timer_find (tsk_timers tsk) i = Some t"
    and "r = sint (timer_get_tick (tsk_timers tsk) - (tm_expires t - rto tsk))"
    and "0 \<le> r" and "0 \<le> srtt tsk" and "0 \<le> rttvar tsk"
    and "s = (if srtt tsk = 0 then r else (7 * srtt tsk + r) div 8)"
    and "v = (if srtt tsk = 0 then r div 2 else (3 * rttvar tsk + \<bar>srtt tsk - r\<bar>) div 4)"
  shows "tcp_rtt tsk = tsk\<lparr>srtt := s, rttvar := v, rto := of_int (s + max 200 (4 * v))\<rparr>"
proof -
  have c: "(if srtt tsk = 0 then (r, ctrunc r 2)
      else (ctrunc (7 * srtt tsk + r) 8, ctrunc (3 * rttvar tsk + \<bar>srtt tsk - r\<bar>) 4)) = (s, v)"
    using assms(5-9) by (simp add: ctrunc_nonneg)
  have g: "\<not> backoff tsk > 0" "\<not> r < 0" using assms(1,5) by simp_all
  have "(if 4 * v < 200 then 200 else 4 * v) = max 200 (4 * v)" by (simp add: max_def)
  then show ?thesis
    by (simp only: tcp_rtt_def if_not_P [OF g(1)] assms(2,3) option.case assms(4) [symmetric] Let_def if_not_P [OF g(2)] c prod.case)
qed


section \<open>Selective acknowledgment blocks\<close>

fun sacks_loop ::
  "sk_buff list \<Rightarrow> u8 \<Rightarrow> nat \<Rightarrow> u8 \<Rightarrow> tcp_sack_block list \<Rightarrow> (u8 \<times> tcp_sack_block list) cres" where
  "sacks_loop [] allowed sb n blocks = Ok (n, blocks)"
| "sacks_loop (next # items) allowed sb n blocks =
     (let (n, blocks) =
            (if sb_left (blocks ! sb) = 0
             then (n + 1, blocks[sb := (blocks ! sb)\<lparr>sb_left := skb_seq next\<rparr>]) else (n, blocks))
      in if sb_right (blocks ! sb) = 0 \<or> sb_right (blocks ! sb) = skb_seq next
         then sacks_loop items allowed sb n (blocks[sb := (blocks ! sb)\<lparr>sb_right := skb_end_seq next\<rparr>])
         else if allowed \<le> n then Ok (n, blocks)
         else if length blocks \<le> unat n then UB
         else sacks_loop items allowed (unat n) (n + 1)
                (blocks[unat n := \<lparr>sb_left = skb_seq next, sb_right = skb_end_seq next\<rparr>]))"

definition tcp_calculate_sacks :: "tcp_sock \<Rightarrow> tcp_sock cres" where
  "tcp_calculate_sacks tsk =
     (let i = unat (sacklen tsk) in
      if length (sacks tsk) \<le> i then UB
      else case sacks_loop (q_list (ofo_queue tsk)) (sacks_allowed tsk) i (sacklen tsk)
                  ((sacks tsk)[i := \<lparr>sb_left = 0, sb_right = 0\<rparr>]) of
             Ok (n, blocks) \<Rightarrow> Ok (tsk\<lparr>sacklen := n, sacks := blocks\<rparr>)
           | Fail c \<Rightarrow> Fail c
           | UB \<Rightarrow> UB)"

text \<open>The reference: maximal runs of adjacent segments.\<close>

fun sack_runs :: "(u32 \<times> u32) list \<Rightarrow> (u32 \<times> u32) list" where
  "sack_runs [] = []"
| "sack_runs [x] = [x]"
| "sack_runs ((l, r) # (l', r') # xs) =
     (if r = l' then sack_runs ((l, r') # xs) else (l, r) # sack_runs ((l', r') # xs))"

abbreviation seg :: "sk_buff \<Rightarrow> u32 \<times> u32" where "seg s \<equiv> (skb_seq s, skb_end_seq s)"
abbreviation blk :: "tcp_sack_block \<Rightarrow> u32 \<times> u32" where "blk b \<equiv> (sb_left b, sb_right b)"

lemma sack_runs_ne: "sack_runs (x # xs) \<noteq> []"
  by (induction "x # xs" arbitrary: x xs rule: sack_runs.induct) auto

lemma take_Suc_update: "i < length xs \<Longrightarrow> take (Suc i) (xs[i := v]) = take i xs @ [v]"
  by (simp add: take_Suc_conv_app_nth)

lemma sacks_loop_runs:
  assumes "length blocks = 4" and "sb < unat allowed" and "allowed \<le> 4"
    and "blk (blocks ! sb) = (l, r)" and "l \<noteq> 0" and "r \<noteq> 0"
    and "\<forall>x\<in>set items. skb_seq x \<noteq> 0 \<and> skb_end_seq x \<noteq> 0"
  shows "\<exists>n blocks'. sacks_loop items allowed sb (of_nat (Suc sb)) blocks = Ok (n, blocks') \<and>
           length blocks' = 4 \<and> unat n \<le> unat allowed \<and>
           map blk (take (unat n) blocks') =
             take (unat allowed) (map blk (take sb blocks) @ sack_runs ((l, r) # map seg items))"
  using assms
proof (induction items arbitrary: sb blocks l r)
  case Nil
  have "unat allowed \<le> 4" using Nil(3) by (simp add: word_le_nat_alt)
  then have "unat (of_nat (Suc sb) :: u8) = Suc sb" using Nil by (simp add: unat_of_nat_u8 del: of_nat_Suc)
  with Nil \<open>unat allowed \<le> 4\<close> show ?case by (simp add: take_Suc_conv_app_nth del: of_nat_Suc)
next
  case (Cons x items)
  have al: "unat allowed \<le> 4" using Cons.prems(3) by (simp add: word_le_nat_alt)
  have u: "unat (of_nat (Suc sb) :: u8) = Suc sb" using Cons.prems(2) al
    by (simp add: unat_of_nat_u8 del: of_nat_Suc)
  have lr: "sb_left (blocks ! sb) = l" "sb_right (blocks ! sb) = r" using Cons.prems(4) by auto
  have sb: "sb < length blocks" using Cons.prems(1,2) al by simp
  consider "r = skb_seq x" | "r \<noteq> skb_seq x" "unat allowed \<le> Suc sb" | "r \<noteq> skb_seq x" "Suc sb < unat allowed"
    by linarith
  then show ?case
  proof cases
    case 1
    let ?b = "blocks[sb := (blocks ! sb)\<lparr>sb_right := skb_end_seq x\<rparr>]"
    have "\<exists>n blocks'. sacks_loop items allowed sb (of_nat (Suc sb)) ?b = Ok (n, blocks') \<and>
           length blocks' = 4 \<and> unat n \<le> unat allowed \<and> map blk (take (unat n) blocks') =
             take (unat allowed) (map blk (take sb ?b) @ sack_runs ((l, skb_end_seq x) # map seg items))"
      using Cons.IH [of ?b sb l "skb_end_seq x"] Cons.prems sb lr by simp
    then show ?thesis using 1 Cons.prems(5,6) lr by (simp add: Let_def del: of_nat_Suc)
  next
    case 2
    then have "allowed \<le> of_nat (Suc sb)" by (simp add: word_le_nat_alt u del: of_nat_Suc)
    moreover have "map blk (take (Suc sb) blocks) = map blk (take sb blocks) @ [(l, r)]"
      using sb lr by (simp add: take_Suc_conv_app_nth)
    moreover have "take (unat allowed - sb) (sack_runs ((l, r) # seg x # map seg items)) = [(l, r)]"
      using 2 Cons.prems(2) by (simp add: take_Cons')
    ultimately show ?thesis using 2 Cons.prems lr u sb
      by (simp add: Let_def del: of_nat_Suc)
  next
    case 3
    then have nle: "\<not> allowed \<le> of_nat (Suc sb)" by (simp add: word_le_nat_alt u del: of_nat_Suc)
    let ?b = "blocks[Suc sb := \<lparr>sb_left = skb_seq x, sb_right = skb_end_seq x\<rparr>]"
    have s: "Suc sb < length blocks" using 3(2) al Cons.prems(1) by simp
    have "\<exists>n blocks'. sacks_loop items allowed (Suc sb) (of_nat (Suc (Suc sb))) ?b = Ok (n, blocks') \<and>
           length blocks' = 4 \<and> unat n \<le> unat allowed \<and> map blk (take (unat n) blocks') =
             take (unat allowed) (map blk (take (Suc sb) ?b) @ sack_runs (seg x # map seg items))"
      using Cons.IH [of ?b "Suc sb" "skb_seq x" "skb_end_seq x"] Cons.prems 3 s by simp
    moreover have "map blk (take (Suc sb) ?b) = map blk (take sb blocks) @ [(l, r)]"
      using sb lr s by (simp add: take_Suc_conv_app_nth)
    moreover have "(of_nat (Suc sb) :: u8) + 1 = of_nat (Suc (Suc sb))" by simp
    moreover have "unat allowed - sb = Suc (unat allowed - Suc sb)" using 3 by simp
    ultimately show ?thesis using 3 Cons.prems(5,6) lr u nle s
      by (simp add: Let_def del: of_nat_Suc)
  qed
qed

lemma calculate_sacks_runs:
  assumes "sacklen tsk = 0" and "length (sacks tsk) = 4" and "0 < sacks_allowed tsk" and "sacks_allowed tsk \<le> 4"
    and "\<forall>x\<in>set (q_list (ofo_queue tsk)). skb_seq x \<noteq> 0 \<and> skb_end_seq x \<noteq> 0"
  shows "\<exists>tsk'. tcp_calculate_sacks tsk = Ok tsk' \<and> length (sacks tsk') = 4 \<and>
           unat (sacklen tsk') \<le> unat (sacks_allowed tsk) \<and>
           map blk (take (unat (sacklen tsk')) (sacks tsk')) =
             take (unat (sacks_allowed tsk)) (sack_runs (map seg (q_list (ofo_queue tsk))))"
proof (cases "q_list (ofo_queue tsk)")
  case Nil
  with assms show ?thesis by (simp add: tcp_calculate_sacks_def Let_def)
next
  case (Cons x xs)
  let ?b = "(sacks tsk)[0 := \<lparr>sb_left = skb_seq x, sb_right = skb_end_seq x\<rparr>]"
  have al: "0 < unat (sacks_allowed tsk)" using assms(3) by (simp add: word_less_nat_alt)
  have "\<exists>n blocks'. sacks_loop xs (sacks_allowed tsk) 0 (of_nat (Suc 0)) ?b = Ok (n, blocks') \<and>
           length blocks' = 4 \<and> unat n \<le> unat (sacks_allowed tsk) \<and> map blk (take (unat n) blocks') =
             take (unat (sacks_allowed tsk)) (map blk (take 0 ?b) @ sack_runs (seg x # map seg xs))"
    by (rule sacks_loop_runs) (use assms Cons al in auto)
  moreover have "sacks_loop (x # xs) (sacks_allowed tsk) 0 0 ((sacks tsk)[0 := \<lparr>sb_left = 0, sb_right = 0\<rparr>]) =
      sacks_loop xs (sacks_allowed tsk) 0 1 ?b"
    using assms(2) by (simp add: Let_def)
  ultimately show ?thesis using assms Cons by (auto simp: tcp_calculate_sacks_def Let_def)
qed
end
