(* ===== verification/Tcp_Output.thy ===== *)
theory Tcp_Output
  imports Main Prelude Wire Skbuff Timer Checksum Fec_Codec Tcp_Sock
begin

text \<open>
  The transmit path: \<open>src/tcp_output.c\<close>.  \<open>out daddr skb\<close> stands for the call
  \<open>ip_output(sk, skb)\<close>: its return code and the buffer with the lower-layer headers filled in
  (the definition of \<open>ip_output\<close> is the instance).  A function that touches a
  buffer through a computed offset returns \<open>UB\<close> when the offset leaves the buffer.
  \<open>mem\<close> tells whether the \<open>calloc\<close> calls of the FEC code succeed.
\<close>

type_synonym ip_layer = "u32 \<Rightarrow> sk_buff \<Rightarrow> int \<times> sk_buff"

definition IP_TCP :: u8 where "IP_TCP = 6"
definition TCP_DOFFSET :: "4 word" where "TCP_DOFFSET = 5"

section \<open>Building and transmitting segments\<close>

definition tcp_alloc_skb :: "nat \<Rightarrow> nat \<Rightarrow> tcp_sock \<Rightarrow> sk_buff \<times> tcp_sock" where
  "tcp_alloc_skb optlen n tsk =
     (let reserved = ETH_HDR_LEN + IP_HDR_LEN + TCP_HDR_LEN + optlen + n;
          skb = skb_reserve (alloc_skb (next_skb tsk) reserved) reserved
      in (skb\<lparr>skb_protocol := ucast IP_TCP, skb_dlen := of_nat n, skb_seq := 0\<rparr>,
          tsk\<lparr>next_skb := next_skb tsk + 1\<rparr>))"

text \<open>The SACK option: two NOPs, kind, length, then the blocks from the last to the first;
  the blocks are consumed.\<close>

definition sack_option :: "u8 \<Rightarrow> tcp_sack_block list \<Rightarrow> bytes" where
  "sack_option n blocks =
     [TCP_OPT_NOOP, TCP_OPT_NOOP, TCP_OPT_SACK, 2 + n * 8] @
     concat (map (\<lambda>i. be32 (sb_left (blocks ! i)) @ be32 (sb_right (blocks ! i))) (rev [0..<unat n]))"

definition tcp_write_options :: "sk_buff \<Rightarrow> tcp_sock \<Rightarrow> (sk_buff \<times> tcp_sock) cres" where
  "tcp_write_options skb tsk =
     (if th_data skb = [] then UB
      else if th_data skb ! 0 = TCP_OPT_FEC then Ok (skb, tsk)
      else if \<not> sackok tsk \<or> sb_left (sacks tsk ! 0) = 0 then Ok (skb, tsk)
      else let n = unat (sacklen tsk); opt = sack_option (sacklen tsk) (sacks tsk) in
        if length (sacks tsk) < n \<or> length (th_data skb) < length opt then UB
        else Ok (set_th_data 0 opt skb,
                 tsk\<lparr>sacks := replicate n \<lparr>sb_left = 0, sb_right = 0\<rparr> @ drop n (sacks tsk), sacklen := 0\<rparr>))"

definition tcp_v4_checksum :: "sk_buff \<Rightarrow> u32 \<Rightarrow> u32 \<Rightarrow> u16" where
  "tcp_v4_checksum skb saddr daddr =
     tcp_udp_checksum saddr daddr IP_TCP (skb_bytes skb) (ucast (skb_len skb))"

definition tcp_hdr_to_net :: "tcphdr \<Rightarrow> tcphdr" where
  "tcp_hdr_to_net th =
     th\<lparr>th_sport := htons (th_sport th), th_dport := htons (th_dport th), th_seq := htonl (th_seq th),
        th_ack_seq := htonl (th_ack_seq th), th_win := htons (th_win th), th_csum := htons (th_csum th),
        th_urp := htons (th_urp th)\<rparr>"

text \<open>The three stages of \<open>tcp_transmit_skb\<close>: the fields in host order, the options, then the
  conversion to network order and the checksum over the finished segment.\<close>

definition tcp_fill_header :: "u32 \<Rightarrow> tcp_sock \<Rightarrow> tcphdr \<Rightarrow> tcphdr" where
  "tcp_fill_header seq tsk th =
     th\<lparr>th_hl := (if th_hl th = 0 then TCP_DOFFSET else th_hl th),
        th_sport := sk_sport tsk, th_dport := sk_dport tsk, th_seq := seq,
        th_ack_seq := rcv_nxt (tcb tsk), th_rsvd := 0, th_win := ucast (rcv_wnd (tcb tsk)),
        th_csum := 0, th_urp := 0\<rparr>"

definition tcp_seal_header :: "u32 \<Rightarrow> u32 \<Rightarrow> tcphdr \<Rightarrow> sk_buff \<Rightarrow> sk_buff" where
  "tcp_seal_header saddr daddr th skb =
     (let th = tcp_hdr_to_net th;
          csum = tcp_v4_checksum (set_tcp_hdr th skb) (htonl saddr) (htonl daddr)
      in set_tcp_hdr (th\<lparr>th_csum := csum\<rparr>) skb)"

definition tcp_transmit_skb ::
  "ip_layer \<Rightarrow> sk_buff \<Rightarrow> u32 \<Rightarrow> tcp_sock \<Rightarrow> (int \<times> sk_buff \<times> tcp_sock) cres" where
  "tcp_transmit_skb out skb seq tsk =
     (let th = tcp_fill_header seq tsk (tcp_hdr skb);
          skb = set_tcp_hdr th (skb_push skb (unat (th_hl th) * 4))
      in cbind (if 5 < th_hl th then tcp_write_options skb tsk else Ok (skb, tsk)) (\<lambda>(skb, tsk).
         let skb = tcp_seal_header (sk_saddr tsk) (sk_daddr tsk) th skb;
             (rc, skb') = out (sk_daddr tsk) skb
         in Ok (rc, skb', tsk\<lparr>tx_log := tx_log tsk @ [skb]\<rparr>)))"

definition tcp_rearm_rto_timer :: "tcp_sock \<Rightarrow> tcp_sock" where
  "tcp_rearm_rto_timer tsk =
     (let tsk = tcp_release_rto_timer tsk;
          (i, tsk) = (if sk_state tsk = TCP_SYN_SENT
                      then add_timer (push_bit (unat (backoff tsk)) TCP_SYN_BACKOFF) H_connect_rto tsk
                      else add_timer (rto tsk) H_retransmission_timeout tsk)
      in tsk\<lparr>retransmit := Some i\<rparr>)"

text \<open>What a segment does to the sequence space once it is on the wire.\<close>

definition stamp_skb :: "sk_buff \<Rightarrow> tcp_sock \<Rightarrow> sk_buff \<times> tcp_sock" where
  "stamp_skb skb tsk =
     (let nxt = snd_nxt (tcb tsk); end_seq = nxt + skb_dlen skb
      in (skb\<lparr>skb_seq := nxt, skb_end_seq := end_seq\<rparr>,
          upd_tcb (snd_nxt_update (\<lambda>_. if th_fin (tcp_hdr skb) then end_seq + 1 else end_seq)) tsk))"

definition tcp_queue_transmit_skb :: "ip_layer \<Rightarrow> sk_buff \<Rightarrow> tcp_sock \<Rightarrow> (int \<times> tcp_sock) cres" where
  "tcp_queue_transmit_skb out skb tsk =
     (let tsk = (if skb_queue_empty (sk_write_queue tsk) then tcp_rearm_rto_timer tsk else tsk) in
      cbind
        (if inflight tsk = 0 then
           cbind (tcp_transmit_skb out skb (snd_nxt (tcb tsk)) tsk) (\<lambda>(rc, skb, tsk).
             let (skb, tsk) = stamp_skb skb (tsk\<lparr>inflight := inflight tsk + 1\<rparr>) in Ok (rc, skb, tsk))
         else Ok (0, skb, tsk))
        (\<lambda>(rc, skb, tsk). Ok (rc, tsk\<lparr>sk_write_queue := skb_queue_tail (sk_write_queue tsk) skb\<rparr>)))"

text \<open>A segment that is sent once and freed: the transmit's return code.\<close>

definition transmit_and_free :: "ip_layer \<Rightarrow> sk_buff \<Rightarrow> u32 \<Rightarrow> tcp_sock \<Rightarrow> (int \<times> tcp_sock) cres" where
  "transmit_and_free out skb seq tsk =
     cbind (tcp_transmit_skb out skb seq tsk) (\<lambda>(rc, _, tsk). Ok (rc, tsk))"

section \<open>Control segments\<close>

definition syn_skb :: "tcp_sock \<Rightarrow> sk_buff \<times> tcp_sock" where
  "syn_skb tsk =
     (let (optlen, opts) = tcp_syn_options (rmss tsk) (sackok tsk) (fecok tsk);
          (skb, tsk) = tcp_alloc_skb optlen 0 tsk;
          (area, hl) = tcp_write_syn_options opts optlen;
          skb = set_th_data 0 area skb
      in (set_tcp_hdr ((tcp_hdr skb)\<lparr>th_hl := hl, th_syn := True\<rparr>) skb, tsk))"

definition tcp_send_synack :: "ip_layer \<Rightarrow> tcp_sock \<Rightarrow> (int \<times> tcp_sock) cres" where
  "tcp_send_synack out tsk =
     (if sk_state tsk \<noteq> TCP_SYN_SENT then Ok (1, tsk)
      else let (skb, tsk) = syn_skb tsk;
               skb = set_tcp_hdr ((tcp_hdr skb)\<lparr>th_ack := True\<rparr>) skb
           in transmit_and_free out skb (snd_nxt (tcb tsk)) tsk)"

text \<open>The option space of an acknowledgment: eight bytes per non-empty block and two for the
  option itself, in a \<open>uint8_t\<close>, rounded up to a multiple of four.\<close>

definition tcp_options_len :: "tcp_sock \<Rightarrow> nat" where
  "tcp_options_len tsk =
     (let n = length (filter (\<lambda>i. sb_left (sacks tsk ! i) \<noteq> 0) [0..<unat (sacklen tsk)]);
          optlen = (if sackok tsk \<and> sacklen tsk > 0 then 8 * n + 2 else 0) mod 256
      in align4 optlen mod 256)"

definition tcp_send_ack :: "ip_layer \<Rightarrow> tcp_sock \<Rightarrow> (int \<times> tcp_sock) cres" where
  "tcp_send_ack out tsk =
     (if sk_state tsk = TCP_CLOSE then Ok (0, tsk)
      else let optlen = tcp_options_len tsk;
               (skb, tsk) = tcp_alloc_skb optlen 0 tsk;
               skb = set_tcp_hdr ((tcp_hdr skb)\<lparr>th_ack := True, th_hl := of_nat (5 + optlen div 4)\<rparr>) skb
           in transmit_and_free out skb (snd_nxt (tcb tsk)) tsk)"

definition tcp_send_delack :: "ip_layer \<Rightarrow> tcp_sock \<Rightarrow> tcp_sock cres" where
  "tcp_send_delack out tsk =
     cbind (tcp_send_ack out (tcp_release_delack_timer (tsk\<lparr>delacks := 0\<rparr>))) (\<lambda>(_, tsk). Ok tsk)"

fun send_next_loop ::
  "ip_layer \<Rightarrow> nat \<Rightarrow> sk_buff list \<Rightarrow> tcp_sock \<Rightarrow> (sk_buff list \<times> tcp_sock) cres" where
  "send_next_loop out 0 items tsk = Ok (items, tsk)"
| "send_next_loop out (Suc n) [] tsk = Ok ([], tsk)"
| "send_next_loop out (Suc n) (nxt # items) tsk =
     cbind (tcp_transmit_skb out (skb_reset_header nxt) (snd_nxt (tcb tsk)) tsk) (\<lambda>(_, skb, tsk).
       let (skb, tsk) = stamp_skb skb tsk in
       cbind (send_next_loop out n items tsk) (\<lambda>(items, tsk). Ok (skb # items, tsk)))"

definition tcp_send_next :: "ip_layer \<Rightarrow> nat \<Rightarrow> tcp_sock \<Rightarrow> tcp_sock cres" where
  "tcp_send_next out amount tsk =
     cbind (send_next_loop out amount (q_list (sk_write_queue tsk)) tsk) (\<lambda>(items, tsk).
       Ok (tsk\<lparr>sk_write_queue := (sk_write_queue tsk)\<lparr>q_list := items\<rparr>\<rparr>))"

definition tcp_send_syn :: "ip_layer \<Rightarrow> tcp_sock \<Rightarrow> (int \<times> tcp_sock) cres" where
  "tcp_send_syn out tsk =
     (if sk_state tsk \<noteq> TCP_SYN_SENT \<and> sk_state tsk \<noteq> TCP_CLOSE \<and> sk_state tsk \<noteq> TCP_LISTEN
      then Ok (1, tsk)
      else let (skb, tsk) = syn_skb tsk in tcp_queue_transmit_skb out skb (tcp_set_state TCP_SYN_SENT tsk))"

definition fin_skb :: "tcp_sock \<Rightarrow> sk_buff \<times> tcp_sock" where
  "fin_skb tsk =
     (let (skb, tsk) = tcp_alloc_skb 0 0 tsk
      in (set_tcp_hdr ((tcp_hdr skb)\<lparr>th_fin := True, th_ack := True\<rparr>) skb, tsk))"

definition tcp_send_fin :: "ip_layer \<Rightarrow> tcp_sock \<Rightarrow> (int \<times> tcp_sock) cres" where
  "tcp_send_fin out tsk =
     (if sk_state tsk = TCP_CLOSE then Ok (0, tsk)
      else let (skb, tsk) = fin_skb tsk in tcp_queue_transmit_skb out skb tsk)"

definition tcp_select_initial_window :: u32 where "tcp_select_initial_window = 44477"

definition tcp_notify_user :: "tcp_sock \<Rightarrow> tcp_sock" where
  "tcp_notify_user tsk = (if sk_state tsk = TCP_CLOSE_WAIT then wait_wakeup_sleep tsk else tsk)"

definition set_write_head :: "sk_buff \<Rightarrow> tcp_sock \<Rightarrow> tcp_sock" where
  "set_write_head skb tsk =
     tsk\<lparr>sk_write_queue := (sk_write_queue tsk)\<lparr>q_list := skb # tl (q_list (sk_write_queue tsk))\<rparr>\<rparr>"

definition tcp_connect_rto :: "ip_layer \<Rightarrow> tcp_sock \<Rightarrow> tcp_sock cres" where
  "tcp_connect_rto out tsk =
     (let tsk = tcp_release_rto_timer tsk in
      if sk_state tsk \<noteq> TCP_SYN_SENT then Ok tsk
      else if backoff tsk > TCP_CONN_RETRIES then
        Ok (tcp_done (tsk\<lparr>sk_err := - ETIMEDOUT,
                          sk_poll_events := sk_poll_events tsk OR (POLLOUT OR POLLERR OR POLLHUP)\<rparr>))
      else case skb_peek (sk_write_queue tsk) of
        None \<Rightarrow> Ok tsk
      | Some skb \<Rightarrow>
          cbind (tcp_transmit_skb out (skb_reset_header skb) (snd_una (tcb tsk)) tsk) (\<lambda>(_, skb, tsk).
            Ok (tcp_rearm_rto_timer ((set_write_head skb tsk)\<lparr>backoff := backoff tsk + 1\<rparr>))))"

definition tcp_retransmission_timeout :: "ip_layer \<Rightarrow> tcp_sock \<Rightarrow> tcp_sock cres" where
  "tcp_retransmission_timeout out tsk =
     (let tsk = tcp_release_rto_timer tsk in
      case skb_peek (sk_write_queue tsk) of
        None \<Rightarrow> Ok (tcp_notify_user (tsk\<lparr>backoff := 0\<rparr>))
      | Some skb \<Rightarrow>
          cbind (tcp_transmit_skb out (skb_reset_header skb) (snd_una (tcb tsk)) tsk) (\<lambda>(_, skb, tsk).
            let tsk = set_write_head skb tsk in
            if rto tsk > 60000 then
              let tsk = tcp_done tsk in
              Ok (tsk\<lparr>sk_err := - ETIMEDOUT,
                      sk_poll_events := sk_poll_events tsk OR (POLLOUT OR POLLERR OR POLLHUP)\<rparr>)
            else
              let tsk = tsk\<lparr>rto := rto tsk * 2, backoff := backoff tsk + 1\<rparr>;
                  (i, tsk) = add_timer (rto tsk) H_retransmission_timeout tsk;
                  tsk = tsk\<lparr>retransmit := Some i\<rparr>
              in Ok (if th_fin (tcp_hdr skb) then tcp_handle_fin_state tsk else tsk)))"

text \<open>\<open>generate_iss\<close> multiplies the clock by a random number; its result is an argument.\<close>

definition tcp_connect :: "ip_layer \<Rightarrow> u32 \<Rightarrow> tcp_sock \<Rightarrow> (int \<times> tcp_sock) cres" where
  "tcp_connect out generate_iss tsk =
     (let tsk = tsk\<lparr>tcp_header_len := 20,
                    tcb := (tcb tsk)\<lparr>iss := generate_iss, snd_wnd := 0, snd_wl1 := 0, snd_una := generate_iss,
                                     snd_up := generate_iss, snd_nxt := generate_iss, rcv_nxt := 0,
                                     rcv_wnd := tcp_select_initial_window\<rparr>\<rparr>
      in cbind (tcp_send_syn out tsk) (\<lambda>(rc, tsk).
           Ok (rc, upd_tcb (snd_nxt_update (\<lambda>n. n + 1)) tsk)))"

definition tcp_send_reset :: "ip_layer \<Rightarrow> tcp_sock \<Rightarrow> (int \<times> tcp_sock) cres" where
  "tcp_send_reset out tsk =
     (let (skb, tsk) = tcp_alloc_skb 0 0 tsk;
          skb = set_tcp_hdr ((tcp_hdr skb)\<lparr>th_rst := True\<rparr>) skb;
          tsk = upd_tcb (\<lambda>t. t\<lparr>snd_una := snd_nxt t\<rparr>) tsk
      in transmit_and_free out skb (snd_nxt (tcb tsk)) tsk)"

definition tcp_send_challenge_ack :: "tcp_sock \<Rightarrow> sk_buff \<Rightarrow> int" where
  "tcp_send_challenge_ack tsk skb = 0"

section \<open>Forward error correction on the send side\<close>

text \<open>\<open>tcp_fec_init_shared\<close>: the tables are built on the first call; the state is the pair
  of the static flag and table.\<close>

definition tcp_fec_init_shared :: "bool \<times> fec_rs_ctx option \<Rightarrow> int \<times> bool \<times> fec_rs_ctx option" where
  "tcp_fec_init_shared st =
     (case st of (ready, ctx) \<Rightarrow>
        if ready then (0, ready, ctx)
        else case fec_rs_init ctx of
               Ok c \<Rightarrow> (0, True, Some c)
             | _ \<Rightarrow> (-1, ready, ctx))"

definition enc_zero :: "sym_ptr fec_encoder" where
  "enc_zero = \<lparr>enc_ctx = None, enc_k = 0, enc_r = 0, enc_sym_len = 0, enc_src_x = replicate 128 0,
     enc_red_x = replicate 32 0, enc_filled = 0, enc_src = replicate 128 None\<rparr>"

definition rx_zero :: tcp_fec_block_rx where
  "rx_zero = \<lparr>rx_active = False, rx_recovered = False, rx_blk_k = 0, rx_block_id = 0, rx_base_seq = 0,
     rx_tail_len = 0, rx_src_present = replicate 128 False, rx_red_present = replicate 32 False,
     rx_src_count = 0, rx_red_count = 0, rx_symbol_buf = None\<rparr>"

definition tcp_fec_enable :: "fec_rs_ctx option \<Rightarrow> bool \<Rightarrow> bool \<Rightarrow> tcp_sock \<Rightarrow> int \<times> tcp_sock" where
  "tcp_fec_enable ctx ready mem tsk =
     (let k = TCP_FEC_DEFAULT_K; r = TCP_FEC_DEFAULT_R; sym_len = TCP_FEC_DEFAULT_SYM_LEN in
      if \<not> ready then (-1, tsk)
      else if tsk_fec tsk \<noteq> None then (0, tsk)
      else if k = 0 \<or> uint k > FEC_BLK_MAX_K then (-1, tsk)
      else if r = 0 \<or> uint r > FEC_BLK_MAX_R then (-1, tsk)
      else if uint k + uint r > 255 then (-1, tsk)
      else if sym_len = 0 then (-1, tsk)
      else if \<not> mem then (-1, tsk)
      else (case fec_encoder_init (Some enc_zero) ctx (uint k) (uint r) (unat sym_len) None of
              Ok enc \<Rightarrow>
                (0, tsk\<lparr>tsk_fec := Some \<lparr>fec_k = k, fec_r = r, fec_sym_len = sym_len, fec_ctx = ctx,
                        tx_block_id = 0, tx_base_seq = 0, tx_filled = 0, tx_tail_len = 0, tx_enc = enc,
                        tx_src_buf = replicate (unat k * unat sym_len) 0,
                        tx_repair_buf = replicate (unat r * unat sym_len) 0,
                        fec_rx = replicate TCP_FEC_RX_BLOCKS rx_zero\<rparr>\<rparr>)
            | _ \<Rightarrow> (-1, tsk)))"

definition tcp_write_fec_option :: "u8 \<Rightarrow> u8 \<Rightarrow> u32 \<Rightarrow> sk_buff \<Rightarrow> sk_buff" where
  "tcp_write_fec_option ty index block_id skb =
     set_th_data 0 (tcp_opt_fec_bytes \<lparr>fo_type = ty, fo_index = index, fo_block_id = block_id\<rparr>) skb"

text \<open>The memory the encoder's pointers see: the buffers on the write queue, and the staging
  area.  A buffer that has left the queue has been freed.\<close>

definition sym_load :: "sk_buff_head \<Rightarrow> tcp_fec \<Rightarrow> sym_ptr \<Rightarrow> bytes option" where
  "sym_load wq fec p =
     (case p of
        SkbPayload i off \<Rightarrow>
          map_option (\<lambda>s. buf_read (skb_head s) off (unat (fec_sym_len fec))) (find (\<lambda>s. skb_id s = i) (q_list wq))
      | SrcSlot off \<Rightarrow> Some (buf_read (tx_src_buf fec) off (unat (fec_sym_len fec))))"

definition repair_skb :: "tcp_fec \<Rightarrow> u8 \<Rightarrow> u8 \<Rightarrow> u16 \<Rightarrow> bytes \<Rightarrow> tcp_sock \<Rightarrow> sk_buff \<times> tcp_sock" where
  "repair_skb fec blk_k repair_index tail_len parity tsk =
     (let payload = 16 + unat (fec_sym_len fec);
          (skb, tsk) = tcp_alloc_skb (unat TCP_OPTLEN_FEC) payload tsk;
          skb = tcp_write_fec_option FEC_SYM_REPAIR repair_index (tx_block_id fec) skb;
          skb = set_tcp_hdr ((tcp_hdr skb)\<lparr>th_hl := 7, th_ack := True\<rparr>) skb;
          skb = skb_push skb payload;
          rh = \<lparr>rh_version = FEC_WIRE_VERSION, rh_k = blk_k, rh_r = fec_r fec, rh_repair_index = repair_index,
                rh_block_id = tx_block_id fec, rh_base_seq = tx_base_seq fec,
                rh_sym_len = fec_sym_len fec, rh_tail_len = tail_len\<rparr>;
          skb = skb_store (fec_repair_hdr_bytes rh) 0 skb;
          skb = skb_store (take (unat (fec_sym_len fec)) parity) 16 skb
      in (skb, tsk))"

definition tcp_fec_send_repair ::
  "ip_layer \<Rightarrow> tcp_fec \<Rightarrow> u8 \<Rightarrow> u8 \<Rightarrow> u16 \<Rightarrow> bytes \<Rightarrow> tcp_sock \<Rightarrow> (int \<times> tcp_sock) cres" where
  "tcp_fec_send_repair out fec blk_k repair_index tail_len parity tsk =
     (let (skb, tsk) = repair_skb fec blk_k repair_index tail_len parity tsk
      in transmit_and_free out skb (snd_nxt (tcb tsk)) tsk)"

fun send_repairs ::
  "ip_layer \<Rightarrow> tcp_fec \<Rightarrow> u8 \<Rightarrow> u16 \<Rightarrow> (nat \<times> bytes) list \<Rightarrow> tcp_sock \<Rightarrow> (int \<times> tcp_sock) cres" where
  "send_repairs out fec blk_k tail_len [] tsk = Ok (0, tsk)"
| "send_repairs out fec blk_k tail_len ((j, parity) # rest) tsk =
     cbind (tcp_fec_send_repair out fec blk_k (of_nat j) tail_len parity tsk) (\<lambda>(rc, tsk).
       if rc \<noteq> 0 then Ok (-1, tsk) else send_repairs out fec blk_k tail_len rest tsk)"

fun add_sources :: "'p option list \<Rightarrow> 'p fec_encoder \<Rightarrow> 'p fec_encoder cres" where
  "add_sources [] enc = Ok enc"
| "add_sources (p # ps) enc = cbind (fec_encoder_add_source (Some enc) p) (add_sources ps)"

definition block_encoder :: "tcp_fec \<Rightarrow> u8 \<Rightarrow> sym_ptr fec_encoder cres" where
  "block_encoder fec blk_k =
     (if blk_k = fec_k fec then Ok (tx_enc fec)
      else cbind (fec_encoder_init (Some enc_zero) (fec_ctx fec) (uint blk_k) (uint (fec_r fec))
                    (unat (fec_sym_len fec)) None)
             (add_sources (take (unat blk_k) (enc_src (tx_enc fec)))))"

definition tcp_fec_emit_block :: "ip_layer \<Rightarrow> bool \<Rightarrow> tcp_fec \<Rightarrow> u8 \<Rightarrow> u16 \<Rightarrow> tcp_sock \<Rightarrow> (int \<times> tcp_sock) cres" where
  "tcp_fec_emit_block out mem fec blk_k tail_len tsk =
     (if blk_k = 0 then Ok (0, tsk)
      else if blk_k > fec_k fec then Ok (-1, tsk)
      else let L = unat (fec_sym_len fec); r = unat (fec_r fec);
               slots = map (\<lambda>j. Some (buf_read (tx_repair_buf fec) (j * L) L)) [0..<r] in
        case block_encoder fec blk_k of
          Fail _ \<Rightarrow> Ok (-1, tsk)
        | UB \<Rightarrow> UB
        | Ok enc \<Rightarrow>
            (case fec_encoder_generate (sym_load (sk_write_queue tsk) fec) (Some enc) (Some slots) mem of
               Fail _ \<Rightarrow> Ok (-1, tsk)
             | UB \<Rightarrow> UB
             | Ok parity \<Rightarrow>
                 let fec = fec\<lparr>tx_repair_buf := concat parity @ drop (r * L) (tx_repair_buf fec)\<rparr>;
                     tsk = tsk\<lparr>tsk_fec := Some fec\<rparr> in
                 cbind (send_repairs out fec blk_k tail_len (zip [0..<r] parity) tsk) (\<lambda>(rc, tsk).
                   if rc \<noteq> 0 then Ok (-1, tsk)
                   else Ok (0, tsk\<lparr>tsk_fec := Some (fec\<lparr>tx_block_id := tx_block_id fec + 1, tx_filled := 0,
                                      tx_enc := the (fec_encoder_reset (Some (tx_enc fec)))\<rparr>)\<rparr>))))"

definition tcp_fec_flush :: "ip_layer \<Rightarrow> bool \<Rightarrow> tcp_sock \<Rightarrow> (int \<times> tcp_sock) cres" where
  "tcp_fec_flush out mem tsk =
     (case tsk_fec tsk of
        None \<Rightarrow> Ok (0, tsk)
      | Some fec \<Rightarrow>
          if tx_filled fec = 0 then Ok (0, tsk)
          else tcp_fec_emit_block out mem fec (tx_filled fec) (tx_tail_len fec) tsk)"

section \<open>Sending data\<close>

text \<open>The first FEC step of an iteration of \<open>tcp_send\<close>: flush an overfull block, pin the
  block's base sequence number, tag the segment.\<close>

definition fec_tag_segment :: "ip_layer \<Rightarrow> bool \<Rightarrow> sk_buff \<Rightarrow> tcp_sock \<Rightarrow> (sk_buff \<times> tcp_sock) cres" where
  "fec_tag_segment out mem skb tsk =
     (case tsk_fec tsk of
        None \<Rightarrow> Ok (skb, tsk)
      | Some fec \<Rightarrow>
          cbind (if tx_filled fec \<ge> fec_k fec
                 then tcp_fec_emit_block out mem fec (tx_filled fec) (tx_tail_len fec) tsk
                 else Ok (0, tsk)) (\<lambda>(_, tsk).
            let fec = the (tsk_fec tsk);
                fec = (if tx_filled fec = 0 then fec\<lparr>tx_base_seq := snd_nxt (tcb tsk)\<rparr> else fec);
                skb = tcp_write_fec_option FEC_SYM_SOURCE (tx_filled fec) (tx_block_id fec) skb
            in Ok (set_tcp_hdr ((tcp_hdr skb)\<lparr>th_hl := 7\<rparr>) skb, tsk\<lparr>tsk_fec := Some fec\<rparr>)))"

text \<open>The second: register the symbol, in place when it is full, through the staging area
  when it is ragged.\<close>

definition fec_register_symbol :: "sk_buff \<Rightarrow> bytes \<Rightarrow> tcp_sock \<Rightarrow> tcp_sock cres" where
  "fec_register_symbol skb chunk tsk =
     (case tsk_fec tsk of
        None \<Rightarrow> Ok tsk
      | Some fec \<Rightarrow>
          let L = unat (fec_sym_len fec); dlen = length chunk; off = unat (tx_filled fec) * L in
          cbind
            (if dlen = L then Ok (SkbPayload (skb_id skb) (nat (skb_data skb)), fec\<lparr>tx_tail_len := fec_sym_len fec\<rparr>)
             else if \<not> in_bounds (tx_src_buf fec) off L \<or> L < dlen then UB
             else Ok (SrcSlot off,
                      fec\<lparr>tx_src_buf := buf_write (tx_src_buf fec) off (chunk @ replicate (L - dlen) 0),
                          tx_tail_len := of_nat dlen\<rparr>))
            (\<lambda>(p, fec).
               let fec = (case fec_encoder_add_source (Some (tx_enc fec)) (Some p) of
                            Ok enc \<Rightarrow> fec\<lparr>tx_enc := enc, tx_filled := tx_filled fec + 1\<rparr>
                          | _ \<Rightarrow> fec)
               in Ok (tsk\<lparr>tsk_fec := Some fec\<rparr>)))"

definition fec_complete_block :: "ip_layer \<Rightarrow> bool \<Rightarrow> tcp_sock \<Rightarrow> tcp_sock cres" where
  "fec_complete_block out mem tsk =
     (case tsk_fec tsk of
        None \<Rightarrow> Ok tsk
      | Some fec \<Rightarrow>
          if tx_filled fec = fec_k fec
          then cbind (tcp_fec_emit_block out mem fec (fec_k fec) (tx_tail_len fec) tsk) (\<lambda>(_, tsk). Ok tsk)
          else Ok tsk)"

definition data_skb :: "bytes \<Rightarrow> bool \<Rightarrow> sk_buff \<Rightarrow> sk_buff" where
  "data_skb chunk final skb =
     (let skb = skb_store chunk 0 (skb_push skb (length chunk)); th = tcp_hdr skb
      in set_tcp_hdr (th\<lparr>th_ack := True, th_psh := (th_psh th \<or> final)\<rparr>) skb)"

definition tcp_send_segment :: "ip_layer \<Rightarrow> bool \<Rightarrow> nat \<Rightarrow> bytes \<Rightarrow> bool \<Rightarrow> tcp_sock \<Rightarrow> tcp_sock cres" where
  "tcp_send_segment out mem optlen chunk final tsk =
     (let (skb, tsk) = tcp_alloc_skb optlen (length chunk) tsk in
      cbind (fec_tag_segment out mem skb tsk) (\<lambda>(skb, tsk).
      let skb = data_skb chunk final skb in
      cbind (fec_register_symbol skb chunk tsk) (\<lambda>tsk.
      cbind (tcp_queue_transmit_skb out skb tsk) (\<lambda>(_, tsk).
      fec_complete_block out mem tsk))))"

function tcp_send_loop :: "ip_layer \<Rightarrow> bool \<Rightarrow> nat \<Rightarrow> nat \<Rightarrow> bytes \<Rightarrow> tcp_sock \<Rightarrow> tcp_sock cres" where
  "tcp_send_loop out mem optlen mss buf tsk =
     (if buf = [] then Ok tsk
      else if mss = 0 then UB
      else cbind (tcp_send_segment out mem optlen (take mss buf) (drop mss buf = []) tsk)
             (tcp_send_loop out mem optlen mss (drop mss buf)))"
  by pat_completeness auto
termination
  by (relation "measure (\<lambda>(out, mem, optlen, mss, buf, tsk). length buf)") auto

declare tcp_send_loop.simps [simp del]

definition tcp_send :: "ip_layer \<Rightarrow> bool \<Rightarrow> bytes \<Rightarrow> tcp_sock \<Rightarrow> (int \<times> tcp_sock) cres" where
  "tcp_send out mem buf tsk =
     (let mss = (case tsk_fec tsk of Some fec \<Rightarrow> unat (fec_sym_len fec) | None \<Rightarrow> unat (smss tsk));
          optlen = (if tsk_fec tsk = None then 0 else unat TCP_OPTLEN_FEC)
      in cbind (tcp_send_loop out mem optlen mss buf tsk) (\<lambda>tsk.
           Ok (int (length buf), tcp_rearm_user_timeout tsk)))"

definition tcp_queue_fin :: "ip_layer \<Rightarrow> bool \<Rightarrow> tcp_sock \<Rightarrow> (int \<times> tcp_sock) cres" where
  "tcp_queue_fin out mem tsk =
     cbind (tcp_fec_flush out mem tsk) (\<lambda>(_, tsk).
       let (skb, tsk) = fin_skb tsk in tcp_queue_transmit_skb out skb tsk)"

end
