(* ===== verification/Tcp_Data.thy ===== *)
theory Tcp_Data
  imports Main Prelude Wire Skbuff Timer Tcp_Sock Tcp_Output
begin

text \<open>
  Reassembly: \<open>src/tcp_data.c\<close>.  The out-of-order queue, its consumption when the gap closes,
  and the copy to the user's buffer.  The reading loop is a recursion on what is left to do;
  \<open>th\<close> of \<open>tcp_data_queue\<close> is unused in the source and left out.
\<close>

section \<open>Operations\<close>

datatype insert_at = Before sk_buff | Duplicate | AtTail

fun insert_scan :: "sk_buff \<Rightarrow> sk_buff list \<Rightarrow> insert_at" where
  "insert_scan skb [] = AtTail"
| "insert_scan skb (next # items) =
     (if skb_seq skb < skb_seq next then
        if skb_end_seq skb > skb_seq next then insert_scan skb items else Before next
      else if skb_seq skb = skb_seq next then Duplicate
      else insert_scan skb items)"

definition skb_get :: "sk_buff \<Rightarrow> sk_buff" where
  "skb_get skb = skb\<lparr>skb_refcnt := skb_refcnt skb + 1\<rparr>"

definition tcp_data_insert_ordered :: "sk_buff_head \<Rightarrow> sk_buff \<Rightarrow> sk_buff_head \<times> sk_buff" where
  "tcp_data_insert_ordered q skb =
     (case insert_scan skb (q_list q) of
        Before next \<Rightarrow> (skb_queue_add q (skb_get skb) next, skb_get skb)
      | Duplicate \<Rightarrow> (q, skb)
      | AtTail \<Rightarrow> (skb_queue_tail q (skb_get skb), skb_get skb))"

lemma dequeue_shorter: "skb_dequeue q = Ok (s, q') \<Longrightarrow> length (q_list q') < length (q_list q)"
  by (auto simp: skb_dequeue_def split: list.splits)

function tcp_consume_ofo_queue :: "tcp_sock \<Rightarrow> tcp_sock" where
  "tcp_consume_ofo_queue tsk =
     (case skb_peek (ofo_queue tsk) of
        None \<Rightarrow> tsk
      | Some skb \<Rightarrow>
          if rcv_nxt (tcb tsk) = skb_seq skb then
            (case skb_dequeue (ofo_queue tsk) of
               Ok (_, q) \<Rightarrow>
                 tcp_consume_ofo_queue
                   (tsk\<lparr>tcb := (tcb tsk)\<lparr>rcv_nxt := rcv_nxt (tcb tsk) + skb_dlen skb\<rparr>,
                        ofo_queue := q,
                        sk_receive_queue := skb_queue_tail (sk_receive_queue tsk) skb\<rparr>)
             | _ \<Rightarrow> tsk)
          else tsk)"
  by pat_completeness auto
termination
  by (relation "measure (\<lambda>tsk. length (q_list (ofo_queue tsk)))") (auto dest: dequeue_shorter)

declare tcp_consume_ofo_queue.simps [simp del]

text \<open>One round of the copy loop: the bytes copied, and the head buffer advanced over them.\<close>

definition copy_len :: "sk_buff \<Rightarrow> nat \<Rightarrow> nat \<Rightarrow> nat" where
  "copy_len skb rlen userlen =
     (if of_nat userlen < (of_nat rlen :: u32) + skb_dlen skb then userlen - rlen else unat (skb_dlen skb))"

definition skb_advance :: "nat \<Rightarrow> sk_buff \<Rightarrow> sk_buff" where
  "skb_advance n skb = skb\<lparr>skb_dlen := skb_dlen skb - of_nat n, skb_payload := skb_payload skb + int n\<rparr>"

definition set_receive_head :: "sk_buff \<Rightarrow> tcp_sock \<Rightarrow> tcp_sock" where
  "set_receive_head skb tsk =
     tsk\<lparr>sk_receive_queue := (sk_receive_queue tsk)\<lparr>q_list := skb # tl (q_list (sk_receive_queue tsk))\<rparr>\<rparr>"

lemma copy_len_pos:
  assumes "skb_dlen (skb_advance (copy_len skb rlen userlen) skb) \<noteq> 0" and "rlen < userlen"
  shows "0 < copy_len skb rlen userlen"
  using assms by (auto simp: copy_len_def skb_advance_def split: if_splits)

lemma pop_measure:
  assumes "skb_dequeue (sk_receive_queue (if P then tsk\<lparr>tsk_flags := f\<rparr> else tsk)) = Ok (a, b)"
    and "\<not> userlen \<le> n"
  shows "length (q_list b) + (userlen - (n + m)) < length (q_list (sk_receive_queue tsk)) + userlen - n"
  using dequeue_shorter [of "sk_receive_queue tsk" a b] assms by (simp split: if_splits)

lemma advance_measure:
  assumes "skb_peek (sk_receive_queue tsk) = Some x"
    and "skb_dlen (skb_advance (copy_len x n userlen) x) \<noteq> 0" and "\<not> userlen \<le> n"
    and "in_bounds (skb_head x) from (copy_len x n userlen)"
  shows "length (q_list (sk_receive_queue (set_receive_head y tsk))) +
           (userlen - (n + length (buf_read (skb_head x) from (copy_len x n userlen))))
         < length (q_list (sk_receive_queue tsk)) + userlen - n"
proof -
  have "0 < copy_len x n userlen" using assms copy_len_pos [of x n userlen] by simp
  moreover have "q_list (sk_receive_queue tsk) \<noteq> []"
    using assms(1) by (auto simp: skb_peek_def split: if_splits list.splits)
  ultimately show ?thesis
    using assms(3,4) by (cases "q_list (sk_receive_queue tsk)") (auto simp: set_receive_head_def length_buf_read)
qed

function dequeue_loop :: "nat \<Rightarrow> bytes \<Rightarrow> tcp_sock \<Rightarrow> (bytes \<times> tcp_sock) cres" where
  "dequeue_loop userlen acc tsk =
     (if skb_queue_empty (sk_receive_queue tsk) \<or> userlen \<le> length acc then Ok (acc, tsk)
      else case skb_peek (sk_receive_queue tsk) of
        None \<Rightarrow> Ok (acc, tsk)
      | Some skb \<Rightarrow>
          let n = copy_len skb (length acc) userlen; from = nat (skb_payload skb) in
          if skb_payload skb < 0 \<or> \<not> in_bounds (skb_head skb) from n then UB
          else
            let acc' = acc @ buf_read (skb_head skb) from n; skb' = skb_advance n skb in
            if skb_dlen skb' = 0 then
              let tsk = (if th_psh (tcp_hdr skb) then tsk\<lparr>tsk_flags := tsk_flags tsk OR TCP_PSH\<rparr> else tsk) in
              (case skb_dequeue (sk_receive_queue tsk) of
                 Ok (_, q) \<Rightarrow> dequeue_loop userlen acc' (tsk\<lparr>sk_receive_queue := q\<rparr>)
               | Fail c \<Rightarrow> Fail c
               | UB \<Rightarrow> UB)
            else dequeue_loop userlen acc' (set_receive_head skb' tsk))"
  by pat_completeness auto

termination
  by (relation "measure (\<lambda>(userlen, acc, tsk). length (q_list (sk_receive_queue tsk)) + (userlen - length acc))")
    (auto simp: pop_measure advance_measure)

declare dequeue_loop.simps [simp del]

definition tcp_data_dequeue :: "nat \<Rightarrow> tcp_sock \<Rightarrow> (bytes \<times> tcp_sock) cres" where
  "tcp_data_dequeue userlen tsk =
     cbind (dequeue_loop userlen [] tsk) (\<lambda>(acc, tsk).
       Ok (acc, if skb_queue_empty (sk_receive_queue tsk) \<and> tsk_flags tsk AND TCP_FIN = 0
                then tsk\<lparr>sk_poll_events := sk_poll_events tsk AND NOT POLLIN\<rparr> else tsk))"

text \<open>\<open>tcp_data_queue\<close>: the return code and the caller's buffer afterwards, \<open>None\<close> when the
  function freed it.\<close>

definition tcp_data_queue :: "ip_layer \<Rightarrow> sk_buff \<Rightarrow> tcp_sock \<Rightarrow> (int \<times> sk_buff option \<times> tcp_sock) cres" where
  "tcp_data_queue out skb tsk =
     (if rcv_wnd (tcb tsk) = 0 then Ok (-1, free_skb skb, tsk)
      else if skb_seq skb = rcv_nxt (tcb tsk) then
        let tsk = tsk\<lparr>tcb := (tcb tsk)\<lparr>rcv_nxt := rcv_nxt (tcb tsk) + skb_dlen skb\<rparr>,
                      sk_receive_queue := skb_queue_tail (sk_receive_queue tsk) (skb_get skb)\<rparr>;
            tsk = tcp_consume_ofo_queue tsk;
            tsk = tsk\<lparr>sk_poll_events := sk_poll_events tsk OR (POLLIN OR POLLPRI OR POLLRDNORM OR POLLRDBAND)\<rparr>
        in Ok (0, Some (skb_get skb), tcp_recv_notify tsk)
      else
        let (q, skb) = tcp_data_insert_ordered (ofo_queue tsk) skb;
            tsk = tsk\<lparr>ofo_queue := q\<rparr>
        in cbind (if sackok tsk then tcp_calculate_sacks tsk else Ok tsk) (\<lambda>tsk.
           cbind (tcp_send_ack out tsk) (\<lambda>(_, tsk). Ok (0, Some skb, tsk))))"


section \<open>The user's copy\<close>

definition skb_pay :: "sk_buff \<Rightarrow> bytes" where
  "skb_pay s = buf_read (skb_head s) (nat (skb_payload s)) (unat (skb_dlen s))"

definition seg_ok :: "sk_buff \<Rightarrow> bool" where
  "seg_ok s \<longleftrightarrow> 0 \<le> skb_payload s \<and> in_bounds (skb_head s) (nat (skb_payload s)) (unat (skb_dlen s))"

abbreviation pending :: "sk_buff_head \<Rightarrow> bytes" where
  "pending q \<equiv> concat (map skb_pay (q_list q))"

lemma length_skb_pay: "seg_ok s \<Longrightarrow> length (skb_pay s) = unat (skb_dlen s)"
  by (simp add: skb_pay_def seg_ok_def length_buf_read)

lemma copy_len_min:
  assumes "rlen + unat (skb_dlen s) < 2 ^ 32" and "userlen < 2 ^ 32" and "rlen \<le> userlen"
  shows "copy_len s rlen userlen = min (userlen - rlen) (unat (skb_dlen s))"
proof -
  have "unat ((of_nat rlen :: u32) + skb_dlen s) = rlen + unat (skb_dlen s)"
    using assms(1) by (simp add: unat_word_ariths unat_of_nat)
  moreover have "unat (of_nat userlen :: u32) = userlen" using assms(2) by (simp add: unat_of_nat)
  ultimately show ?thesis using assms(3) by (auto simp: copy_len_def word_less_nat_alt)
qed

lemma skb_advance_pay:
  assumes "seg_ok s" and "n \<le> unat (skb_dlen s)"
  shows "seg_ok (skb_advance n s)" and "skb_pay (skb_advance n s) = drop n (skb_pay s)"
    and "unat (skb_dlen (skb_advance n s)) = unat (skb_dlen s) - n"
    and "buf_read (skb_head s) (nat (skb_payload s)) n = take n (skb_pay s)"
proof -
  have le: "unat (of_nat n :: u32) = n" "(of_nat n :: u32) \<le> skb_dlen s"
    using assms(2) unat_bound [of "skb_dlen s"] by (simp_all add: word_le_nat_alt unat_of_nat)
  then show u: "unat (skb_dlen (skb_advance n s)) = unat (skb_dlen s) - n"
    by (simp add: skb_advance_def unat_sub)
  have "nat (skb_payload s + int n) = nat (skb_payload s) + n"
    using assms(1) by (simp add: seg_ok_def nat_add_distrib)
  then show "seg_ok (skb_advance n s)" "skb_pay (skb_advance n s) = drop n (skb_pay s)"
    using assms u by (auto simp: seg_ok_def skb_pay_def in_bounds_def buf_read_def skb_advance_def drop_take add.commute)
  show "buf_read (skb_head s) (nat (skb_payload s)) n = take n (skb_pay s)"
    using assms(2) by (simp add: skb_pay_def buf_read_def min_def)
qed

text \<open>The copy loop hands out exactly the next \<open>userlen - |acc|\<close> bytes that are queued, or all
  of them, never leaves a buffer, and keeps the rest queued in order.\<close>

lemma dequeue_loop_spec:
  assumes "q_wf (sk_receive_queue tsk)" and "\<forall>s\<in>set (q_list (sk_receive_queue tsk)). seg_ok s"
    and "length acc + length (pending (sk_receive_queue tsk)) < 2 ^ 32" and "userlen < 2 ^ 32"
  shows "\<exists>q f. dequeue_loop userlen acc tsk =
             Ok (acc @ take (userlen - length acc) (pending (sk_receive_queue tsk)),
                 tsk\<lparr>sk_receive_queue := q, tsk_flags := f\<rparr>) \<and>
           q_wf q \<and> (\<forall>s\<in>set (q_list q). seg_ok s) \<and>
           pending q = drop (userlen - length acc) (pending (sk_receive_queue tsk))"
  using assms
proof (induction userlen acc tsk rule: dequeue_loop.induct)
  case (1 userlen acc tsk)
  let ?q = "sk_receive_queue tsk"
  have id: "tsk\<lparr>sk_receive_queue := ?q, tsk_flags := tsk_flags tsk\<rparr> = tsk" by simp
  show ?case
  proof (cases "q_list ?q = [] \<or> userlen \<le> length acc")
    case True
    then have "dequeue_loop userlen acc tsk = Ok (acc, tsk)"
      using q_wf_empty_iff [OF 1(3)] by (auto simp: dequeue_loop.simps [of userlen])
    with True 1(3,4) id show ?thesis by (intro exI [of _ ?q] exI [of _ "tsk_flags tsk"]) auto
  next
    case False
    then obtain s xs where q: "q_list ?q = s # xs" by (cases "q_list ?q") auto
    have ne: "\<not> (skb_queue_empty ?q \<or> userlen \<le> length acc)" using False q_wf_empty_iff [OF 1(3)] by simp
    have pk: "skb_peek ?q = Some s" using q_wf_peek [OF 1(3)] q by simp
    have s: "seg_ok s" using 1(4) q by simp
    define n where "n = copy_len s (length acc) userlen"
    have n: "n = min (userlen - length acc) (unat (skb_dlen s))"
      unfolding n_def using 1(5,6) q length_skb_pay [OF s] False by (intro copy_len_min) auto
    note adv = skb_advance_pay [OF s, of n]
    have guard: "\<not> (skb_payload s < 0 \<or> \<not> in_bounds (skb_head s) (nat (skb_payload s)) n)"
      using s n by (auto simp: seg_ok_def in_bounds_def)
    let ?acc = "acc @ buf_read (skb_head s) (nat (skb_payload s)) n"
    have acc: "?acc = acc @ take n (skb_pay s)" using adv(4) n by simp
    have len: "length (skb_pay s) = unat (skb_dlen s)" by (rule length_skb_pay [OF s])
    show ?thesis
    proof (cases "skb_dlen (skb_advance n s) = 0")
      case True
      then have all: "n = unat (skb_dlen s)" using adv(3) n by simp
      let ?t = "if th_psh (tcp_hdr s) then tsk\<lparr>tsk_flags := tsk_flags tsk OR TCP_PSH\<rparr> else tsk"
      obtain q' where q': "skb_dequeue ?q = Ok (s, q')" "q_wf q'" "q_list q' = xs"
        using q_wf_dequeue [OF 1(3) q] by blast
      have rq: "sk_receive_queue ?t = ?q" by simp
      have eq: "dequeue_loop userlen acc tsk = dequeue_loop userlen ?acc (?t\<lparr>sk_receive_queue := q'\<rparr>)"
        unfolding dequeue_loop.simps [of userlen acc tsk]
        using ne pk guard True q'(1) rq by (simp add: Let_def n_def [symmetric])
      have "\<exists>q f. dequeue_loop userlen ?acc (?t\<lparr>sk_receive_queue := q'\<rparr>) =
             Ok (?acc @ take (userlen - length ?acc) (pending q'),
                 (?t\<lparr>sk_receive_queue := q'\<rparr>)\<lparr>sk_receive_queue := q, tsk_flags := f\<rparr>) \<and>
           q_wf q \<and> (\<forall>s\<in>set (q_list q). seg_ok s) \<and> pending q = drop (userlen - length ?acc) (pending q')"
        using 1(1) [OF ne pk n_def refl guard refl refl True refl _ refl] q' rq 1(4-6) q acc len all
        by (simp add: add.assoc)
      then obtain q2 f2 where h: "dequeue_loop userlen ?acc (?t\<lparr>sk_receive_queue := q'\<rparr>) =
             Ok (?acc @ take (userlen - length ?acc) (pending q'),
                 (?t\<lparr>sk_receive_queue := q'\<rparr>)\<lparr>sk_receive_queue := q2, tsk_flags := f2\<rparr>)"
           "q_wf q2" "\<forall>s\<in>set (q_list q2). seg_ok s" "pending q2 = drop (userlen - length ?acc) (pending q')"
        by blast
      have "(?t\<lparr>sk_receive_queue := q'\<rparr>)\<lparr>sk_receive_queue := q2, tsk_flags := f2\<rparr> =
          tsk\<lparr>sk_receive_queue := q2, tsk_flags := f2\<rparr>" by simp
      moreover have "pending ?q = skb_pay s @ pending q'" using q q' by simp
      moreover have "unat (skb_dlen s) \<le> userlen - length acc" using all n by simp
      ultimately show ?thesis using eq h acc len all
        by (intro exI [of _ q2] exI [of _ f2]) (simp add: diff_diff_left)
    next
      case more: False
      then have "unat (skb_dlen (skb_advance n s)) \<noteq> 0" by (simp add: unsigned_eq_0_iff)
      then have full: "n = userlen - length acc" "n < unat (skb_dlen s)"
        using adv(3) n by (auto simp: min_def split: if_splits)
      let ?t = "set_receive_head (skb_advance n s) tsk"
      have eq: "dequeue_loop userlen acc tsk = dequeue_loop userlen ?acc ?t"
        unfolding dequeue_loop.simps [of userlen acc tsk]
        using ne pk guard more by (simp add: Let_def n_def [symmetric])
      have "length ?acc = userlen" using acc len full False by simp
      then have fin: "dequeue_loop userlen ?acc ?t = Ok (?acc, ?t)"
        by (simp add: dequeue_loop.simps [of userlen ?acc])
      let ?q2 = "?q\<lparr>q_list := skb_advance n s # xs\<rparr>"
      have "?t = tsk\<lparr>sk_receive_queue := ?q2, tsk_flags := tsk_flags tsk\<rparr>"
        by (simp add: set_receive_head_def q)
      moreover have "q_wf ?q2" using 1(3) q by (simp add: q_wf_def)
      moreover have "pending ?q2 = drop (userlen - length acc) (pending ?q)"
        "take (userlen - length acc) (pending ?q) = take n (skb_pay s)"
        using adv(2) full len q by simp_all
      ultimately show ?thesis using eq fin acc adv(1) full 1(4) q
        by (intro exI [of _ ?q2] exI [of _ "tsk_flags tsk"]) simp
    qed
  qed
qed

lemma data_dequeue_spec:
  assumes "q_wf (sk_receive_queue tsk)" and "\<forall>s\<in>set (q_list (sk_receive_queue tsk)). seg_ok s"
    and "length (pending (sk_receive_queue tsk)) < 2 ^ 32" and "userlen < 2 ^ 32"
  shows "\<exists>q f p. tcp_data_dequeue userlen tsk =
             Ok (take userlen (pending (sk_receive_queue tsk)),
                 tsk\<lparr>sk_receive_queue := q, tsk_flags := f, sk_poll_events := p\<rparr>) \<and>
           q_wf q \<and> (\<forall>s\<in>set (q_list q). seg_ok s) \<and> pending q = drop userlen (pending (sk_receive_queue tsk))"
proof -
  obtain q f where "dequeue_loop userlen [] tsk =
      Ok (take userlen (pending (sk_receive_queue tsk)), tsk\<lparr>sk_receive_queue := q, tsk_flags := f\<rparr>)"
    "q_wf q" "\<forall>s\<in>set (q_list q). seg_ok s" "pending q = drop userlen (pending (sk_receive_queue tsk))"
    using dequeue_loop_spec [of tsk "[]" userlen] assms by auto
  then show ?thesis
    by (auto simp: tcp_data_dequeue_def intro!: exI [of _ q] exI [of _ f]
        intro: exI [of _ "sk_poll_events tsk AND NOT POLLIN"] exI [of _ "sk_poll_events tsk"])
qed

section \<open>Frames\<close>

text \<open>What an acknowledgment may change of the connection.\<close>

lemma write_options_frame:
  assumes "tcp_write_options s tsk = Ok (s', t)"
  shows "\<exists>a b. t = tsk\<lparr>sacks := a, sacklen := b\<rparr>"
proof -
  from assms have "t = tsk \<or> (\<exists>a. t = tsk\<lparr>sacks := a, sacklen := 0\<rparr>)"
    by (auto simp: tcp_write_options_def Let_def split: if_splits)
  moreover have "tsk = tsk\<lparr>sacks := sacks tsk, sacklen := sacklen tsk\<rparr>" by simp
  ultimately show ?thesis by blast
qed

lemma transmit_cases:
  assumes "tcp_transmit_skb out skb seq tsk = Ok (rc, skb', tsk')"
    and "th = tcp_fill_header seq tsk (tcp_hdr skb)"
    and "s0 = set_tcp_hdr th (skb_push skb (unat (th_hl th) * 4))"
  obtains s t where "(if 5 < th_hl th then tcp_write_options s0 tsk else Ok (s0, tsk)) = Ok (s, t)"
    "out (sk_daddr t) (tcp_seal_header (sk_saddr t) (sk_daddr t) th s) = (rc, skb')"
    "tsk' = t\<lparr>tx_log := tx_log t @ [tcp_seal_header (sk_saddr t) (sk_daddr t) th s]\<rparr>"
proof -
  from assms(1) obtain x where x: "(if 5 < th_hl th then tcp_write_options s0 tsk else Ok (s0, tsk)) = Ok x"
    "(case x of (s, t) \<Rightarrow> case out (sk_daddr t) (tcp_seal_header (sk_saddr t) (sk_daddr t) th s) of
        (rc, skb') \<Rightarrow> Ok (rc, skb', t\<lparr>tx_log := tx_log t @ [tcp_seal_header (sk_saddr t) (sk_daddr t) th s]\<rparr>)) =
     Ok (rc, skb', tsk')"
    unfolding tcp_transmit_skb_def Let_def assms(2) [symmetric] assms(3) [symmetric] cbind_Ok_iff by blast
  obtain s t where "x = (s, t)" by (cases x)
  with x that show ?thesis by (simp split: prod.splits)
qed

lemma transmit_frame:
  assumes "tcp_transmit_skb out skb seq tsk = Ok (rc, skb', tsk')"
  shows "\<exists>a b c. tsk' = tsk\<lparr>sacks := a, sacklen := b, tx_log := c\<rparr>"
proof -
  obtain s t s0 th where 1: "(if 5 < th_hl th then tcp_write_options s0 tsk else Ok (s0, tsk)) = Ok (s, t)"
    "tsk' = t\<lparr>tx_log := tx_log t @ [tcp_seal_header (sk_saddr t) (sk_daddr t) th s]\<rparr>"
    using transmit_cases [OF assms refl refl] by metis
  have "\<exists>a b. t = tsk\<lparr>sacks := a, sacklen := b\<rparr>"
  proof (cases "5 < th_hl th")
    case True
    with 1(1) show ?thesis using write_options_frame [of s0 tsk s t] by simp
  next
    case False
    with 1(1) have "t = tsk\<lparr>sacks := sacks tsk, sacklen := sacklen tsk\<rparr>" by simp
    then show ?thesis by blast
  qed
  with 1(2) show ?thesis by auto
qed

lemma send_ack_frame:
  assumes "tcp_send_ack out tsk = Ok (rc, tsk')"
  shows "\<exists>a b c d. tsk' = tsk\<lparr>sacks := a, sacklen := b, next_skb := c, tx_log := d\<rparr>"
proof (cases "sk_state tsk = TCP_CLOSE")
  case True
  with assms have "tsk' = tsk" by (simp add: tcp_send_ack_def)
  then show ?thesis
    by (intro exI [of _ "sacks tsk"] exI [of _ "sacklen tsk"] exI [of _ "next_skb tsk"] exI [of _ "tx_log tsk"]) simp
next
  case False
  with assms obtain skb seq s' t where "tcp_transmit_skb out skb seq (tsk\<lparr>next_skb := next_skb tsk + 1\<rparr>) = Ok (rc, s', t)"
    "tsk' = t"
    by (auto simp: tcp_send_ack_def Let_def tcp_alloc_skb_def transmit_and_free_def cbind_Ok_iff
        simp del: of_nat_add)
  then obtain a b c where "tsk' = tsk\<lparr>next_skb := next_skb tsk + 1, sacks := a, sacklen := b, tx_log := c\<rparr>"
    using transmit_frame by blast
  then have "tsk' = tsk\<lparr>sacks := a, sacklen := b, next_skb := next_skb tsk + 1, tx_log := c\<rparr>" by simp
  then show ?thesis by blast
qed

lemma calculate_sacks_frame:
  "tcp_calculate_sacks tsk = Ok tsk' \<Longrightarrow> \<exists>a b. tsk' = tsk\<lparr>sacklen := a, sacks := b\<rparr>"
  by (auto simp: tcp_calculate_sacks_def Let_def split: if_splits cres.splits)

section \<open>Reassembly\<close>

text \<open>\<open>W\<close> is the byte stream of the peer, whose first byte has the sequence number \<open>base\<close>.
  A segment is honest when it carries a slice of the stream at its own sequence number.\<close>

definition slice_of :: "bytes \<Rightarrow> u32 \<Rightarrow> sk_buff \<Rightarrow> bool" where
  "slice_of W base s \<longleftrightarrow> seg_ok s \<and>
     (\<exists>off. off + unat (skb_dlen s) \<le> length W \<and> skb_seq s = base + of_nat off \<and>
        skb_pay s = take (unat (skb_dlen s)) (drop off W))"

definition stream_inv :: "bytes \<Rightarrow> u32 \<Rightarrow> bytes \<Rightarrow> tcp_sock \<Rightarrow> bool" where
  "stream_inv W base read tsk \<longleftrightarrow>
     (\<exists>n\<le>length W. rcv_nxt (tcb tsk) = base + of_nat n \<and> read @ pending (sk_receive_queue tsk) = take n W) \<and>
     (\<forall>s\<in>set (q_list (sk_receive_queue tsk)). seg_ok s) \<and>
     (\<forall>s\<in>set (q_list (ofo_queue tsk)). slice_of W base s)"

lemma of_nat_u32_inj:
  assumes "a < 2 ^ 32" and "b < 2 ^ 32" and "(base::u32) + of_nat a = base + of_nat b"
  shows "a = b"
proof -
  have "unat (of_nat a :: u32) = unat (of_nat b :: u32)" using assms(3) by simp
  then show ?thesis using assms(1,2) by (simp add: unat_of_nat)
qed

lemma deliver_slice:
  assumes "length W < 2 ^ 32" and "n \<le> length W" and "rcv = base + of_nat n" and "skb_seq s = rcv" and "slice_of W base s"
  shows "take n W @ skb_pay s = take (n + unat (skb_dlen s)) W" and "n + unat (skb_dlen s) \<le> length W"
    and "rcv + skb_dlen s = base + of_nat (n + unat (skb_dlen s))"
proof -
  from assms(5) obtain off where off: "off + unat (skb_dlen s) \<le> length W" "skb_seq s = base + of_nat off"
    "skb_pay s = take (unat (skb_dlen s)) (drop off W)" by (auto simp: slice_of_def)
  have "off = n" using of_nat_u32_inj [of off n base] off(1,2) assms by simp
  with off show "take n W @ skb_pay s = take (n + unat (skb_dlen s)) W" "n + unat (skb_dlen s) \<le> length W"
    by (simp_all add: take_add)
  show "rcv + skb_dlen s = base + of_nat (n + unat (skb_dlen s))" using assms(3) by simp
qed

lemma peek_dequeue:
  "skb_peek q = Some s \<Longrightarrow> \<exists>xs. q_list q = s # xs \<and> skb_dequeue q = Ok (s, q\<lparr>q_list := xs, qlen := qlen q - 1\<rparr>)"
  by (auto simp: skb_peek_def skb_dequeue_def split: if_splits list.splits)

lemma stream_inv_advance:
  assumes "length W < 2 ^ 32" and "stream_inv W base read tsk" and "skb_seq s = rcv_nxt (tcb tsk)" and "slice_of W base s"
    and "skb_pay s' = skb_pay s" and "seg_ok s'" and "set (q_list q) \<subseteq> set (q_list (ofo_queue tsk))"
  shows "stream_inv W base read
           (tsk\<lparr>tcb := (tcb tsk)\<lparr>rcv_nxt := rcv_nxt (tcb tsk) + skb_dlen s\<rparr>, ofo_queue := q,
                sk_receive_queue := skb_queue_tail (sk_receive_queue tsk) s'\<rparr>)"
proof -
  from assms(2) obtain n where n: "n \<le> length W" "rcv_nxt (tcb tsk) = base + of_nat n"
    "read @ pending (sk_receive_queue tsk) = take n W" by (auto simp: stream_inv_def)
  note d = deliver_slice [OF assms(1) n(1,2) assms(3,4)]
  have "read @ pending (sk_receive_queue tsk) @ skb_pay s = take (n + unat (skb_dlen s)) W"
    using d(1) n(3) by (simp flip: append_assoc)
  then show ?thesis
    using assms(2,5,6,7) d(2,3) by (auto simp: stream_inv_def skb_queue_tail_def subset_iff)
qed

lemma consume_ofo_inv:
  "length W < 2 ^ 32 \<Longrightarrow> stream_inv W base read tsk \<Longrightarrow> stream_inv W base read (tcp_consume_ofo_queue tsk)"
proof (induction tsk rule: tcp_consume_ofo_queue.induct)
  case (1 tsk)
  show ?case
  proof (cases "\<exists>s. skb_peek (ofo_queue tsk) = Some s \<and> rcv_nxt (tcb tsk) = skb_seq s")
    case False
    then show ?thesis using 1(3)
      by (auto simp: tcp_consume_ofo_queue.simps [of tsk] split: option.splits)
  next
    case True
    then obtain s where s: "skb_peek (ofo_queue tsk) = Some s" "rcv_nxt (tcb tsk) = skb_seq s" by blast
    from peek_dequeue [OF s(1)] obtain xs where x: "q_list (ofo_queue tsk) = s # xs"
      "skb_dequeue (ofo_queue tsk) = Ok (s, (ofo_queue tsk)\<lparr>q_list := xs, qlen := qlen (ofo_queue tsk) - 1\<rparr>)"
      by blast
    have sl: "slice_of W base s" using 1(3) x(1) by (simp add: stream_inv_def)
    then have "seg_ok s" by (simp add: slice_of_def)
    let ?t = "tsk\<lparr>tcb := (tcb tsk)\<lparr>rcv_nxt := rcv_nxt (tcb tsk) + skb_dlen s\<rparr>,
        ofo_queue := (ofo_queue tsk)\<lparr>q_list := xs, qlen := qlen (ofo_queue tsk) - 1\<rparr>,
        sk_receive_queue := skb_queue_tail (sk_receive_queue tsk) s\<rparr>"
    have "stream_inv W base read ?t"
      by (rule stream_inv_advance [OF 1(2,3) _ sl refl \<open>seg_ok s\<close>]) (use s x in auto)
    then have "stream_inv W base read (tcp_consume_ofo_queue ?t)"
      using 1(1) [OF s x(2) refl 1(2)] by blast
    moreover have "tcp_consume_ofo_queue tsk = tcp_consume_ofo_queue ?t"
      using s x(2) by (simp add: tcp_consume_ofo_queue.simps [of tsk])
    ultimately show ?thesis by simp
  qed
qed

lemma insert_before_set: "set (insert_before i new xs) \<subseteq> insert new (set xs)"
  by (induction xs) auto

lemma insert_ordered_set:
  "set (q_list (fst (tcp_data_insert_ordered q skb))) \<subseteq> insert (skb_get skb) (set (q_list q))"
  using insert_before_set
  by (fastforce simp: tcp_data_insert_ordered_def skb_queue_add_def skb_queue_tail_def split: insert_at.splits)

lemma skb_get_simps [simp]:
  "skb_pay (skb_get s) = skb_pay s" "seg_ok (skb_get s) = seg_ok s" "slice_of W base (skb_get s) = slice_of W base s"
  "skb_dlen (skb_get s) = skb_dlen s" "skb_seq (skb_get s) = skb_seq s" "skb_end_seq (skb_get s) = skb_end_seq s"
  by (simp_all add: skb_get_def skb_pay_def seg_ok_def slice_of_def)

lemma stream_inv_cong:
  "tcb t' = tcb t \<Longrightarrow> sk_receive_queue t' = sk_receive_queue t \<Longrightarrow> ofo_queue t' = ofo_queue t \<Longrightarrow>
     stream_inv W base read t' = stream_inv W base read t"
  by (simp add: stream_inv_def)

lemma data_queue_inv:
  assumes "length W < 2 ^ 32" and "stream_inv W base read tsk" and "slice_of W base skb"
    and "tcp_data_queue out skb tsk = Ok (rc, s, tsk')"
  shows "stream_inv W base read tsk'"
proof -
  consider "rcv_wnd (tcb tsk) = 0" | "rcv_wnd (tcb tsk) \<noteq> 0" "skb_seq skb = rcv_nxt (tcb tsk)"
    | "rcv_wnd (tcb tsk) \<noteq> 0" "skb_seq skb \<noteq> rcv_nxt (tcb tsk)" by blast
  then show ?thesis
  proof cases
    case 1
    with assms(2,4) show ?thesis by (simp add: tcp_data_queue_def)
  next
    case 2
    let ?t = "tsk\<lparr>tcb := (tcb tsk)\<lparr>rcv_nxt := rcv_nxt (tcb tsk) + skb_dlen skb\<rparr>,
                  sk_receive_queue := skb_queue_tail (sk_receive_queue tsk) (skb_get skb)\<rparr>"
    have "seg_ok skb" using assms(3) by (simp add: slice_of_def)
    then have "stream_inv W base read
        (tsk\<lparr>tcb := (tcb tsk)\<lparr>rcv_nxt := rcv_nxt (tcb tsk) + skb_dlen skb\<rparr>, ofo_queue := ofo_queue tsk,
             sk_receive_queue := skb_queue_tail (sk_receive_queue tsk) (skb_get skb)\<rparr>)"
      using stream_inv_advance [OF assms(1,2) 2(2) assms(3), of "skb_get skb" "ofo_queue tsk"] by simp
    then have "stream_inv W base read ?t" by (simp add: stream_inv_def)
    then have "stream_inv W base read (tcp_consume_ofo_queue ?t)" by (rule consume_ofo_inv [OF assms(1)])
    moreover have "tsk' = tcp_recv_notify ((tcp_consume_ofo_queue ?t)\<lparr>sk_poll_events :=
        sk_poll_events (tcp_consume_ofo_queue ?t) OR (POLLIN OR POLLPRI OR POLLRDNORM OR POLLRDBAND)\<rparr>)"
      using 2 assms(4) by (simp add: tcp_data_queue_def Let_def)
    ultimately show ?thesis by (simp add: stream_inv_def tcp_recv_notify_def)
  next
    case 3
    let ?q = "fst (tcp_data_insert_ordered (ofo_queue tsk) skb)"
    let ?t = "tsk\<lparr>ofo_queue := ?q\<rparr>"
    have ofo: "stream_inv W base read ?t"
      using assms(2,3) insert_ordered_set [of "ofo_queue tsk" skb] by (auto simp: stream_inv_def)
    obtain t1 rc2 where t1: "(if sackok tsk then tcp_calculate_sacks ?t else Ok ?t) = Ok t1"
      "tcp_send_ack out t1 = Ok (rc2, tsk')"
      using 3 assms(4) by (auto simp: tcp_data_queue_def Let_def cbind_Ok_iff split: prod.splits if_splits)
    have "\<exists>a b. t1 = ?t\<lparr>sacklen := a, sacks := b\<rparr> \<or> t1 = ?t"
      using t1(1) calculate_sacks_frame [of ?t t1] by (auto split: if_splits)
    moreover obtain a b c d where "tsk' = t1\<lparr>sacks := a, sacklen := b, next_skb := c, tx_log := d\<rparr>"
      using send_ack_frame [OF t1(2)] by blast
    ultimately have "tcb tsk' = tcb ?t" "sk_receive_queue tsk' = sk_receive_queue ?t" "ofo_queue tsk' = ofo_queue ?t"
      by auto
    then show ?thesis using stream_inv_cong [of tsk' ?t] ofo by simp
  qed
qed

section \<open>Acknowledgments never overflow their option space\<close>

definition sacks_sound :: "tcp_sock \<Rightarrow> bool" where
  "sacks_sound tsk \<longleftrightarrow> length (sacks tsk) = 4 \<and> sacklen tsk \<le> 4 \<and>
     (sackok tsk \<longrightarrow> (\<forall>i<unat (sacklen tsk). sb_left (sacks tsk ! i) \<noteq> 0))"

lemma alloc_skb_head: "length (skb_head (fst (tcp_alloc_skb optlen n tsk))) = 54 + optlen + n"
  "th_data (fst (tcp_alloc_skb optlen n tsk)) = replicate (optlen + n) 0"
  by (simp_all add: tcp_alloc_skb_def Let_def skb_reserve_def alloc_skb_def th_data_def hdr_lens)

lemma sacks_options_len:
  assumes "sacks_sound tsk"
  shows "tcp_options_len tsk = (if sackok tsk \<and> sacklen tsk > 0 then 8 * unat (sacklen tsk) + 4 else 0)"
proof -
  have "unat (sacklen tsk) \<le> 4" using assms by (simp add: sacks_sound_def word_le_nat_alt)
  moreover have "filter (\<lambda>i. sb_left (sacks tsk ! i) \<noteq> 0) [0..<unat (sacklen tsk)] = [0..<unat (sacklen tsk)]"
    if "sackok tsk" using assms that by (simp add: sacks_sound_def)
  ultimately show ?thesis
    using div_mult_self1 [of 4 5 "2 * unat (sacklen tsk)"] by (auto simp: tcp_options_len_def align4_def Let_def)
qed

lemma length_sack_option: "length (sack_option n blocks) = 4 + 8 * unat n"
  by (simp add: sack_option_def length_concat comp_def sum_list_triv)

lemma ack_transmit:
  assumes "sacks_sound tsk" and "skb = fst (tcp_alloc_skb (tcp_options_len tsk) 0 t0)"
  shows "\<exists>rc skb' tsk'. tcp_transmit_skb out
           (set_tcp_hdr ((tcp_hdr skb)\<lparr>th_ack := True, th_hl := of_nat (5 + tcp_options_len tsk div 4)\<rparr>) skb) seq tsk =
             Ok (rc, skb', tsk') \<and> length (sacks tsk') = 4 \<and> (sackok tsk \<longrightarrow> sacklen tsk' = 0)"
proof -
  let ?n = "unat (sacklen tsk)" and ?ol = "tcp_options_len tsk"
  let ?hl = "of_nat (5 + ?ol div 4) :: 4 word"
  let ?h = "(tcp_hdr skb)\<lparr>th_ack := True, th_hl := ?hl\<rparr>"
  let ?s = "set_tcp_hdr ?h skb"
  have n: "?n \<le> 4" using assms(1) by (simp add: sacks_sound_def word_le_nat_alt)
  have ol: "?ol = (if sackok tsk \<and> sacklen tsk > 0 then 8 * ?n + 4 else 0)" by (rule sacks_options_len [OF assms(1)])
  have head: "length (skb_head skb) = 54 + ?ol" "th_data skb = replicate ?ol 0"
    using alloc_skb_head [of ?ol 0 t0] assms(2) by simp_all
  have "5 + ?ol div 4 < 16" using n ol by auto
  then have u: "unat ?hl = 5 + ?ol div 4" by (simp add: unat_of_nat del: of_nat_add)
  have hdr: "tcp_hdr ?s = ?h" using head by (intro tcp_hdr_set) simp
  have hlnz: "?hl \<noteq> 0" using u by (metis add_eq_0_iff_both_eq_0 unsigned_0 zero_neq_numeral)
  define th where "th = tcp_fill_header seq tsk (tcp_hdr ?s)"
  have th: "th_hl th = ?hl" unfolding th_def hdr using hlnz by (simp add: tcp_fill_header_def del: of_nat_add)
  define s1 where "s1 = set_tcp_hdr th (skb_push ?s (unat (th_hl th) * 4))"
  have d: "th_data s1 = replicate ?ol 0"
    unfolding s1_def using head by (simp add: skb_simps) (simp add: th_data_def hdr_lens set_tcp_hdr_def buf_write_drop_later)
  have tr: "tcp_transmit_skb out ?s seq tsk = cbind (if 5 < th_hl th then tcp_write_options s1 tsk else Ok (s1, tsk))
      (\<lambda>(skb, tsk). let skb = tcp_seal_header (sk_saddr tsk) (sk_daddr tsk) th skb;
             (rc, skb') = out (sk_daddr tsk) skb
         in Ok (rc, skb', tsk\<lparr>tx_log := tx_log tsk @ [skb]\<rparr>))"
    by (simp add: tcp_transmit_skb_def th_def s1_def Let_def)
  show ?thesis
  proof (cases "sackok tsk \<and> sacklen tsk > 0")
    case True
    then have "0 < ?n" by (simp add: word_less_nat_alt)
    then have "sb_left (sacks tsk ! 0) \<noteq> 0" using assms(1) True by (simp add: sacks_sound_def)
    moreover have "5 < unat (th_hl th)" unfolding th u using ol True by simp
    then have "5 < th_hl th" by (simp add: word_less_nat_alt)
    moreover have "th_data s1 ! 0 = 0" "th_data s1 \<noteq> []" "length (th_data s1) = 8 * ?n + 4"
      using ol True d by simp_all
    ultimately have "tcp_write_options s1 tsk = Ok (set_th_data 0 (sack_option (sacklen tsk) (sacks tsk)) s1,
        tsk\<lparr>sacks := replicate ?n \<lparr>sb_left = 0, sb_right = 0\<rparr> @ drop ?n (sacks tsk), sacklen := 0\<rparr>)"
      using True assms(1) n by (simp add: tcp_write_options_def Let_def length_sack_option sacks_sound_def fec_consts)
    then show ?thesis unfolding tr using \<open>5 < th_hl th\<close> assms(1) n
      by (simp add: Let_def sacks_sound_def case_prod_beta)
  next
    case False
    then have "\<not> 5 < unat (th_hl th)" unfolding th u using ol by auto
    then have "\<not> 5 < th_hl th" by (simp add: word_less_nat_alt)
    moreover have "sackok tsk \<longrightarrow> sacklen tsk = 0" using False by (simp add: word_gt_0)
    ultimately show ?thesis unfolding tr using assms(1) by (simp add: Let_def sacks_sound_def case_prod_beta)
  qed
qed

lemma send_ack_Ok:
  assumes "sacks_sound tsk" and "sk_state tsk \<noteq> TCP_CLOSE"
  shows "\<exists>rc tsk'. tcp_send_ack out tsk = Ok (rc, tsk') \<and> length (sacks tsk') = 4 \<and> (sackok tsk \<longrightarrow> sacklen tsk' = 0)"
proof -
  let ?t = "tsk\<lparr>next_skb := next_skb tsk + 1\<rparr>"
  have "sacks_sound ?t" "tcp_options_len ?t = tcp_options_len tsk"
    using assms(1) by (simp_all add: sacks_sound_def tcp_options_len_def)
  with ack_transmit [of ?t _ tsk out "snd_nxt (tcb tsk)"] obtain rc skb' tsk' where
    "tcp_transmit_skb out
       (set_tcp_hdr ((tcp_hdr (fst (tcp_alloc_skb (tcp_options_len tsk) 0 tsk)))\<lparr>th_ack := True,
          th_hl := of_nat (5 + tcp_options_len tsk div 4)\<rparr>) (fst (tcp_alloc_skb (tcp_options_len tsk) 0 tsk)))
       (snd_nxt (tcb tsk)) ?t = Ok (rc, skb', tsk')" "length (sacks tsk') = 4" "sackok tsk \<longrightarrow> sacklen tsk' = 0"
    by auto
  moreover have "tcp_alloc_skb (tcp_options_len tsk) 0 tsk = (fst (tcp_alloc_skb (tcp_options_len tsk) 0 tsk), ?t)"
    by (simp add: tcp_alloc_skb_def Let_def)
  ultimately show ?thesis using assms(2)
    by (auto simp: tcp_send_ack_def Let_def transmit_and_free_def split: prod.splits)
qed

text \<open>A connection that is ready to report out-of-order data: nothing pending in the SACK list.\<close>

definition sack_ready :: "tcp_sock \<Rightarrow> bool" where
  "sack_ready tsk \<longleftrightarrow> length (sacks tsk) = 4 \<and> sacklen tsk \<le> 4 \<and>
     (sackok tsk \<longrightarrow> sacklen tsk = 0 \<and> 0 < sacks_allowed tsk \<and> sacks_allowed tsk \<le> 4)"

lemma sack_runs_left: "(l, r) \<in> set (sack_runs xs) \<Longrightarrow> \<exists>r'. (l, r') \<in> set xs"
  by (induction xs rule: sack_runs.induct) (auto split: if_splits)

lemma calculate_sacks_sound:
  assumes "sack_ready tsk" and "sackok tsk"
    and "\<forall>x\<in>set (q_list (ofo_queue tsk)). skb_seq x \<noteq> 0 \<and> skb_end_seq x \<noteq> 0"
  shows "\<exists>a b. tcp_calculate_sacks tsk = Ok (tsk\<lparr>sacklen := a, sacks := b\<rparr>) \<and> sacks_sound (tsk\<lparr>sacklen := a, sacks := b\<rparr>)"
proof -
  obtain tsk' where t: "tcp_calculate_sacks tsk = Ok tsk'" "length (sacks tsk') = 4"
    "unat (sacklen tsk') \<le> unat (sacks_allowed tsk)"
    "map blk (take (unat (sacklen tsk')) (sacks tsk')) =
       take (unat (sacks_allowed tsk)) (sack_runs (map seg (q_list (ofo_queue tsk))))"
    using calculate_sacks_runs [of tsk] assms by (auto simp: sack_ready_def)
  obtain a b where ab: "tsk' = tsk\<lparr>sacklen := a, sacks := b\<rparr>" using calculate_sacks_frame [OF t(1)] by blast
  have al: "unat (sacks_allowed tsk) \<le> 4" using assms(1,2) by (simp add: sack_ready_def word_le_nat_alt)
  have "sb_left (sacks tsk' ! i) \<noteq> 0" if "i < unat (sacklen tsk')" for i
  proof -
    have "blk (sacks tsk' ! i) \<in> set (map blk (take (unat (sacklen tsk')) (sacks tsk')))"
      using that t(2,3) al by (auto simp: in_set_conv_nth intro!: image_eqI [where x = "sacks tsk' ! i"] exI [of _ i])
    then have "blk (sacks tsk' ! i) \<in> set (sack_runs (map seg (q_list (ofo_queue tsk))))"
      unfolding t(4) by (rule in_set_takeD)
    then show ?thesis using sack_runs_left assms(3) by fastforce
  qed
  then have "sacks_sound tsk'" using t(2,3) al by (simp add: sacks_sound_def word_le_nat_alt)
  then show ?thesis using t(1) ab by blast
qed

section \<open>The receive side never leaves its buffers\<close>

lemma insert_scan_mem: "insert_scan skb xs = Before y \<Longrightarrow> y \<in> set xs"
  by (induction xs) (auto split: if_splits)

lemma length_insert_before: "i \<in> skb_id ` set xs \<Longrightarrow> length (insert_before i new xs) = Suc (length xs)"
  by (induction xs) auto

lemma insert_ordered_wf:
  assumes "q_wf q" and "length (q_list q) < 2 ^ 32 - 1"
  shows "q_wf (fst (tcp_data_insert_ordered q skb))"
    and "length (q_list (fst (tcp_data_insert_ordered q skb))) \<le> Suc (length (q_list q))"
proof -
  have "q_wf (fst (tcp_data_insert_ordered q skb)) \<and>
      length (q_list (fst (tcp_data_insert_ordered q skb))) \<le> Suc (length (q_list q))"
  proof (cases "insert_scan skb (q_list q)")
    case (Before y)
    then have "length (insert_before (skb_id y) (skb_get skb) (q_list q)) = Suc (length (q_list q))"
      using insert_scan_mem by (intro length_insert_before) blast
    then show ?thesis using Before assms
      by (auto simp: tcp_data_insert_ordered_def skb_queue_add_def q_wf_def unat_word_ariths)
  next
    case AtTail
    then show ?thesis using q_wf_tail [OF assms] by (simp add: tcp_data_insert_ordered_def skb_queue_tail_def)
  qed (use assms in \<open>simp add: tcp_data_insert_ordered_def\<close>)
  then show "q_wf (fst (tcp_data_insert_ordered q skb))"
    "length (q_list (fst (tcp_data_insert_ordered q skb))) \<le> Suc (length (q_list q))" by auto
qed

lemma consume_ofo_frame:
  "\<exists>t q r. tcp_consume_ofo_queue tsk = tsk\<lparr>tcb := t, ofo_queue := q, sk_receive_queue := r\<rparr> \<and>
     rcv_wnd t = rcv_wnd (tcb tsk) \<and> set (q_list q) \<subseteq> set (q_list (ofo_queue tsk)) \<and>
     length (q_list q) + length (q_list r) = length (q_list (ofo_queue tsk)) + length (q_list (sk_receive_queue tsk)) \<and>
     (q_wf (ofo_queue tsk) \<longrightarrow> q_wf (sk_receive_queue tsk) \<longrightarrow>
        length (q_list (ofo_queue tsk)) + length (q_list (sk_receive_queue tsk)) < 2 ^ 32 \<longrightarrow> q_wf q \<and> q_wf r)"
proof (induction tsk rule: tcp_consume_ofo_queue.induct)
  case (1 tsk)
  show ?case
  proof (cases "\<exists>s. skb_peek (ofo_queue tsk) = Some s \<and> rcv_nxt (tcb tsk) = skb_seq s")
    case False
    then have "tcp_consume_ofo_queue tsk = tsk"
      by (auto simp: tcp_consume_ofo_queue.simps [of tsk] split: option.splits)
    then show ?thesis
      by (intro exI [of _ "tcb tsk"] exI [of _ "ofo_queue tsk"] exI [of _ "sk_receive_queue tsk"]) simp
  next
    case True
    then obtain s where s: "skb_peek (ofo_queue tsk) = Some s" "rcv_nxt (tcb tsk) = skb_seq s" by blast
    from peek_dequeue [OF s(1)] obtain xs where x: "q_list (ofo_queue tsk) = s # xs"
      "skb_dequeue (ofo_queue tsk) = Ok (s, (ofo_queue tsk)\<lparr>q_list := xs, qlen := qlen (ofo_queue tsk) - 1\<rparr>)"
      by blast
    let ?q = "(ofo_queue tsk)\<lparr>q_list := xs, qlen := qlen (ofo_queue tsk) - 1\<rparr>"
    let ?t = "tsk\<lparr>tcb := (tcb tsk)\<lparr>rcv_nxt := rcv_nxt (tcb tsk) + skb_dlen s\<rparr>, ofo_queue := ?q,
        sk_receive_queue := skb_queue_tail (sk_receive_queue tsk) s\<rparr>"
    have eq: "tcp_consume_ofo_queue tsk = tcp_consume_ofo_queue ?t"
      using s x(2) by (simp add: tcp_consume_ofo_queue.simps [of tsk])
    have wf: "q_wf (ofo_queue tsk) \<Longrightarrow> q_wf ?q" using q_wf_dequeue [OF _ x(1)] x(2) by auto
    from 1 [OF s x(2) refl] obtain t q r where h: "tcp_consume_ofo_queue ?t = ?t\<lparr>tcb := t, ofo_queue := q, sk_receive_queue := r\<rparr>"
      "rcv_wnd t = rcv_wnd (tcb tsk)" "set (q_list q) \<subseteq> set xs"
      "length (q_list q) + length (q_list r) = length xs + length (q_list (sk_receive_queue tsk)) + 1"
      "q_wf ?q \<longrightarrow> q_wf (skb_queue_tail (sk_receive_queue tsk) s) \<longrightarrow>
         length xs + Suc (length (q_list (sk_receive_queue tsk))) < 2 ^ 32 \<longrightarrow> q_wf q \<and> q_wf r"
      by (auto simp: skb_queue_tail_def)
    have "tcp_consume_ofo_queue tsk = tsk\<lparr>tcb := t, ofo_queue := q, sk_receive_queue := r\<rparr>"
      using eq h(1) by simp
    moreover have "q_wf (ofo_queue tsk) \<longrightarrow> q_wf (sk_receive_queue tsk) \<longrightarrow>
        length (q_list (ofo_queue tsk)) + length (q_list (sk_receive_queue tsk)) < 2 ^ 32 \<longrightarrow> q_wf q \<and> q_wf r"
      using h(5) wf q_wf_tail [of "sk_receive_queue tsk" s] x(1) by auto
    moreover have "set (q_list q) \<subseteq> set (q_list (ofo_queue tsk))" using h(3) x(1) by auto
    moreover have "length (q_list q) + length (q_list r) =
        length (q_list (ofo_queue tsk)) + length (q_list (sk_receive_queue tsk))" using h(4) x(1) by simp
    ultimately show ?thesis using h(2) by blast
  qed
qed
end
