(* ===== verification/Tcp_Stream.thy ===== *)
theory Tcp_Stream
  imports Main "HOL-Library.Multiset" Prelude Skbuff Tcp_Sock Tcp_Output Tcp_Data
begin

text \<open>
  The receiving end of a connection over a whole run of arrivals and reads: the reassembly code
  of \<open>src/tcp_data.c\<close> never leaves its buffers, delivers a prefix of the peer's stream, and
  delivers all of it once every segment has arrived.  \<open>rx_inv\<close> is the invariant of the queues and
  the acknowledgment state; \<open>gathered\<close> relates the out-of-order queue to the set of segments
  delivered so far.
\<close>

section \<open>The receiving end of a stream\<close>

definition rx_inv :: "bytes \<Rightarrow> u32 \<Rightarrow> bytes \<Rightarrow> nat \<Rightarrow> tcp_sock \<Rightarrow> bool" where
  "rx_inv W base read N tsk \<longleftrightarrow>
     stream_inv W base read tsk \<and> q_wf (sk_receive_queue tsk) \<and> q_wf (ofo_queue tsk) \<and>
     length (q_list (sk_receive_queue tsk)) + length (q_list (ofo_queue tsk)) \<le> N \<and>
     sack_ready tsk \<and> sk_state tsk \<noteq> TCP_CLOSE \<and> rcv_wnd (tcb tsk) \<noteq> 0 \<and>
     (\<forall>s\<in>set (q_list (ofo_queue tsk)). skb_seq s \<noteq> 0 \<and> skb_end_seq s \<noteq> 0)"

lemma transmit_sacklen:
  assumes "tcp_transmit_skb out skb seq tsk = Ok (rc, skb', tsk')" and "sacklen tsk \<le> 4"
  shows "sacklen tsk' \<le> 4"
proof -
  obtain s0 s t th where t: "(if 5 < th_hl th then tcp_write_options s0 tsk else Ok (s0, tsk)) = Ok (s, t)"
    "tsk' = t\<lparr>tx_log := tx_log t @ [tcp_seal_header (sk_saddr t) (sk_daddr t) th s]\<rparr>"
    using transmit_cases [OF assms(1) refl refl] by metis
  have "t = tsk \<or> (\<exists>a. t = tsk\<lparr>sacks := a, sacklen := 0\<rparr>)"
    using t(1) by (auto simp: tcp_write_options_def Let_def split: if_splits)
  then show ?thesis using t(2) assms(2) by auto
qed

lemma send_ack_sacklen:
  assumes "tcp_send_ack out tsk = Ok (rc, tsk')" and "sacklen tsk \<le> 4"
  shows "sacklen tsk' \<le> 4"
proof (cases "sk_state tsk = TCP_CLOSE")
  case False
  then obtain skb seq s' where "tcp_transmit_skb out skb seq (tsk\<lparr>next_skb := next_skb tsk + 1\<rparr>) = Ok (rc, s', tsk')"
    using assms(1) by (auto simp: tcp_send_ack_def Let_def tcp_alloc_skb_def transmit_and_free_def cbind_Ok_iff)
  then show ?thesis by (rule transmit_sacklen) (use assms(2) in simp)
qed (use assms in \<open>simp add: tcp_send_ack_def\<close>)

lemma sack_report_Ok:
  assumes "sack_ready tsk" and "sk_state tsk \<noteq> TCP_CLOSE"
    and "\<forall>s\<in>set (q_list (ofo_queue tsk)). skb_seq s \<noteq> 0 \<and> skb_end_seq s \<noteq> 0"
  shows "\<exists>t rc tsk'. (if sackok tsk then tcp_calculate_sacks tsk else Ok tsk) = Ok t \<and> tcp_send_ack out t = Ok (rc, tsk') \<and>
           (\<exists>a b c d. tsk' = tsk\<lparr>sacks := a, sacklen := b, next_skb := c, tx_log := d\<rparr>) \<and> sack_ready tsk'"
proof (cases "sackok tsk")
  case True
  then obtain a b where t: "tcp_calculate_sacks tsk = Ok (tsk\<lparr>sacklen := a, sacks := b\<rparr>)"
    "sacks_sound (tsk\<lparr>sacklen := a, sacks := b\<rparr>)"
    using calculate_sacks_sound [OF assms(1) _ assms(3)] by blast
  let ?t = "tsk\<lparr>sacklen := a, sacks := b\<rparr>"
  obtain rc tsk' where a: "tcp_send_ack out ?t = Ok (rc, tsk')" "length (sacks tsk') = 4" "sacklen tsk' = 0"
    using send_ack_Ok [OF t(2), of out] assms(2) True by auto
  obtain a2 b2 c d where f: "tsk' = ?t\<lparr>sacks := a2, sacklen := b2, next_skb := c, tx_log := d\<rparr>"
    using send_ack_frame [OF a(1)] by blast
  then have "tsk' = tsk\<lparr>sacks := a2, sacklen := b2, next_skb := c, tx_log := d\<rparr>" by simp
  moreover have "sack_ready tsk'" using a(2,3) f assms(1) True by (simp add: sack_ready_def)
  ultimately show ?thesis using True t(1) a(1) by auto
next
  case False
  then have "sacks_sound tsk" using assms(1) by (simp add: sack_ready_def sacks_sound_def)
  then obtain rc tsk' where a: "tcp_send_ack out tsk = Ok (rc, tsk')" "length (sacks tsk') = 4"
    using send_ack_Ok [OF _ assms(2), of out] by blast
  obtain a2 b2 c d where f: "tsk' = tsk\<lparr>sacks := a2, sacklen := b2, next_skb := c, tx_log := d\<rparr>"
    using send_ack_frame [OF a(1)] by blast
  have "sacklen tsk' \<le> 4" by (rule send_ack_sacklen [OF a(1)]) (use assms(1) in \<open>simp add: sack_ready_def\<close>)
  then have "sack_ready tsk'" using a(2) f assms(1) False by (simp add: sack_ready_def)
  then show ?thesis using False a(1) f by auto
qed

lemma data_queue_total:
  assumes "length W < 2 ^ 32" and "rx_inv W base read N tsk" and "N < 2 ^ 32 - 1" and "slice_of W base skb"
    and "skb_seq skb \<noteq> 0" and "skb_end_seq skb \<noteq> 0"
  shows "\<exists>s tsk'. tcp_data_queue out skb tsk = Ok (0, Some s, tsk') \<and> rx_inv W base read (Suc N) tsk' \<and>
           sk_state tsk' = sk_state tsk \<and> tsk_fec tsk' = tsk_fec tsk \<and> (s = skb \<or> s = skb_get skb)"
proof -
  note inv = assms(2) [unfolded rx_inv_def]
  show ?thesis
  proof (cases "skb_seq skb = rcv_nxt (tcb tsk)")
    case True
    let ?t = "tsk\<lparr>tcb := (tcb tsk)\<lparr>rcv_nxt := rcv_nxt (tcb tsk) + skb_dlen skb\<rparr>,
                  sk_receive_queue := skb_queue_tail (sk_receive_queue tsk) (skb_get skb)\<rparr>"
    let ?c = "tcp_consume_ofo_queue ?t"
    let ?r = "tcp_recv_notify (?c\<lparr>sk_poll_events := sk_poll_events ?c OR (POLLIN OR POLLPRI OR POLLRDNORM OR POLLRDBAND)\<rparr>)"
    have q: "tcp_data_queue out skb tsk = Ok (0, Some (skb_get skb), ?r)"
      using True inv by (simp add: tcp_data_queue_def Let_def)
    have s: "stream_inv W base read ?r" by (rule data_queue_inv [OF assms(1) _ assms(4) q]) (use inv in simp)
    have wf: "q_wf (skb_queue_tail (sk_receive_queue tsk) (skb_get skb))"
      using inv assms(3) by (intro q_wf_tail) auto
    obtain t q r where c: "?c = ?t\<lparr>tcb := t, ofo_queue := q, sk_receive_queue := r\<rparr>" "rcv_wnd t = rcv_wnd (tcb tsk)"
      "set (q_list q) \<subseteq> set (q_list (ofo_queue tsk))"
      "length (q_list q) + length (q_list r) = length (q_list (ofo_queue tsk)) + Suc (length (q_list (sk_receive_queue tsk)))"
      "q_wf (ofo_queue tsk) \<longrightarrow> q_wf (skb_queue_tail (sk_receive_queue tsk) (skb_get skb)) \<longrightarrow>
        length (q_list (ofo_queue tsk)) + Suc (length (q_list (sk_receive_queue tsk))) < 2 ^ 32 \<longrightarrow> q_wf q \<and> q_wf r"
      using consume_ofo_frame [of ?t] by (auto simp: skb_queue_tail_def)
    have "q_wf q \<and> q_wf r" using c(5) wf inv assms(3) by auto
    then have "rx_inv W base read (Suc N) ?r"
      using s c inv by (auto simp: rx_inv_def tcp_recv_notify_def sack_ready_def)
    with q c(1) show ?thesis by (auto simp: tcp_recv_notify_def)
  next
    case False
    let ?q = "fst (tcp_data_insert_ordered (ofo_queue tsk) skb)" and ?s = "snd (tcp_data_insert_ordered (ofo_queue tsk) skb)"
    let ?t = "tsk\<lparr>ofo_queue := ?q\<rparr>"
    have nz: "\<forall>s\<in>set (q_list ?q). skb_seq s \<noteq> 0 \<and> skb_end_seq s \<noteq> 0"
      using insert_ordered_set [of "ofo_queue tsk" skb] inv assms(5,6) by auto
    have qw: "q_wf ?q" "length (q_list ?q) \<le> Suc (length (q_list (ofo_queue tsk)))"
      using insert_ordered_wf [of "ofo_queue tsk" skb] inv assms(3) by auto
    have r: "sack_ready ?t" "sk_state ?t \<noteq> TCP_CLOSE" using inv by (simp_all add: sack_ready_def)
    obtain t rc tsk' a b c d where a: "(if sackok ?t then tcp_calculate_sacks ?t else Ok ?t) = Ok t"
      "tcp_send_ack out t = Ok (rc, tsk')" "tsk' = ?t\<lparr>sacks := a, sacklen := b, next_skb := c, tx_log := d\<rparr>" "sack_ready tsk'"
      using sack_report_Ok [OF r, of out] nz by auto
    have q: "tcp_data_queue out skb tsk = Ok (0, Some ?s, tsk')"
      using False inv a(1,2) by (simp add: tcp_data_queue_def Let_def case_prod_beta)
    have s: "stream_inv W base read tsk'" by (rule data_queue_inv [OF assms(1) _ assms(4) q]) (use inv in simp)
    have "rx_inv W base read (Suc N) tsk'" using s a(3,4) inv qw nz by (simp add: rx_inv_def)
    moreover have "?s = skb \<or> ?s = skb_get skb"
      by (auto simp: tcp_data_insert_ordered_def split: insert_at.splits)
    ultimately show ?thesis using q a(3) by auto
  qed
qed

lemma dequeue_loop_frame:
  "dequeue_loop userlen acc tsk = Ok (acc', tsk') \<Longrightarrow>
     length (q_list (sk_receive_queue tsk')) \<le> length (q_list (sk_receive_queue tsk)) \<and>
     tcb tsk' = tcb tsk \<and> ofo_queue tsk' = ofo_queue tsk \<and> sk_state tsk' = sk_state tsk \<and>
     sk_write_queue tsk' = sk_write_queue tsk \<and> next_skb tsk' = next_skb tsk \<and> tsk_fec tsk' = tsk_fec tsk"
proof (induction userlen acc tsk rule: dequeue_loop.induct)
  case (1 userlen acc tsk)
  show ?case
  proof (cases "skb_queue_empty (sk_receive_queue tsk) \<or> userlen \<le> length acc \<or> skb_peek (sk_receive_queue tsk) = None")
    case True
    then show ?thesis using 1(3) by (auto simp: dequeue_loop.simps [of userlen acc tsk] split: if_splits)
  next
    case False
    then obtain s xs where s: "skb_peek (sk_receive_queue tsk) = Some s" "q_list (sk_receive_queue tsk) = s # xs"
      using peek_dequeue by blast
    let ?n = "copy_len s (length acc) userlen"
    show ?thesis
    proof (cases "skb_dlen (skb_advance ?n s) = 0")
      case True
      then show ?thesis using 1(1) [OF _ s(1) refl refl _ refl refl True refl] 1(3) False s
        by (fastforce simp: dequeue_loop.simps [of userlen acc tsk] Let_def skb_dequeue_def split: if_splits)
    next
      case nz: False
      then show ?thesis using 1(2) [OF _ s(1) refl refl _ refl refl nz] 1(3) False s
        by (auto simp: dequeue_loop.simps [of userlen acc tsk] Let_def set_receive_head_def split: if_splits)
    qed
  qed
qed

lemma data_dequeue_frame:
  "tcp_data_dequeue n tsk = Ok (d, tsk') \<Longrightarrow>
     length (q_list (sk_receive_queue tsk')) \<le> length (q_list (sk_receive_queue tsk)) \<and>
     tcb tsk' = tcb tsk \<and> ofo_queue tsk' = ofo_queue tsk \<and> sk_state tsk' = sk_state tsk \<and>
     sk_write_queue tsk' = sk_write_queue tsk \<and> next_skb tsk' = next_skb tsk \<and> tsk_fec tsk' = tsk_fec tsk"
  by (auto simp: tcp_data_dequeue_def cbind_Ok_iff Let_def dest!: dequeue_loop_frame split: if_splits)

lemma data_dequeue_total:
  assumes "length W < 2 ^ 32" and "rx_inv W base read N tsk" and "n < 2 ^ 32"
  shows "\<exists>tsk'. tcp_data_dequeue n tsk = Ok (take n (pending (sk_receive_queue tsk)), tsk') \<and>
           rx_inv W base (read @ take n (pending (sk_receive_queue tsk))) N tsk'"
proof -
  note inv = assms(2) [unfolded rx_inv_def stream_inv_def]
  from inv obtain m where m: "m \<le> length W" "rcv_nxt (tcb tsk) = base + of_nat m"
    "read @ pending (sk_receive_queue tsk) = take m W" by blast
  have "length (pending (sk_receive_queue tsk)) < 2 ^ 32"
    using arg_cong [OF m(3), of length] m(1) assms(1) by simp
  then obtain q f p where d: "tcp_data_dequeue n tsk = Ok (take n (pending (sk_receive_queue tsk)),
      tsk\<lparr>sk_receive_queue := q, tsk_flags := f, sk_poll_events := p\<rparr>)" "q_wf q" "\<forall>s\<in>set (q_list q). seg_ok s"
    "pending q = drop n (pending (sk_receive_queue tsk))"
    using data_dequeue_spec [of tsk n] inv assms(3) by blast
  have "length (q_list q) \<le> length (q_list (sk_receive_queue tsk))"
    using data_dequeue_frame [OF d(1)] by simp
  then show ?thesis using d m inv by (auto simp: rx_inv_def stream_inv_def sack_ready_def)
qed

section \<open>A run of arrivals and reads\<close>

text \<open>What the network and the user do to an open connection: segments arrive at
  \<open>tcp_data_queue\<close>, the user calls \<open>tcp_data_dequeue\<close>; the result is everything read.\<close>

datatype rx_op = Deliver sk_buff | Read nat

fun run_rx :: "ip_layer \<Rightarrow> rx_op list \<Rightarrow> tcp_sock \<Rightarrow> (bytes \<times> tcp_sock) cres" where
  "run_rx out [] tsk = Ok ([], tsk)"
| "run_rx out (Deliver skb # ops) tsk = cbind (tcp_data_queue out skb tsk) (\<lambda>(_, _, tsk). run_rx out ops tsk)"
| "run_rx out (Read n # ops) tsk =
     cbind (tcp_data_dequeue n tsk) (\<lambda>(d, tsk). cbind (run_rx out ops tsk) (\<lambda>(d', tsk). Ok (d @ d', tsk)))"

definition honest_op :: "bytes \<Rightarrow> u32 \<Rightarrow> rx_op \<Rightarrow> bool" where
  "honest_op W base op =
     (case op of
        Deliver skb \<Rightarrow> slice_of W base skb \<and> skb_seq skb \<noteq> 0 \<and> skb_end_seq skb \<noteq> 0
      | Read n \<Rightarrow> n < 2 ^ 32)"

lemma run_rx_inv:
  assumes "length W < 2 ^ 32" and "rx_inv W base read N tsk" and "N + length ops < 2 ^ 32 - 1"
    and "\<forall>op\<in>set ops. honest_op W base op"
  shows "\<exists>d tsk'. run_rx out ops tsk = Ok (d, tsk') \<and> rx_inv W base (read @ d) (N + length ops) tsk'"
  using assms(2-4)
proof (induction ops arbitrary: tsk read N)
  case (Cons op ops)
  show ?case
  proof (cases op)
    case (Deliver skb)
    then obtain s t where t: "tcp_data_queue out skb tsk = Ok (0, Some s, t)" "rx_inv W base read (Suc N) t"
      using data_queue_total [OF assms(1) Cons.prems(1), of skb out] Cons.prems(2,3) by (auto simp: honest_op_def)
    show ?thesis using Cons.IH [OF t(2)] Cons.prems(2,3) t(1) Deliver by auto
  next
    case (Read n)
    then obtain t where t: "tcp_data_dequeue n tsk = Ok (take n (pending (sk_receive_queue tsk)), t)"
      "rx_inv W base (read @ take n (pending (sk_receive_queue tsk))) N t"
      using data_dequeue_total [OF assms(1) Cons.prems(1), of n] Cons.prems(3) by (auto simp: honest_op_def)
    have "N + length ops < 2 ^ 32 - 1" using Cons.prems(2) by simp
    from Cons.IH [OF t(2) this] Cons.prems(3) obtain d t' where
      "run_rx out ops t = Ok (d, t')"
      "rx_inv W base ((read @ take n (pending (sk_receive_queue tsk))) @ d) (N + length ops) t'" by auto
    then show ?thesis using t(1) Read by (auto simp: rx_inv_def)
  qed
qed auto

definition rx_open :: "u32 \<Rightarrow> tcp_sock \<Rightarrow> bool" where
  "rx_open base tsk \<longleftrightarrow>
     rcv_nxt (tcb tsk) = base \<and> sk_receive_queue tsk = skb_queue_init \<and> ofo_queue tsk = skb_queue_init \<and>
     sack_ready tsk \<and> sk_state tsk \<noteq> TCP_CLOSE \<and> rcv_wnd (tcb tsk) \<noteq> 0"

lemma rx_open_inv: "rx_open base tsk \<Longrightarrow> rx_inv W base [] 0 tsk"
  by (auto simp: rx_open_def rx_inv_def stream_inv_def q_wf_def skb_queue_init_def intro!: exI [of _ 0])

section \<open>Every byte arrives\<close>

text \<open>The segments of a stream that tile it: they do not overlap, and where one ends inside the
  stream another begins.  Sequence numbers do not wrap within the stream.\<close>

definition tiling :: "nat \<Rightarrow> nat \<Rightarrow> sk_buff set \<Rightarrow> bool" where
  "tiling lo hi T \<longleftrightarrow>
     (\<forall>s\<in>T. lo \<le> unat (skb_seq s) \<and> 0 < unat (skb_dlen s) \<and> unat (skb_seq s) + unat (skb_dlen s) \<le> hi \<and>
        skb_end_seq s = skb_seq s + skb_dlen s) \<and>
     (\<forall>s\<in>T. \<forall>t\<in>T. s \<noteq> t \<longrightarrow> skb_id s \<noteq> skb_id t \<and>
        (unat (skb_seq s) + unat (skb_dlen s) \<le> unat (skb_seq t) \<or>
         unat (skb_seq t) + unat (skb_dlen t) \<le> unat (skb_seq s))) \<and>
     (lo < hi \<longrightarrow> (\<exists>s\<in>T. unat (skb_seq s) = lo)) \<and>
     (\<forall>s\<in>T. unat (skb_seq s) + unat (skb_dlen s) < hi \<longrightarrow>
        (\<exists>t\<in>T. unat (skb_seq t) = unat (skb_seq s) + unat (skb_dlen s)))"

lemma tiling_order:
  assumes "tiling lo hi T" and "hi < 2 ^ 32" and "s \<in> T" and "t \<in> T" and "s \<noteq> t"
  shows "skb_seq s \<noteq> skb_seq t"
    and "skb_seq s < skb_seq t \<Longrightarrow> unat (skb_seq s) + unat (skb_dlen s) \<le> unat (skb_seq t)"
    and "skb_seq s < skb_seq t \<Longrightarrow> skb_end_seq s \<le> skb_seq t"
proof -
  have d: "unat (skb_seq s) + unat (skb_dlen s) \<le> unat (skb_seq t) \<or> unat (skb_seq t) + unat (skb_dlen t) \<le> unat (skb_seq s)"
    and p: "0 < unat (skb_dlen s)" "0 < unat (skb_dlen t)" "unat (skb_seq s) + unat (skb_dlen s) \<le> hi"
      "skb_end_seq s = skb_seq s + skb_dlen s"
    using assms by (auto simp: tiling_def)
  show "skb_seq s \<noteq> skb_seq t" using d p by auto
  show *: "unat (skb_seq s) + unat (skb_dlen s) \<le> unat (skb_seq t)" if "skb_seq s < skb_seq t"
    using d p that by (auto simp: word_less_nat_alt)
  have "unat (skb_end_seq s) = unat (skb_seq s) + unat (skb_dlen s)"
    using p(3,4) assms(2) by (simp add: unat_word_ariths)
  then show "skb_end_seq s \<le> skb_seq t" if "skb_seq s < skb_seq t" using * [OF that] by (simp add: word_le_nat_alt)
qed

lemma insert_scan_sorted:
  assumes "\<forall>x\<in>set xs. skb_seq s \<noteq> skb_seq x \<and> (skb_seq s < skb_seq x \<longrightarrow> skb_end_seq s \<le> skb_seq x)"
    and "sorted_wrt (\<lambda>a b. skb_seq a < skb_seq b) xs"
  shows "(insert_scan s xs = AtTail \<and> (\<forall>x\<in>set xs. skb_seq x < skb_seq s)) \<or>
         (\<exists>ys y zs. insert_scan s xs = Before y \<and> xs = ys @ y # zs \<and> (\<forall>x\<in>set ys. skb_seq x < skb_seq s) \<and>
            (\<forall>x\<in>set (y # zs). skb_seq s < skb_seq x))"
  using assms
proof (induction xs)
  case (Cons x xs)
  show ?case
  proof (cases "skb_seq s < skb_seq x")
    case True
    then have "insert_scan s (x # xs) = Before x" using Cons.prems(1) by auto
    moreover have "\<forall>y\<in>set (x # xs). skb_seq s < skb_seq y" using True Cons.prems(2) by fastforce
    ultimately show ?thesis by (intro disjI2 exI [of _ "[]"] exI [of _ x] exI [of _ xs]) simp
  next
    case False
    then have x: "skb_seq x < skb_seq s" "insert_scan s (x # xs) = insert_scan s xs" using Cons.prems(1) by auto
    from Cons have "(insert_scan s xs = AtTail \<and> (\<forall>x\<in>set xs. skb_seq x < skb_seq s)) \<or>
        (\<exists>ys y zs. insert_scan s xs = Before y \<and> xs = ys @ y # zs \<and> (\<forall>x\<in>set ys. skb_seq x < skb_seq s) \<and>
           (\<forall>x\<in>set (y # zs). skb_seq s < skb_seq x))" by simp
    then show ?thesis
    proof (elim disjE exE conjE)
      fix ys y zs
      assume "insert_scan s xs = Before y" "xs = ys @ y # zs" "\<forall>x\<in>set ys. skb_seq x < skb_seq s"
        "\<forall>x\<in>set (y # zs). skb_seq s < skb_seq x"
      then show ?thesis using x by (intro disjI2 exI [of _ "x # ys"] exI [of _ y] exI [of _ zs]) simp
    qed (use x in simp)
  qed
qed simp

lemma insert_before_split: "y' \<notin> skb_id ` set ys \<Longrightarrow> skb_id y = y' \<Longrightarrow>
    insert_before y' new (ys @ y # zs) = ys @ new # y # zs"
  by (induction ys) auto

lemma insert_ordered_sorted:
  assumes "\<forall>x\<in>set (q_list q). skb_seq s \<noteq> skb_seq x \<and> (skb_seq s < skb_seq x \<longrightarrow> skb_end_seq s \<le> skb_seq x)"
    and "sorted_wrt (\<lambda>a b. skb_seq a < skb_seq b) (q_list q)" and "distinct (map skb_id (q_list q))"
  shows "set (q_list (fst (tcp_data_insert_ordered q s))) = insert (skb_get s) (set (q_list q))"
    and "sorted_wrt (\<lambda>a b. skb_seq a < skb_seq b) (q_list (fst (tcp_data_insert_ordered q s)))"
proof -
  have "\<exists>ys zs. q_list q = ys @ zs \<and> q_list (fst (tcp_data_insert_ordered q s)) = ys @ skb_get s # zs \<and>
      (\<forall>x\<in>set ys. skb_seq x < skb_seq s) \<and> (\<forall>x\<in>set zs. skb_seq s < skb_seq x)"
    using insert_scan_sorted [OF assms(1,2)]
  proof (elim disjE exE conjE)
    fix ys y zs
    assume a: "insert_scan s (q_list q) = Before y" "q_list q = ys @ y # zs" "\<forall>x\<in>set ys. skb_seq x < skb_seq s"
      "\<forall>x\<in>set (y # zs). skb_seq s < skb_seq x"
    then have "skb_id y \<notin> skb_id ` set ys" using assms(3) by auto
    then show ?thesis using a
      by (intro exI [of _ ys] exI [of _ "y # zs"])
        (simp add: tcp_data_insert_ordered_def skb_queue_add_def insert_before_split)
  next
    assume "insert_scan s (q_list q) = AtTail" "\<forall>x\<in>set (q_list q). skb_seq x < skb_seq s"
    then show ?thesis
      by (intro exI [of _ "q_list q"] exI [of _ "[]"]) (simp add: tcp_data_insert_ordered_def skb_queue_tail_def)
  qed
  then obtain ys zs where s: "q_list q = ys @ zs" "q_list (fst (tcp_data_insert_ordered q s)) = ys @ skb_get s # zs"
    "\<forall>x\<in>set ys. skb_seq x < skb_seq s" "\<forall>x\<in>set zs. skb_seq s < skb_seq x" by blast
  then show "set (q_list (fst (tcp_data_insert_ordered q s))) = insert (skb_get s) (set (q_list q))" by auto
  show "sorted_wrt (\<lambda>a b. skb_seq a < skb_seq b) (q_list (fst (tcp_data_insert_ordered q s)))"
    using s assms(2) by (auto simp: sorted_wrt_append)
qed

text \<open>\<open>D\<close> is what has been delivered: everything before \<open>rcv_nxt\<close>, and the out-of-order queue,
  which is sorted.  The state is settled when the queue does not start at \<open>rcv_nxt\<close>.\<close>

definition gathered :: "nat \<Rightarrow> nat \<Rightarrow> sk_buff set \<Rightarrow> sk_buff set \<Rightarrow> tcp_sock \<Rightarrow> bool" where
  "gathered lo hi T D tsk \<longleftrightarrow>
     lo \<le> unat (rcv_nxt (tcb tsk)) \<and> unat (rcv_nxt (tcb tsk)) \<le> hi \<and> D \<subseteq> T \<and>
     (unat (rcv_nxt (tcb tsk)) < hi \<longrightarrow> (\<exists>s\<in>T. skb_seq s = rcv_nxt (tcb tsk))) \<and>
     (\<forall>s\<in>T. skb_seq s < rcv_nxt (tcb tsk) \<longrightarrow> s \<in> D) \<and>
     set (q_list (ofo_queue tsk)) = skb_get ` {s\<in>D. rcv_nxt (tcb tsk) \<le> skb_seq s} \<and>
     sorted_wrt (\<lambda>a b. skb_seq a < skb_seq b) (q_list (ofo_queue tsk)) \<and> q_wf (ofo_queue tsk)"

definition settled :: "tcp_sock \<Rightarrow> bool" where
  "settled tsk \<longleftrightarrow> (\<forall>x\<in>set (q_list (ofo_queue tsk)). skb_seq x \<noteq> rcv_nxt (tcb tsk))"

lemma gathered_cong:
  "tcb t' = tcb t \<Longrightarrow> ofo_queue t' = ofo_queue t \<Longrightarrow> gathered lo hi T D t' = gathered lo hi T D t"
  "tcb t' = tcb t \<Longrightarrow> ofo_queue t' = ofo_queue t \<Longrightarrow> settled t' = settled t"
  by (simp_all add: gathered_def settled_def)

text \<open>Moving the frontier over a delivered tile.\<close>

lemma gathered_advance:
  assumes "tiling lo hi T" and "hi < 2 ^ 32" and "s \<in> T" and "skb_seq s = rcv_nxt (tcb tsk)"
    and "gathered lo hi T D tsk" and "D' = insert s D"
    and "set (q_list q) = skb_get ` {x\<in>D. rcv_nxt (tcb tsk) \<le> skb_seq x} - {skb_get s}"
    and "sorted_wrt (\<lambda>a b. skb_seq a < skb_seq b) (q_list q)" and "q_wf q"
  shows "gathered lo hi T D'
           (tsk\<lparr>tcb := (tcb tsk)\<lparr>rcv_nxt := rcv_nxt (tcb tsk) + skb_dlen s\<rparr>, ofo_queue := q, sk_receive_queue := r\<rparr>)"
proof -
  let ?n = "rcv_nxt (tcb tsk)"
  have p: "0 < unat (skb_dlen s)" "unat ?n + unat (skb_dlen s) \<le> hi"
    using assms(1,3,4) by (auto simp: tiling_def)
  then have n': "unat (?n + skb_dlen s) = unat ?n + unat (skb_dlen s)"
    using assms(2) by (simp add: unat_word_ariths)
  have past: "x = s \<or> skb_seq x < ?n \<or> ?n + skb_dlen s \<le> skb_seq x" if "x \<in> T" for x
  proof (cases "x = s")
    case False
    then have "skb_seq x < ?n \<or> skb_seq s < skb_seq x"
      using tiling_order(1) [OF assms(1-3) that] assms(4) by (metis linorder_less_linear)
    moreover have "?n + skb_dlen s \<le> skb_seq x" if "skb_seq s < skb_seq x"
      using tiling_order(2) [OF assms(1-3) \<open>x \<in> T\<close> _ that] False n' assms(4) by (auto simp: word_le_nat_alt)
    ultimately show ?thesis by blast
  qed simp
  have DT: "D \<subseteq> T" using assms(5) by (simp add: gathered_def)
  have eq: "{x\<in>D. ?n \<le> skb_seq x} - {s} = {x\<in>D. ?n + skb_dlen s \<le> skb_seq x}"
    using past DT n' p(1) assms(4) by (fastforce simp: word_less_nat_alt word_le_nat_alt)
  have inj: "skb_get x \<noteq> skb_get s" if "x \<in> T" "x \<noteq> s" for x
    using tiling_order(1) [OF assms(1,2) that(1) assms(3) that(2)] by (metis skb_get_simps(5))
  have "set (q_list q) = skb_get ` ({x\<in>D. ?n \<le> skb_seq x} - {s})"
    using assms(7) inj DT by blast
  moreover have "\<not> ?n + skb_dlen s \<le> skb_seq s" using n' p(1) assms(4) by (simp add: word_le_nat_alt)
  then have "{x\<in>D'. ?n + skb_dlen s \<le> skb_seq x} = {x\<in>D. ?n + skb_dlen s \<le> skb_seq x}" using assms(6) by auto
  ultimately have "set (q_list q) = skb_get ` {x\<in>D'. ?n + skb_dlen s \<le> skb_seq x}" using eq by simp
  moreover have "x \<in> D'" if "x \<in> T" "skb_seq x < ?n + skb_dlen s" for x
    using past [OF that(1)] that assms(5,6) by (auto simp: gathered_def)
  moreover have "\<exists>x\<in>T. skb_seq x = ?n + skb_dlen s" if less: "unat (?n + skb_dlen s) < hi"
  proof -
    obtain x where "x \<in> T" "unat (skb_seq x) = unat ?n + unat (skb_dlen s)"
      using assms(1,3,4) less unfolding n' tiling_def by metis
    then show ?thesis using n' by (metis unsigned_word_eqI)
  qed
  ultimately show ?thesis using assms(3,5,6,8,9) p n' by (auto simp: gathered_def)
qed

lemma settled_if_head_waits:
  assumes "sorted_wrt (\<lambda>a b. skb_seq a < skb_seq b) (q_list (ofo_queue tsk))" and "q_wf (ofo_queue tsk)"
    and "\<forall>x\<in>set (q_list (ofo_queue tsk)). rcv_nxt (tcb tsk) \<le> skb_seq x"
    and "\<And>s. skb_peek (ofo_queue tsk) = Some s \<Longrightarrow> rcv_nxt (tcb tsk) \<noteq> skb_seq s"
  shows "settled tsk"
  using assms by (cases "q_list (ofo_queue tsk)") (fastforce simp: settled_def q_wf_peek)+

lemma consume_gathers:
  "tiling lo hi T \<Longrightarrow> hi < 2 ^ 32 \<Longrightarrow> gathered lo hi T D tsk \<Longrightarrow>
     gathered lo hi T D (tcp_consume_ofo_queue tsk) \<and> settled (tcp_consume_ofo_queue tsk)"
proof (induction tsk rule: tcp_consume_ofo_queue.induct)
  case (1 tsk)
  note g = 1(4) [unfolded gathered_def]
  show ?case
  proof (cases "\<exists>h. skb_peek (ofo_queue tsk) = Some h \<and> rcv_nxt (tcb tsk) = skb_seq h")
    case False
    then have "tcp_consume_ofo_queue tsk = tsk"
      by (auto simp: tcp_consume_ofo_queue.simps [of tsk] split: option.splits)
    moreover have "settled tsk" by (rule settled_if_head_waits) (use g False in auto)
    ultimately show ?thesis using 1(4) by simp
  next
    case True
    then obtain h xs where h: "skb_peek (ofo_queue tsk) = Some h" "rcv_nxt (tcb tsk) = skb_seq h"
      "q_list (ofo_queue tsk) = h # xs" using peek_dequeue by blast
    obtain q where q: "skb_dequeue (ofo_queue tsk) = Ok (h, q)" "q_wf q" "q_list q = xs"
      using q_wf_dequeue [of "ofo_queue tsk" h xs] g h(3) by blast
    obtain s where s: "s \<in> D" "h = skb_get s" using g h(3) by (metis (mono_tags, lifting) imageE list.set_intros(1) mem_Collect_eq)
    have sT: "s \<in> T" "skb_seq s = rcv_nxt (tcb tsk)" using s g h(2) by auto
    have "h \<notin> set xs" using g h(3) by auto
    then have "set (q_list q) = skb_get ` {x\<in>D. rcv_nxt (tcb tsk) \<le> skb_seq x} - {skb_get s}"
      using g h(3) q(3) s(2) by (metis Diff_insert_absorb list.simps(15))
    moreover have "insert s D = D" using s(1) by blast
    moreover have "sorted_wrt (\<lambda>a b. skb_seq a < skb_seq b) (q_list q)" using g h(3) q(3) by simp
    ultimately have "gathered lo hi T D
        (tsk\<lparr>tcb := (tcb tsk)\<lparr>rcv_nxt := rcv_nxt (tcb tsk) + skb_dlen h\<rparr>, ofo_queue := q,
             sk_receive_queue := skb_queue_tail (sk_receive_queue tsk) h\<rparr>)"
      using gathered_advance [OF 1(2,3) sT 1(4) refl, of q] q(2) s(2) by simp
    from 1(1) [OF h(1) h(2) q(1) refl 1(2,3) this] show ?thesis
      using h(1,2) q(1) by (simp add: tcp_consume_ofo_queue.simps [of tsk])
  qed
qed

lemma data_queue_effect:
  assumes "tcp_data_queue out skb tsk = Ok (rc, s, tsk')" and "rcv_wnd (tcb tsk) \<noteq> 0"
  shows "skb_seq skb = rcv_nxt (tcb tsk) \<Longrightarrow>
           \<exists>c. c = tcp_consume_ofo_queue (tsk\<lparr>tcb := (tcb tsk)\<lparr>rcv_nxt := rcv_nxt (tcb tsk) + skb_dlen skb\<rparr>,
                      sk_receive_queue := skb_queue_tail (sk_receive_queue tsk) (skb_get skb)\<rparr>) \<and>
               tcb tsk' = tcb c \<and> ofo_queue tsk' = ofo_queue c"
    and "skb_seq skb \<noteq> rcv_nxt (tcb tsk) \<Longrightarrow>
           tcb tsk' = tcb tsk \<and> ofo_queue tsk' = fst (tcp_data_insert_ordered (ofo_queue tsk) skb)"
proof -
  assume "skb_seq skb = rcv_nxt (tcb tsk)"
  then show "\<exists>c. c = tcp_consume_ofo_queue (tsk\<lparr>tcb := (tcb tsk)\<lparr>rcv_nxt := rcv_nxt (tcb tsk) + skb_dlen skb\<rparr>,
                      sk_receive_queue := skb_queue_tail (sk_receive_queue tsk) (skb_get skb)\<rparr>) \<and>
               tcb tsk' = tcb c \<and> ofo_queue tsk' = ofo_queue c"
    using assms by (auto simp: tcp_data_queue_def Let_def tcp_recv_notify_def)
next
  let ?t = "tsk\<lparr>ofo_queue := fst (tcp_data_insert_ordered (ofo_queue tsk) skb)\<rparr>"
  assume "skb_seq skb \<noteq> rcv_nxt (tcb tsk)"
  then obtain t1 rc2 where t1: "(if sackok tsk then tcp_calculate_sacks ?t else Ok ?t) = Ok t1"
    "tcp_send_ack out t1 = Ok (rc2, tsk')"
    using assms by (auto simp: tcp_data_queue_def Let_def cbind_Ok_iff split: prod.splits if_splits)
  have "\<exists>a b. t1 = ?t\<lparr>sacklen := a, sacks := b\<rparr> \<or> t1 = ?t"
    using t1(1) calculate_sacks_frame [of ?t t1] by (auto split: if_splits)
  moreover obtain a b c d where "tsk' = t1\<lparr>sacks := a, sacklen := b, next_skb := c, tx_log := d\<rparr>"
    using send_ack_frame [OF t1(2)] by blast
  ultimately show "tcb tsk' = tcb tsk \<and> ofo_queue tsk' = fst (tcp_data_insert_ordered (ofo_queue tsk) skb)" by auto
qed

lemma gathered_ids:
  assumes "tiling lo hi T" and "hi < 2 ^ 32" and "gathered lo hi T D tsk"
  shows "distinct (map skb_id (q_list (ofo_queue tsk)))"
proof -
  have s: "sorted_wrt (\<lambda>a b. skb_seq a < skb_seq b) (q_list (ofo_queue tsk))" using assms(3) by (simp add: gathered_def)
  have "skb_id (q_list (ofo_queue tsk) ! i) \<noteq> skb_id (q_list (ofo_queue tsk) ! j)"
    if ij: "i < length (q_list (ofo_queue tsk))" "j < length (q_list (ofo_queue tsk))" "i < j" for i j
  proof -
    obtain a b where ab: "a \<in> T" "b \<in> T" "q_list (ofo_queue tsk) ! i = skb_get a" "q_list (ofo_queue tsk) ! j = skb_get b"
      using assms(3) nth_mem [OF ij(1)] nth_mem [OF ij(2)] by (auto simp: gathered_def)
    have "skb_seq a < skb_seq b" using sorted_wrt_nth_less [OF s ij(3,2)] ab(3,4) by simp
    then have "a \<noteq> b" by auto
    then have "skb_id a \<noteq> skb_id b" using ab(1,2) assms(1) by (auto simp: tiling_def)
    then show ?thesis using ab(3,4) by (simp add: skb_get_def)
  qed
  then have "\<forall>i<length (q_list (ofo_queue tsk)). \<forall>j<length (q_list (ofo_queue tsk)).
      i \<noteq> j \<longrightarrow> skb_id (q_list (ofo_queue tsk) ! i) \<noteq> skb_id (q_list (ofo_queue tsk) ! j)"
    by (metis linorder_neqE_nat)
  then show ?thesis by (simp add: distinct_conv_nth)
qed

text \<open>A tile that has not been delivered yet keeps the invariant, whichever way it arrives.\<close>

lemma deliver_gathers:
  assumes "tiling lo hi T" and "hi < 2 ^ 32" and "gathered lo hi T D tsk" and "settled tsk"
    and "s \<in> T" and "s \<notin> D" and "rcv_wnd (tcb tsk) \<noteq> 0"
    and "length (q_list (ofo_queue tsk)) < 2 ^ 32 - 1"
    and "tcp_data_queue out s tsk = Ok (rc, x, tsk')"
  shows "gathered lo hi T (insert s D) tsk' \<and> settled tsk'"
proof (cases "skb_seq s = rcv_nxt (tcb tsk)")
  case True
  note g = assms(3) [unfolded gathered_def]
  have no: "skb_get s \<notin> skb_get ` {x\<in>D. rcv_nxt (tcb tsk) \<le> skb_seq x}"
    using g assms(4) True unfolding settled_def by (metis skb_get_simps(5))
  have "gathered lo hi T (insert s D)
      (tsk\<lparr>tcb := (tcb tsk)\<lparr>rcv_nxt := rcv_nxt (tcb tsk) + skb_dlen s\<rparr>, ofo_queue := ofo_queue tsk,
           sk_receive_queue := skb_queue_tail (sk_receive_queue tsk) (skb_get s)\<rparr>)"
    by (rule gathered_advance [OF assms(1,2,5) True assms(3) refl]) (use g no in auto)
  then have "gathered lo hi T (insert s D)
      (tsk\<lparr>tcb := (tcb tsk)\<lparr>rcv_nxt := rcv_nxt (tcb tsk) + skb_dlen s\<rparr>,
           sk_receive_queue := skb_queue_tail (sk_receive_queue tsk) (skb_get s)\<rparr>)"
    by (simp add: gathered_def)
  from consume_gathers [OF assms(1,2) this] data_queue_effect(1) [OF assms(9,7) True] gathered_cong
  show ?thesis by metis
next
  case False
  note g = assms(3) [unfolded gathered_def]
  let ?q = "ofo_queue tsk"
  have above: "rcv_nxt (tcb tsk) \<le> skb_seq s" using g assms(5,6) by (meson linorder_not_le)
  have sep: "\<forall>x\<in>set (q_list ?q). skb_seq s \<noteq> skb_seq x \<and> (skb_seq s < skb_seq x \<longrightarrow> skb_end_seq s \<le> skb_seq x)"
  proof
    fix x assume "x \<in> set (q_list ?q)"
    then obtain d where d: "d \<in> D" "x = skb_get d" using g by auto
    then have dT: "d \<in> T" "s \<noteq> d" using g assms(6) by auto
    show "skb_seq s \<noteq> skb_seq x \<and> (skb_seq s < skb_seq x \<longrightarrow> skb_end_seq s \<le> skb_seq x)"
      using tiling_order(1) [OF assms(1,2,5) dT] tiling_order(3) [OF assms(1,2,5) dT] d(2) by simp
  qed
  note ins = insert_ordered_sorted [OF sep _ gathered_ids [OF assms(1-3)]]
  have "{x\<in>insert s D. rcv_nxt (tcb tsk) \<le> skb_seq x} = insert s {x\<in>D. rcv_nxt (tcb tsk) \<le> skb_seq x}"
    using above by auto
  moreover have "set (q_list (fst (tcp_data_insert_ordered ?q s))) =
      insert (skb_get s) (skb_get ` {x\<in>D. rcv_nxt (tcb tsk) \<le> skb_seq x})" using ins(1) g by auto
  moreover have "tcb tsk' = tcb tsk" "ofo_queue tsk' = fst (tcp_data_insert_ordered ?q s)"
    using data_queue_effect(2) [OF assms(9,7) False] by auto
  moreover have "q_wf (fst (tcp_data_insert_ordered ?q s))" using insert_ordered_wf(1) g assms(8) by blast
  moreover have "sorted_wrt (\<lambda>a b. skb_seq a < skb_seq b) (q_list (fst (tcp_data_insert_ordered ?q s)))"
    using ins(2) g by blast
  ultimately show ?thesis using g assms(4,5) False by (auto simp: gathered_def settled_def)
qed

fun deliveries :: "rx_op list \<Rightarrow> sk_buff list" where
  "deliveries [] = []"
| "deliveries (Deliver s # ops) = s # deliveries ops"
| "deliveries (Read n # ops) = deliveries ops"

lemma honest_ops:
  "\<forall>s\<in>set (deliveries ops). slice_of W base s \<and> skb_seq s \<noteq> 0 \<and> skb_end_seq s \<noteq> 0 \<Longrightarrow>
     \<forall>n. Read n \<in> set ops \<longrightarrow> n < 2 ^ 32 \<Longrightarrow> \<forall>op\<in>set ops. honest_op W base op"
  by (induction ops rule: deliveries.induct) (auto simp: honest_op_def)

lemma run_rx_gathers:
  assumes "tiling lo hi T" and "hi < 2 ^ 32" and "length W < 2 ^ 32" and "\<forall>s\<in>T. slice_of W base s \<and> skb_seq s \<noteq> 0 \<and> skb_end_seq s \<noteq> 0"
    and "rx_inv W base read N tsk" and "gathered lo hi T D tsk" and "settled tsk"
    and "N + length ops < 2 ^ 32 - 1" and "distinct (deliveries ops)" and "set (deliveries ops) \<subseteq> T - D"
    and "\<forall>op\<in>set ops. honest_op W base op"
  shows "\<exists>d tsk'. run_rx out ops tsk = Ok (d, tsk') \<and> rx_inv W base (read @ d) (N + length ops) tsk' \<and>
           gathered lo hi T (D \<union> set (deliveries ops)) tsk' \<and> settled tsk'"
  using assms(5-11)
proof (induction ops arbitrary: tsk read N D)
  case (Cons op ops)
  show ?case
  proof (cases op)
    case (Deliver s)
    then have s: "s \<in> T" "s \<notin> D" using Cons.prems(6) by auto
    have wnd: "rcv_wnd (tcb tsk) \<noteq> 0" "length (q_list (ofo_queue tsk)) < 2 ^ 32 - 1"
      using Cons.prems(1,4) by (auto simp: rx_inv_def)
    obtain x t where t: "tcp_data_queue out s tsk = Ok (0, Some x, t)" "rx_inv W base read (Suc N) t"
      using data_queue_total [OF assms(3) Cons.prems(1), of s out] assms(4) s(1) Cons.prems(4) by auto
    have g: "gathered lo hi T (insert s D) t" "settled t"
      using deliver_gathers [OF assms(1,2) Cons.prems(2,3) s wnd t(1)] by auto
    obtain d t' where "run_rx out ops t = Ok (d, t')" "rx_inv W base (read @ d) (Suc N + length ops) t'"
      "gathered lo hi T (insert s D \<union> set (deliveries ops)) t'" "settled t'"
      using Cons.IH [OF t(2) g] Cons.prems(4-7) Deliver by auto
    then show ?thesis using t(1) Deliver by simp
  next
    case (Read n)
    let ?d = "take n (pending (sk_receive_queue tsk))"
    obtain t where t: "tcp_data_dequeue n tsk = Ok (?d, t)" "rx_inv W base (read @ ?d) N t"
      using data_dequeue_total [OF assms(3) Cons.prems(1), of n] Cons.prems(7) Read by (auto simp: honest_op_def)
    have g: "gathered lo hi T D t" "settled t"
      using Cons.prems(2,3) data_dequeue_frame [OF t(1)] gathered_cong [of t tsk] by auto
    obtain d t' where r: "run_rx out ops t = Ok (d, t')" "rx_inv W base ((read @ ?d) @ d) (N + length ops) t'"
      "gathered lo hi T (D \<union> set (deliveries ops)) t'" "settled t'"
      using Cons.IH [OF t(2) g] Cons.prems(4-7) Read by auto
    have "rx_inv W base (read @ ?d @ d) (N + length (op # ops)) t'" using r(2) by (auto simp: rx_inv_def)
    then show ?thesis using t(1) r Read by simp
  qed
qed auto

lemma all_gathered:
  assumes "tiling lo hi T" and "gathered lo hi T T tsk" and "settled tsk"
  shows "unat (rcv_nxt (tcb tsk)) = hi"
proof (rule ccontr)
  assume "unat (rcv_nxt (tcb tsk)) \<noteq> hi"
  then have "unat (rcv_nxt (tcb tsk)) < hi" using assms(2) by (simp add: gathered_def)
  then obtain s where "s \<in> T" "skb_seq s = rcv_nxt (tcb tsk)" using assms(2) by (auto simp: gathered_def)
  moreover from this have "skb_get s \<in> set (q_list (ofo_queue tsk))" using assms(2) by (auto simp: gathered_def)
  ultimately show False using assms(3) by (metis settled_def skb_get_simps(5))
qed

text \<open>The segments of a stream, one after the other.\<close>

fun tiles :: "bytes \<Rightarrow> u32 \<Rightarrow> nat \<Rightarrow> sk_buff list \<Rightarrow> bool" where
  "tiles W base off [] \<longleftrightarrow> off = length W"
| "tiles W base off (s # ss) \<longleftrightarrow>
     seg_ok s \<and> skb_seq s = base + of_nat off \<and> 0 < unat (skb_dlen s) \<and> skb_end_seq s = skb_seq s + skb_dlen s \<and>
     skb_pay s = take (unat (skb_dlen s)) (drop off W) \<and> tiles W base (off + unat (skb_dlen s)) ss"

lemma tiles_length: "tiles W base off ss \<Longrightarrow> off \<le> length W"
  by (induction ss arbitrary: off) (auto dest: add_leD1)

lemma unat_base: "unat (base :: u32) + off < 2 ^ 32 \<Longrightarrow> unat (base + of_nat off) = unat base + off"
  by (simp add: unat_word_ariths unat_of_nat)

lemma tiles_range:
  assumes "tiles W base off ss" and "unat base + length W < 2 ^ 32" and "s \<in> set ss"
  shows "unat base + off \<le> unat (skb_seq s)" and "0 < unat (skb_dlen s)"
    and "unat (skb_seq s) + unat (skb_dlen s) \<le> unat base + length W"
    and "skb_end_seq s = skb_seq s + skb_dlen s" and "slice_of W base s"
proof -
  have "unat base + off \<le> unat (skb_seq s) \<and> 0 < unat (skb_dlen s) \<and>
      unat (skb_seq s) + unat (skb_dlen s) \<le> unat base + length W \<and> skb_end_seq s = skb_seq s + skb_dlen s \<and> slice_of W base s"
    using assms(1,3)
  proof (induction ss arbitrary: off)
    case (Cons x ss)
    have "off + unat (skb_dlen x) \<le> length W" using Cons.prems(1) tiles_length by auto
    moreover from this have "unat (skb_seq x) = unat base + off" using Cons.prems(1) assms(2) by (simp add: unat_base)
    ultimately have "s = x \<Longrightarrow> ?case" using Cons.prems(1) by (auto simp: slice_of_def)
    moreover have ?case if "s \<in> set ss" using Cons.IH [OF _ that] Cons.prems(1) by fastforce
    ultimately show ?case using Cons.prems(2) by auto
  qed simp
  then show "unat base + off \<le> unat (skb_seq s)" "0 < unat (skb_dlen s)"
    "unat (skb_seq s) + unat (skb_dlen s) \<le> unat base + length W"
    "skb_end_seq s = skb_seq s + skb_dlen s" "slice_of W base s" by auto
qed

lemma tiles_tiling:
  assumes "tiles W base off ss" and "unat base + length W < 2 ^ 32" and "distinct (map skb_id ss)"
  shows "tiling (unat base + off) (unat base + length W) (set ss)"
  using assms(1,3)
proof (induction ss arbitrary: off)
  case Nil
  then show ?case by (simp add: tiling_def)
next
  case (Cons x ss)
  let ?off = "off + unat (skb_dlen x)"
  have IH: "tiling (unat base + ?off) (unat base + length W) (set ss)" using Cons by simp
  have rest: "tiles W base ?off ss" using Cons.prems by simp
  have x: "unat (skb_seq x) = unat base + off"
    using Cons.prems tiles_length [OF rest] assms(2) by (simp add: unat_base)
  have le: "?off \<le> length W" by (rule tiles_length [OF rest])
  have above: "unat base + ?off \<le> unat (skb_seq s)" if "s \<in> set ss" for s using tiles_range(1) [OF rest assms(2) that] .
  have ids: "\<forall>s\<in>set ss. skb_id x \<noteq> skb_id s" using Cons.prems(2) by force
  show ?case unfolding tiling_def
  proof (intro conjI)
    show "\<forall>s\<in>set (x # ss). unat base + off \<le> unat (skb_seq s) \<and> 0 < unat (skb_dlen s) \<and>
        unat (skb_seq s) + unat (skb_dlen s) \<le> unat base + length W \<and> skb_end_seq s = skb_seq s + skb_dlen s"
      using tiles_range(1-4) [OF Cons.prems(1) assms(2)] by blast
    show "\<forall>s\<in>set (x # ss). \<forall>t\<in>set (x # ss). s \<noteq> t \<longrightarrow> skb_id s \<noteq> skb_id t \<and>
        (unat (skb_seq s) + unat (skb_dlen s) \<le> unat (skb_seq t) \<or>
         unat (skb_seq t) + unat (skb_dlen t) \<le> unat (skb_seq s))"
      using IH above ids x unfolding tiling_def by (auto simp: add.assoc)
    show "unat base + off < unat base + length W \<longrightarrow> (\<exists>s\<in>set (x # ss). unat (skb_seq s) = unat base + off)"
      using x by simp
    show "\<forall>s\<in>set (x # ss). unat (skb_seq s) + unat (skb_dlen s) < unat base + length W \<longrightarrow>
        (\<exists>t\<in>set (x # ss). unat (skb_seq t) = unat (skb_seq s) + unat (skb_dlen s))"
      using IH x unfolding tiling_def by (auto simp: add.assoc)
  qed
qed

end
