(* ===== verification/Tcp_Input.thy ===== *)
theory Tcp_Input
  imports Main Prelude Wire Skbuff Timer Fec_Codec Tcp_Sock Tcp_Output Tcp_Data
begin

text \<open>
  The receive path: \<open>src/tcp_input.c\<close>.  \<open>shared\<close> is the pair of the static flag and table of
  \<open>tcp_fec_init_shared\<close>, \<open>mem\<close> tells whether \<open>calloc\<close> succeeds, \<open>out\<close> is \<open>ip_output\<close>.
  The segment is the buffer \<open>skb\<close> after \<open>tcp_init_segment\<close>; \<open>th\<close> is its header.
\<close>

section \<open>Negotiation and acknowledgment\<close>

definition tcp_parse_opts :: "sk_buff \<Rightarrow> tcp_sock \<Rightarrow> tcp_sock cres" where
  "tcp_parse_opts skb tsk =
     cbind (tcp_walk_options (th_data skb) 0 (of_int (tcp_hlen (tcp_hdr skb) - 20)) no_opts) (\<lambda>opts.
       let tsk = (if po_mss opts \<noteq> 0 then tsk\<lparr>smss := po_mss opts\<rparr> else tsk);
           tsk = (if \<not> po_ts_seen opts then tsk\<lparr>tsopt := False\<rparr> else tsk);
           tsk = (if po_sack_ok opts \<and> sackok tsk
                  then tsk\<lparr>sacks_allowed := (if tsopt tsk then 3 else 4)\<rparr>
                  else tsk\<lparr>sackok := False\<rparr>)
       in Ok (tsk\<lparr>fecok := (po_fec_perm opts \<and> fecok tsk)\<rparr>))"

function clean_rto_loop :: "u32 \<Rightarrow> tcp_sock \<Rightarrow> tcp_sock" where
  "clean_rto_loop una tsk =
     (case skb_peek (sk_write_queue tsk) of
        None \<Rightarrow> tsk
      | Some skb \<Rightarrow>
          if skb_seq skb > 0 \<and> skb_end_seq skb \<le> una then
            (case skb_dequeue (sk_write_queue tsk) of
               Ok (_, q) \<Rightarrow>
                 clean_rto_loop una
                   (tsk\<lparr>sk_write_queue := q, inflight := (if inflight tsk > 0 then inflight tsk - 1 else inflight tsk)\<rparr>)
             | _ \<Rightarrow> tsk)
          else tsk)"
  by pat_completeness auto
termination
  by (relation "measure (\<lambda>(una, tsk). length (q_list (sk_write_queue tsk)))") (auto dest: dequeue_shorter)

declare clean_rto_loop.simps [simp del]

definition tcp_clean_rto_queue :: "u32 \<Rightarrow> tcp_sock \<Rightarrow> tcp_sock" where
  "tcp_clean_rto_queue una tsk =
     (let tsk = clean_rto_loop una tsk in
      if skb_peek (sk_write_queue tsk) = None \<or> inflight tsk = 0 then tcp_stop_rto_timer tsk else tsk)"

definition tcp_verify_segment :: "sk_buff \<Rightarrow> tcp_sock \<Rightarrow> bool" where
  "tcp_verify_segment skb tsk =
     (let th = tcp_hdr skb; nxt = rcv_nxt (tcb tsk); wnd = rcv_wnd (tcb tsk) in
      if skb_dlen skb > 0 \<and> wnd = 0 then False
      else if th_seq th < nxt \<or> th_seq th > nxt + wnd then False
      else True)"

definition tcp_reset :: "tcp_sock \<Rightarrow> tcp_sock" where
  "tcp_reset tsk =
     (let tsk = tsk\<lparr>sk_poll_events := POLLOUT OR POLLWRNORM OR POLLERR OR POLLHUP\<rparr> in
      case sk_state tsk of
        TCP_SYN_SENT \<Rightarrow> tcp_done (tsk\<lparr>sk_err := - ECONNREFUSED\<rparr>)
      | TCP_CLOSE_WAIT \<Rightarrow> tcp_done (tsk\<lparr>sk_err := - EPIPE\<rparr>)
      | TCP_CLOSE \<Rightarrow> tsk
      | _ \<Rightarrow> tcp_done (tsk\<lparr>sk_err := - ECONNRESET\<rparr>))"

definition fec_negotiated :: "bool \<times> fec_rs_ctx option \<Rightarrow> bool \<Rightarrow> tcp_sock \<Rightarrow> tcp_sock" where
  "fec_negotiated shared mem tsk =
     (if fecok tsk then
        let (rc, tsk) = tcp_fec_enable (snd shared) (fst shared) mem tsk in
        if rc \<noteq> 0 then tsk\<lparr>fecok := False\<rparr> else tsk
      else tsk)"

definition tcp_synsent ::
  "ip_layer \<Rightarrow> bool \<times> fec_rs_ctx option \<Rightarrow> bool \<Rightarrow> sk_buff \<Rightarrow> tcp_sock \<Rightarrow> tcp_sock cres" where
  "tcp_synsent out shared mem skb tsk =
     (let th = tcp_hdr skb in
      if th_ack th \<and> (th_ack_seq th \<le> iss (tcb tsk) \<or> th_ack_seq th > snd_nxt (tcb tsk)) then Ok tsk
      else if th_ack th \<and> (th_ack_seq th < snd_una (tcb tsk) \<or> th_ack_seq th > snd_nxt (tcb tsk)) then Ok tsk
      else if th_rst th then Ok (tcp_reset tsk)
      else if \<not> th_syn th then Ok tsk
      else
        let tsk = upd_tcb (\<lambda>t. t\<lparr>rcv_nxt := th_seq th + 1, irs := th_seq th\<rparr>) tsk;
            tsk = (if th_ack th
                   then tcp_clean_rto_queue (th_ack_seq th) (upd_tcb (snd_una_update (\<lambda>_. th_ack_seq th)) tsk)
                   else tsk)
        in if snd_una (tcb tsk) > iss (tcb tsk) then
             let tsk = tcp_set_state TCP_ESTABLISHED tsk;
                 tsk = (upd_tcb (\<lambda>t. t\<lparr>snd_una := snd_nxt t\<rparr>) tsk)\<lparr>backoff := 0, rto := 1000\<rparr>
             in cbind (tcp_send_ack out tsk) (\<lambda>(_, tsk).
                cbind (tcp_parse_opts skb (tcp_rearm_user_timeout tsk)) (\<lambda>tsk.
                Ok (sock_connected (fec_negotiated shared mem tsk))))
           else
             let tsk = upd_tcb (\<lambda>t. t\<lparr>snd_una := iss t\<rparr>) (tcp_set_state TCP_SYN_RECEIVED tsk)
             in cbind (tcp_parse_opts skb tsk) (\<lambda>tsk.
                cbind (tcp_send_synack out tsk) (\<lambda>(_, tsk). Ok tsk)))"

definition tcp_closed :: "ip_layer \<Rightarrow> sk_buff \<Rightarrow> tcp_sock \<Rightarrow> (int \<times> tcp_sock) cres" where
  "tcp_closed out skb tsk =
     (if th_rst (tcp_hdr skb) then Ok (0, tsk) else tcp_send_reset out tsk)"

section \<open>Forward error correction on the receive side\<close>

definition tcp_fec_splice :: "ip_layer \<Rightarrow> u32 \<Rightarrow> bytes \<Rightarrow> tcp_sock \<Rightarrow> tcp_sock cres" where
  "tcp_fec_splice out seq d tsk =
     (let reserve = ETH_HDR_LEN + IP_HDR_LEN + TCP_HDR_LEN;
          skb = alloc_skb (next_skb tsk) (reserve + length d);
          skb = skb\<lparr>skb_head := buf_write (skb_head skb) reserve d, skb_payload := int reserve,
                    skb_seq := seq, skb_dlen := of_nat (length d), skb_end_seq := seq + of_nat (length d)\<rparr>
      in cbind (tcp_data_queue out skb (tsk\<lparr>next_skb := next_skb tsk + 1\<rparr>)) (\<lambda>(_, _, tsk). Ok tsk))"

fun rx_find :: "nat \<Rightarrow> tcp_fec_block_rx list \<Rightarrow> u32 \<Rightarrow> nat option" where
  "rx_find i [] block_id = None"
| "rx_find i (b # bs) block_id =
     (if rx_active b \<and> rx_block_id b = block_id then Some i else rx_find (Suc i) bs block_id)"

fun rx_victim :: "nat \<Rightarrow> tcp_fec_block_rx list \<Rightarrow> (nat \<times> u32) option \<Rightarrow> nat option" where
  "rx_victim i [] best = map_option fst best"
| "rx_victim i (b # bs) best =
     (if \<not> rx_active b then Some i
      else rx_victim (Suc i) bs
             (case best of
                None \<Rightarrow> Some (i, rx_block_id b)
              | Some (j, v) \<Rightarrow> if rx_block_id b < v then Some (i, rx_block_id b) else Some (j, v)))"

definition rx_claim :: "u32 \<Rightarrow> bytes \<Rightarrow> tcp_fec_block_rx" where
  "rx_claim block_id buf =
     \<lparr>rx_active = True, rx_recovered = False, rx_blk_k = 0, rx_block_id = block_id, rx_base_seq = 0,
      rx_tail_len = 0, rx_src_present = replicate 128 False, rx_red_present = replicate 32 False,
      rx_src_count = 0, rx_red_count = 0, rx_symbol_buf = Some buf\<rparr>"

text \<open>\<open>tcp_fec_rx_slot\<close>: the slot's index, \<open>None\<close> when the staging buffer cannot be allocated.\<close>

definition tcp_fec_rx_slot :: "bool \<Rightarrow> u32 \<Rightarrow> tcp_fec \<Rightarrow> (nat option \<times> tcp_fec) cres" where
  "tcp_fec_rx_slot mem block_id fec =
     (case rx_find 0 (fec_rx fec) block_id of
        Some i \<Rightarrow> Ok (Some i, fec)
      | None \<Rightarrow>
          (case rx_victim 0 (fec_rx fec) None of
             None \<Rightarrow> UB
           | Some i \<Rightarrow>
               (case rx_symbol_buf (fec_rx fec ! i) of
                  Some buf \<Rightarrow> Ok (Some i, fec\<lparr>fec_rx := (fec_rx fec)[i := rx_claim block_id buf]\<rparr>)
                | None \<Rightarrow>
                    if \<not> mem then Ok (None, fec)
                    else Ok (Some i, fec\<lparr>fec_rx := (fec_rx fec)[i := rx_claim block_id
                                (replicate ((unat (fec_k fec) + unat (fec_r fec)) * unat (fec_sym_len fec)) 0)]\<rparr>))))"

definition upd_rx :: "nat \<Rightarrow> (tcp_fec_block_rx \<Rightarrow> tcp_fec_block_rx) \<Rightarrow> tcp_sock \<Rightarrow> tcp_sock" where
  "upd_rx i f tsk =
     tsk\<lparr>tsk_fec := map_option (\<lambda>fec. fec\<lparr>fec_rx := (fec_rx fec)[i := f (fec_rx fec ! i)]\<rparr>) (tsk_fec tsk)\<rparr>"

text \<open>The decoder of a block: every present symbol of the staging buffer, added in order; the
  pointers are slot numbers of the buffer.\<close>

definition rx_load :: "bytes \<Rightarrow> nat \<Rightarrow> nat \<Rightarrow> bytes option" where
  "rx_load buf L p = Some (buf_read buf (p * L) L)"

definition rx_add_symbols :: "tcp_fec \<Rightarrow> tcp_fec_block_rx \<Rightarrow> nat \<Rightarrow> nat fec_decoder \<Rightarrow> nat fec_decoder" where
  "rx_add_symbols fec b k dec =
     (let dec = fold (\<lambda>i d. if rx_src_present b ! i
                            then cres_val d (fec_decoder_add_source (Some d) (int i) (Some i)) else d) [0..<k] dec
      in fold (\<lambda>j d. if rx_red_present b ! j
                     then cres_val d (fec_decoder_add_redundant (Some d) (int j) (Some (unat (fec_k fec) + j))) else d)
           [0..<unat (fec_r fec)] dec)"

definition dec_zero :: "nat fec_decoder" where
  "dec_zero = \<lparr>dec_ctx = None, dec_k = 0, dec_r = 0, dec_sym_len = 0, dec_src_x = [], dec_red_x = [],
     dec_src_present = [], dec_red_present = [], dec_src_count = 0, dec_red_count = 0, dec_src = [], dec_red = []\<rparr>"

text \<open>The recovered symbols, written back into the empty slots of the staging buffer.\<close>

definition rx_decode :: "bool \<Rightarrow> tcp_fec \<Rightarrow> tcp_fec_block_rx \<Rightarrow> nat \<Rightarrow> bytes \<Rightarrow> bytes cres" where
  "rx_decode mem fec b k buf =
     (let L = unat (fec_sym_len fec) in
      cbind (fec_decoder_init (Some dec_zero) (fec_ctx fec) (int k) (uint (fec_r fec)) L None) (\<lambda>dec.
        let dec = rx_add_symbols fec b k dec in
        if \<not> fec_decoder_recoverable (Some dec) then Fail (-1)
        else
          let outs = map (\<lambda>i. if i < k \<and> \<not> rx_src_present b ! i then Some (buf_read buf (i * L) L) else None)
                       [0..<nat FEC_BLK_MAX_K] in
          cbind (fec_decoder_recover (rx_load buf L) (Some dec) (Some outs) mem) (\<lambda>outs'.
            Ok (fold (\<lambda>i buf. if rx_src_present b ! i then buf
                              else case outs' ! i of Some d \<Rightarrow> buf_write buf (i * L) d | None \<Rightarrow> buf)
                  [0..<k] buf))))"

text \<open>The splice loop over the missing symbols of block \<open>bi\<close>, in sequence order.\<close>

definition splice_len :: "nat \<Rightarrow> nat \<Rightarrow> u16 \<Rightarrow> nat \<Rightarrow> nat" where
  "splice_len L k tail_len i = (if i = k - 1 \<and> tail_len > 0 \<and> unat tail_len < L then unat tail_len else L)"

fun splice_loop ::
  "ip_layer \<Rightarrow> nat \<Rightarrow> nat \<Rightarrow> nat \<Rightarrow> tcp_fec_block_rx \<Rightarrow> bytes \<Rightarrow> nat list \<Rightarrow> tcp_sock \<Rightarrow> tcp_sock cres" where
  "splice_loop out bi L k b buf [] tsk = Ok tsk"
| "splice_loop out bi L k b buf (i # is) tsk =
     (if rx_src_present b ! i then splice_loop out bi L k b buf is tsk
      else cbind (tcp_fec_splice out (rx_base_seq b + of_nat i * of_nat L)
                    (buf_read buf (i * L) (splice_len L k (rx_tail_len b) i)) tsk) (\<lambda>tsk.
             splice_loop out bi L k b buf is
               (upd_rx bi (\<lambda>b. b\<lparr>rx_src_present := (rx_src_present b)[i := True], rx_src_count := rx_src_count b + 1\<rparr>) tsk)))"

definition rx_block_k :: "tcp_fec \<Rightarrow> tcp_fec_block_rx \<Rightarrow> nat" where
  "rx_block_k fec b = (if rx_blk_k b \<noteq> 0 then unat (rx_blk_k b) else unat (fec_k fec))"

definition tcp_fec_rx_recover :: "ip_layer \<Rightarrow> bool \<Rightarrow> nat \<Rightarrow> tcp_sock \<Rightarrow> tcp_sock cres" where
  "tcp_fec_rx_recover out mem bi tsk =
     (let fec = the (tsk_fec tsk); b = fec_rx fec ! bi; L = unat (fec_sym_len fec); k = rx_block_k fec b;
          present = length (filter (\<lambda>i. rx_src_present b ! i) [0..<k]); missing = k - present in
      if rx_recovered b then Ok tsk
      else if k \<le> 0 \<or> k > unat (fec_k fec) then Ok tsk
      else if missing = 0 then Ok (upd_rx bi (\<lambda>b. b\<lparr>rx_recovered := True\<rparr>) tsk)
      else if unat (rx_red_count b) < missing then Ok tsk
      else case rx_symbol_buf b of
        None \<Rightarrow> UB
      | Some buf \<Rightarrow>
          (case rx_decode mem fec b k buf of
             Fail _ \<Rightarrow> Ok tsk
           | UB \<Rightarrow> UB
           | Ok buf' \<Rightarrow>
               let tsk = upd_rx bi (\<lambda>b. b\<lparr>rx_symbol_buf := Some buf'\<rparr>) tsk in
               cbind (splice_loop out bi L k b buf' [0..<k] tsk) (\<lambda>tsk.
               cbind (tcp_send_ack out (upd_rx bi (\<lambda>b. b\<lparr>rx_recovered := True\<rparr>) tsk)) (\<lambda>(_, tsk). Ok tsk))))"

text \<open>\<open>(int) skb->dlen\<close>, with the conversion of a value above \<open>INT_MAX\<close> to a negative one.\<close>

definition rx_source :: "nat \<Rightarrow> nat \<Rightarrow> sk_buff \<Rightarrow> tcp_fec_block_rx \<Rightarrow> tcp_fec_block_rx cres" where
  "rx_source L idx skb b =
     (if rx_src_present b ! idx then Ok b
      else
        let dlen = sint (skb_dlen skb); dlen = (if dlen > int L then int L else dlen); from = nat (skb_payload skb) in
        case rx_symbol_buf b of
          None \<Rightarrow> UB
        | Some buf \<Rightarrow>
            if dlen < 0 \<or> \<not> in_bounds (skb_head skb) from (nat dlen) \<or> \<not> in_bounds buf (idx * L) L then UB
            else
              let d = buf_read (skb_head skb) from (nat dlen);
                  b = b\<lparr>rx_symbol_buf := Some (buf_write buf (idx * L) (d @ replicate (L - nat dlen) 0)),
                        rx_src_present := (rx_src_present b)[idx := True],
                        rx_src_count := rx_src_count b + 1,
                        rx_base_seq := skb_seq skb - of_nat idx * of_nat L\<rparr>
              in Ok (if nat dlen < L then b\<lparr>rx_tail_len := of_nat (nat dlen), rx_blk_k := of_nat (idx + 1)\<rparr> else b))"

definition rx_repair :: "nat \<Rightarrow> nat \<Rightarrow> nat \<Rightarrow> sk_buff \<Rightarrow> tcp_fec_block_rx \<Rightarrow> tcp_fec_block_rx cres" where
  "rx_repair L k idx skb b =
     (let from = nat (skb_payload skb) in
      if \<not> in_bounds (skb_head skb) from (16 + L) then UB
      else
        let rh = fec_repair_hdr_of (drop from (skb_head skb));
            b = b\<lparr>rx_base_seq := rh_base_seq rh, rx_tail_len := rh_tail_len rh, rx_blk_k := rh_k rh\<rparr> in
        if rx_red_present b ! idx then Ok b
        else case rx_symbol_buf b of
          None \<Rightarrow> UB
        | Some buf \<Rightarrow>
            if \<not> in_bounds buf ((k + idx) * L) L then UB
            else Ok (b\<lparr>rx_symbol_buf := Some (buf_write buf ((k + idx) * L) (buf_read (skb_head skb) (from + 16) L)),
                       rx_red_present := (rx_red_present b)[idx := True], rx_red_count := rx_red_count b + 1\<rparr>))"

definition tcp_fec_input :: "ip_layer \<Rightarrow> bool \<Rightarrow> sk_buff \<Rightarrow> tcp_sock \<Rightarrow> (bool \<times> tcp_sock) cres" where
  "tcp_fec_input out mem skb tsk =
     (let fec = the (tsk_fec tsk); L = unat (fec_sym_len fec); d = th_data skb in
      if tcp_hlen (tcp_hdr skb) < 28 then Ok (False, tsk)
      else if length d < 8 then UB
      else if d ! 0 \<noteq> TCP_OPT_FEC \<or> d ! 1 \<noteq> TCP_OPTLEN_FEC then Ok (False, tsk)
      else
        let opt = tcp_opt_fec_of d; idx = unat (fo_index opt) in
        cbind (tcp_fec_rx_slot mem (fo_block_id opt) fec) (\<lambda>(slot, fec).
          let tsk = tsk\<lparr>tsk_fec := Some fec\<rparr> in
          case slot of
            None \<Rightarrow> Ok (False, tsk)
          | Some bi \<Rightarrow>
              if fo_type opt = FEC_SYM_SOURCE then
                if idx \<ge> unat (fec_k fec) then Ok (False, tsk)
                else cbind (rx_source L idx skb (fec_rx fec ! bi)) (\<lambda>b.
                     cbind (tcp_fec_rx_recover out mem bi (upd_rx bi (\<lambda>_. b) tsk)) (\<lambda>tsk. Ok (False, tsk)))
              else if fo_type opt = FEC_SYM_REPAIR then
                if sint (skb_dlen skb) < int (16 + L) \<or> idx \<ge> unat (fec_r fec) then Ok (True, tsk)
                else cbind (rx_repair L (unat (fec_k fec)) idx skb (fec_rx fec ! bi)) (\<lambda>b.
                     cbind (tcp_fec_rx_recover out mem bi (upd_rx bi (\<lambda>_. b) tsk)) (\<lambda>tsk. Ok (True, tsk)))
              else Ok (False, tsk)))"

section \<open>Segment arrives\<close>

text \<open>The fifth check: \<open>False\<close> drops the segment.  A segment in \<open>TCP_SYN_RECEIVED\<close> falls through
  to the processing of the synchronized states.\<close>

definition ack_valid :: "sk_buff \<Rightarrow> tcp_sock \<Rightarrow> bool \<times> tcp_sock" where
  "ack_valid skb tsk =
     (let ack = th_ack_seq (tcp_hdr skb);
          tsk = (if snd_una (tcb tsk) < ack \<and> ack \<le> snd_nxt (tcb tsk)
                 then tcp_clean_rto_queue ack (tcp_rtt (upd_tcb (snd_una_update (\<lambda>_. ack)) tsk))
                 else tsk)
      in (\<not> (ack < snd_una (tcb tsk)) \<and> \<not> (ack > snd_nxt (tcb tsk)), tsk))"

definition tcp_ack_stage :: "bool \<times> fec_rs_ctx option \<Rightarrow> bool \<Rightarrow> sk_buff \<Rightarrow> tcp_sock \<Rightarrow> bool \<times> tcp_sock" where
  "tcp_ack_stage shared mem skb tsk =
     (let ack = th_ack_seq (tcp_hdr skb) in
      case sk_state tsk of
        TCP_SYN_RECEIVED \<Rightarrow>
          if snd_una (tcb tsk) \<le> ack \<and> ack < snd_nxt (tcb tsk)
          then ack_valid skb (fec_negotiated shared mem (tcp_set_state TCP_ESTABLISHED tsk))
          else (False, tsk)
      | TCP_ESTABLISHED \<Rightarrow> ack_valid skb tsk
      | TCP_FIN_WAIT_1 \<Rightarrow> ack_valid skb tsk
      | TCP_FIN_WAIT_2 \<Rightarrow> ack_valid skb tsk
      | TCP_CLOSE_WAIT \<Rightarrow> ack_valid skb tsk
      | TCP_CLOSING \<Rightarrow> ack_valid skb tsk
      | TCP_LAST_ACK \<Rightarrow> ack_valid skb tsk
      | _ \<Rightarrow> (True, tsk))"

text \<open>When the write queue has drained; \<open>False\<close> when the connection is gone.\<close>

definition tcp_drained_stage :: "ip_layer \<Rightarrow> sk_buff \<Rightarrow> tcp_sock \<Rightarrow> (bool \<times> tcp_sock) cres" where
  "tcp_drained_stage out skb tsk =
     (if skb_queue_empty (sk_write_queue tsk) then
        (case sk_state tsk of
           TCP_FIN_WAIT_1 \<Rightarrow> Ok (True, tcp_set_state TCP_FIN_WAIT_2 tsk)
         | TCP_CLOSING \<Rightarrow> Ok (True, tcp_set_state TCP_TIME_WAIT tsk)
         | TCP_LAST_ACK \<Rightarrow> Ok (False, tcp_done tsk)
         | TCP_TIME_WAIT \<Rightarrow>
             if rcv_nxt (tcb tsk) = th_seq (tcp_hdr skb)
             then cbind (tcp_send_ack out (tsk\<lparr>tsk_flags := tsk_flags tsk OR TCP_FIN\<rparr>)) (\<lambda>(_, tsk). Ok (True, tsk))
             else Ok (True, tsk)
         | _ \<Rightarrow> Ok (True, tsk))
      else Ok (True, tsk))"

definition data_states :: "tcp_states \<Rightarrow> bool" where
  "data_states st \<longleftrightarrow> st = TCP_ESTABLISHED \<or> st = TCP_FIN_WAIT_1 \<or> st = TCP_FIN_WAIT_2"

definition tcp_text_stage :: "ip_layer \<Rightarrow> sk_buff \<Rightarrow> tcp_sock \<Rightarrow> (sk_buff option \<times> tcp_sock) cres" where
  "tcp_text_stage out skb tsk =
     (if data_states (sk_state tsk) \<and> (th_psh (tcp_hdr skb) \<or> skb_dlen skb > 0)
      then cbind (tcp_data_queue out skb tsk) (\<lambda>(_, s, tsk). Ok (s, tsk))
      else Ok (Some skb, tsk))"

definition fin_transition :: "tcp_sock \<Rightarrow> tcp_sock" where
  "fin_transition tsk =
     (case sk_state tsk of
        TCP_SYN_RECEIVED \<Rightarrow> tcp_set_state TCP_CLOSE_WAIT tsk
      | TCP_ESTABLISHED \<Rightarrow> tcp_set_state TCP_CLOSE_WAIT tsk
      | TCP_FIN_WAIT_1 \<Rightarrow>
          if skb_queue_empty (sk_write_queue tsk) then tcp_enter_time_wait tsk
          else tcp_set_state TCP_CLOSING tsk
      | TCP_FIN_WAIT_2 \<Rightarrow> tcp_enter_time_wait tsk
      | _ \<Rightarrow> tsk)"

definition tcp_fin_stage :: "ip_layer \<Rightarrow> bool \<Rightarrow> sk_buff \<Rightarrow> tcp_sock \<Rightarrow> (bool \<times> tcp_sock) cres" where
  "tcp_fin_stage out expected skb tsk =
     (if th_fin (tcp_hdr skb) \<and> expected then
        if sk_state tsk = TCP_CLOSE \<or> sk_state tsk = TCP_LISTEN \<or> sk_state tsk = TCP_SYN_SENT then Ok (False, tsk)
        else
          let tsk = upd_tcb (rcv_nxt_update (\<lambda>n. n + 1)) tsk;
              tsk = tsk\<lparr>tsk_flags := tsk_flags tsk OR TCP_FIN,
                        sk_poll_events := sk_poll_events tsk OR (POLLIN OR POLLPRI OR POLLRDNORM OR POLLRDBAND)\<rparr>
          in cbind (tcp_send_ack out tsk) (\<lambda>(_, tsk). Ok (True, fin_transition (tcp_recv_notify tsk)))
      else Ok (True, tsk))"

definition tcp_delack_stage :: "ip_layer \<Rightarrow> bool \<Rightarrow> sk_buff \<Rightarrow> tcp_sock \<Rightarrow> tcp_sock cres" where
  "tcp_delack_stage out expected skb tsk =
     (if data_states (sk_state tsk) \<and> expected then
        let tsk = tcp_stop_delack_timer tsk;
            pending = min (skb_queue_len (sk_write_queue tsk)) 3;
            psh = th_psh (tcp_hdr skb);
            big = (\<not> psh \<and> skb_dlen skb > 1000)
        in if inflight tsk = 0 \<and> pending > 0 then
             cbind (tcp_send_next out (unat pending) tsk) (\<lambda>tsk.
               Ok (tcp_rearm_rto_timer (tsk\<lparr>inflight := inflight tsk + pending\<rparr>)))
           else
             let tsk = (if big then tsk\<lparr>delacks := delacks tsk + 1\<rparr> else tsk) in
             if psh \<or> (big \<and> delacks tsk > 1) then
               cbind (tcp_send_ack out (tsk\<lparr>delacks := 0\<rparr>)) (\<lambda>(_, tsk). Ok tsk)
             else if skb_dlen skb > 0 then
               let (i, tsk) = add_timer 200 H_send_delack tsk in Ok (tsk\<lparr>delack := Some i\<rparr>)
             else Ok tsk
      else Ok tsk)"

text \<open>Everything after the acknowledgment field was accepted.\<close>

definition tcp_accepted :: "ip_layer \<Rightarrow> sk_buff \<Rightarrow> tcp_sock \<Rightarrow> (int \<times> tcp_sock) cres" where
  "tcp_accepted out skb tsk =
     cbind (tcp_drained_stage out skb tsk) (\<lambda>(alive, tsk).
     if \<not> alive then Ok (0, tsk)
     else
       let expected = (skb_seq skb = rcv_nxt (tcb tsk)) in
       cbind (tcp_text_stage out skb tsk) (\<lambda>(s, tsk).
       cbind (tcp_fin_stage out expected skb tsk) (\<lambda>(go, tsk).
       case s of
         None \<Rightarrow> UB
       | Some skb \<Rightarrow> if \<not> go then Ok (0, tsk)
                     else cbind (tcp_delack_stage out expected skb tsk) (\<lambda>tsk. Ok (0, tsk)))))"

definition tcp_synchronized ::
  "ip_layer \<Rightarrow> bool \<times> fec_rs_ctx option \<Rightarrow> bool \<Rightarrow> sk_buff \<Rightarrow> tcp_sock \<Rightarrow> (int \<times> tcp_sock) cres" where
  "tcp_synchronized out shared mem skb tsk =
     (let th = tcp_hdr skb in
      if \<not> tcp_verify_segment skb tsk then
        if th_rst th then Ok (0, tsk) else cbind (tcp_send_ack out tsk) (\<lambda>(_, tsk). Ok (0, tsk))
      else if th_rst th then Ok (0, tcp_recv_notify (tcp_enter_time_wait tsk))
      else if th_syn th then Ok (tcp_send_challenge_ack tsk skb, tsk)
      else if \<not> th_ack th then Ok (0, tsk)
      else let (go, tsk) = tcp_ack_stage shared mem skb tsk in
           if \<not> go then Ok (0, tsk) else tcp_accepted out skb tsk)"

definition tcp_input_state ::
  "ip_layer \<Rightarrow> bool \<times> fec_rs_ctx option \<Rightarrow> bool \<Rightarrow> sk_buff \<Rightarrow> tcp_sock \<Rightarrow> (int \<times> tcp_sock) cres" where
  "tcp_input_state out shared mem skb tsk =
     (case sk_state tsk of
        TCP_CLOSE \<Rightarrow> tcp_closed out skb tsk
      | TCP_LISTEN \<Rightarrow> Ok (0, tsk)
      | TCP_SYN_SENT \<Rightarrow> cbind (tcp_synsent out shared mem skb tsk) (\<lambda>tsk. Ok (0, tsk))
      | _ \<Rightarrow>
          cbind (if tsk_fec tsk = None then Ok (False, tsk) else tcp_fec_input out mem skb tsk) (\<lambda>(consumed, tsk).
            if consumed then Ok (0, tsk) else tcp_synchronized out shared mem skb tsk))"

section \<open>Reading\<close>

definition O_NONBLOCK :: u32 where "O_NONBLOCK = 0x800"

text \<open>\<open>tcp_receive\<close>: \<open>env i\<close> is what the other threads do to the connection while the reader
  sleeps for the \<open>i\<close>-th time.  \<open>None\<close>: the reader has not returned after \<open>fuel\<close> rounds.\<close>

fun tcp_receive_loop ::
  "nat \<Rightarrow> nat \<Rightarrow> (nat \<Rightarrow> tcp_sock \<Rightarrow> tcp_sock) \<Rightarrow> nat \<Rightarrow> bytes \<Rightarrow> tcp_sock \<Rightarrow> (int \<times> bytes \<times> tcp_sock) cres option" where
  "tcp_receive_loop 0 i env len acc tsk = None"
| "tcp_receive_loop (Suc fuel) i env len acc tsk =
     (if len \<le> length acc then Some (Ok (int (length acc), acc, tsk))
      else case tcp_data_dequeue (len - length acc) tsk of
        Fail c \<Rightarrow> Some (Fail c)
      | UB \<Rightarrow> Some UB
      | Ok (d, tsk) \<Rightarrow>
          let acc = acc @ d in
          if tsk_flags tsk AND TCP_PSH \<noteq> 0 then
            Some (Ok (int (length acc), acc, tsk\<lparr>tsk_flags := tsk_flags tsk AND NOT TCP_PSH\<rparr>))
          else if tsk_flags tsk AND TCP_FIN \<noteq> 0 \<or> length acc = len then Some (Ok (int (length acc), acc, tsk))
          else if so_flags tsk AND O_NONBLOCK \<noteq> 0 then
            Some (Ok (if acc = [] then - EAGAIN else int (length acc), acc, tsk))
          else tcp_receive_loop fuel (Suc i) env len acc (env i (tsk\<lparr>sk_recv_sleeping := True\<rparr>)))"

definition tcp_receive ::
  "nat \<Rightarrow> (nat \<Rightarrow> tcp_sock \<Rightarrow> tcp_sock) \<Rightarrow> nat \<Rightarrow> tcp_sock \<Rightarrow> (int \<times> bytes \<times> tcp_sock) cres option" where
  "tcp_receive fuel env len tsk =
     map_option (\<lambda>r. cbind r (\<lambda>(rlen, acc, tsk).
         Ok (rlen, acc, if rlen \<ge> 0 then tcp_rearm_user_timeout tsk else tsk)))
       (tcp_receive_loop fuel 0 env len [] tsk)"

end
