(* ===== verification/Tcp.thy ===== *)
theory Tcp
  imports Main Prelude Wire Skbuff Timer Tcp_Sock Tcp_Output Tcp_Data Tcp_Input
begin

text \<open>
  The operations of \<open>tcp_ops\<close> in \<open>src/tcp.c\<close>, the timer callbacks, the entry point for
  segments, and the connection as a state machine: one step per user call, arriving segment
  or timer callback, each under the socket's write lock.
\<close>

section \<open>Segments from IP\<close>

definition tcp_hdr_to_host :: "tcphdr \<Rightarrow> tcphdr" where
  "tcp_hdr_to_host th =
     th\<lparr>th_sport := ntohs (th_sport th), th_dport := ntohs (th_dport th), th_seq := ntohl (th_seq th),
        th_ack_seq := ntohl (th_ack_seq th), th_win := ntohs (th_win th), th_csum := ntohs (th_csum th),
        th_urp := ntohs (th_urp th)\<rparr>"

definition tcp_init_segment :: "sk_buff \<Rightarrow> sk_buff" where
  "tcp_init_segment skb =
     (let th = tcp_hdr_to_host (tcp_hdr skb);
          dlen = of_int (ip_len (ip_hdr skb) - tcp_hlen th)
      in (set_tcp_hdr th skb)
           \<lparr>skb_seq := th_seq th, skb_dlen := dlen,
            skb_len := dlen + of_bool (th_syn th) + of_bool (th_fin th),
            skb_end_seq := th_seq th + dlen,
            skb_payload := int (ETH_HDR_LEN + IP_HDR_LEN + TCP_HDR_LEN) + (tcp_hlen th - int TCP_HDR_LEN)\<rparr>)"

text \<open>\<open>tcp_in\<close>: the segment goes to the connection of its port pair, if there is one.  The
  connections are given with \<open>find_sock\<close>, the lookup of \<open>inet_lookup\<close>.\<close>

definition tcp_in ::
  "ip_layer \<Rightarrow> bool \<times> fec_rs_ctx option \<Rightarrow> bool \<Rightarrow> (u16 \<Rightarrow> u16 \<Rightarrow> 'i option) \<Rightarrow> sk_buff \<Rightarrow>
   ('i \<Rightarrow> tcp_sock) \<Rightarrow> ('i \<Rightarrow> tcp_sock) cres" where
  "tcp_in out shared mem find_sock skb socks =
     (let skb = tcp_init_segment skb; th = tcp_hdr skb in
      case find_sock (th_sport th) (th_dport th) of
        None \<Rightarrow> Ok socks
      | Some i \<Rightarrow> cbind (tcp_input_state out shared mem skb (socks i)) (\<lambda>(_, tsk). Ok (socks(i := tsk))))"

section \<open>User calls\<close>

definition generate_port :: "int \<Rightarrow> u32 \<Rightarrow> int \<times> u16" where
  "generate_port port tick = (port + 1, of_int (port + 1 + (sint tick - 10000 * ctrunc (sint tick) 10000)))"

definition tcp_v4_connect :: "ip_layer \<Rightarrow> u32 \<Rightarrow> u16 \<Rightarrow> u16 \<Rightarrow> u32 \<Rightarrow> tcp_sock \<Rightarrow> (int \<times> tcp_sock) cres" where
  "tcp_v4_connect out generate_iss sport sin_port s_addr tsk =
     tcp_connect out generate_iss
       (tsk\<lparr>sk_dport := ntohs sin_port, sk_sport := sport, sk_daddr := ntohl s_addr, sk_saddr := 0x0a000005\<rparr>)"

definition tcp_disconnect :: "tcp_sock \<Rightarrow> int \<times> tcp_sock" where
  "tcp_disconnect tsk = (0, tsk)"

definition tcp_write :: "ip_layer \<Rightarrow> bool \<Rightarrow> bytes \<Rightarrow> tcp_sock \<Rightarrow> (int \<times> tcp_sock) cres" where
  "tcp_write out mem buf tsk =
     (if sk_err tsk \<noteq> 0 then Ok (sk_err tsk, tsk)
      else case sk_state tsk of
        TCP_ESTABLISHED \<Rightarrow> tcp_send out mem buf tsk
      | TCP_CLOSE_WAIT \<Rightarrow> tcp_send out mem buf tsk
      | _ \<Rightarrow> Ok (- EBADF, tsk))"

definition tcp_read ::
  "nat \<Rightarrow> (nat \<Rightarrow> tcp_sock \<Rightarrow> tcp_sock) \<Rightarrow> nat \<Rightarrow> tcp_sock \<Rightarrow> (int \<times> bytes \<times> tcp_sock) cres option" where
  "tcp_read fuel env len tsk =
     (case sk_state tsk of
        TCP_CLOSE \<Rightarrow> Some (Ok (- EBADF, [], tsk))
      | TCP_CLOSE_WAIT \<Rightarrow>
          if skb_queue_empty (sk_receive_queue tsk) \<and> tsk_flags tsk AND TCP_FIN \<noteq> 0
          then Some (Ok (0, [], tsk\<lparr>tsk_flags := tsk_flags tsk AND NOT TCP_FIN\<rparr>))
          else tcp_receive fuel env len tsk
      | TCP_CLOSING \<Rightarrow> Some (Ok (sk_err tsk, [], tsk))
      | TCP_LAST_ACK \<Rightarrow> Some (Ok (sk_err tsk, [], tsk))
      | TCP_TIME_WAIT \<Rightarrow> Some (Ok (sk_err tsk, [], tsk))
      | _ \<Rightarrow> tcp_receive fuel env len tsk)"

definition tcp_close :: "ip_layer \<Rightarrow> bool \<Rightarrow> tcp_sock \<Rightarrow> (int \<times> tcp_sock) cres" where
  "tcp_close out mem tsk =
     (case sk_state tsk of
        TCP_LISTEN \<Rightarrow> Ok (0, tcp_done tsk)
      | TCP_SYN_SENT \<Rightarrow> Ok (0, tcp_done tsk)
      | TCP_SYN_RECEIVED \<Rightarrow> Ok (0, tcp_done tsk)
      | TCP_ESTABLISHED \<Rightarrow>
          cbind (tcp_queue_fin out mem (tcp_set_state TCP_FIN_WAIT_1 tsk)) (\<lambda>(_, tsk). Ok (0, tsk))
      | TCP_CLOSE_WAIT \<Rightarrow> cbind (tcp_queue_fin out mem tsk) (\<lambda>(_, tsk). Ok (0, tsk))
      | _ \<Rightarrow> Ok (-1, tsk\<lparr>sk_err := - EBADF\<rparr>))"

definition tcp_abort :: "ip_layer \<Rightarrow> tcp_sock \<Rightarrow> (int \<times> tcp_sock) cres" where
  "tcp_abort out tsk = cbind (tcp_send_reset out tsk) (\<lambda>(_, tsk). Ok (0, tcp_done tsk))"

section \<open>Timer callbacks\<close>

definition tcp_linger :: "tcp_sock \<Rightarrow> tcp_sock" where
  "tcp_linger tsk = tcp_done (cancel_linger tsk)"

definition tcp_user_timeout :: "ip_layer \<Rightarrow> tcp_sock \<Rightarrow> tcp_sock cres" where
  "tcp_user_timeout out tsk = cbind (tcp_abort out (cancel_linger tsk)) (\<lambda>(_, tsk). Ok tsk)"

text \<open>The callbacks of the connection; the garbage collector belongs to \<open>src/socket.c\<close>.\<close>

definition run_handler :: "ip_layer \<Rightarrow> handler \<Rightarrow> tcp_sock \<Rightarrow> tcp_sock cres" where
  "run_handler out h tsk =
     (case h of
        H_connect_rto \<Rightarrow> tcp_connect_rto out tsk
      | H_retransmission_timeout \<Rightarrow> tcp_retransmission_timeout out tsk
      | H_send_delack \<Rightarrow> tcp_send_delack out tsk
      | H_linger \<Rightarrow> Ok (tcp_linger tsk)
      | H_user_timeout \<Rightarrow> tcp_user_timeout out tsk
      | H_socket_garbage_collect \<Rightarrow> Ok tsk)"

section \<open>The connection as a state machine\<close>

datatype event =
    E_connect u32 u16 u16 u32
  | E_write bytes
  | E_read nat
  | E_close
  | E_abort
  | E_segment sk_buff
  | E_timer handler

inductive tcp_step ::
  "ip_layer \<Rightarrow> bool \<times> fec_rs_ctx option \<Rightarrow> bool \<Rightarrow> event \<Rightarrow> tcp_sock \<Rightarrow> tcp_sock \<Rightarrow> bool"
  for out :: ip_layer and shared :: "bool \<times> fec_rs_ctx option" and mem :: bool where
  step_connect: "sk_state tsk = TCP_CLOSE \<Longrightarrow> tcp_v4_connect out isn sport port addr tsk = Ok (rc, tsk') \<Longrightarrow>
     tcp_step out shared mem (E_connect isn sport port addr) tsk tsk'"
| step_write: "tcp_write out mem buf tsk = Ok (rc, tsk') \<Longrightarrow> tcp_step out shared mem (E_write buf) tsk tsk'"
| step_read: "tcp_read 1 (\<lambda>_. id) len tsk = Some (Ok (rc, d, tsk')) \<Longrightarrow> tcp_step out shared mem (E_read len) tsk tsk'"
| step_close: "tcp_close out mem tsk = Ok (rc, tsk') \<Longrightarrow> tcp_step out shared mem E_close tsk tsk'"
| step_abort: "tcp_abort out tsk = Ok (rc, tsk') \<Longrightarrow> tcp_step out shared mem E_abort tsk tsk'"
| step_segment: "tcp_input_state out shared mem skb tsk = Ok (rc, tsk') \<Longrightarrow>
     tcp_step out shared mem (E_segment skb) tsk tsk'"
| step_timer: "run_handler out h tsk = Ok tsk' \<Longrightarrow> tcp_step out shared mem (E_timer h) tsk tsk'"

inductive_cases step_connectE: "tcp_step out shared mem (E_connect a b c d) tsk tsk'"
inductive_cases step_writeE: "tcp_step out shared mem (E_write buf) tsk tsk'"
inductive_cases step_readE: "tcp_step out shared mem (E_read len) tsk tsk'"
inductive_cases step_closeE: "tcp_step out shared mem E_close tsk tsk'"
inductive_cases step_abortE: "tcp_step out shared mem E_abort tsk tsk'"
inductive_cases step_segmentE: "tcp_step out shared mem (E_segment skb) tsk tsk'"
inductive_cases step_timerE: "tcp_step out shared mem (E_timer h) tsk tsk'"

inductive tcp_run ::
  "ip_layer \<Rightarrow> bool \<times> fec_rs_ctx option \<Rightarrow> bool \<Rightarrow> tcp_sock \<Rightarrow> event list \<Rightarrow> tcp_sock \<Rightarrow> bool"
  for out :: ip_layer and shared :: "bool \<times> fec_rs_ctx option" and mem :: bool where
  run_Nil: "tcp_run out shared mem tsk [] tsk"
| run_snoc: "tcp_run out shared mem tsk es tsk1 \<Longrightarrow> tcp_step out shared mem e tsk1 tsk2 \<Longrightarrow>
     tcp_run out shared mem tsk (es @ [e]) tsk2"

end
