(* ===== verification/Tcp_Fec_Rx.thy ===== *)
theory Tcp_Fec_Rx
  imports Tcp Tcp_Stream
begin

text \<open>
  The receiver of a coded stream (\<open>tcp_fec_input\<close>, \<open>tcp_fec_rx_slot\<close>, \<open>tcp_fec_rx_recover\<close> and
  \<open>tcp_fec_splice\<close> of \<open>src/tcp_input.c\<close>, modelled in \<open>Tcp_Input\<close>): the invariant of its receive
  slots against the blocks the sender cut its stream into, that every honest source or repair
  segment keeps it, and that the whole handler \<open>tcp_input_state\<close> returns on such segments with
  the byte stream intact.
\<close>

section \<open>Coded blocks of a stream\<close>

text \<open>A block as the sender cuts it: \<open>fb_syms\<close> are its symbols, each \<open>L\<close> bytes, the last one padded
  with zeros behind its \<open>fb_tail\<close> real bytes; \<open>fb_off\<close> is the position of the block in the stream.\<close>

record fec_block =
  fb_syms :: "bytes list"
  fb_off :: nat
  fb_tail :: nat

definition fb_len :: "nat \<Rightarrow> fec_block \<Rightarrow> nat \<Rightarrow> nat" where
  "fb_len L B i = (if i = length (fb_syms B) - 1 then fb_tail B else L)"

definition block_of :: "bytes \<Rightarrow> nat \<Rightarrow> fec_block \<Rightarrow> bool" where
  "block_of W L B \<longleftrightarrow>
     block_ok (fb_syms B) L \<and> 0 < fb_tail B \<and> fb_tail B \<le> L \<and>
     fb_off B + (length (fb_syms B) - 1) * L + fb_tail B \<le> length W \<and>
     (\<forall>i<length (fb_syms B). fb_syms B ! i =
        take (fb_len L B i) (drop (fb_off B + i * L) W) @ replicate (L - fb_len L B i) 0)"

definition fb_parity :: "nat \<Rightarrow> nat \<Rightarrow> fec_block \<Rightarrow> nat \<Rightarrow> bytes" where
  "fb_parity L r B j = code_symbol (fb_syms B) L (red_points None (length (fb_syms B)) r ! j)"

text \<open>The geometry of a connection with the codec enabled.\<close>

definition fec_geometry :: "tcp_fec \<Rightarrow> bool" where
  "fec_geometry fec \<longleftrightarrow>
     fec_ctx fec = Some fec_shared_ctx \<and> 0 < unat (fec_k fec) \<and> unat (fec_k fec) \<le> 128 \<and>
     0 < unat (fec_r fec) \<and> unat (fec_r fec) \<le> 32 \<and> 0 < unat (fec_sym_len fec) \<and>
     length (fec_rx fec) = TCP_FEC_RX_BLOCKS"

text \<open>What the staging buffer of a receive slot holds when every symbol that arrived was honest.\<close>

definition buf_holds :: "tcp_fec \<Rightarrow> fec_block \<Rightarrow> bool list \<Rightarrow> bool list \<Rightarrow> bytes \<Rightarrow> bool" where
  "buf_holds fec B srcs reds buf \<longleftrightarrow>
     length srcs = 128 \<and> length reds = 32 \<and>
     length buf = (unat (fec_k fec) + unat (fec_r fec)) * unat (fec_sym_len fec) \<and>
     (\<forall>i<unat (fec_k fec). srcs ! i \<longrightarrow> i < length (fb_syms B) \<and>
        buf_read buf (i * unat (fec_sym_len fec)) (unat (fec_sym_len fec)) = fb_syms B ! i) \<and>
     (\<forall>j<unat (fec_r fec). reds ! j \<longrightarrow>
        buf_read buf ((unat (fec_k fec) + j) * unat (fec_sym_len fec)) (unat (fec_sym_len fec)) =
          fb_parity (unat (fec_sym_len fec)) (unat (fec_r fec)) B j)"

lemma fold_if_filter: "fold (\<lambda>i d. if P i then f i d else d) xs d = fold f (filter P xs) d"
  by (induction xs arbitrary: d) auto

lemma absorb_fun:
  "absorb (Source i p) = (\<lambda>d. cres_val d (fec_decoder_add_source (Some d) (int i) (Some p)))"
  "absorb (Redundant i p) = (\<lambda>d. cres_val d (fec_decoder_add_redundant (Some d) (int i) (Some p)))"
  by (simp_all add: fun_eq_iff)

lemma rx_add_symbols_absorb:
  "rx_add_symbols fec b k dec =
     fold absorb (map (\<lambda>i. Source i i) (filter ((!) (rx_src_present b)) [0..<k]) @
                  map (\<lambda>j. Redundant j (unat (fec_k fec) + j)) (filter ((!) (rx_red_present b)) [0..<unat (fec_r fec)])) dec"
  by (simp add: rx_add_symbols_def Let_def fold_if_filter fold_map comp_def absorb_fun)

text \<open>Decoding a slot: with as many repairs as sources are missing every slot of the block ends up
  holding its symbol, and the rest of the buffer is untouched.\<close>

lemma write_back:
  assumes "length buf = n * L" and "k \<le> n" and "\<forall>i<k. \<not> srcs ! i \<longrightarrow> (\<exists>d. outs ! i = Some d \<and> length d = L)"
  shows "\<exists>buf'. fold (\<lambda>i buf. if srcs ! i then buf
                     else case outs ! i of Some d \<Rightarrow> buf_write buf (i * L) d | None \<Rightarrow> buf) [0..<k] buf = buf' \<and>
           length buf' = n * L \<and>
           (\<forall>i<n. buf_read buf' (i * L) L = (if i < k \<and> \<not> srcs ! i then the (outs ! i) else buf_read buf (i * L) L))"
  using assms(2,3)
proof (induction k)
  case (Suc k)
  then obtain buf' where b: "fold (\<lambda>i buf. if srcs ! i then buf
                     else case outs ! i of Some d \<Rightarrow> buf_write buf (i * L) d | None \<Rightarrow> buf) [0..<k] buf = buf'"
    "length buf' = n * L"
    "\<forall>i<n. buf_read buf' (i * L) L = (if i < k \<and> \<not> srcs ! i then the (outs ! i) else buf_read buf (i * L) L)"
    by auto
  show ?case
  proof (cases "srcs ! k")
    case True
    then show ?thesis using b by (auto simp: less_Suc_eq)
  next
    case False
    then obtain d where d: "outs ! k = Some d" "length d = L" using Suc.prems(2) by auto
    have "length (buf_write buf' (k * L) d) = n * L"
      using slot_in_bounds [of k n buf' L] Suc.prems(1) b(2) d(2) by (simp add: length_buf_write)
    moreover have "buf_read (buf_write buf' (k * L) d) (i * L) L = (if k = i then d else buf_read buf' (i * L) L)" if "i < n" for i
      using slot_read_write [OF b(2) _ that d(2), of k] Suc.prems(1) by simp
    ultimately show ?thesis using b False d by (auto simp: less_Suc_eq)
  qed
qed (use assms(1) in auto)

text \<open>The decoder of a slot after its symbols were added.\<close>

lemma rx_decoder_tracks:
  assumes "fec_geometry fec" and "block_ok (fb_syms B) (unat (fec_sym_len fec))" and "length (fb_syms B) \<le> unat (fec_k fec)"
    and "buf_holds fec B (rx_src_present b) (rx_red_present b) buf"
  shows "\<exists>d. fec_decoder_init (Some dec_zero) (Some fec_shared_ctx) (int (length (fb_syms B))) (uint (fec_r fec))
               (unat (fec_sym_len fec)) None = Ok d \<and>
             dec_tracks (rx_load buf (unat (fec_sym_len fec))) (fb_syms B) (unat (fec_sym_len fec))
               (red_points None (length (fb_syms B)) (unat (fec_r fec)))
               {i. i < length (fb_syms B) \<and> rx_src_present b ! i} {j. j < unat (fec_r fec) \<and> rx_red_present b ! j}
               (rx_add_symbols fec b (length (fb_syms B)) d)"
proof -
  let ?L = "unat (fec_sym_len fec)" and ?k = "length (fb_syms B)" and ?r = "unat (fec_r fec)" and ?S = "fb_syms B"
  let ?rx = "red_points None ?k ?r" and ?load = "rx_load buf ?L"
  let ?as = "map (\<lambda>i. Source i i) (filter ((!) (rx_src_present b)) [0..<?k]) @
             map (\<lambda>j. Redundant j (unat (fec_k fec) + j)) (filter ((!) (rx_red_present b)) [0..<?r])"
  note g = assms(1) [unfolded fec_geometry_def] and h = assms(4) [unfolded buf_holds_def]
  have kr: "0 < ?k" "?k \<le> 128" "uint (fec_r fec) = int ?r" using g assms(2,3) by (auto simp: block_ok_def)
  have "0 < int ?k" "int ?k \<le> 128" "0 < uint (fec_r fec)" "uint (fec_r fec) \<le> 32" using kr g by linarith+
  then obtain d where init: "fec_decoder_init (Some dec_zero) (Some fec_shared_ctx) (int ?k) (uint (fec_r fec)) ?L None = Ok d"
    by (simp add: fec_decoder_init_def red_x_short_def FEC_BLK_MAX_K_def FEC_BLK_MAX_R_def)
  have nr: "nat (uint (fec_r fec)) = ?r" by simp
  have hon: "\<forall>a\<in>set ?as. honest ?load ?S ?L ?rx a"
    using h assms(3) by (auto simp: rx_load_def fb_parity_def)
  have src: "arrived_src ?as = {i. i < ?k \<and> rx_src_present b ! i}" "arrived_red ?as = {j. j < ?r \<and> rx_red_present b ! j}"
    by (auto simp: arrived_src_def arrived_red_def)
  have "dec_tracks ?load ?S ?L ?rx (arrived_src ?as) (arrived_red ?as) (fold absorb ?as d)"
    using absorb_all [OF decoder_init_tracks(1) [OF init, where load = ?load, unfolded nr] hon] by simp
  then show ?thesis using init unfolding src rx_add_symbols_absorb by blast
qed

lemma rx_decode_holds:
  assumes "fec_geometry fec" and "block_ok (fb_syms B) (unat (fec_sym_len fec))" and "length (fb_syms B) \<le> unat (fec_k fec)"
    and "buf_holds fec B (rx_src_present b) (rx_red_present b) buf"
    and "length (fb_syms B) \<le> card {i. i < length (fb_syms B) \<and> rx_src_present b ! i} +
           card {j. j < unat (fec_r fec) \<and> rx_red_present b ! j}"
  shows "\<exists>buf'. rx_decode True fec b (length (fb_syms B)) buf = Ok buf' \<and>
           buf_holds fec B (rx_src_present b) (rx_red_present b) buf' \<and>
           (\<forall>i<length (fb_syms B). buf_read buf' (i * unat (fec_sym_len fec)) (unat (fec_sym_len fec)) = fb_syms B ! i)"
proof -
  let ?L = "unat (fec_sym_len fec)" and ?k = "length (fb_syms B)" and ?r = "unat (fec_r fec)" and ?S = "fb_syms B"
  let ?rx = "red_points None ?k ?r" and ?load = "rx_load buf ?L" and ?n = "unat (fec_k fec) + unat (fec_r fec)"
  note g = assms(1) [unfolded fec_geometry_def] and h = assms(4) [unfolded buf_holds_def]
  have k: "?k \<le> 128" and len: "\<forall>s\<in>set ?S. length s = ?L" using assms(2) by (auto simp: block_ok_def)
  obtain d0 where init: "fec_decoder_init (Some dec_zero) (Some fec_shared_ctx) (int ?k) (uint (fec_r fec)) ?L None = Ok d0"
    and t: "dec_tracks ?load ?S ?L ?rx {i. i < ?k \<and> rx_src_present b ! i} {j. j < ?r \<and> rx_red_present b ! j}
      (rx_add_symbols fec b ?k d0)" using rx_decoder_tracks [OF assms(1-4)] by blast
  define d where "d = rx_add_symbols fec b ?k d0"
  have f: "dec_wf d" "dec_k d = int ?k" "dec_sym_len d = ?L" "dec_holds ?load ?S d"
    "take (nat (dec_r d)) (dec_red_x d) = ?rx" "\<forall>i<?k. dec_src_present d ! i \<longleftrightarrow> rx_src_present b ! i"
    using t by (auto simp: dec_tracks_def d_def)
  have rec: "fec_decoder_recoverable (Some d)"
    using tracks_recoverable_iff [OF t] assms(5) unfolding d_def by auto
  define outs where "outs = map (\<lambda>i. if i < ?k \<and> \<not> rx_src_present b ! i then Some (buf_read buf (i * ?L) ?L) else None) [0..<nat FEC_BLK_MAX_K]"
  have outs: "length outs = 128" "\<forall>i<?k. \<not> dec_src_present d ! i \<longrightarrow> (\<exists>x. outs ! i = Some x \<and> length x = dec_sym_len d)"
    using f(3,6) k assms(3) h slot_in_bounds [of _ ?n buf ?L] by (auto simp: outs_def FEC_BLK_MAX_K_def length_buf_read)
  have "distinct (source_points ?k @ ?rx)" using g assms(3) by (intro distinct_default_points) linarith
  then obtain outs' where o: "fec_decoder_recover ?load (Some d) (Some outs) True = Ok outs'"
    "\<forall>i<128. outs' ! i = (if i < ?k \<and> \<not> dec_src_present d ! i then Some (?S ! i) else outs ! i)"
    using recover_any_k [of d ?S ?load outs] f assms(2) rec outs k by auto
  have o': "outs' ! i = Some (?S ! i)" if "i < ?k" "\<not> rx_src_present b ! i" for i
    using o(2) that f(6) k by simp
  define buf' where "buf' = fold (\<lambda>i buf. if rx_src_present b ! i then buf
      else case outs' ! i of Some d \<Rightarrow> buf_write buf (i * ?L) d | None \<Rightarrow> buf) [0..<?k] buf"
  have "\<forall>i<?k. \<not> rx_src_present b ! i \<longrightarrow> (\<exists>d. outs' ! i = Some d \<and> length d = ?L)" using o' len by simp
  then have b: "length buf' = ?n * ?L" "\<forall>i<?n. buf_read buf' (i * ?L) ?L =
      (if i < ?k \<and> \<not> rx_src_present b ! i then the (outs' ! i) else buf_read buf (i * ?L) ?L)"
    using write_back [of buf ?n ?L ?k "rx_src_present b" outs'] h assms(3) unfolding buf'_def by force+
  have all: "\<forall>i<?k. buf_read buf' (i * ?L) ?L = ?S ! i" using b(2) o' h assms(3) by auto
  moreover have "buf_holds fec B (rx_src_present b) (rx_red_present b) buf'"
    using h b all assms(3) unfolding buf_holds_def by (auto simp: not_less)
  moreover have "rx_decode True fec b ?k buf = Ok buf'"
    using g init rec o(1) by (simp add: rx_decode_def Let_def d_def [symmetric] outs_def [symmetric] buf'_def)
  ultimately show ?thesis by blast
qed

section \<open>The receiver's coding state\<close>

definition slot_ok :: "bytes \<Rightarrow> u32 \<Rightarrow> tcp_fec \<Rightarrow> fec_block \<Rightarrow> tcp_fec_block_rx \<Rightarrow> bool" where
  "slot_ok W base fec B b \<longleftrightarrow>
     block_of W (unat (fec_sym_len fec)) B \<and> length (fb_syms B) \<le> unat (fec_k fec) \<and>
     (\<exists>buf. rx_symbol_buf b = Some buf \<and> buf_holds fec B (rx_src_present b) (rx_red_present b) buf) \<and>
     (rx_blk_k b = 0 \<or> unat (rx_blk_k b) = length (fb_syms B)) \<and>
     unat (rx_red_count b) = card {j. j < unat (fec_r fec) \<and> rx_red_present b ! j} \<and>
     (rx_red_count b \<noteq> 0 \<longrightarrow> unat (rx_blk_k b) = length (fb_syms B) \<and> unat (rx_tail_len b) = fb_tail B \<and>
        rx_base_seq b = base + of_nat (fb_off B))"

definition fec_ok :: "bytes \<Rightarrow> u32 \<Rightarrow> (u32 \<Rightarrow> fec_block) \<Rightarrow> tcp_fec \<Rightarrow> bool" where
  "fec_ok W base blocks fec \<longleftrightarrow> fec_geometry fec \<and>
     (\<forall>b\<in>set (fec_rx fec). (rx_active b \<longrightarrow> slot_ok W base fec (blocks (rx_block_id b)) b) \<and>
        (\<forall>buf. rx_symbol_buf b = Some buf \<longrightarrow>
           length buf = (unat (fec_k fec) + unat (fec_r fec)) * unat (fec_sym_len fec)))"

lemma fec_ok_nth:
  "fec_ok W base blocks fec \<Longrightarrow> bi < 4 \<Longrightarrow> fec_rx fec ! bi \<in> set (fec_rx fec)"
  by (simp add: fec_ok_def fec_geometry_def TCP_FEC_RX_BLOCKS_def)

lemma slot_ok_cong:
  assumes "fec_k fec' = fec_k fec" and "fec_r fec' = fec_r fec" and "fec_sym_len fec' = fec_sym_len fec"
  shows "slot_ok W base fec' B b = slot_ok W base fec B b"
  using assms by (simp add: slot_ok_def buf_holds_def)

text \<open>Changing one slot to one that is again in order.\<close>

lemma fec_ok_update:
  assumes "fec_ok W base blocks fec" and "slot_ok W base fec (blocks (rx_block_id b')) b'"
  shows "fec_ok W base blocks (fec\<lparr>fec_rx := (fec_rx fec)[bi := b']\<rparr>)"
proof -
  let ?f = "fec\<lparr>fec_rx := (fec_rx fec)[bi := b']\<rparr>"
  have g: "fec_geometry ?f" using assms(1) by (simp add: fec_ok_def fec_geometry_def)
  have "rx_symbol_buf b' = Some buf \<Longrightarrow> length buf = (unat (fec_k fec) + unat (fec_r fec)) * unat (fec_sym_len fec)" for buf
    using assms(2) by (auto simp: slot_ok_def buf_holds_def)
  then show ?thesis
    using assms g set_update_subset_insert [of "fec_rx fec" bi b']
    by (auto simp: fec_ok_def slot_ok_cong [of ?f fec])
qed

section \<open>Splicing recovered symbols\<close>

lemma send_ack_keeps:
  assumes "rx_inv W base read N tsk"
  shows "\<exists>rc tsk'. tcp_send_ack out tsk = Ok (rc, tsk') \<and> rx_inv W base read N tsk' \<and>
           sk_state tsk' = sk_state tsk \<and> tsk_fec tsk' = tsk_fec tsk"
proof -
  note i = assms [unfolded rx_inv_def]
  have "sacks_sound tsk" using i by (auto simp: sack_ready_def sacks_sound_def)
  then obtain rc tsk' where a: "tcp_send_ack out tsk = Ok (rc, tsk')" "length (sacks tsk') = 4" "sackok tsk \<longrightarrow> sacklen tsk' = 0"
    using send_ack_Ok [of tsk out] i by blast
  obtain a2 b2 c d where f: "tsk' = tsk\<lparr>sacks := a2, sacklen := b2, next_skb := c, tx_log := d\<rparr>"
    using send_ack_frame [OF a(1)] by blast
  have "sacklen tsk' \<le> 4" by (rule send_ack_sacklen [OF a(1)]) (use i in \<open>simp add: sack_ready_def\<close>)
  then have "sack_ready tsk'" using a(2,3) f i by (simp add: sack_ready_def)
  then have "rx_inv W base read N tsk'" using f i by (simp add: rx_inv_def stream_inv_def)
  then show ?thesis using a(1) f by auto
qed

lemma stream_seq:
  assumes "(base :: u32) \<noteq> 0" and "unat base + length W < 2 ^ 32" and "n \<le> length W"
  shows "base + of_nat n \<noteq> 0"
proof
  assume "base + of_nat n = 0"
  then have "unat base + n = 0" using unat_base [of base n] assms(2,3) by simp
  then show False using assms(1) by (simp add: unat_eq_zero)
qed

lemma splice_keeps:
  assumes "base \<noteq> 0" and "unat base + length W < 2 ^ 32" and "rx_inv W base read N tsk" and "N < 2 ^ 32 - 1"
    and "d = take (length d) (drop n W)" and "n + length d \<le> length W" and "seq = base + of_nat n"
  shows "\<exists>tsk'. tcp_fec_splice out seq d tsk = Ok tsk' \<and> rx_inv W base read (Suc N) tsk' \<and>
           sk_state tsk' = sk_state tsk \<and> tsk_fec tsk' = tsk_fec tsk"
proof -
  let ?t = "tsk\<lparr>next_skb := next_skb tsk + 1\<rparr>" and ?skb = "alloc_skb (next_skb tsk) (54 + length d)"
  let ?s = "?skb\<lparr>skb_head := buf_write (skb_head ?skb) 54 d, skb_payload := 54, skb_seq := seq,
      skb_dlen := of_nat (length d), skb_end_seq := seq + of_nat (length d)\<rparr>"
  have u: "unat (of_nat (length d) :: u32) = length d" using assms(2,6) by (simp add: unat_of_nat)
  have ib: "in_bounds (replicate (54 + length d) (0 :: u8)) 54 (length d)" by (simp add: in_bounds_def)
  then have pay: "skb_pay ?s = d" "seg_ok ?s"
    using u by (simp_all add: skb_pay_def seg_ok_def alloc_skb_def buf_read_write_same in_bounds_buf_write)
  have sl: "slice_of W base ?s"
    unfolding slice_of_def using pay assms(5-7) u by (intro conjI exI [of _ n]) simp_all
  have nz: "skb_seq ?s \<noteq> 0" "skb_end_seq ?s \<noteq> 0"
    using stream_seq [OF assms(1,2), of n] stream_seq [OF assms(1,2), of "n + length d"] assms(6,7)
    by (simp_all add: add.assoc)
  have i: "rx_inv W base read N ?t" using assms(3) by (simp add: rx_inv_def stream_inv_def sack_ready_def)
  have "length W < 2 ^ 32" using assms(2) by simp
  from data_queue_total [OF this i assms(4) sl nz, of out] obtain s tsk' where
    "tcp_data_queue out ?s ?t = Ok (0, Some s, tsk')" "rx_inv W base read (Suc N) tsk'"
    "sk_state tsk' = sk_state tsk" "tsk_fec tsk' = tsk_fec tsk" by auto
  then show ?thesis by (simp add: tcp_fec_splice_def Let_def hdr_lens)
qed

lemma splice_len_fb:
  "0 < fb_tail B \<Longrightarrow> fb_tail B \<le> L \<Longrightarrow> unat tail = fb_tail B \<Longrightarrow> splice_len L (length (fb_syms B)) tail i = fb_len L B i"
  by (auto simp: splice_len_def fb_len_def word_less_nat_alt)

lemma fb_len_le: "block_of W L B \<Longrightarrow> fb_len L B i \<le> L"
  by (auto simp: block_of_def fb_len_def)

lemma fb_slice:
  assumes "block_of W L B" and "i < length (fb_syms B)"
  shows "take (fb_len L B i) (fb_syms B ! i) = take (fb_len L B i) (drop (fb_off B + i * L) W)"
    and "fb_off B + i * L + fb_len L B i \<le> length W"
proof -
  show len: "fb_off B + i * L + fb_len L B i \<le> length W"
  proof (cases "i = length (fb_syms B) - 1")
    case False
    then have "Suc i * L \<le> (length (fb_syms B) - 1) * L" using assms(2) by (intro mult_le_mono1) simp
    then show ?thesis using assms False by (simp add: block_of_def fb_len_def)
  qed (use assms in \<open>simp add: block_of_def fb_len_def\<close>)
  then show "take (fb_len L B i) (fb_syms B ! i) = take (fb_len L B i) (drop (fb_off B + i * L) W)"
    using assms by (auto simp: block_of_def)
qed

lemma upd_rx_inv [simp]: "rx_inv W base read N (upd_rx bi f tsk) = rx_inv W base read N tsk"
  by (simp add: upd_rx_def rx_inv_def stream_inv_def sack_ready_def)

lemma upd_rx_state [simp]: "sk_state (upd_rx bi f tsk) = sk_state tsk"
  by (simp add: upd_rx_def)

lemma upd_rx_fec:
  "tsk_fec tsk = Some fec \<Longrightarrow> tsk_fec (upd_rx bi f tsk) = Some (fec\<lparr>fec_rx := (fec_rx fec)[bi := f (fec_rx fec ! bi)]\<rparr>)"
  by (simp add: upd_rx_def)

lemma splice_data:
  assumes "block_of W L B" and "unat (rx_tail_len b) = fb_tail B" and "i < length (fb_syms B)" and "buf_read buf (i * L) L = fb_syms B ! i"
  shows "buf_read buf (i * L) (splice_len L (length (fb_syms B)) (rx_tail_len b) i) =
           take (fb_len L B i) (drop (fb_off B + i * L) W)" (is "?d = _")
    and "length (buf_read buf (i * L) (splice_len L (length (fb_syms B)) (rx_tail_len b) i)) = fb_len L B i"
proof -
  have tail: "0 < fb_tail B" "fb_tail B \<le> L" using assms(1) by (auto simp: block_of_def)
  have "?d = take (fb_len L B i) (buf_read buf (i * L) L)"
    using fb_len_le [OF assms(1)] by (simp add: splice_len_fb [OF tail assms(2)] buf_read_def min_absorb1)
  then show d: "?d = take (fb_len L B i) (drop (fb_off B + i * L) W)" using assms(4) fb_slice(1) [OF assms(1,3)] by simp
  show "length ?d = fb_len L B i" unfolding d using fb_slice(2) [OF assms(1,3)] by simp
qed

text \<open>The splice loop: every missing symbol enters reassembly as the slice of the stream it is; the
  slot's presence flags grow by exactly the spliced indices.\<close>

lemma splice_loop_keeps:
  assumes "base \<noteq> 0" and "unat base + length W < 2 ^ 32" and "block_of W L B"
    and "unat (rx_tail_len b) = fb_tail B" and "rx_base_seq b = base + of_nat (fb_off B)"
    and "\<forall>i<length (fb_syms B). buf_read buf (i * L) L = fb_syms B ! i"
    and "set is \<subseteq> {..<length (fb_syms B)}" and "rx_inv W base read N tsk" and "N + length is < 2 ^ 32 - 1"
    and "tsk_fec tsk = Some fec" and "bi < length (fec_rx fec)"
  shows "\<exists>tsk' p c. splice_loop out bi L (length (fb_syms B)) b buf is tsk = Ok tsk' \<and>
           rx_inv W base read (N + length is) tsk' \<and> sk_state tsk' = sk_state tsk \<and>
           tsk_fec tsk' = Some (fec\<lparr>fec_rx := (fec_rx fec)[bi := (fec_rx fec ! bi)\<lparr>rx_src_present := p, rx_src_count := c\<rparr>]\<rparr>) \<and>
           length p = length (rx_src_present (fec_rx fec ! bi)) \<and>
           (\<forall>i<length p. p ! i \<longleftrightarrow> rx_src_present (fec_rx fec ! bi) ! i \<or> i \<in> set is \<and> \<not> rx_src_present b ! i)"
  using assms(7-11)
proof (induction "is" arbitrary: tsk N fec)
  case Nil
  then show ?case
    by (intro exI [of _ tsk] exI [of _ "rx_src_present (fec_rx fec ! bi)"] exI [of _ "rx_src_count (fec_rx fec ! bi)"])
      (simp add: list_update_same_conv)
next
  case (Cons i "is")
  let ?k = "length (fb_syms B)"
  show ?case
  proof (cases "rx_src_present b ! i")
    case True
    have "rx_inv W base read (Suc N) tsk" using Cons.prems(2) by (auto simp: rx_inv_def)
    with Cons.IH [OF _ this _ Cons.prems(4,5)] Cons.prems(1,3) obtain tsk' p c where
      "splice_loop out bi L ?k b buf is tsk = Ok tsk'" "rx_inv W base read (Suc N + length is) tsk'" "sk_state tsk' = sk_state tsk"
      "tsk_fec tsk' = Some (fec\<lparr>fec_rx := (fec_rx fec)[bi := (fec_rx fec ! bi)\<lparr>rx_src_present := p, rx_src_count := c\<rparr>]\<rparr>)"
      "length p = length (rx_src_present (fec_rx fec ! bi))"
      "\<forall>i<length p. p ! i \<longleftrightarrow> rx_src_present (fec_rx fec ! bi) ! i \<or> i \<in> set is \<and> \<not> rx_src_present b ! i" by auto
    then show ?thesis using True by (intro exI [of _ tsk'] exI [of _ p] exI [of _ c]) auto
  next
    case False
    let ?d = "buf_read buf (i * L) (splice_len L ?k (rx_tail_len b) i)"
    have i: "i < ?k" using Cons.prems(1) by simp
    note d = splice_data(1) [OF assms(3,4) i] and ld = splice_data(2) [OF assms(3,4) i]
    note d = d [OF assms(6) [rule_format, OF i]] and ld = ld [OF assms(6) [rule_format, OF i]]
    have seq: "rx_base_seq b + of_nat i * of_nat L = base + of_nat (fb_off B + i * L)" using assms(5) by (simp add: add.assoc)
    obtain t where t: "tcp_fec_splice out (rx_base_seq b + of_nat i * of_nat L) ?d tsk = Ok t"
      "rx_inv W base read (Suc N) t" "sk_state t = sk_state tsk" "tsk_fec t = tsk_fec tsk"
      using splice_keeps [OF assms(1,2) Cons.prems(2) _ _ _ seq, of ?d out] Cons.prems(3) d ld fb_slice(2) [OF assms(3) i]
      by auto
    let ?f = "\<lambda>b. b\<lparr>rx_src_present := (rx_src_present b)[i := True], rx_src_count := rx_src_count b + 1\<rparr>"
    let ?t = "upd_rx bi ?f t"
    have fec': "tsk_fec ?t = Some (fec\<lparr>fec_rx := (fec_rx fec)[bi := ?f (fec_rx fec ! bi)]\<rparr>)"
      using t(4) Cons.prems(4) by (simp add: upd_rx_fec)
    obtain tsk' p c where r: "splice_loop out bi L ?k b buf is ?t = Ok tsk'"
      "rx_inv W base read (Suc N + length is) tsk'" "sk_state tsk' = sk_state ?t"
      "tsk_fec tsk' = Some (fec\<lparr>fec_rx := (fec_rx fec)[bi := (fec_rx fec ! bi)\<lparr>rx_src_present := p, rx_src_count := c\<rparr>]\<rparr>)"
      "length p = length (rx_src_present (fec_rx fec ! bi))"
      "\<forall>j<length p. p ! j \<longleftrightarrow> (rx_src_present (fec_rx fec ! bi))[i := True] ! j \<or> j \<in> set is \<and> \<not> rx_src_present b ! j"
      using Cons.IH [of "Suc N" ?t, OF _ _ _ fec'] t(2) Cons.prems(1,3,5) by auto
    have "splice_loop out bi L ?k b buf (i # is) tsk = Ok tsk'" using False t(1) r(1) by simp
    moreover have "\<forall>j<length p. p ! j \<longleftrightarrow> rx_src_present (fec_rx fec ! bi) ! j \<or> j \<in> set (i # is) \<and> \<not> rx_src_present b ! j"
    proof (intro allI impI)
      fix j assume j: "j < length p"
      then have "(rx_src_present (fec_rx fec ! bi))[i := True] ! j \<longleftrightarrow> j = i \<or> rx_src_present (fec_rx fec ! bi) ! j"
        using r(5) by (cases "i = j") auto
      then show "p ! j \<longleftrightarrow> rx_src_present (fec_rx fec ! bi) ! j \<or> j \<in> set (i # is) \<and> \<not> rx_src_present b ! j"
        using r(6) j False by auto
    qed
    ultimately show ?thesis using r t(3) by (intro exI [of _ tsk'] exI [of _ p] exI [of _ c]) simp
  qed
qed

lemma slot_ok_more_sources:
  assumes "slot_ok W base fec B b" and "rx_symbol_buf b' = Some buf" and "buf_holds fec B (rx_src_present b) (rx_red_present b) buf"
    and "\<forall>i<length (fb_syms B). buf_read buf (i * unat (fec_sym_len fec)) (unat (fec_sym_len fec)) = fb_syms B ! i"
    and "length (rx_src_present b') = 128"
    and "\<forall>i<128. rx_src_present b' ! i \<longrightarrow> rx_src_present b ! i \<or> i < length (fb_syms B)"
    and "rx_red_present b' = rx_red_present b" and "rx_red_count b' = rx_red_count b" and "rx_blk_k b' = rx_blk_k b"
    and "rx_tail_len b' = rx_tail_len b" and "rx_base_seq b' = rx_base_seq b" and "unat (fec_k fec) \<le> 128"
  shows "slot_ok W base fec B b'"
  using assms unfolding slot_ok_def buf_holds_def by (auto dest: order.strict_trans2)

text \<open>The guards of \<open>tcp_fec_rx_recover\<close> on a slot in order: it goes on exactly when at least one source
  is missing and the repairs make up for the missing ones, and then the block size is known.\<close>

lemma present_count:
  "length (filter (\<lambda>i. xs ! i) [0..<k]) = card {i. i < k \<and> xs ! i}"
proof -
  have "card (set (filter (\<lambda>i. xs ! i) [0..<k])) = length (filter (\<lambda>i. xs ! i) [0..<k])"
    by (intro distinct_card distinct_filter distinct_upt)
  moreover have "set (filter (\<lambda>i. xs ! i) [0..<k]) = {i. i < k \<and> xs ! i}" by auto
  ultimately show ?thesis by simp
qed

definition rx_ready :: "tcp_fec \<Rightarrow> tcp_fec_block_rx \<Rightarrow> bool" where
  "rx_ready fec b \<longleftrightarrow> \<not> rx_recovered b \<and> rx_block_k fec b \<le> unat (fec_k fec) \<and>
     card {i. i < rx_block_k fec b \<and> rx_src_present b ! i} < rx_block_k fec b \<and>
     rx_block_k fec b \<le> card {i. i < rx_block_k fec b \<and> rx_src_present b ! i} + unat (rx_red_count b)"

lemma rx_recover_cases:
  assumes "tsk_fec tsk = Some fec" and "b = fec_rx fec ! bi"
  shows "rx_ready fec b \<or> tcp_fec_rx_recover out mem bi tsk = Ok tsk \<or>
         tcp_fec_rx_recover out mem bi tsk = Ok (upd_rx bi (\<lambda>b. b\<lparr>rx_recovered := True\<rparr>) tsk)"
proof -
  have le: "card {i. i < k \<and> rx_src_present b ! i} \<le> k" for k
    using card_mono [of "{..<k}" "{i. i < k \<and> rx_src_present b ! i}"] by auto
  show ?thesis using assms le [of "rx_block_k fec b"]
    by (auto simp: tcp_fec_rx_recover_def Let_def rx_ready_def present_count)
qed

lemma slot_ready:
  assumes "slot_ok W base fec B b" and "rx_ready fec b"
  shows "rx_block_k fec b = length (fb_syms B)" and "rx_red_count b \<noteq> 0"
    and "length (fb_syms B) \<le> card {i. i < length (fb_syms B) \<and> rx_src_present b ! i} +
           card {j. j < unat (fec_r fec) \<and> rx_red_present b ! j}"
proof -
  show r: "rx_red_count b \<noteq> 0" using assms(2) by (auto simp: rx_ready_def)
  then have "unat (rx_blk_k b) = length (fb_syms B)" using assms(1) by (simp add: slot_ok_def)
  moreover have "fb_syms B \<noteq> []" using assms(1) by (simp add: slot_ok_def block_of_def block_ok_def)
  ultimately show k: "rx_block_k fec b = length (fb_syms B)" by (auto simp: rx_block_k_def)
  show "length (fb_syms B) \<le> card {i. i < length (fb_syms B) \<and> rx_src_present b ! i} +
           card {j. j < unat (fec_r fec) \<and> rx_red_present b ! j}"
    using assms k by (auto simp: rx_ready_def slot_ok_def)
qed

lemma rx_recover_ready:
  assumes "tsk_fec tsk = Some fec" and "b = fec_rx fec ! bi" and "rx_ready fec b" and "rx_symbol_buf b = Some buf"
    and "rx_decode mem fec b (rx_block_k fec b) buf = Ok buf'"
  shows "tcp_fec_rx_recover out mem bi tsk =
           cbind (splice_loop out bi (unat (fec_sym_len fec)) (rx_block_k fec b) b buf' [0..<rx_block_k fec b]
                    (upd_rx bi (\<lambda>b. b\<lparr>rx_symbol_buf := Some buf'\<rparr>) tsk)) (\<lambda>tsk.
           cbind (tcp_send_ack out (upd_rx bi (\<lambda>b. b\<lparr>rx_recovered := True\<rparr>) tsk)) (\<lambda>(_, tsk). Ok tsk))"
proof -
  have "0 < rx_block_k fec b" using assms(3) by (auto simp: rx_ready_def)
  moreover have "\<not> unat (rx_red_count b) < rx_block_k fec b - card {i. i < rx_block_k fec b \<and> rx_src_present b ! i}"
    using assms(3) by (auto simp: rx_ready_def)
  ultimately show ?thesis using assms
    by (simp add: tcp_fec_rx_recover_def Let_def rx_ready_def present_count)
qed

lemma rx_recover_ready_keeps:
  assumes "base \<noteq> 0" and "unat base + length W < 2 ^ 32" and "rx_inv W base read N tsk" and "N + 128 < 2 ^ 32 - 1"
    and "tsk_fec tsk = Some fec" and "fec_geometry fec" and "bi < length (fec_rx fec)" and "b = fec_rx fec ! bi"
    and "slot_ok W base fec B b" and "rx_ready fec b"
  shows "\<exists>tsk' b'. tcp_fec_rx_recover out True bi tsk = Ok tsk' \<and> rx_inv W base read (N + 128) tsk' \<and>
           sk_state tsk' = sk_state tsk \<and> tsk_fec tsk' = Some (fec\<lparr>fec_rx := (fec_rx fec)[bi := b']\<rparr>) \<and>
           slot_ok W base fec B b' \<and> rx_block_id b' = rx_block_id b \<and> rx_active b' = rx_active b \<and> rx_recovered b' \<and>
           rx_red_present b' = rx_red_present b \<and>
           (\<forall>i<128. rx_src_present b' ! i \<longleftrightarrow> rx_src_present b ! i \<or> i < length (fb_syms B))"
proof -
  let ?L = "unat (fec_sym_len fec)" and ?k = "length (fb_syms B)"
  note r = slot_ready [OF assms(9,10)]
  obtain buf where buf: "rx_symbol_buf b = Some buf" "buf_holds fec B (rx_src_present b) (rx_red_present b) buf"
    using assms(9) by (auto simp: slot_ok_def)
  have blk: "block_of W ?L B" "?k \<le> unat (fec_k fec)" "block_ok (fb_syms B) ?L" "?k \<le> 128"
    using assms(9) by (auto simp: slot_ok_def block_of_def block_ok_def)
  obtain buf' where d: "rx_decode True fec b ?k buf = Ok buf'" "buf_holds fec B (rx_src_present b) (rx_red_present b) buf'"
    "\<forall>i<?k. buf_read buf' (i * ?L) ?L = fb_syms B ! i"
    using rx_decode_holds [OF assms(6) blk(3,2) buf(2) r(3)] by blast
  have tb: "unat (rx_tail_len b) = fb_tail B" "rx_base_seq b = base + of_nat (fb_off B)" using assms(9) r(2) by (auto simp: slot_ok_def)
  let ?t = "upd_rx bi (\<lambda>b. b\<lparr>rx_symbol_buf := Some buf'\<rparr>) tsk"
  let ?fec = "fec\<lparr>fec_rx := (fec_rx fec)[bi := b\<lparr>rx_symbol_buf := Some buf'\<rparr>]\<rparr>"
  have ft: "tsk_fec ?t = Some ?fec" "bi < length (fec_rx ?fec)" using assms(5,7,8) by (simp_all add: upd_rx_fec)
  have pre: "set [0..<?k] \<subseteq> {..<?k}" "rx_inv W base read N ?t" "N + length [0..<?k] < 2 ^ 32 - 1" using assms(3,4) blk(4) by auto
  obtain t2 p c where s: "splice_loop out bi ?L ?k b buf' [0..<?k] ?t = Ok t2" "rx_inv W base read (N + ?k) t2"
    "sk_state t2 = sk_state tsk"
    "tsk_fec t2 = Some (fec\<lparr>fec_rx := (fec_rx fec)[bi := b\<lparr>rx_symbol_buf := Some buf', rx_src_present := p, rx_src_count := c\<rparr>]\<rparr>)"
    "length p = length (rx_src_present b)" "\<forall>i<length p. p ! i \<longleftrightarrow> rx_src_present b ! i \<or> i < ?k \<and> \<not> rx_src_present b ! i"
    using splice_loop_keeps [OF assms(1,2) blk(1) tb d(3) pre ft, where out = out] assms(7) by auto
  have l: "length (rx_src_present b) = 128" using buf(2) by (simp add: buf_holds_def)
  let ?b = "b\<lparr>rx_symbol_buf := Some buf', rx_src_present := p, rx_src_count := c, rx_recovered := True\<rparr>"
  have ok: "slot_ok W base fec B ?b"
    by (rule slot_ok_more_sources [OF assms(9) _ d(2,3)])
      (use s(5,6) l d(2) assms(6) in \<open>auto simp: buf_holds_def fec_geometry_def\<close>)
  let ?t3 = "upd_rx bi (\<lambda>b. b\<lparr>rx_recovered := True\<rparr>) t2"
  have f3: "tsk_fec ?t3 = Some (fec\<lparr>fec_rx := (fec_rx fec)[bi := ?b]\<rparr>)" using s(4) assms(7) by (simp add: upd_rx_fec)
  obtain rc tsk' where a: "tcp_send_ack out ?t3 = Ok (rc, tsk')" "rx_inv W base read (N + ?k) tsk'"
    "sk_state tsk' = sk_state ?t3" "tsk_fec tsk' = tsk_fec ?t3"
    using send_ack_keeps [of W base read "N + ?k" ?t3 out] s(2) by auto
  have "tcp_fec_rx_recover out True bi tsk = Ok tsk'"
    using rx_recover_ready [OF assms(5,8,10) buf(1), of True buf' out] d(1) r(1) s(1) a(1) by simp
  moreover have "rx_inv W base read (N + 128) tsk'" using a(2) blk(4) by (auto simp: rx_inv_def)
  ultimately show ?thesis using a(3,4) f3 ok s(3,5,6) l by (intro exI [of _ tsk'] exI [of _ ?b]) auto
qed

lemma rx_recover_keeps:
  assumes "base \<noteq> 0" and "unat base + length W < 2 ^ 32" and "rx_inv W base read N tsk" and "N + 128 < 2 ^ 32 - 1"
    and "tsk_fec tsk = Some fec" and "fec_ok W base blocks fec" and "bi < 4" and "rx_active (fec_rx fec ! bi)"
  shows "\<exists>tsk' fec'. tcp_fec_rx_recover out True bi tsk = Ok tsk' \<and> rx_inv W base read (N + 128) tsk' \<and>
           sk_state tsk' = sk_state tsk \<and> tsk_fec tsk' = Some fec' \<and> fec_ok W base blocks fec' \<and>
           fec_k fec' = fec_k fec \<and> fec_r fec' = fec_r fec \<and> fec_sym_len fec' = fec_sym_len fec"
proof -
  define b where "b = fec_rx fec ! bi"
  define B where "B = blocks (rx_block_id b)"
  have g: "fec_geometry fec" using assms(6) by (simp add: fec_ok_def)
  have bi: "bi < length (fec_rx fec)" using g assms(7) by (simp add: fec_geometry_def TCP_FEC_RX_BLOCKS_def)
  have ok: "slot_ok W base fec B b" using assms(6,8) bi by (simp add: fec_ok_def b_def B_def)
  have upd: "fec_ok W base blocks (fec\<lparr>fec_rx := (fec_rx fec)[bi := b']\<rparr>)"
    if "slot_ok W base fec B b'" "rx_block_id b' = rx_block_id b" for b'
    by (rule fec_ok_update [OF assms(6)]) (use that in \<open>simp add: B_def\<close>)
  have more: "rx_inv W base read N t \<Longrightarrow> rx_inv W base read (N + 128) t" for t by (auto simp: rx_inv_def)
  consider "rx_ready fec b" | "tcp_fec_rx_recover out True bi tsk = Ok tsk"
    | "tcp_fec_rx_recover out True bi tsk = Ok (upd_rx bi (\<lambda>b. b\<lparr>rx_recovered := True\<rparr>) tsk)"
    using rx_recover_cases [OF assms(5) b_def] by blast
  then show ?thesis
  proof cases
    case 1
    obtain tsk' b' where "tcp_fec_rx_recover out True bi tsk = Ok tsk'" "rx_inv W base read (N + 128) tsk'"
      "sk_state tsk' = sk_state tsk" "tsk_fec tsk' = Some (fec\<lparr>fec_rx := (fec_rx fec)[bi := b']\<rparr>)"
      "slot_ok W base fec B b'" "rx_block_id b' = rx_block_id b"
      using rx_recover_ready_keeps [OF assms(1-5) g bi b_def ok 1] by blast
    then show ?thesis using upd by auto
  next
    case 2
    then show ?thesis using assms(3,5,6) more by auto
  next
    case 3
    have "slot_ok W base fec B (b\<lparr>rx_recovered := True\<rparr>)" using ok by (simp add: slot_ok_def)
    then show ?thesis using 3 assms(3,5) more upd [of "b\<lparr>rx_recovered := True\<rparr>"] by (auto simp: upd_rx_fec b_def)
  qed
qed

section \<open>Coded segments arrive\<close>

lemma rx_find_Some:
  "rx_find n bs bid = Some i \<Longrightarrow> n \<le> i \<and> i < n + length bs \<and> rx_active (bs ! (i - n)) \<and> rx_block_id (bs ! (i - n)) = bid"
  by (induction n bs bid rule: rx_find.induct) (auto simp: nth_Cons' split: if_splits)

lemma rx_victim_Some:
  "(\<forall>j v. best = Some (j, v) \<longrightarrow> j < m) \<Longrightarrow> n + length bs \<le> m \<Longrightarrow> bs \<noteq> [] \<or> best \<noteq> None \<Longrightarrow>
     \<exists>i<m. rx_victim n bs best = Some i"
  by (induction n bs best rule: rx_victim.induct) (auto split: option.splits)

lemma slot_ok_claim:
  assumes "block_of W (unat (fec_sym_len fec)) B" and "length (fb_syms B) \<le> unat (fec_k fec)"
    and "length buf = (unat (fec_k fec) + unat (fec_r fec)) * unat (fec_sym_len fec)" and "fec_geometry fec"
  shows "slot_ok W base fec B (rx_claim bid buf)"
  using assms by (auto simp: slot_ok_def rx_claim_def buf_holds_def fec_geometry_def)

lemma rx_slot_keeps:
  assumes "fec_ok W base blocks fec" and "block_of W (unat (fec_sym_len fec)) (blocks bid)"
    and "length (fb_syms (blocks bid)) \<le> unat (fec_k fec)"
  shows "\<exists>bi rx. tcp_fec_rx_slot True bid fec = Ok (Some bi, fec\<lparr>fec_rx := rx\<rparr>) \<and> bi < 4 \<and>
           fec_ok W base blocks (fec\<lparr>fec_rx := rx\<rparr>) \<and> rx_active (rx ! bi) \<and> rx_block_id (rx ! bi) = bid"
proof -
  note g = assms(1) [unfolded fec_ok_def fec_geometry_def TCP_FEC_RX_BLOCKS_def]
  have geo: "fec_geometry fec" using assms(1) by (simp add: fec_ok_def)
  show ?thesis
  proof (cases "rx_find 0 (fec_rx fec) bid")
    case (Some i)
    then show ?thesis using rx_find_Some [OF Some] assms(1) g
      by (intro exI [of _ i] exI [of _ "fec_rx fec"]) (simp add: tcp_fec_rx_slot_def)
  next
    case None
    obtain i where i: "rx_victim 0 (fec_rx fec) None = Some i" "i < 4"
      using rx_victim_Some [of None 4 0 "fec_rx fec"] g by fastforce
    have upd: "fec_ok W base blocks (fec\<lparr>fec_rx := (fec_rx fec)[i := rx_claim bid buf]\<rparr>)"
      if "length buf = (unat (fec_k fec) + unat (fec_r fec)) * unat (fec_sym_len fec)" for buf
      by (rule fec_ok_update [OF assms(1)]) (use slot_ok_claim [OF assms(2,3) that geo] in \<open>simp add: rx_claim_def\<close>)
    show ?thesis
    proof (cases "rx_symbol_buf (fec_rx fec ! i)")
      case None2: None
      then show ?thesis using None i g
        upd [of "replicate ((unat (fec_k fec) + unat (fec_r fec)) * unat (fec_sym_len fec)) 0"]
        by (intro exI [of _ i]) (auto simp: tcp_fec_rx_slot_def rx_claim_def)
    next
      case (Some buf)
      then show ?thesis using None i g upd [of buf] fec_ok_nth [OF assms(1) i(2)]
        by (intro exI [of _ i]) (auto simp: tcp_fec_rx_slot_def rx_claim_def)
    qed
  qed
qed

text \<open>An honest source segment: symbol \<open>i\<close> of its block, tagged, at its place in the stream.\<close>

definition tagged :: "u8 \<Rightarrow> u32 \<Rightarrow> nat \<Rightarrow> sk_buff \<Rightarrow> bool" where
  "tagged ty bid i skb \<longleftrightarrow> 28 \<le> tcp_hlen (tcp_hdr skb) \<and>
     (\<exists>rest. th_data skb = tcp_opt_fec_bytes \<lparr>fo_type = ty, fo_index = of_nat i, fo_block_id = bid\<rparr> @ rest)"

definition source_segment :: "bytes \<Rightarrow> u32 \<Rightarrow> tcp_fec \<Rightarrow> fec_block \<Rightarrow> nat \<Rightarrow> sk_buff \<Rightarrow> bool" where
  "source_segment W base fec B i skb \<longleftrightarrow>
     block_of W (unat (fec_sym_len fec)) B \<and> length (fb_syms B) \<le> unat (fec_k fec) \<and>
     i < length (fb_syms B) \<and> seg_ok skb \<and> unat (skb_dlen skb) = fb_len (unat (fec_sym_len fec)) B i \<and>
     skb_seq skb = base + of_nat (fb_off B + i * unat (fec_sym_len fec)) \<and>
     skb_pay skb = take (fb_len (unat (fec_sym_len fec)) B i) (drop (fb_off B + i * unat (fec_sym_len fec)) W)"

definition repair_segment :: "bytes \<Rightarrow> u32 \<Rightarrow> tcp_fec \<Rightarrow> fec_block \<Rightarrow> nat \<Rightarrow> sk_buff \<Rightarrow> bool" where
  "repair_segment W base fec B j skb \<longleftrightarrow>
     block_of W (unat (fec_sym_len fec)) B \<and> length (fb_syms B) \<le> unat (fec_k fec) \<and>
     j < unat (fec_r fec) \<and> seg_ok skb \<and> unat (skb_dlen skb) = 16 + unat (fec_sym_len fec) \<and>
     (\<exists>rh. rh_k rh = of_nat (length (fb_syms B)) \<and> rh_base_seq rh = base + of_nat (fb_off B) \<and>
        rh_tail_len rh = of_nat (fb_tail B) \<and>
        skb_pay skb = fec_repair_hdr_bytes rh @ fb_parity (unat (fec_sym_len fec)) (unat (fec_r fec)) B j)"

lemma unat_fb:
  assumes "block_of W (unat (fec_sym_len fec)) B"
  shows "unat (of_nat (length (fb_syms B)) :: u8) = length (fb_syms B)" and "unat (of_nat (fb_tail B) :: u16) = fb_tail B"
proof -
  show "unat (of_nat (length (fb_syms B)) :: u8) = length (fb_syms B)"
    using assms by (simp add: block_of_def block_ok_def unat_of_nat)
  have "unat (fec_sym_len fec) < 2 ^ LENGTH(16)" by (rule unsigned_less)
  then have "fb_tail B < 2 ^ 16" using assms by (auto simp: block_of_def)
  then show "unat (of_nat (fb_tail B) :: u16) = fb_tail B" by (simp add: unat_of_nat)
qed

lemma sint_small: "unat (w :: u32) < 2 ^ 31 \<Longrightarrow> sint w = int (unat w)"
proof -
  assume "unat w < 2 ^ 31"
  then have "int (unat w) < int (2 ^ 31)" by (simp only: of_nat_less_iff)
  then have "uint w < 2 ^ 31" by simp
  then have "signed_take_bit 31 (uint w) = uint w"
    using order.trans [OF _ uint_ge_0 [of w], of "- (2 ^ 31)"] by (intro signed_take_bit_int_eq_self) simp_all
  then show ?thesis by (simp add: sint_uint)
qed

lemma sym_len_lt: "unat (fec_sym_len fec) < 65536"
  using unsigned_less [of "fec_sym_len fec", where ?'a = nat] by simp

text \<open>Writing one symbol to its slot keeps what the buffer holds.\<close>

lemma buf_holds_source:
  assumes "buf_holds fec B srcs reds buf" and "i < length (fb_syms B)" and "length (fb_syms B) \<le> unat (fec_k fec)"
    and "unat (fec_k fec) \<le> 128" and "length (fb_syms B ! i) = unat (fec_sym_len fec)"
  shows "buf_holds fec B (srcs[i := True]) reds (buf_write buf (i * unat (fec_sym_len fec)) (fb_syms B ! i))"
proof -
  let ?L = "unat (fec_sym_len fec)" and ?n = "unat (fec_k fec) + unat (fec_r fec)"
  note h = assms(1) [unfolded buf_holds_def]
  have w: "buf_read (buf_write buf (i * ?L) (fb_syms B ! i)) (j * ?L) ?L =
      (if i = j then fb_syms B ! i else buf_read buf (j * ?L) ?L)" if "j < ?n" for j
    by (rule slot_read_write [OF _ _ that assms(5)]) (use h assms(2,3) in auto)
  have l: "length (buf_write buf (i * ?L) (fb_syms B ! i)) = ?n * ?L"
    using slot_in_bounds [of i ?n buf ?L] h assms(2,3,5) by (simp add: length_buf_write)
  show ?thesis unfolding buf_holds_def using h l w assms(2-4) by (auto simp: nth_list_update)
qed

lemma buf_holds_repair:
  assumes "buf_holds fec B srcs reds buf" and "j < unat (fec_r fec)" and "length (fb_syms B) \<le> unat (fec_k fec)"
    and "unat (fec_r fec) \<le> 32" and "p = fb_parity (unat (fec_sym_len fec)) (unat (fec_r fec)) B j"
    and "length p = unat (fec_sym_len fec)"
  shows "buf_holds fec B srcs (reds[j := True]) (buf_write buf ((unat (fec_k fec) + j) * unat (fec_sym_len fec)) p)"
proof -
  let ?L = "unat (fec_sym_len fec)" and ?n = "unat (fec_k fec) + unat (fec_r fec)" and ?q = "unat (fec_k fec) + j"
  note h = assms(1) [unfolded buf_holds_def]
  have w: "buf_read (buf_write buf (?q * ?L) p) (m * ?L) ?L = (if ?q = m then p else buf_read buf (m * ?L) ?L)" if "m < ?n" for m
    by (rule slot_read_write [OF _ _ that assms(6)]) (use h assms(2) in auto)
  have l: "length (buf_write buf (?q * ?L) p) = ?n * ?L"
    using slot_in_bounds [of ?q ?n buf ?L] h assms(2,6) by (simp add: length_buf_write)
  show ?thesis unfolding buf_holds_def using h l w assms(2-5) by (auto simp: nth_list_update)
qed

lemma slot_okI:
  assumes "slot_ok W base fec B b" and "rx_symbol_buf b' = Some buf" and "buf_holds fec B (rx_src_present b') (rx_red_present b') buf"
    and "rx_blk_k b' = 0 \<or> unat (rx_blk_k b') = length (fb_syms B)"
    and "unat (rx_red_count b') = card {j. j < unat (fec_r fec) \<and> rx_red_present b' ! j}"
    and "rx_red_count b' \<noteq> 0 \<Longrightarrow> unat (rx_blk_k b') = length (fb_syms B) \<and> unat (rx_tail_len b') = fb_tail B \<and>
        rx_base_seq b' = base + of_nat (fb_off B)"
  shows "slot_ok W base fec B b'"
  using assms unfolding slot_ok_def by blast

text \<open>A source segment of the block.\<close>

lemma rx_source_keeps:
  assumes "slot_ok W base fec B b" and "fec_geometry fec" and "source_segment W base fec B i skb"
  shows "\<exists>b'. rx_source (unat (fec_sym_len fec)) i skb b = Ok b' \<and> slot_ok W base fec B b' \<and>
           rx_block_id b' = rx_block_id b \<and> rx_active b' = rx_active b \<and> rx_recovered b' = rx_recovered b \<and>
           rx_red_present b' = rx_red_present b \<and> rx_src_present b' = (rx_src_present b)[i := True]"
proof (cases "rx_src_present b ! i")
  case True
  then have "(rx_src_present b)[i := True] = rx_src_present b" using list_update_id [of "rx_src_present b" i] by simp
  then show ?thesis using assms(1) True by (simp add: rx_source_def)
next
  case False
  let ?L = "unat (fec_sym_len fec)" and ?n = "unat (fec_k fec) + unat (fec_r fec)" and ?S = "fb_syms B"
  let ?l = "fb_len ?L B i"
  note s = assms(3) [unfolded source_segment_def] and g = assms(2) [unfolded fec_geometry_def] and o = assms(1) [unfolded slot_ok_def]
  obtain buf where buf: "rx_symbol_buf b = Some buf" "buf_holds fec B (rx_src_present b) (rx_red_present b) buf" using o by blast
  have l: "?l \<le> ?L" using fb_len_le s by blast
  have dl: "sint (skb_dlen skb) = int ?l" using s l sym_len_lt [of fec] by (subst sint_small) simp_all
  have sym: "?S ! i = skb_pay skb @ replicate (?L - ?l) 0" using s by (simp add: block_of_def)
  have ls: "length (?S ! i) = ?L" using s nth_mem [of i ?S] unfolding block_of_def block_ok_def by blast
  have ib: "in_bounds (skb_head skb) (nat (skb_payload skb)) ?l" "in_bounds buf (i * ?L) ?L"
    using s slot_in_bounds [of i ?n buf ?L] buf(2) by (auto simp: seg_ok_def buf_holds_def)
  have pay: "buf_read (skb_head skb) (nat (skb_payload skb)) ?l = skb_pay skb" using s by (simp add: skb_pay_def)
  let ?b = "b\<lparr>rx_symbol_buf := Some (buf_write buf (i * ?L) (?S ! i)), rx_src_present := (rx_src_present b)[i := True],
      rx_src_count := rx_src_count b + 1, rx_base_seq := base + of_nat (fb_off B)\<rparr>"
  let ?b' = "if ?l < ?L then ?b\<lparr>rx_tail_len := of_nat ?l, rx_blk_k := of_nat (i + 1)\<rparr> else ?b"
  have seq: "skb_seq skb - of_nat i * of_nat ?L = base + of_nat (fb_off B)" using s by simp
  have run: "rx_source ?L i skb b = Ok ?b'"
  proof -
    have m: "(if int ?l > int ?L then int ?L else int ?l) = int ?l" using l by (simp only: of_nat_less_iff not_less [symmetric] if_False)
    have "rx_source ?L i skb b = Ok (let b = b\<lparr>rx_symbol_buf := Some (buf_write buf (i * ?L) (skb_pay skb @ replicate (?L - ?l) 0)),
                        rx_src_present := (rx_src_present b)[i := True],
                        rx_src_count := rx_src_count b + 1, rx_base_seq := skb_seq skb - of_nat i * of_nat ?L\<rparr>
              in (if ?l < ?L then b\<lparr>rx_tail_len := of_nat ?l, rx_blk_k := of_nat (i + 1)\<rparr> else b))"
      unfolding rx_source_def Let_def dl m nat_int pay buf(1) using False ib by (simp del: of_nat_add)
    then show ?thesis unfolding sym [symmetric] seq Let_def .
  qed
  have bh: "buf_holds fec B ((rx_src_present b)[i := True]) (rx_red_present b) (buf_write buf (i * ?L) (?S ! i))"
    by (rule buf_holds_source [OF buf(2)]) (use s g ls in auto)
  have ok: "slot_ok W base fec B ?b" by (rule slot_okI [OF assms(1) _ _]) (use o bh in simp_all)
  have "slot_ok W base fec B ?b'"
  proof (cases "?l < ?L")
    case True
    then have "i + 1 = length ?S" "?l = fb_tail B" using s by (auto simp: fb_len_def split: if_splits)
    then have "unat (of_nat (i + 1) :: u8) = length ?S" "unat (of_nat ?l :: u16) = fb_tail B"
      using unat_fb [of W fec B] s by auto
    then show ?thesis using True by (intro slot_okI [OF ok]) (use o bh in simp_all)
  qed (use ok in simp)
  then show ?thesis using run by (intro exI [of _ ?b']) simp
qed

text \<open>A repair segment of the block.\<close>

lemma rx_repair_keeps:
  assumes "slot_ok W base fec B b" and "fec_geometry fec" and "repair_segment W base fec B j skb"
  shows "\<exists>b'. rx_repair (unat (fec_sym_len fec)) (unat (fec_k fec)) j skb b = Ok b' \<and> slot_ok W base fec B b' \<and>
           rx_block_id b' = rx_block_id b \<and> rx_active b' = rx_active b \<and> rx_recovered b' = rx_recovered b \<and>
           rx_src_present b' = rx_src_present b \<and> rx_red_present b' = (rx_red_present b)[j := True]"
proof -
  let ?L = "unat (fec_sym_len fec)" and ?n = "unat (fec_k fec) + unat (fec_r fec)" and ?S = "fb_syms B"
  let ?p = "fb_parity ?L (unat (fec_r fec)) B j" and ?q = "unat (fec_k fec) + j" and ?from = "nat (skb_payload skb)"
  note s = assms(3) [unfolded repair_segment_def] and g = assms(2) [unfolded fec_geometry_def] and o = assms(1) [unfolded slot_ok_def]
  obtain buf where buf: "rx_symbol_buf b = Some buf" "buf_holds fec B (rx_src_present b) (rx_red_present b) buf" using o by blast
  obtain rh where rh: "rh_k rh = of_nat (length ?S)" "rh_base_seq rh = base + of_nat (fb_off B)" "rh_tail_len rh = of_nat (fb_tail B)"
    "skb_pay skb = fec_repair_hdr_bytes rh @ ?p" using s by blast
  have len: "length (fec_repair_hdr_bytes rh) = 16" by (simp add: fec_repair_hdr_bytes_def be_simps)
  have ib: "in_bounds (skb_head skb) ?from (16 + ?L)" "in_bounds buf (?q * ?L) ?L"
    using s slot_in_bounds [of ?q ?n buf ?L] buf(2) by (auto simp: seg_ok_def buf_holds_def)
  have t: "take (16 + ?L) (drop ?from (skb_head skb)) = fec_repair_hdr_bytes rh @ ?p"
    using s rh(4) by (simp add: skb_pay_def buf_read_def)
  then have "drop ?from (skb_head skb) = fec_repair_hdr_bytes rh @ ?p @ drop (16 + ?L) (drop ?from (skb_head skb))"
    by (metis append.assoc append_take_drop_id)
  then have hd: "fec_repair_hdr_of (drop ?from (skb_head skb)) = rh" by (metis fec_repair_hdr_of_bytes)
  have "buf_read (skb_head skb) (?from + 16) ?L = drop 16 (take (16 + ?L) (drop ?from (skb_head skb)))"
    by (simp add: buf_read_def drop_take add.commute)
  then have par: "buf_read (skb_head skb) (?from + 16) ?L = ?p" unfolding t using len by simp
  have lp: "length ?p = ?L" using ib(1) unfolding par [symmetric] by (simp add: buf_read_def in_bounds_def)
  have uf: "unat (of_nat (length ?S) :: u8) = length ?S" "unat (of_nat (fb_tail B) :: u16) = fb_tail B"
    using unat_fb [of W fec B] s by auto
  let ?b = "b\<lparr>rx_base_seq := base + of_nat (fb_off B), rx_tail_len := of_nat (fb_tail B), rx_blk_k := of_nat (length ?S)\<rparr>"
  have ok: "slot_ok W base fec B ?b" by (rule slot_okI [OF assms(1)]) (use o uf buf in simp_all)
  show ?thesis
  proof (cases "rx_red_present b ! j")
    case True
    then have "rx_repair ?L (unat (fec_k fec)) j skb b = Ok ?b" using ib(1) hd rh by (simp add: rx_repair_def Let_def)
    moreover have "(rx_red_present b)[j := True] = rx_red_present b"
      using True list_update_id [of "rx_red_present b" j] by simp
    ultimately show ?thesis using ok by simp
  next
    case False
    let ?b' = "?b\<lparr>rx_symbol_buf := Some (buf_write buf (?q * ?L) ?p), rx_red_present := (rx_red_present b)[j := True],
        rx_red_count := rx_red_count b + 1\<rparr>"
    have run: "rx_repair ?L (unat (fec_k fec)) j skb b = Ok ?b'"
      using False ib hd rh(1-3) par buf(1) by (simp add: rx_repair_def Let_def)
    have bh: "buf_holds fec B (rx_src_present b) ((rx_red_present b)[j := True]) (buf_write buf (?q * ?L) ?p)"
      by (rule buf_holds_repair [OF buf(2)]) (use s g lp in auto)
    let ?J = "{m. m < unat (fec_r fec) \<and> rx_red_present b ! m}"
    have j32: "j < length (rx_red_present b)" using s g buf(2) by (simp add: buf_holds_def)
    have "{m. m < unat (fec_r fec) \<and> (rx_red_present b)[j := True] ! m} = insert j ?J"
      using j32 s by (auto simp: nth_list_update)
    moreover have "card (insert j ?J) = Suc (card ?J)" using False by simp
    moreover have "card ?J \<le> 32" using card_mono [of "{..<unat (fec_r fec)}" ?J] g by (auto intro: order.trans)
    ultimately have "unat (rx_red_count b + 1) = card {m. m < unat (fec_r fec) \<and> (rx_red_present b)[j := True] ! m}"
      using o by (simp add: unat_word_ariths)
    then have "slot_ok W base fec B ?b'" by (intro slot_okI [OF assms(1)]) (use bh uf in simp_all)
    then show ?thesis using run by (intro exI [of _ ?b']) simp
  qed
qed

section \<open>What receiving leaves alone\<close>

text \<open>The sender's side of a connection, which no step of the receive path touches; numbers of new
  buffers only grow.\<close>

definition same_sender :: "tcp_sock \<Rightarrow> tcp_sock \<Rightarrow> bool" where
  "same_sender tsk tsk' \<longleftrightarrow>
     sk_state tsk' = sk_state tsk \<and> sk_write_queue tsk' = sk_write_queue tsk \<and>
     snd_una (tcb tsk') = snd_una (tcb tsk) \<and> snd_nxt (tcb tsk') = snd_nxt (tcb tsk) \<and>
     rcv_wnd (tcb tsk') = rcv_wnd (tcb tsk) \<and> next_skb tsk \<le> next_skb tsk'"

lemma same_sender_refl [simp]: "same_sender tsk tsk"
  by (simp add: same_sender_def)

lemma same_sender_trans [trans]: "same_sender a b \<Longrightarrow> same_sender b c \<Longrightarrow> same_sender a c"
  by (simp add: same_sender_def)

lemma same_sender_upd [simp]: "same_sender tsk (upd_rx bi f tsk)" "same_sender tsk (tsk\<lparr>tsk_fec := x\<rparr>)"
  by (simp_all add: same_sender_def upd_rx_def)

lemma same_sender_send_ack:
  assumes "tcp_send_ack out tsk = Ok (rc, tsk')"
  shows "same_sender tsk tsk'"
proof -
  obtain a b c d where f: "tsk' = tsk\<lparr>sacks := a, sacklen := b, next_skb := c, tx_log := d\<rparr>"
    using send_ack_frame [OF assms] by blast
  have "next_skb tsk \<le> next_skb tsk'"
  proof (cases "sk_state tsk = TCP_CLOSE")
    case False
    with assms obtain skb seq s' where "tcp_transmit_skb out skb seq (tsk\<lparr>next_skb := next_skb tsk + 1\<rparr>) = Ok (rc, s', tsk')"
      by (auto simp: tcp_send_ack_def Let_def tcp_alloc_skb_def transmit_and_free_def cbind_Ok_iff simp del: of_nat_add)
    then obtain a b c where "tsk' = tsk\<lparr>next_skb := next_skb tsk + 1, sacks := a, sacklen := b, tx_log := c\<rparr>"
      using transmit_frame by blast
    then show ?thesis by simp
  qed (use assms in \<open>simp add: tcp_send_ack_def\<close>)
  then show ?thesis using f by (simp add: same_sender_def)
qed

lemma same_sender_consume: "same_sender tsk (tcp_consume_ofo_queue tsk)"
proof (induction tsk rule: tcp_consume_ofo_queue.induct)
  case (1 tsk)
  show ?case
  proof (cases "\<exists>h. skb_peek (ofo_queue tsk) = Some h \<and> rcv_nxt (tcb tsk) = skb_seq h")
    case False
    then have "tcp_consume_ofo_queue tsk = tsk"
      by (auto simp: tcp_consume_ofo_queue.simps [of tsk] split: option.splits)
    then show ?thesis by simp
  next
    case True
    then obtain h xs where h: "skb_peek (ofo_queue tsk) = Some h" "rcv_nxt (tcb tsk) = skb_seq h"
      "q_list (ofo_queue tsk) = h # xs" using peek_dequeue by blast
    let ?q = "(ofo_queue tsk)\<lparr>q_list := xs, qlen := qlen (ofo_queue tsk) - 1\<rparr>"
    have q: "skb_dequeue (ofo_queue tsk) = Ok (h, ?q)" using h(3) by (simp add: skb_dequeue_def)
    let ?t = "tsk\<lparr>tcb := (tcb tsk)\<lparr>rcv_nxt := rcv_nxt (tcb tsk) + skb_dlen h\<rparr>, ofo_queue := ?q,
        sk_receive_queue := skb_queue_tail (sk_receive_queue tsk) h\<rparr>"
    have "same_sender tsk ?t" by (simp add: same_sender_def)
    moreover have "same_sender ?t (tcp_consume_ofo_queue ?t)" using 1 [OF h(1,2) q refl] .
    moreover have "tcp_consume_ofo_queue tsk = tcp_consume_ofo_queue ?t"
      using h(1,2) q by (simp add: tcp_consume_ofo_queue.simps [of tsk])
    ultimately show ?thesis using same_sender_trans [of tsk ?t] by simp
  qed
qed

lemma same_sender_data_queue:
  assumes "tcp_data_queue out skb tsk = Ok (rc, s, tsk')"
  shows "same_sender tsk tsk'"
proof (cases "skb_seq skb = rcv_nxt (tcb tsk)")
  case True
  let ?t = "tsk\<lparr>tcb := (tcb tsk)\<lparr>rcv_nxt := rcv_nxt (tcb tsk) + skb_dlen skb\<rparr>,
                sk_receive_queue := skb_queue_tail (sk_receive_queue tsk) (skb_get skb)\<rparr>"
  have "same_sender tsk ?t" by (simp add: same_sender_def)
  then have "same_sender tsk (tcp_consume_ofo_queue ?t)" using same_sender_consume same_sender_trans by blast
  then show ?thesis using assms True
    by (auto simp: tcp_data_queue_def Let_def tcp_recv_notify_def same_sender_def split: if_splits)
next
  case False
  let ?t = "tsk\<lparr>ofo_queue := fst (tcp_data_insert_ordered (ofo_queue tsk) skb)\<rparr>"
  consider "tsk' = tsk" | t1 rc2 where "(if sackok tsk then tcp_calculate_sacks ?t else Ok ?t) = Ok t1" "tcp_send_ack out t1 = Ok (rc2, tsk')"
    using assms False by (auto simp: tcp_data_queue_def Let_def cbind_Ok_iff split: prod.splits if_splits)
  then show ?thesis
  proof cases
    case 2
    have "same_sender tsk t1" using 2(1) calculate_sacks_frame [of ?t t1] by (auto simp: same_sender_def split: if_splits)
    then show ?thesis using same_sender_send_ack [OF 2(2)] same_sender_trans by blast
  qed simp
qed

lemma same_sender_splice: "tcp_fec_splice out seq d tsk = Ok tsk' \<Longrightarrow> same_sender tsk tsk'"
  by (auto simp: tcp_fec_splice_def Let_def cbind_Ok_iff same_sender_def dest!: same_sender_data_queue)

lemma same_sender_splice_loop:
  "splice_loop out bi L k b buf is tsk = Ok tsk' \<Longrightarrow> same_sender tsk tsk'"
proof (induction "is" arbitrary: tsk)
  case (Cons i "is")
  show ?case
  proof (cases "rx_src_present b ! i")
    case False
    then obtain t where t: "tcp_fec_splice out (rx_base_seq b + of_nat i * of_nat L) (buf_read buf (i * L) (splice_len L k (rx_tail_len b) i)) tsk = Ok t"
      "splice_loop out bi L k b buf is
         (upd_rx bi (\<lambda>b. b\<lparr>rx_src_present := (rx_src_present b)[i := True], rx_src_count := rx_src_count b + 1\<rparr>) t) = Ok tsk'"
      using Cons.prems by (auto simp: cbind_Ok_iff)
    from same_sender_trans [OF same_sender_trans [OF same_sender_splice [OF t(1)] same_sender_upd(1)] Cons.IH [OF t(2)]]
    show ?thesis .
  qed (use Cons in simp)
qed simp

lemma same_sender_recover:
  assumes "tcp_fec_rx_recover out mem bi tsk = Ok tsk'"
  shows "same_sender tsk tsk'"
proof -
  let ?up = "\<lambda>buf. upd_rx bi (\<lambda>b. b\<lparr>rx_symbol_buf := Some buf\<rparr>) tsk"
  have "tsk' = tsk \<or> tsk' = upd_rx bi (\<lambda>b. b\<lparr>rx_recovered := True\<rparr>) tsk \<or>
      (\<exists>buf L k b is t rc. splice_loop out bi L k b buf is (?up buf) = Ok t \<and>
         tcp_send_ack out (upd_rx bi (\<lambda>b. b\<lparr>rx_recovered := True\<rparr>) t) = Ok (rc, tsk'))"
    using assms
    by (auto simp: tcp_fec_rx_recover_def Let_def cbind_Ok_iff split: if_splits option.splits cres.splits)
  then show ?thesis
  proof (elim disjE exE conjE)
    fix buf L k b "is" t rc
    assume s: "splice_loop out bi L k b buf is (?up buf) = Ok t"
      and a: "tcp_send_ack out (upd_rx bi (\<lambda>b. b\<lparr>rx_recovered := True\<rparr>) t) = Ok (rc, tsk')"
    have "same_sender tsk t" by (rule same_sender_trans [OF same_sender_upd(1) same_sender_splice_loop [OF s]])
    then have "same_sender tsk (upd_rx bi (\<lambda>b. b\<lparr>rx_recovered := True\<rparr>) t)" by (rule same_sender_trans) simp
    then show ?thesis by (rule same_sender_trans) (rule same_sender_send_ack [OF a])
  qed simp_all
qed

lemma same_sender_fec_input:
  assumes "tcp_fec_input out mem skb tsk = Ok (c, tsk')"
  shows "same_sender tsk tsk'"
proof -
  have "tsk' = tsk \<or> (\<exists>fec. tsk' = tsk\<lparr>tsk_fec := Some fec\<rparr>) \<or>
      (\<exists>fec bi f. tcp_fec_rx_recover out mem bi (upd_rx bi f (tsk\<lparr>tsk_fec := Some fec\<rparr>)) = Ok tsk')"
    using assms
    unfolding tcp_fec_input_def Let_def
    by (simp add: cbind_Ok_iff case_prod_beta split: if_splits option.splits) blast+
  then show ?thesis
  proof (elim disjE exE)
    fix fec bi f
    assume "tcp_fec_rx_recover out mem bi (upd_rx bi f (tsk\<lparr>tsk_fec := Some fec\<rparr>)) = Ok tsk'"
    from same_sender_trans [OF same_sender_trans [OF same_sender_upd(2) same_sender_upd(1)] same_sender_recover [OF this]]
    show ?thesis .
  qed simp_all
qed

section \<open>Any honest segment\<close>

definition untagged :: "sk_buff \<Rightarrow> bool" where
  "untagged skb \<longleftrightarrow> tcp_hlen (tcp_hdr skb) < 28 \<or>
     8 \<le> length (th_data skb) \<and> (th_data skb ! 0 \<noteq> TCP_OPT_FEC \<or> th_data skb ! 1 \<noteq> TCP_OPTLEN_FEC)"

definition same_geometry :: "tcp_fec \<Rightarrow> tcp_fec \<Rightarrow> bool" where
  "same_geometry fec fec' \<longleftrightarrow> fec_k fec' = fec_k fec \<and> fec_r fec' = fec_r fec \<and> fec_sym_len fec' = fec_sym_len fec"

lemma same_geometry_segments:
  "same_geometry fec fec' \<Longrightarrow> source_segment W base fec' = source_segment W base fec"
  "same_geometry fec fec' \<Longrightarrow> repair_segment W base fec' = repair_segment W base fec"
  by (auto simp: same_geometry_def source_segment_def repair_segment_def fun_eq_iff)

lemma input_untagged: "untagged skb \<Longrightarrow> tcp_fec_input out mem skb tsk = Ok (False, tsk)"
  by (auto simp: untagged_def tcp_fec_input_def Let_def)

lemma input_tagged:
  assumes "tagged ty bid i skb" and "i < 256" and "tsk_fec tsk = Some fec"
    and "tcp_fec_rx_slot True bid fec = Ok (Some bi, fec')"
  shows "tcp_fec_input out True skb tsk =
    (let tsk = tsk\<lparr>tsk_fec := Some fec'\<rparr>; L = unat (fec_sym_len fec) in
     if ty = FEC_SYM_SOURCE then
       if i \<ge> unat (fec_k fec') then Ok (False, tsk)
       else cbind (rx_source L i skb (fec_rx fec' ! bi)) (\<lambda>b.
            cbind (tcp_fec_rx_recover out True bi (upd_rx bi (\<lambda>_. b) tsk)) (\<lambda>tsk. Ok (False, tsk)))
     else if ty = FEC_SYM_REPAIR then
       if sint (skb_dlen skb) < int (16 + L) \<or> i \<ge> unat (fec_r fec') then Ok (True, tsk)
       else cbind (rx_repair L (unat (fec_k fec')) i skb (fec_rx fec' ! bi)) (\<lambda>b.
            cbind (tcp_fec_rx_recover out True bi (upd_rx bi (\<lambda>_. b) tsk)) (\<lambda>tsk. Ok (True, tsk)))
     else Ok (False, tsk))"
proof -
  obtain rest where d: "th_data skb = tcp_opt_fec_bytes \<lparr>fo_type = ty, fo_index = of_nat i, fo_block_id = bid\<rparr> @ rest"
    and h: "\<not> tcp_hlen (tcp_hdr skb) < 28" using assms(1) by (auto simp: tagged_def)
  have l: "length (tcp_opt_fec_bytes \<lparr>fo_type = ty, fo_index = of_nat i, fo_block_id = bid\<rparr>) = 8"
    and b: "tcp_opt_fec_bytes \<lparr>fo_type = ty, fo_index = of_nat i, fo_block_id = bid\<rparr> ! 0 = TCP_OPT_FEC"
      "tcp_opt_fec_bytes \<lparr>fo_type = ty, fo_index = of_nat i, fo_block_id = bid\<rparr> ! 1 = TCP_OPTLEN_FEC"
    by (simp_all add: tcp_opt_fec_bytes_def be_simps)
  have i: "unat (of_nat i :: u8) = i" using assms(2) by (simp add: unat_of_nat)
  show ?thesis
    unfolding tcp_fec_input_def Let_def d tcp_opt_fec_of_bytes using h l b i assms(3,4)
    by (simp add: nth_append)
qed

text \<open>An updated slot enters recovery: the step both kinds of symbol share.\<close>

lemma stored_symbol_keeps:
  assumes "base \<noteq> 0" and "unat base + length W < 2 ^ 32" and "rx_inv W base read N tsk" and "N + 128 < 2 ^ 32 - 1"
    and "tsk_fec tsk = Some fec" and "fec_ok W base blocks fec" and "bi < 4" and "rx_active b"
    and "slot_ok W base fec (blocks (rx_block_id b)) b"
  shows "\<exists>tsk' fec'. tcp_fec_rx_recover out True bi (upd_rx bi (\<lambda>_. b) tsk) = Ok tsk' \<and> rx_inv W base read (N + 128) tsk' \<and>
           tsk_fec tsk' = Some fec' \<and> fec_ok W base blocks fec' \<and> same_geometry fec fec'"
proof -
  let ?f = "fec\<lparr>fec_rx := (fec_rx fec)[bi := b]\<rparr>"
  have bi: "bi < length (fec_rx fec)" using assms(6,7) by (simp add: fec_ok_def fec_geometry_def TCP_FEC_RX_BLOCKS_def)
  have ok: "fec_ok W base blocks ?f" by (rule fec_ok_update [OF assms(6,9)])
  have f: "tsk_fec (upd_rx bi (\<lambda>_. b) tsk) = Some ?f" using assms(5) by (rule upd_rx_fec)
  have i: "rx_inv W base read N (upd_rx bi (\<lambda>_. b) tsk)" using assms(3) by simp
  have act: "rx_active (fec_rx ?f ! bi)" using bi assms(8) by simp
  show ?thesis using rx_recover_keeps [OF assms(1,2) i assms(4) f ok assms(7) act, of out]
    by (auto simp: same_geometry_def)
qed

lemma fec_input_source:
  assumes "base \<noteq> 0" and "unat base + length W < 2 ^ 32" and "rx_inv W base read N tsk" and "N + 128 < 2 ^ 32 - 1"
    and "tsk_fec tsk = Some fec" and "fec_ok W base blocks fec"
    and "tagged FEC_SYM_SOURCE bid i skb" and "source_segment W base fec (blocks bid) i skb"
  shows "\<exists>tsk' fec'. tcp_fec_input out True skb tsk = Ok (False, tsk') \<and> rx_inv W base read (N + 128) tsk' \<and>
           tsk_fec tsk' = Some fec' \<and> fec_ok W base blocks fec' \<and> same_geometry fec fec'"
proof -
  note s = assms(8) [unfolded source_segment_def]
  obtain bi rx where slot: "tcp_fec_rx_slot True bid fec = Ok (Some bi, fec\<lparr>fec_rx := rx\<rparr>)" "bi < 4"
    "fec_ok W base blocks (fec\<lparr>fec_rx := rx\<rparr>)" "rx_active (rx ! bi)" "rx_block_id (rx ! bi) = bid"
    using rx_slot_keeps [OF assms(6)] s by blast
  let ?f = "fec\<lparr>fec_rx := rx\<rparr>" and ?t = "tsk\<lparr>tsk_fec := Some (fec\<lparr>fec_rx := rx\<rparr>)\<rparr>"
  have g: "fec_geometry ?f" "same_geometry fec ?f" using slot(3) by (auto simp: fec_ok_def same_geometry_def)
  have k: "i < unat (fec_k fec)" "i < 256" using s g(1) by (auto simp: fec_geometry_def)
  have sk: "slot_ok W base ?f (blocks bid) (rx ! bi)"
    using slot(3-5) fec_ok_nth [OF slot(3,2)] by (auto simp: fec_ok_def)
  obtain b where b: "rx_source (unat (fec_sym_len fec)) i skb (rx ! bi) = Ok b" "slot_ok W base ?f (blocks bid) b"
    "rx_block_id b = bid" "rx_active b"
    using rx_source_keeps [OF sk g(1), of i skb] assms(8) same_geometry_segments(1) [OF g(2)] slot(4,5) by auto
  have i: "rx_inv W base read N ?t" using assms(3) by (simp add: rx_inv_def stream_inv_def sack_ready_def)
  have tf: "tsk_fec ?t = Some ?f" by simp
  from stored_symbol_keeps [OF assms(1,2) i assms(4) tf slot(3,2) b(4)] b(2,3) obtain tsk' fec' where
    r: "tcp_fec_rx_recover out True bi (upd_rx bi (\<lambda>_. b) ?t) = Ok tsk'" "rx_inv W base read (N + 128) tsk'"
    "tsk_fec tsk' = Some fec'" "fec_ok W base blocks fec'" "same_geometry ?f fec'" by blast
  have "tcp_fec_input out True skb tsk = Ok (False, tsk')"
    unfolding input_tagged [OF assms(7) k(2) assms(5) slot(1)] Let_def using k(1) b(1) r(1) by simp
  then show ?thesis using r(2-5) by (auto simp: same_geometry_def)
qed

lemma fec_input_repair:
  assumes "base \<noteq> 0" and "unat base + length W < 2 ^ 32" and "rx_inv W base read N tsk" and "N + 128 < 2 ^ 32 - 1"
    and "tsk_fec tsk = Some fec" and "fec_ok W base blocks fec"
    and "tagged FEC_SYM_REPAIR bid j skb" and "repair_segment W base fec (blocks bid) j skb"
  shows "\<exists>tsk' fec'. tcp_fec_input out True skb tsk = Ok (True, tsk') \<and> rx_inv W base read (N + 128) tsk' \<and>
           tsk_fec tsk' = Some fec' \<and> fec_ok W base blocks fec' \<and> same_geometry fec fec'"
proof -
  note s = assms(8) [unfolded repair_segment_def]
  obtain bi rx where slot: "tcp_fec_rx_slot True bid fec = Ok (Some bi, fec\<lparr>fec_rx := rx\<rparr>)" "bi < 4"
    "fec_ok W base blocks (fec\<lparr>fec_rx := rx\<rparr>)" "rx_active (rx ! bi)" "rx_block_id (rx ! bi) = bid"
    using rx_slot_keeps [OF assms(6)] s by blast
  let ?f = "fec\<lparr>fec_rx := rx\<rparr>" and ?t = "tsk\<lparr>tsk_fec := Some (fec\<lparr>fec_rx := rx\<rparr>)\<rparr>" and ?L = "unat (fec_sym_len fec)"
  have g: "fec_geometry ?f" "same_geometry fec ?f" using slot(3) by (auto simp: fec_ok_def same_geometry_def)
  have k: "j < unat (fec_r fec)" "j < 256" using s g(1) by (auto simp: fec_geometry_def)
  have "16 + ?L < 2 ^ 31" using sym_len_lt [of fec] by simp
  then have dl: "sint (skb_dlen skb) = int (16 + ?L)" using s by (subst sint_small) simp_all
  have sk: "slot_ok W base ?f (blocks bid) (rx ! bi)"
    using slot(3-5) fec_ok_nth [OF slot(3,2)] by (auto simp: fec_ok_def)
  obtain b where b: "rx_repair ?L (unat (fec_k fec)) j skb (rx ! bi) = Ok b" "slot_ok W base ?f (blocks bid) b"
    "rx_block_id b = bid" "rx_active b"
    using rx_repair_keeps [OF sk g(1), of j skb] assms(8) same_geometry_segments(2) [OF g(2)] slot(4,5) by auto
  have i: "rx_inv W base read N ?t" using assms(3) by (simp add: rx_inv_def stream_inv_def sack_ready_def)
  have tf: "tsk_fec ?t = Some ?f" by simp
  from stored_symbol_keeps [OF assms(1,2) i assms(4) tf slot(3,2) b(4)] b(2,3) obtain tsk' fec' where
    r: "tcp_fec_rx_recover out True bi (upd_rx bi (\<lambda>_. b) ?t) = Ok tsk'" "rx_inv W base read (N + 128) tsk'"
    "tsk_fec tsk' = Some fec'" "fec_ok W base blocks fec'" "same_geometry ?f fec'" by blast
  have "tcp_fec_input out True skb tsk = Ok (True, tsk')"
    unfolding input_tagged [OF assms(7) k(2) assms(5) slot(1)] Let_def dl
    using k(1) b(1) r(1) by (simp add: FEC_SYM_SOURCE_def FEC_SYM_REPAIR_def)
  then show ?thesis using r(2-5) by (auto simp: same_geometry_def)
qed

section \<open>Segments at an idle receiver\<close>

text \<open>An established connection with nothing to send, and a segment that carries data and
  acknowledges what is already acknowledged.\<close>

definition idle :: "tcp_sock \<Rightarrow> bool" where
  "idle tsk \<longleftrightarrow> sk_state tsk = TCP_ESTABLISHED \<and> skb_queue_empty (sk_write_queue tsk) \<and> snd_una (tcb tsk) \<le> snd_nxt (tcb tsk)"

definition plain_data :: "u32 \<Rightarrow> sk_buff \<Rightarrow> bool" where
  "plain_data una skb \<longleftrightarrow>
     th_ack (tcp_hdr skb) \<and> \<not> th_rst (tcp_hdr skb) \<and> \<not> th_syn (tcp_hdr skb) \<and> \<not> th_fin (tcp_hdr skb) \<and>
     th_ack_seq (tcp_hdr skb) = una \<and> th_seq (tcp_hdr skb) = skb_seq skb \<and> 0 < skb_dlen skb \<and>
     skb_end_seq skb = skb_seq skb + skb_dlen skb"

lemma idle_same: "same_sender tsk tsk' \<Longrightarrow> idle tsk' = idle tsk"
  by (simp add: idle_def same_sender_def)

lemma delack_idle:
  assumes "rx_inv W base read N tsk" and "idle tsk"
  shows "\<exists>tsk'. tcp_delack_stage out expected skb tsk = Ok tsk' \<and> rx_inv W base read N tsk' \<and> same_sender tsk tsk' \<and>
           tsk_fec tsk' = tsk_fec tsk \<and> tcb tsk' = tcb tsk \<and> ofo_queue tsk' = ofo_queue tsk"
proof (cases "expected")
  case True
  let ?s = "tcp_stop_delack_timer tsk"
  define t where "t = (if \<not> th_psh (tcp_hdr skb) \<and> skb_dlen skb > 1000 then ?s\<lparr>delacks := delacks ?s + 1\<rparr> else ?s)"
  have t: "rx_inv W base read N t" "same_sender tsk t" "tsk_fec t = tsk_fec tsk" "tcb t = tcb tsk" "ofo_queue t = ofo_queue tsk"
    using assms(1) unfolding t_def tcp_stop_delack_timer_def
    by (auto simp: rx_inv_def stream_inv_def sack_ready_def same_sender_def)
  have pend: "min (skb_queue_len (sk_write_queue ?s)) 3 = 0"
    using assms(2) by (auto simp: idle_def skb_queue_empty_def tcp_stop_delack_timer_def word_less_nat_alt unat_eq_0 min_def)
  have d: "data_states (sk_state tsk)" using assms(2) by (simp add: idle_def data_states_def)
  let ?z = "t\<lparr>delacks := 0\<rparr>"
  have z: "rx_inv W base read N ?z" using t(1) by (simp add: rx_inv_def stream_inv_def sack_ready_def)
  obtain rc u where u: "tcp_send_ack out ?z = Ok (rc, u)" "rx_inv W base read N u" "tsk_fec u = tsk_fec t"
    using send_ack_keeps [OF z, of out] by auto
  have u2: "same_sender tsk u" "tcb u = tcb tsk" "ofo_queue u = ofo_queue tsk"
  proof -
    have "same_sender tsk ?z" using t(2) by (simp add: same_sender_def)
    then show "same_sender tsk u" using same_sender_send_ack [OF u(1)] by (rule same_sender_trans)
    show "tcb u = tcb tsk" "ofo_queue u = ofo_queue tsk" using send_ack_frame [OF u(1)] t by auto
  qed
  let ?a = "(snd (add_timer 200 H_send_delack t))\<lparr>delack := Some (fst (add_timer 200 H_send_delack t))\<rparr>"
  have a: "rx_inv W base read N ?a" "same_sender tsk ?a" "tsk_fec ?a = tsk_fec tsk" "tcb ?a = tcb tsk" "ofo_queue ?a = ofo_queue tsk"
    using t by (auto simp: add_timer_def case_prod_beta rx_inv_def stream_inv_def sack_ready_def same_sender_def)
  have "tcp_delack_stage out expected skb tsk = Ok u \<or> tcp_delack_stage out expected skb tsk = Ok ?a \<or>
      tcp_delack_stage out expected skb tsk = Ok t"
    using True d pend u(1) unfolding tcp_delack_stage_def Let_def t_def by (auto simp: case_prod_beta)
  then show ?thesis using u u2 t a by fastforce
next
  case False
  then show ?thesis using assms(1) by (simp add: tcp_delack_stage_def)
qed

text \<open>The whole handler on such a segment, after the coding layer let it pass.\<close>

lemma input_state_idle:
  assumes "idle tsk" and "plain_data (snd_una (tcb tsk)) skb" and "tsk_fec tsk = Some fec"
    and "tcp_fec_input out mem skb tsk = Ok (consumed, t)"
  shows "tcp_input_state out shared mem skb tsk =
    (if consumed then Ok (0, t)
     else if \<not> tcp_verify_segment skb t then cbind (tcp_send_ack out t) (\<lambda>(_, tsk). Ok (0, tsk))
     else cbind (tcp_data_queue out skb t) (\<lambda>(_, s, tsk).
       case s of None \<Rightarrow> UB
       | Some s \<Rightarrow> cbind (tcp_delack_stage out (skb_seq skb = rcv_nxt (tcb t)) s tsk) (\<lambda>tsk. Ok (0, tsk))))"
proof -
  have s: "same_sender tsk t" by (rule same_sender_fec_input [OF assms(4)])
  then have st: "sk_state t = TCP_ESTABLISHED" "skb_queue_empty (sk_write_queue t)" "snd_una (tcb t) = snd_una (tcb tsk)"
    "snd_una (tcb t) \<le> snd_nxt (tcb t)"
    using assms(1) by (auto simp: same_sender_def idle_def)
  note p = assms(2) [unfolded plain_data_def]
  have ack: "tcp_ack_stage shared mem skb t = (True, t)"
    using st p by (simp add: tcp_ack_stage_def ack_valid_def Let_def)
  have dr: "tcp_drained_stage out skb t = Ok (True, t)" using st by (simp add: tcp_drained_stage_def)
  have tx: "tcp_text_stage out skb t = cbind (tcp_data_queue out skb t) (\<lambda>(_, s, tsk). Ok (s, tsk))"
    using st p by (simp add: tcp_text_stage_def data_states_def)
  have fin: "tcp_fin_stage out e skb u = Ok (True, u)" for e u using p by (simp add: tcp_fin_stage_def)
  have "tcp_synchronized out shared mem skb t =
    (if \<not> tcp_verify_segment skb t then cbind (tcp_send_ack out t) (\<lambda>(_, tsk). Ok (0, tsk)) else tcp_accepted out skb t)"
    using p ack by (simp add: tcp_synchronized_def Let_def)
  moreover have "tcp_accepted out skb t = cbind (tcp_data_queue out skb t) (\<lambda>(_, s, tsk).
       case s of None \<Rightarrow> UB
       | Some s \<Rightarrow> cbind (tcp_delack_stage out (skb_seq skb = rcv_nxt (tcb t)) s tsk) (\<lambda>tsk. Ok (0, tsk)))"
    unfolding tcp_accepted_def dr Let_def
    by (cases "tcp_data_queue out skb t") (auto simp: fin tx split: option.splits)
  ultimately show ?thesis using assms(1,3,4) by (simp add: tcp_input_state_def idle_def)
qed

definition coded_ok :: "bytes \<Rightarrow> u32 \<Rightarrow> (u32 \<Rightarrow> fec_block) \<Rightarrow> tcp_fec \<Rightarrow> sk_buff \<Rightarrow> bool" where
  "coded_ok W base blocks fec skb \<longleftrightarrow>
     (untagged skb \<and> slice_of W base skb) \<or>
     (\<exists>bid i. tagged FEC_SYM_SOURCE bid i skb \<and> source_segment W base fec (blocks bid) i skb) \<or>
     (\<exists>bid j. tagged FEC_SYM_REPAIR bid j skb \<and> repair_segment W base fec (blocks bid) j skb)"

lemma source_slice:
  assumes "source_segment W base fec B i skb"
  shows "slice_of W base skb"
  using assms fb_slice(2) [of W "unat (fec_sym_len fec)" B i] unfolding source_segment_def slice_of_def by auto

lemma slice_nonzero:
  assumes "base \<noteq> 0" and "unat base + length W < 2 ^ 32" and "slice_of W base skb" and "skb_end_seq skb = skb_seq skb + skb_dlen skb"
  shows "skb_seq skb \<noteq> 0" and "skb_end_seq skb \<noteq> 0"
proof -
  obtain n where n: "n + unat (skb_dlen skb) \<le> length W" "skb_seq skb = base + of_nat n" using assms(3) by (auto simp: slice_of_def)
  then have "skb_end_seq skb = base + of_nat (n + unat (skb_dlen skb))" using assms(4) by (simp add: add.assoc)
  then show "skb_end_seq skb \<noteq> 0" using stream_seq [OF assms(1,2) n(1)] by simp
  show "skb_seq skb \<noteq> 0" using stream_seq [OF assms(1,2), of n] n by simp
qed

lemma fec_input_keeps:
  assumes "base \<noteq> 0" and "unat base + length W < 2 ^ 32" and "rx_inv W base read N tsk" and "N + 128 < 2 ^ 32 - 1"
    and "tsk_fec tsk = Some fec" and "fec_ok W base blocks fec" and "coded_ok W base blocks fec skb"
  shows "\<exists>c tsk' fec'. tcp_fec_input out True skb tsk = Ok (c, tsk') \<and> rx_inv W base read (N + 128) tsk' \<and>
           tsk_fec tsk' = Some fec' \<and> fec_ok W base blocks fec' \<and> same_geometry fec fec' \<and> (c \<or> slice_of W base skb)"
  using assms(7) unfolding coded_ok_def
proof (elim disjE exE conjE)
  assume "untagged skb" "slice_of W base skb"
  then show ?thesis using assms(3,5,6) input_untagged [of skb out True tsk]
    by (intro exI [of _ False] exI [of _ tsk] exI [of _ fec]) (auto simp: same_geometry_def rx_inv_def)
next
  fix bid i assume h: "tagged FEC_SYM_SOURCE bid i skb" "source_segment W base fec (blocks bid) i skb"
  show ?thesis using fec_input_source [OF assms(1-6) h, of out] source_slice [OF h(2)] by blast
next
  fix bid j assume h: "tagged FEC_SYM_REPAIR bid j skb" "repair_segment W base fec (blocks bid) j skb"
  show ?thesis using fec_input_repair [OF assms(1-6) h, of out] by blast
qed

lemma input_state_keeps:
  assumes "base \<noteq> 0" and "unat base + length W < 2 ^ 32" and "rx_inv W base read N tsk" and "N + 129 < 2 ^ 32 - 1"
    and "tsk_fec tsk = Some fec" and "fec_ok W base blocks fec" and "coded_ok W base blocks fec skb"
    and "idle tsk" and "plain_data (snd_una (tcb tsk)) skb"
  shows "\<exists>tsk' fec'. tcp_input_state out shared True skb tsk = Ok (0, tsk') \<and> rx_inv W base read (N + 129) tsk' \<and>
           tsk_fec tsk' = Some fec' \<and> fec_ok W base blocks fec' \<and> same_geometry fec fec' \<and> same_sender tsk tsk'"
proof -
  have N: "N + 128 < 2 ^ 32 - 1" using assms(4) by simp
  obtain c t fec' where f: "tcp_fec_input out True skb tsk = Ok (c, t)" "rx_inv W base read (N + 128) t"
    "tsk_fec t = Some fec'" "fec_ok W base blocks fec'" "same_geometry fec fec'" "c \<or> slice_of W base skb"
    using fec_input_keeps [OF assms(1-3) N assms(5-7), of out] by blast
  note run = input_state_idle [OF assms(8,9,5) f(1), of shared]
  have ss: "same_sender tsk t" by (rule same_sender_fec_input [OF f(1)])
  have more: "rx_inv W base read (N + 128) u \<Longrightarrow> rx_inv W base read (N + 129) u" for u by (auto simp: rx_inv_def)
  show ?thesis
  proof (cases "c \<or> \<not> tcp_verify_segment skb t")
    case True
    obtain rc u where "tcp_send_ack out t = Ok (rc, u)" "rx_inv W base read (N + 128) u" "tsk_fec u = tsk_fec t"
      using send_ack_keeps [OF f(2), of out] by auto
    moreover from this(1) have "same_sender tsk u" by (rule same_sender_trans [OF ss same_sender_send_ack])
    ultimately show ?thesis using True run f ss more by (cases c) auto
  next
    case False
    then have sl: "slice_of W base skb" using f(6) by blast
    note nz = slice_nonzero [OF assms(1,2) sl]
    have "skb_end_seq skb = skb_seq skb + skb_dlen skb" using assms(9) by (simp add: plain_data_def)
    moreover have "length W < 2 ^ 32" using assms(2) by simp
    ultimately obtain s u where u: "tcp_data_queue out skb t = Ok (0, Some s, u)" "rx_inv W base read (N + 129) u" "tsk_fec u = tsk_fec t"
      using data_queue_total [OF _ f(2) _ sl nz, of out] assms(4) by (auto simp: add.commute)
    have "same_sender tsk u" by (rule same_sender_trans [OF ss same_sender_data_queue [OF u(1)]])
    moreover from this have "idle u" using assms(8) idle_same by blast
    then obtain v where "tcp_delack_stage out (skb_seq skb = rcv_nxt (tcb t)) s u = Ok v" "rx_inv W base read (N + 129) v"
      "same_sender u v" "tsk_fec v = tsk_fec u" using delack_idle [OF u(2)] by blast
    ultimately show ?thesis using False run u f same_sender_trans by (intro exI [of _ v]) auto
  qed
qed

section \<open>Runs of coded segments\<close>

text \<open>Segments arrive at \<open>tcp_input_state\<close>, the user reads; the result is everything read.\<close>

fun run_input :: "ip_layer \<Rightarrow> bool \<times> fec_rs_ctx option \<Rightarrow> rx_op list \<Rightarrow> tcp_sock \<Rightarrow> (bytes \<times> tcp_sock) cres" where
  "run_input out shared [] tsk = Ok ([], tsk)"
| "run_input out shared (Deliver skb # ops) tsk =
     cbind (tcp_input_state out shared True skb tsk) (\<lambda>(_, tsk). run_input out shared ops tsk)"
| "run_input out shared (Read n # ops) tsk =
     cbind (tcp_data_dequeue n tsk) (\<lambda>(d, tsk). cbind (run_input out shared ops tsk) (\<lambda>(d', tsk). Ok (d @ d', tsk)))"

lemma same_sender_dequeue: "tcp_data_dequeue n tsk = Ok (d, tsk') \<Longrightarrow> same_sender tsk tsk' \<and> tsk_fec tsk' = tsk_fec tsk"
  by (drule data_dequeue_frame) (simp add: same_sender_def)

lemma coded_ok_geometry: "same_geometry fec fec' \<Longrightarrow> coded_ok W base blocks fec' = coded_ok W base blocks fec"
  by (simp add: coded_ok_def fun_eq_iff same_geometry_segments)

text \<open>The receiver of a coded stream is in order: the stream so far, the receive slots, nothing to send.\<close>

definition fec_rx_inv :: "bytes \<Rightarrow> u32 \<Rightarrow> (u32 \<Rightarrow> fec_block) \<Rightarrow> tcp_fec \<Rightarrow> bytes \<Rightarrow> nat \<Rightarrow> u32 \<Rightarrow> tcp_sock \<Rightarrow> bool" where
  "fec_rx_inv W base blocks fec read N una tsk \<longleftrightarrow>
     rx_inv W base read N tsk \<and> idle tsk \<and> snd_una (tcb tsk) = una \<and>
     (\<exists>fec'. tsk_fec tsk = Some fec' \<and> fec_ok W base blocks fec' \<and> same_geometry fec fec')"

definition coded_op :: "bytes \<Rightarrow> u32 \<Rightarrow> (u32 \<Rightarrow> fec_block) \<Rightarrow> tcp_fec \<Rightarrow> u32 \<Rightarrow> rx_op \<Rightarrow> bool" where
  "coded_op W base blocks fec una op \<longleftrightarrow>
     (case op of Deliver skb \<Rightarrow> coded_ok W base blocks fec skb \<and> plain_data una skb | Read n \<Rightarrow> n < 2 ^ 32)"

lemma run_input_inv:
  assumes "base \<noteq> 0" and "unat base + length W < 2 ^ 32" and "fec_rx_inv W base blocks fec read N una tsk"
    and "N + 129 * length ops < 2 ^ 32 - 1" and "\<forall>op\<in>set ops. coded_op W base blocks fec una op"
  shows "\<exists>d tsk'. run_input out shared ops tsk = Ok (d, tsk') \<and>
           fec_rx_inv W base blocks fec (read @ d) (N + 129 * length ops) una tsk'"
  using assms(3-5)
proof (induction ops arbitrary: tsk read N)
  case (Cons op ops)
  obtain f where f: "tsk_fec tsk = Some f" "fec_ok W base blocks f" "same_geometry fec f"
    and i: "rx_inv W base read N tsk" "idle tsk" "snd_una (tcb tsk) = una"
    using Cons.prems(1) by (auto simp: fec_rx_inv_def)
  show ?case
  proof (cases op)
    case (Deliver skb)
    then have skb: "coded_ok W base blocks f skb" "plain_data (snd_una (tcb tsk)) skb"
      using Cons.prems(3) coded_ok_geometry [OF f(3)] i(3) by (auto simp: coded_op_def)
    have "N + 129 < 2 ^ 32 - 1" using Cons.prems(2) by simp
    from input_state_keeps [OF assms(1,2) i(1) this f(1,2) skb(1) i(2) skb(2), of out shared] obtain t f' where
      t: "tcp_input_state out shared True skb tsk = Ok (0, t)" "rx_inv W base read (N + 129) t"
      "tsk_fec t = Some f'" "fec_ok W base blocks f'" "same_geometry f f'" "same_sender tsk t" by blast
    have "fec_rx_inv W base blocks fec read (N + 129) una t"
      using t i f(3) idle_same [OF t(6)] by (auto simp: fec_rx_inv_def same_sender_def same_geometry_def)
    from Cons.IH [OF this] Cons.prems(2,3) obtain d t' where "run_input out shared ops t = Ok (d, t')"
      "fec_rx_inv W base blocks fec (read @ d) (N + 129 + 129 * length ops) una t'" by auto
    then show ?thesis using t(1) Deliver by (auto simp: add.assoc)
  next
    case (Read n)
    let ?d = "take n (pending (sk_receive_queue tsk))"
    have "length W < 2 ^ 32" using assms(2) by simp
    with data_dequeue_total [OF _ i(1), of n] Cons.prems(3) Read obtain t where
      t: "tcp_data_dequeue n tsk = Ok (?d, t)" "rx_inv W base (read @ ?d) N t" by (auto simp: coded_op_def)
    have ss: "same_sender tsk t" "tsk_fec t = tsk_fec tsk" using same_sender_dequeue [OF t(1)] by auto
    have "fec_rx_inv W base blocks fec (read @ ?d) N una t"
      using t(2) ss i f idle_same [OF ss(1)] by (auto simp: fec_rx_inv_def same_sender_def)
    moreover have "N + 129 * length ops < 2 ^ 32 - 1" using Cons.prems(2) by simp
    ultimately obtain d t' where r: "run_input out shared ops t = Ok (d, t')"
      "fec_rx_inv W base blocks fec ((read @ ?d) @ d) (N + 129 * length ops) una t'"
      using Cons.IH [of "read @ ?d" N t] Cons.prems(3) by auto
    have "fec_rx_inv W base blocks fec (read @ ?d @ d) (N + 129 * length (op # ops)) una t'"
      using r(2) by (auto simp: fec_rx_inv_def rx_inv_def)
    then show ?thesis using t(1) r(1) Read by auto
  qed
qed (use assms in auto)

text \<open>A fresh coding state: no block is being received.  This is what \<open>tcp_fec_enable\<close> sets up.\<close>

definition fec_fresh :: "tcp_fec \<Rightarrow> bool" where
  "fec_fresh fec \<longleftrightarrow> fec_geometry fec \<and> (\<forall>b\<in>set (fec_rx fec). \<not> rx_active b \<and> rx_symbol_buf b = None)"

lemma fec_ok_fresh: "fec_fresh fec \<Longrightarrow> fec_ok W base blocks fec"
  by (auto simp: fec_ok_def fec_fresh_def)

lemma fec_enable_fresh:
  assumes "tsk_fec tsk = None"
  shows "\<exists>fec. tcp_fec_enable (Some fec_shared_ctx) True True tsk = (0, tsk\<lparr>tsk_fec := Some fec\<rparr>) \<and> fec_fresh fec \<and>
           fec_k fec = TCP_FEC_DEFAULT_K \<and> fec_r fec = TCP_FEC_DEFAULT_R \<and> fec_sym_len fec = TCP_FEC_DEFAULT_SYM_LEN"
proof -
  obtain e where "fec_encoder_init (Some enc_zero) (Some fec_shared_ctx) (uint TCP_FEC_DEFAULT_K) (uint TCP_FEC_DEFAULT_R)
      (unat TCP_FEC_DEFAULT_SYM_LEN) None = Ok e"
    using default_inits(1) [of 8 2 enc_zero fec_shared_ctx] by (auto simp: TCP_FEC_DEFAULT_K_def TCP_FEC_DEFAULT_R_def)
  then show ?thesis using assms
    by (intro exI [of _ "\<lparr>fec_k = TCP_FEC_DEFAULT_K, fec_r = TCP_FEC_DEFAULT_R, fec_sym_len = TCP_FEC_DEFAULT_SYM_LEN,
          fec_ctx = Some fec_shared_ctx, tx_block_id = 0, tx_base_seq = 0, tx_filled = 0, tx_tail_len = 0, tx_enc = e,
          tx_src_buf = replicate 4096 0, tx_repair_buf = replicate 1024 0, fec_rx = replicate TCP_FEC_RX_BLOCKS rx_zero\<rparr>"])
      (simp add: tcp_fec_enable_def Let_def fec_fresh_def fec_geometry_def rx_zero_def TCP_FEC_DEFAULT_K_def
        TCP_FEC_DEFAULT_R_def TCP_FEC_DEFAULT_SYM_LEN_def FEC_BLK_MAX_K_def FEC_BLK_MAX_R_def)
qed

end
