(* ===== verification/Tcp_State.thy ===== *)
theory Tcp_State
  imports Tcp Tcp_Stream
begin

text \<open>
  The state diagram of a connection: which functions leave \<open>sk->state\<close> alone, the edges that each kind
  of step (user call, segment, timer callback) may take, and that a connection never goes back to
  an earlier phase of its life.
\<close>

section \<open>What leaves the state of a connection alone\<close>

named_theorems state_simps

lemma pure_keeps_state [state_simps]:
  "sk_state (wait_wakeup_sleep tsk) = sk_state tsk"
  "sk_state (tcp_recv_notify tsk) = sk_state tsk"
  "sk_state (sock_connected tsk) = sk_state tsk"
  "sk_state (tcp_stop_rto_timer tsk) = sk_state tsk"
  "sk_state (tcp_release_rto_timer tsk) = sk_state tsk"
  "sk_state (tcp_stop_delack_timer tsk) = sk_state tsk"
  "sk_state (tcp_release_delack_timer tsk) = sk_state tsk"
  "sk_state (cancel_linger tsk) = sk_state tsk"
  "sk_state (tcp_fec_release tsk) = sk_state tsk"
  "sk_state (socket_delete tsk) = sk_state tsk"
  "sk_state (tcp_notify_user tsk) = sk_state tsk"
  "sk_state (set_write_head skb tsk) = sk_state tsk"
  "sk_state (set_receive_head skb tsk) = sk_state tsk"
  "sk_state (upd_rx i g tsk) = sk_state tsk"
  by (simp_all add: wait_wakeup_sleep_def tcp_recv_notify_def sock_connected_def tcp_stop_rto_timer_def tcp_release_rto_timer_def
      tcp_stop_delack_timer_def tcp_release_delack_timer_def cancel_linger_def tcp_fec_release_def socket_delete_def tcp_notify_user_def
      set_write_head_def set_receive_head_def upd_rx_def)

lemma pair_keeps_state [state_simps]:
  "sk_state (snd (add_timer e h tsk)) = sk_state tsk"
  "sk_state (snd (tcp_alloc_skb o' n tsk)) = sk_state tsk"
  "sk_state (snd (stamp_skb skb tsk)) = sk_state tsk"
  by (simp_all add: add_timer_def tcp_alloc_skb_def stamp_skb_def Let_def case_prod_beta)

lemma set_state [state_simps]: "sk_state (tcp_set_state st tsk) = st"
  by (simp add: tcp_set_state_def)

lemma built_keeps_state [state_simps]:
  "sk_state (tcp_clear_timers tsk) = sk_state tsk"
  "sk_state (tcp_clear_queues tsk) = sk_state tsk"
  "sk_state (tcp_rtt tsk) = sk_state tsk"
  "sk_state (tcp_rearm_user_timeout tsk) = sk_state tsk"
  "sk_state (tcp_rearm_rto_timer tsk) = sk_state tsk"
  "sk_state (snd (syn_skb tsk)) = sk_state tsk"
  "sk_state (snd (fin_skb tsk)) = sk_state tsk"
  "sk_state (snd (repair_skb fec a b c d tsk)) = sk_state tsk"
  "sk_state (snd (tcp_fec_enable ctx ready mem tsk)) = sk_state tsk"
  by (auto simp: tcp_clear_timers_def tcp_clear_queues_def tcp_rtt_def tcp_rearm_user_timeout_def tcp_rearm_rto_timer_def syn_skb_def
      fin_skb_def repair_skb_def tcp_fec_enable_def Let_def case_prod_beta state_simps split: cres.splits option.splits)

lemma done_state [state_simps]:
  "sk_state (tcp_free tsk) = sk_state tsk"
  "sk_state (tcp_done tsk) = TCP_CLOSING"
  "sk_state (tcp_linger tsk) = TCP_CLOSING"
  "sk_state (tcp_enter_time_wait tsk) = TCP_TIME_WAIT"
  by (simp_all add: tcp_free_def tcp_done_def tcp_linger_def tcp_enter_time_wait_def Let_def case_prod_beta state_simps)

lemma loops_keep_state [state_simps]:
  "sk_state (tcp_consume_ofo_queue tsk) = sk_state tsk"
  "sk_state (clean_rto_loop una tsk) = sk_state tsk"
  "sk_state (tcp_clean_rto_queue una tsk) = sk_state tsk"
  "sk_state (fec_negotiated shared mem tsk) = sk_state tsk"
proof -
  show "sk_state (tcp_consume_ofo_queue tsk) = sk_state tsk"
    by (induction tsk rule: tcp_consume_ofo_queue.induct) (subst tcp_consume_ofo_queue.simps, auto split: option.splits cres.splits)
  show c: "sk_state (clean_rto_loop una tsk) = sk_state tsk" for tsk
    by (induction una tsk rule: clean_rto_loop.induct) (subst clean_rto_loop.simps, auto split: option.splits cres.splits)
  show "sk_state (tcp_clean_rto_queue una tsk) = sk_state tsk" by (simp add: tcp_clean_rto_queue_def Let_def c state_simps)
  show "sk_state (fec_negotiated shared mem tsk) = sk_state tsk"
    by (simp add: fec_negotiated_def case_prod_beta Let_def state_simps)
qed

text \<open>Operations that may fail: what they return when they do not.\<close>

lemma transmit_state:
  assumes "tcp_transmit_skb out skb seq tsk = Ok (rc, skb', t)"
  shows "sk_state t = sk_state tsk"
proof -
  have "tcp_write_options s u = Ok (s', u') \<Longrightarrow> sk_state u' = sk_state u" for s s' u u'
    by (drule write_options_frame) auto
  then show ?thesis using assms by (auto simp: tcp_transmit_skb_def Let_def cbind_Ok_iff case_prod_beta split: if_splits)
qed

lemma transmit_free_state: "transmit_and_free out skb seq tsk = Ok (rc, t) \<Longrightarrow> sk_state t = sk_state tsk"
  by (auto simp: transmit_and_free_def cbind_Ok_iff dest: transmit_state)

lemma queue_transmit_state: "tcp_queue_transmit_skb out skb tsk = Ok (rc, t) \<Longrightarrow> sk_state t = sk_state tsk"
  by (auto simp: tcp_queue_transmit_skb_def Let_def cbind_Ok_iff case_prod_beta stamp_skb_def state_simps split: if_splits dest!: transmit_state)

lemma send_state:
  "tcp_send_ack out tsk = Ok (rc, t) \<Longrightarrow> sk_state t = sk_state tsk"
  "tcp_send_synack out tsk = Ok (rc, t) \<Longrightarrow> sk_state t = sk_state tsk"
  "tcp_send_reset out tsk = Ok (rc, t) \<Longrightarrow> sk_state t = sk_state tsk"
  "tcp_send_delack out tsk = Ok t \<Longrightarrow> sk_state t = sk_state tsk"
proof -
  show a: "tcp_send_ack out tsk = Ok (rc, t) \<Longrightarrow> sk_state t = sk_state tsk" for tsk rc t
    by (auto simp: tcp_send_ack_def Let_def case_prod_beta state_simps split: if_splits dest!: transmit_free_state)
  show "tcp_send_synack out tsk = Ok (rc, t) \<Longrightarrow> sk_state t = sk_state tsk"
    by (auto simp: tcp_send_synack_def Let_def case_prod_beta state_simps split: if_splits dest!: transmit_free_state)
  show "tcp_send_reset out tsk = Ok (rc, t) \<Longrightarrow> sk_state t = sk_state tsk"
    by (auto simp: tcp_send_reset_def Let_def case_prod_beta state_simps dest!: transmit_free_state)
  show "tcp_send_delack out tsk = Ok t \<Longrightarrow> sk_state t = sk_state tsk"
    by (auto simp: tcp_send_delack_def cbind_Ok_iff state_simps dest!: a)
qed

lemma send_next_state: "send_next_loop out n items tsk = Ok (items', t) \<Longrightarrow> sk_state t = sk_state tsk"
proof (induction out n items tsk arbitrary: items' rule: send_next_loop.induct)
  case (3 out n nxt items tsk)
  obtain rc skb t1 items1 where t1: "tcp_transmit_skb out (skb_reset_header nxt) (snd_nxt (tcb tsk)) tsk = Ok (rc, skb, t1)"
    and r: "send_next_loop out n items (snd (stamp_skb skb t1)) = Ok (items1, t)"
    using 3(2) by (auto simp: cbind_Ok_iff Let_def case_prod_beta)
  have "sk_state t = sk_state (snd (stamp_skb skb t1))"
    by (rule 3(1) [OF refl prod.collapse r])
  then show ?case using transmit_state [OF t1] by (simp add: state_simps)
qed simp_all

lemma sacks_state: "tcp_calculate_sacks tsk = Ok t \<Longrightarrow> sk_state t = sk_state tsk"
  by (auto simp: tcp_calculate_sacks_def Let_def split: if_splits cres.splits)

lemma data_queue_state: "tcp_data_queue out skb tsk = Ok (rc, s, t) \<Longrightarrow> sk_state t = sk_state tsk"
  by (auto simp: tcp_data_queue_def Let_def cbind_Ok_iff case_prod_beta state_simps split: if_splits dest!: send_state(1) sacks_state)

lemma parse_opts_state: "tcp_parse_opts skb tsk = Ok t \<Longrightarrow> sk_state t = sk_state tsk"
  unfolding tcp_parse_opts_def Let_def cbind_Ok_iff by (elim exE conjE, drule sym) simp

lemma splice_state: "tcp_fec_splice out seq d tsk = Ok t \<Longrightarrow> sk_state t = sk_state tsk"
  by (auto simp: tcp_fec_splice_def Let_def cbind_Ok_iff dest!: data_queue_state)

lemma splice_loop_state: "splice_loop out bi L k b buf is tsk = Ok t \<Longrightarrow> sk_state t = sk_state tsk"
  by (induction "is" arbitrary: tsk) (auto simp: cbind_Ok_iff state_simps split: if_splits dest!: splice_state)

lemma recover_state: "tcp_fec_rx_recover out mem bi tsk = Ok t \<Longrightarrow> sk_state t = sk_state tsk"
  unfolding tcp_fec_rx_recover_def Let_def
  by (auto simp: cbind_Ok_iff state_simps split: if_splits option.splits cres.splits dest!: splice_loop_state send_state(1))

lemma cbind_state:
  "cbind r f = Ok v \<Longrightarrow> (\<And>x. r = Ok x \<Longrightarrow> f x = Ok v \<Longrightarrow> P) \<Longrightarrow> P"
  by (auto simp: cbind_Ok_iff)

lemma fec_input_state:
  assumes "tcp_fec_input out mem skb tsk = Ok (c, t)"
  shows "sk_state t = sk_state tsk"
proof -
  have r: "sk_state t = sk_state tsk"
    if "cbind r (\<lambda>b. cbind (tcp_fec_rx_recover out mem bi (upd_rx bi (\<lambda>_. b) (tsk\<lparr>tsk_fec := f\<rparr>))) (\<lambda>t. Ok (x, t))) = Ok (c, t)"
    for r :: "tcp_fec_block_rx cres" and bi f x
    using that by (auto simp: cbind_Ok_iff state_simps dest!: recover_state)
  let ?opt = "tcp_opt_fec_of (th_data skb)"
  consider "t = tsk" | slot fec where "(case slot of None \<Rightarrow> Ok (False, tsk\<lparr>tsk_fec := Some fec\<rparr>)
      | Some bi \<Rightarrow>
          if fo_type ?opt = FEC_SYM_SOURCE then
            if unat (fo_index ?opt) \<ge> unat (fec_k fec) then Ok (False, tsk\<lparr>tsk_fec := Some fec\<rparr>)
            else cbind (rx_source (unat (fec_sym_len (the (tsk_fec tsk)))) (unat (fo_index ?opt)) skb (fec_rx fec ! bi)) (\<lambda>b.
                 cbind (tcp_fec_rx_recover out mem bi (upd_rx bi (\<lambda>_. b) (tsk\<lparr>tsk_fec := Some fec\<rparr>))) (\<lambda>tsk. Ok (False, tsk)))
          else if fo_type ?opt = FEC_SYM_REPAIR then
            if sint (skb_dlen skb) < int (16 + unat (fec_sym_len (the (tsk_fec tsk)))) \<or> unat (fo_index ?opt) \<ge> unat (fec_r fec)
            then Ok (True, tsk\<lparr>tsk_fec := Some fec\<rparr>)
            else cbind (rx_repair (unat (fec_sym_len (the (tsk_fec tsk)))) (unat (fec_k fec)) (unat (fo_index ?opt)) skb (fec_rx fec ! bi)) (\<lambda>b.
                 cbind (tcp_fec_rx_recover out mem bi (upd_rx bi (\<lambda>_. b) (tsk\<lparr>tsk_fec := Some fec\<rparr>))) (\<lambda>tsk. Ok (True, tsk)))
          else Ok (False, tsk\<lparr>tsk_fec := Some fec\<rparr>)) = Ok (c, t)"
    using assms unfolding tcp_fec_input_def Let_def
    by (cases "tcp_fec_rx_slot mem (fo_block_id ?opt) (the (tsk_fec tsk))")
      (auto split: if_splits)
  then show ?thesis
  proof cases
    case (2 slot fec)
    then show ?thesis by (cases slot) (auto split: if_splits dest: r)
  qed simp
qed

lemma repair_state: "tcp_fec_send_repair out fec a b c d tsk = Ok (rc, t) \<Longrightarrow> sk_state t = sk_state tsk"
  by (auto simp: tcp_fec_send_repair_def case_prod_beta state_simps dest!: transmit_free_state)

lemma send_repairs_state: "send_repairs out fec a b ps tsk = Ok (rc, t) \<Longrightarrow> sk_state t = sk_state tsk"
  by (induction ps arbitrary: tsk) (auto simp: cbind_Ok_iff split: if_splits dest!: repair_state)

lemma emit_state:
  assumes "tcp_fec_emit_block out mem fec k tln tsk = Ok (rc, t)"
  shows "sk_state t = sk_state tsk"
proof (cases "k = 0 \<or> k > fec_k fec")
  case True
  then show ?thesis using assms by (auto simp: tcp_fec_emit_block_def split: if_splits)
next
  case F: False
  let ?L = "unat (fec_sym_len fec)" and ?r = "unat (fec_r fec)"
  let ?slots = "map (\<lambda>j. Some (buf_read (tx_repair_buf fec) (j * ?L) ?L)) [0..<?r]"
  show ?thesis
  proof (cases "block_encoder fec k")
    case enc: (Ok enc)
    show ?thesis
    proof (cases "fec_encoder_generate (sym_load (sk_write_queue tsk) fec) (Some enc) (Some ?slots) mem")
      case par: (Ok parity)
      show ?thesis using assms F par unfolding tcp_fec_emit_block_def Let_def enc cres.case
        by (simp, elim cbind_state) (auto split: if_splits dest!: send_repairs_state)
    qed (use assms F enc in \<open>simp_all add: tcp_fec_emit_block_def Let_def\<close>)
  qed (use assms F in \<open>simp_all add: tcp_fec_emit_block_def Let_def\<close>)
qed

lemma flush_state: "tcp_fec_flush out mem tsk = Ok (rc, t) \<Longrightarrow> sk_state t = sk_state tsk"
  by (auto simp: tcp_fec_flush_def split: if_splits option.splits dest!: emit_state)

lemma tag_state: "fec_tag_segment out mem skb tsk = Ok (s, t) \<Longrightarrow> sk_state t = sk_state tsk"
proof (cases "tsk_fec tsk")
  case (Some fec)
  assume "fec_tag_segment out mem skb tsk = Ok (s, t)"
  then obtain rc t1 f where "(if tx_filled fec \<ge> fec_k fec then tcp_fec_emit_block out mem fec (tx_filled fec) (tx_tail_len fec) tsk else Ok (0, tsk)) =
      Ok (rc, t1)" "t = t1\<lparr>tsk_fec := f\<rparr>"
    unfolding fec_tag_segment_def Some option.case Let_def by (elim cbind_state) force
  then show ?thesis by (auto split: if_splits dest!: emit_state)
qed (simp add: fec_tag_segment_def)

lemma register_state: "fec_register_symbol skb chunk tsk = Ok t \<Longrightarrow> sk_state t = sk_state tsk"
  by (auto simp: fec_register_symbol_def Let_def cbind_Ok_iff split: if_splits option.splits)

lemma complete_state: "fec_complete_block out mem tsk = Ok t \<Longrightarrow> sk_state t = sk_state tsk"
  by (auto simp: fec_complete_block_def cbind_Ok_iff split: if_splits option.splits dest!: emit_state)

lemma send_segment_state: "tcp_send_segment out mem optlen chunk final tsk = Ok t \<Longrightarrow> sk_state t = sk_state tsk"
  by (auto simp: tcp_send_segment_def Let_def cbind_Ok_iff case_prod_beta state_simps
      dest!: tag_state register_state queue_transmit_state complete_state)

lemma send_loop_state: "tcp_send_loop out mem optlen mss buf tsk = Ok t \<Longrightarrow> sk_state t = sk_state tsk"
proof (induction out mem optlen mss buf tsk rule: tcp_send_loop.induct)
  case (1 out mem optlen mss buf tsk)
  show ?case
  proof (cases "buf = []")
    case True
    then show ?thesis using 1(2) by (simp add: tcp_send_loop.simps)
  next
    case False
    then obtain t1 where "mss \<noteq> 0" "tcp_send_segment out mem optlen (take mss buf) (drop mss buf = []) tsk = Ok t1"
      "tcp_send_loop out mem optlen mss (drop mss buf) t1 = Ok t"
      using 1(2) by (subst (asm) tcp_send_loop.simps) (auto simp: cbind_Ok_iff split: if_splits)
    then show ?thesis using 1(1) [of t1] False send_segment_state by simp
  qed
qed

lemma tcp_send_state: "tcp_send out mem buf tsk = Ok (rc, t) \<Longrightarrow> sk_state t = sk_state tsk"
  by (auto simp: tcp_send_def Let_def cbind_Ok_iff state_simps dest!: send_loop_state)

lemma queue_fin_state: "tcp_queue_fin out mem tsk = Ok (rc, t) \<Longrightarrow> sk_state t = sk_state tsk"
  by (auto simp: tcp_queue_fin_def Let_def cbind_Ok_iff case_prod_beta state_simps dest!: flush_state queue_transmit_state)

section \<open>The state diagram\<close>

text \<open>The edges each event may take.  \<open>tcp_done\<close> leaves a connection that is over in \<open>TCP_CLOSING\<close>, from where
  the garbage collector of the socket layer removes it.\<close>

fun segment_edge :: "tcp_states \<Rightarrow> tcp_states set" where
  "segment_edge TCP_SYN_SENT = {TCP_ESTABLISHED, TCP_SYN_RECEIVED, TCP_CLOSING}"
| "segment_edge TCP_SYN_RECEIVED = {TCP_ESTABLISHED, TCP_CLOSE_WAIT, TCP_TIME_WAIT}"
| "segment_edge TCP_ESTABLISHED = {TCP_CLOSE_WAIT, TCP_TIME_WAIT}"
| "segment_edge TCP_FIN_WAIT_1 = {TCP_FIN_WAIT_2, TCP_CLOSING, TCP_TIME_WAIT}"
| "segment_edge TCP_FIN_WAIT_2 = {TCP_TIME_WAIT}"
| "segment_edge TCP_CLOSE_WAIT = {TCP_TIME_WAIT}"
| "segment_edge TCP_CLOSING = {TCP_TIME_WAIT}"
| "segment_edge TCP_LAST_ACK = {TCP_CLOSING, TCP_TIME_WAIT}"
| "segment_edge _ = {}"

fun tcp_edge :: "event \<Rightarrow> tcp_states \<Rightarrow> tcp_states set" where
  "tcp_edge (E_connect isn sport port addr) st = (if st = TCP_CLOSE then {TCP_SYN_SENT} else {})"
| "tcp_edge (E_write buf) st = {}"
| "tcp_edge (E_read len) st = {}"
| "tcp_edge E_close st =
     (if st \<in> {TCP_LISTEN, TCP_SYN_SENT, TCP_SYN_RECEIVED} then {TCP_CLOSING} else if st = TCP_ESTABLISHED then {TCP_FIN_WAIT_1} else {})"
| "tcp_edge E_abort st = {TCP_CLOSING}"
| "tcp_edge (E_segment skb) st = segment_edge st"
| "tcp_edge (E_timer h) st =
     (case h of
        H_connect_rto \<Rightarrow> if st = TCP_SYN_SENT then {TCP_CLOSING} else {}
      | H_retransmission_timeout \<Rightarrow>
          {TCP_CLOSING} \<union> (if st = TCP_CLOSE_WAIT then {TCP_LAST_ACK} else if st = TCP_ESTABLISHED then {TCP_FIN_WAIT_1} else {})
      | H_linger \<Rightarrow> {TCP_CLOSING}
      | H_user_timeout \<Rightarrow> {TCP_CLOSING}
      | _ \<Rightarrow> {})"

lemma synsent_edge:
  assumes "tcp_synsent out shared mem skb tsk = Ok t" and "sk_state tsk = TCP_SYN_SENT"
  shows "sk_state t \<in> insert TCP_SYN_SENT (segment_edge TCP_SYN_SENT)"
proof -
  have r: "sk_state (tcp_reset tsk) = TCP_CLOSING" using assms(2) by (simp add: tcp_reset_def Let_def state_simps)
  have o: "sk_state t = TCP_ESTABLISHED"
    if "cbind (tcp_send_ack out u) (\<lambda>(_, tsk). cbind (tcp_parse_opts skb (tcp_rearm_user_timeout tsk)) (\<lambda>tsk.
        Ok (sock_connected (fec_negotiated shared mem tsk)))) = Ok t" "sk_state u = TCP_ESTABLISHED" for u
    using that by (auto simp: cbind_Ok_iff state_simps dest!: send_state(1) parse_opts_state)
  have q: "sk_state t = TCP_SYN_RECEIVED"
    if "cbind (tcp_parse_opts skb u) (\<lambda>tsk. cbind (tcp_send_synack out tsk) (\<lambda>(_, tsk). Ok tsk)) = Ok t" "sk_state u = TCP_SYN_RECEIVED" for u
    using that by (auto simp: cbind_Ok_iff dest!: send_state(2) parse_opts_state)
  show ?thesis using assms(1) unfolding tcp_synsent_def Let_def
    using r assms(2) by (auto simp: state_simps split: if_splits dest!: o q)
qed

lemma ack_stage_edge:
  "sk_state (snd (tcp_ack_stage shared mem skb tsk)) = sk_state tsk \<or>
   sk_state tsk = TCP_SYN_RECEIVED \<and> sk_state (snd (tcp_ack_stage shared mem skb tsk)) = TCP_ESTABLISHED"
proof -
  have "sk_state (snd (ack_valid skb u)) = sk_state u" for u by (simp add: ack_valid_def Let_def state_simps)
  then show ?thesis by (simp add: tcp_ack_stage_def Let_def state_simps split: tcp_states.splits)
qed

lemma drained_edge:
  assumes "tcp_drained_stage out skb tsk = Ok (alive, t)"
  shows "sk_state t = sk_state tsk \<or> (sk_state tsk, sk_state t, alive) \<in>
    {(TCP_FIN_WAIT_1, TCP_FIN_WAIT_2, True), (TCP_CLOSING, TCP_TIME_WAIT, True), (TCP_LAST_ACK, TCP_CLOSING, False)}"
  using assms unfolding tcp_drained_stage_def
  by (auto simp: cbind_Ok_iff state_simps split: if_splits tcp_states.splits dest!: send_state(1))

lemma text_state: "tcp_text_stage out skb tsk = Ok (s, t) \<Longrightarrow> sk_state t = sk_state tsk"
  by (auto simp: tcp_text_stage_def cbind_Ok_iff split: if_splits dest!: data_queue_state)

lemma fin_edge:
  assumes "tcp_fin_stage out expected skb tsk = Ok (go, t)"
  shows "sk_state t = sk_state tsk \<or> (sk_state tsk, sk_state t) \<in>
    {(TCP_SYN_RECEIVED, TCP_CLOSE_WAIT), (TCP_ESTABLISHED, TCP_CLOSE_WAIT), (TCP_FIN_WAIT_1, TCP_TIME_WAIT), (TCP_FIN_WAIT_1, TCP_CLOSING),
     (TCP_FIN_WAIT_2, TCP_TIME_WAIT)}"
proof -
  have f: "sk_state (fin_transition u) = sk_state u \<or> (sk_state u, sk_state (fin_transition u)) \<in>
    {(TCP_SYN_RECEIVED, TCP_CLOSE_WAIT), (TCP_ESTABLISHED, TCP_CLOSE_WAIT), (TCP_FIN_WAIT_1, TCP_TIME_WAIT), (TCP_FIN_WAIT_1, TCP_CLOSING),
     (TCP_FIN_WAIT_2, TCP_TIME_WAIT)}" for u
    by (simp add: fin_transition_def state_simps split: tcp_states.splits)
  consider "t = tsk" | rc u v where "t = fin_transition (tcp_recv_notify v)" "tcp_send_ack out u = Ok (rc, v)" "sk_state u = sk_state tsk"
    using assms unfolding tcp_fin_stage_def Let_def by (auto split: if_splits elim!: cbind_state)
  then show ?thesis
  proof cases
    case 2
    then have "sk_state (tcp_recv_notify v) = sk_state tsk" using send_state(1) by (simp add: state_simps)
    then show ?thesis using f [of "tcp_recv_notify v"] 2(1) by simp
  qed simp
qed

lemma delack_state: "tcp_delack_stage out expected skb tsk = Ok t \<Longrightarrow> sk_state t = sk_state tsk"
  unfolding tcp_delack_stage_def Let_def tcp_send_next_def
  by (auto simp: cbind_Ok_iff case_prod_beta state_simps split: if_splits dest!: send_state(1) send_next_state)

lemma accepted_edge:
  assumes "tcp_accepted out skb tsk = Ok (rc, t)"
  shows "sk_state t \<in> insert (sk_state tsk) (segment_edge (sk_state tsk))"
proof -
  obtain alive t1 where d: "tcp_drained_stage out skb tsk = Ok (alive, t1)" using assms by (auto simp: tcp_accepted_def cbind_Ok_iff)
  show ?thesis
  proof (cases alive)
    case False
    then have "t = t1" using assms d by (simp add: tcp_accepted_def)
    then show ?thesis using drained_edge [OF d] False by auto
  next
    case True
    let ?e = "skb_seq skb = rcv_nxt (tcb t1)"
    obtain s t2 where x: "tcp_text_stage out skb t1 = Ok (s, t2)"
      and r: "cbind (tcp_fin_stage out ?e skb t2) (\<lambda>(go, tsk). case s of None \<Rightarrow> UB
        | Some skb \<Rightarrow> if \<not> go then Ok (0, tsk) else cbind (tcp_delack_stage out ?e skb tsk) (\<lambda>tsk. Ok (0, tsk))) = Ok (rc, t)"
      using assms d True by (auto simp: tcp_accepted_def Let_def elim!: cbind_state)
    obtain skb' where s: "s = Some skb'" using r by (cases s) (auto simp: cbind_Ok_iff)
    obtain go t3 where f: "tcp_fin_stage out ?e skb t2 = Ok (go, t3)"
      and l: "t = t3 \<or> tcp_delack_stage out ?e skb' t3 = Ok t"
      using r unfolding s option.case by (elim cbind_state) (auto simp: cbind_Ok_iff split: if_splits)
    have "sk_state t = sk_state t3" using l delack_state by blast
    then show ?thesis using drained_edge [OF d] True text_state [OF x] fin_edge [OF f] by auto
  qed
qed

lemma synchronized_edge:
  assumes "tcp_synchronized out shared mem skb tsk = Ok (rc, t)" and "sk_state tsk \<notin> {TCP_CLOSE, TCP_LISTEN, TCP_SYN_SENT}"
  shows "sk_state t \<in> insert (sk_state tsk) (segment_edge (sk_state tsk))"
proof -
  obtain go t1 where a: "tcp_ack_stage shared mem skb tsk = (go, t1)" by (cases "tcp_ack_stage shared mem skb tsk")
  have tw: "TCP_TIME_WAIT \<in> insert (sk_state tsk) (segment_edge (sk_state tsk))" using assms(2) by (cases "sk_state tsk") auto
  consider "sk_state t = sk_state tsk" | "sk_state t = TCP_TIME_WAIT" | "t = t1" | "tcp_accepted out skb t1 = Ok (rc, t)"
    using assms(1) a unfolding tcp_synchronized_def Let_def
    by (auto simp: cbind_Ok_iff state_simps split: if_splits dest!: send_state(1))
  then show ?thesis
  proof cases
    case 3
    then show ?thesis using ack_stage_edge [of shared mem skb tsk] a by auto
  next
    case 4
    then show ?thesis using accepted_edge [OF 4] ack_stage_edge [of shared mem skb tsk] a by auto
  qed (use tw in auto)
qed

lemma input_edge:
  assumes "tcp_input_state out shared mem skb tsk = Ok (rc, t)"
  shows "sk_state t \<in> insert (sk_state tsk) (segment_edge (sk_state tsk))"
proof (cases "sk_state tsk \<in> {TCP_CLOSE, TCP_LISTEN, TCP_SYN_SENT}")
  case True
  then consider "sk_state tsk = TCP_CLOSE" | "sk_state tsk = TCP_LISTEN" | "sk_state tsk = TCP_SYN_SENT" by blast
  then show ?thesis
  proof cases
    case 1
    then show ?thesis using assms by (auto simp: tcp_input_state_def tcp_closed_def split: if_splits dest!: send_state(3))
  next
    case 2
    then show ?thesis using assms by (simp add: tcp_input_state_def)
  next
    case 3
    then have "tcp_synsent out shared mem skb tsk = Ok t" using assms by (auto simp: tcp_input_state_def cbind_Ok_iff)
    from synsent_edge [OF this 3] show ?thesis unfolding 3 .
  qed
next
  case False
  then have "cbind (if tsk_fec tsk = None then Ok (False, tsk) else tcp_fec_input out mem skb tsk) (\<lambda>(consumed, tsk).
      if consumed then Ok (0, tsk) else tcp_synchronized out shared mem skb tsk) = Ok (rc, t)"
    using assms by (cases "sk_state tsk") (simp_all add: tcp_input_state_def)
  then obtain c t1 where f: "(if tsk_fec tsk = None then Ok (False, tsk) else tcp_fec_input out mem skb tsk) = Ok (c, t1)"
    and r: "(if c then Ok (0, t1) else tcp_synchronized out shared mem skb t1) = Ok (rc, t)"
    by (elim cbind_state) auto
  have s: "sk_state t1 = sk_state tsk" using f fec_input_state by (auto split: if_splits)
  show ?thesis
  proof (cases c)
    case True
    then show ?thesis using r s by simp
  next
    case nc: False
    then have "tcp_synchronized out shared mem skb t1 = Ok (rc, t)" using r by simp
    from synchronized_edge [OF this] False show ?thesis unfolding s .
  qed
qed

lemma retransmission_edge:
  assumes "tcp_retransmission_timeout out tsk = Ok t"
  shows "sk_state t \<in> insert (sk_state tsk) (tcp_edge (E_timer H_retransmission_timeout) (sk_state tsk))"
proof (cases "skb_peek (sk_write_queue (tcp_release_rto_timer tsk))")
  case None
  then show ?thesis using assms by (auto simp: tcp_retransmission_timeout_def Let_def state_simps)
next
  case (Some skb)
  have h: "sk_state (tcp_handle_fin_state u) \<in> insert (sk_state u) (tcp_edge (E_timer H_retransmission_timeout) (sk_state u))" for u
    by (simp add: tcp_handle_fin_state_def state_simps split: tcp_states.splits)
  obtain rc s t1 where t1: "tcp_transmit_skb out (skb_reset_header skb) (snd_una (tcb (tcp_release_rto_timer tsk))) (tcp_release_rto_timer tsk) = Ok (rc, s, t1)"
    using assms Some by (auto simp: tcp_retransmission_timeout_def Let_def cbind_Ok_iff)
  have s1: "sk_state t1 = sk_state tsk" using transmit_state [OF t1] by (simp add: state_simps)
  have "sk_state t = TCP_CLOSING \<or> sk_state t = sk_state tsk \<or> (\<exists>u. t = tcp_handle_fin_state u \<and> sk_state u = sk_state tsk)"
    using assms Some t1 s1 unfolding tcp_retransmission_timeout_def Let_def
    by (auto simp: state_simps case_prod_beta split: if_splits)
  then show ?thesis
  proof (elim disjE exE conjE)
    fix u assume "t = tcp_handle_fin_state u" "sk_state u = sk_state tsk"
    then show ?thesis using h [of u] by metis
  qed simp_all
qed

lemma connect_edge:
  assumes "tcp_v4_connect out isn sport port addr tsk = Ok (rc, t)" and "sk_state tsk = TCP_CLOSE"
  shows "sk_state t = TCP_SYN_SENT"
proof -
  have "sk_state u' = TCP_SYN_SENT" if "tcp_send_syn out u = Ok (rc', u')" "sk_state u = TCP_CLOSE" for u rc' u'
    using that by (auto simp: tcp_send_syn_def case_prod_beta state_simps dest!: queue_transmit_state)
  then show ?thesis using assms by (auto simp: tcp_v4_connect_def tcp_connect_def Let_def elim!: cbind_state)
qed

lemma read_state:
  assumes "tcp_read 1 (\<lambda>_. id) len tsk = Some (Ok (rc, d, t))"
  shows "sk_state t = sk_state tsk"
proof -
  have l: "sk_state t' = sk_state u" if "tcp_receive_loop (Suc 0) i (\<lambda>_. id) len acc u = Some (Ok (rc', d', t'))" for i acc u rc' d' t'
    using that by (auto simp: Let_def split: if_splits cres.splits dest!: data_dequeue_frame)
  have "sk_state t' = sk_state u" if "tcp_receive 1 (\<lambda>_. id) len u = Some (Ok (rc', d', t'))" for u rc' d' t'
    using that by (auto simp: tcp_receive_def cbind_Ok_iff state_simps simp del: tcp_receive_loop.simps dest!: l split: if_splits)
  then show ?thesis using assms by (auto simp: tcp_read_def split: tcp_states.splits if_splits)
qed

lemma abort_edge: "tcp_abort out tsk = Ok (rc, t) \<Longrightarrow> sk_state t = TCP_CLOSING"
  by (auto simp: tcp_abort_def cbind_Ok_iff state_simps)

lemma close_edge:
  assumes "tcp_close out mem tsk = Ok (rc, t)"
  shows "sk_state t \<in> insert (sk_state tsk) (tcp_edge E_close (sk_state tsk))"
  using assms by (auto simp: tcp_close_def cbind_Ok_iff state_simps split: tcp_states.splits dest!: queue_fin_state)

lemma timer_edge:
  assumes "run_handler out h tsk = Ok t"
  shows "sk_state t \<in> insert (sk_state tsk) (tcp_edge (E_timer h) (sk_state tsk))"
proof (cases h)
  case H_connect_rto
  then show ?thesis using assms
    by (auto simp: run_handler_def tcp_connect_rto_def Let_def cbind_Ok_iff state_simps split: if_splits option.splits dest!: transmit_state)
next
  case H_retransmission_timeout
  then show ?thesis using assms retransmission_edge [of out tsk t] by (simp add: run_handler_def)
next
  case H_send_delack
  then show ?thesis using assms send_state(4) by (simp add: run_handler_def)
next
  case H_user_timeout
  then show ?thesis using assms abort_edge by (auto simp: run_handler_def tcp_user_timeout_def cbind_Ok_iff)
qed (use assms in \<open>auto simp: run_handler_def state_simps\<close>)

lemma step_edge: "tcp_step out shared mem e tsk t \<Longrightarrow> sk_state t \<in> insert (sk_state tsk) (tcp_edge e (sk_state tsk))"
proof (induction rule: tcp_step.induct)
  case (step_write buf tsk rc t)
  then show ?case by (auto simp: tcp_write_def split: if_splits tcp_states.splits dest!: tcp_send_state)
qed (use connect_edge read_state close_edge abort_edge input_edge timer_edge in \<open>auto simp del: tcp_edge.simps(4,7) segment_edge.simps\<close>)

text \<open>How far a connection has come.\<close>

fun phase :: "tcp_states \<Rightarrow> nat" where
  "phase TCP_CLOSE = 0"
| "phase TCP_LISTEN = 0"
| "phase TCP_SYN_SENT = 1"
| "phase TCP_SYN_RECEIVED = 2"
| "phase TCP_ESTABLISHED = 3"
| "phase TCP_FIN_WAIT_1 = 4"
| "phase TCP_CLOSE_WAIT = 4"
| "phase TCP_FIN_WAIT_2 = 5"
| "phase TCP_LAST_ACK = 5"
| "phase TCP_CLOSING = 6"
| "phase TCP_TIME_WAIT = 6"

lemma edge_phase: "st' \<in> insert st (tcp_edge e st) \<Longrightarrow> phase st \<le> phase st'"
  by (cases e; cases st) (auto split: handler.splits)

lemma run_phase: "tcp_run out shared mem tsk es t \<Longrightarrow> phase (sk_state tsk) \<le> phase (sk_state t)"
proof (induction rule: tcp_run.induct)
  case (run_snoc tsk es tsk1 e tsk2)
  then show ?case using edge_phase [OF step_edge [OF run_snoc(2)]] by simp
qed simp

end
