(* ===== verification/Tcp_Fec_Block.thy ===== *)
theory Tcp_Fec_Block
  imports Tcp_Fec_Rx
begin

text \<open>
  Erasures repaired: when as many symbols of a block have arrived at \<open>tcp_input_state\<close> as it has
  source segments, sources or repairs, in any order and with repetitions, the whole block has been
  handed to reassembly.
\<close>

section \<open>Any \<open>k\<close> symbols complete a block\<close>

text \<open>Which segments of a stream have been gathered, by number: \<open>segs\<close> are the segments the peer
  sent, \<open>cur i\<close> is the buffer that stands for segment \<open>i\<close>: the one that was sent, or a rebuilt one.\<close>

definition same_place :: "sk_buff \<Rightarrow> sk_buff \<Rightarrow> bool" where
  "same_place s t \<longleftrightarrow> skb_seq s = skb_seq t \<and> skb_dlen s = skb_dlen t \<and> skb_end_seq s = skb_end_seq t"

definition gathered_upto :: "nat \<Rightarrow> nat \<Rightarrow> sk_buff list \<Rightarrow> nat set \<Rightarrow> tcp_sock \<Rightarrow> bool" where
  "gathered_upto lo hi segs I tsk \<longleftrightarrow>
     (\<exists>cur. tiling lo hi (cur ` {..<length segs}) \<and> inj_on cur {..<length segs} \<and>
        (\<forall>i<length segs. same_place (cur i) (segs ! i) \<and> skb_id (cur i) < next_skb tsk \<and> (i \<notin> I \<longrightarrow> cur i = segs ! i)) \<and>
        gathered lo hi (cur ` {..<length segs}) (cur ` I) tsk) \<and>
     settled tsk \<and> I \<subseteq> {..<length segs} \<and> rcv_wnd (tcb tsk) \<noteq> 0"

lemma gathered_upto_cong:
  "tcb t' = tcb t \<Longrightarrow> ofo_queue t' = ofo_queue t \<Longrightarrow> next_skb t \<le> next_skb t' \<Longrightarrow>
     gathered_upto lo hi segs I t \<Longrightarrow> gathered_upto lo hi segs I t'"
  unfolding gathered_upto_def gathered_cong [of t' t] by (metis order.strict_trans2)

text \<open>Replacing a tile that has not been delivered by another one at the same place.\<close>

lemma tiling_swap:
  assumes "tiling lo hi (cur ` K)" and "inj_on cur K" and "i \<in> K" and "same_place s (cur i)" and "\<forall>x\<in>cur ` K. skb_id s \<noteq> skb_id x"
  shows "tiling lo hi (cur(i := s) ` K)" and "inj_on (cur(i := s)) K"
proof -
  have p: "skb_seq s = skb_seq (cur i)" "skb_dlen s = skb_dlen (cur i)" "skb_end_seq s = skb_end_seq (cur i)"
    using assms(4) by (auto simp: same_place_def)
  have fresh: "s \<notin> cur ` K" using assms(5) by auto
  show "inj_on (cur(i := s)) K" using assms(2) fresh by (auto simp: inj_on_def)
  have seq: "skb_seq ((cur(i := s)) j) = skb_seq (cur j)" "skb_dlen ((cur(i := s)) j) = skb_dlen (cur j)"
    "skb_end_seq ((cur(i := s)) j) = skb_end_seq (cur j)" for j using p by auto
  have id: "skb_id ((cur(i := s)) a) \<noteq> skb_id ((cur(i := s)) b)" if ab: "a \<in> K" "b \<in> K" "a \<noteq> b" for a b
  proof -
    have "cur a \<noteq> cur b" using assms(2) ab by (meson inj_on_def)
    then have "skb_id (cur a) \<noteq> skb_id (cur b)" using assms(1) ab by (auto simp: tiling_def)
    then show ?thesis using assms(5) ab by auto
  qed
  have sep: "unat (skb_seq (cur a)) + unat (skb_dlen (cur a)) \<le> unat (skb_seq (cur b)) \<or>
      unat (skb_seq (cur b)) + unat (skb_dlen (cur b)) \<le> unat (skb_seq (cur a))" if ab: "a \<in> K" "b \<in> K" "a \<noteq> b" for a b
  proof -
    have "cur a \<noteq> cur b" using assms(2) ab by (meson inj_on_def)
    then show ?thesis using assms(1) ab by (auto simp: tiling_def)
  qed
  show "tiling lo hi (cur(i := s) ` K)"
    using assms(1) id sep unfolding tiling_def ball_simps bex_simps seq by metis
qed

lemma sorted_seq_distinct: "sorted_wrt (\<lambda>a b. skb_seq a < skb_seq b) xs \<Longrightarrow> distinct xs"
  by (induction xs) auto

lemma gathered_length:
  assumes "gathered lo hi T D tsk" and "finite T"
  shows "length (q_list (ofo_queue tsk)) \<le> card T"
proof -
  have s: "sorted_wrt (\<lambda>a b. skb_seq a < skb_seq b) (q_list (ofo_queue tsk))" using assms(1) by (simp add: gathered_def)
  then have "distinct (q_list (ofo_queue tsk))" by (rule sorted_seq_distinct)
  then have "length (q_list (ofo_queue tsk)) = card (set (q_list (ofo_queue tsk)))" by (simp add: distinct_card)
  also have "\<dots> = card (skb_get ` {s\<in>D. rcv_nxt (tcb tsk) \<le> skb_seq s})" using assms(1) by (simp add: gathered_def)
  also have "\<dots> \<le> card {s\<in>D. rcv_nxt (tcb tsk) \<le> skb_seq s}"
    using assms by (intro card_image_le) (auto simp: gathered_def intro: finite_subset)
  also have "\<dots> \<le> card T" using assms by (intro card_mono) (auto simp: gathered_def)
  finally show ?thesis .
qed

lemma deliver_tile:
  fixes n :: nat
  assumes "tiling lo hi (cur ` {..<n})" and "hi < 2 ^ 32" and "inj_on cur {..<n}" and "n < 2 ^ 32 - 1"
    and "gathered lo hi (cur ` {..<n}) (cur ` I) tsk" and "settled tsk" and "I \<subseteq> {..<n}" and "i < n" and "i \<notin> I"
    and "rcv_wnd (tcb tsk) \<noteq> 0" and "tcp_data_queue out (cur i) tsk = Ok (rc, x, tsk')"
  shows "gathered lo hi (cur ` {..<n}) (cur ` insert i I) tsk' \<and> settled tsk'"
proof -
  have "card (cur ` {..<n}) \<le> n" using card_image_le [of "{..<n}" cur] by simp
  then have l: "length (q_list (ofo_queue tsk)) < 2 ^ 32 - 1" using gathered_length [OF assms(5)] assms(4) by simp
  have "cur i \<notin> cur ` I" using assms(3,7-9) by (auto simp: inj_on_def)
  then show ?thesis using deliver_gathers [OF assms(1,2,5,6) _ _ assms(10) l assms(11)] assms(8) by simp
qed

lemma gathered_swap:
  assumes "gathered lo hi (cur ` K) (cur ` I) tsk" and "inj_on cur K" and "I \<subseteq> K" and "i \<in> K" and "i \<notin> I" and "same_place s (cur i)"
  shows "gathered lo hi (cur(i := s) ` K) (cur(i := s) ` I) tsk"
proof -
  have p: "skb_seq s = skb_seq (cur i)" using assms(6) by (simp add: same_place_def)
  have I: "cur(i := s) ` I = cur ` I" using assms(5) by auto
  have "cur i \<notin> cur ` I" using assms(2-5) by (auto simp: inj_on_def)
  then have n: "\<not> skb_seq (cur i) < rcv_nxt (tcb tsk)" using assms(1,4) by (auto simp: gathered_def)
  have seq: "skb_seq ((cur(i := s)) j) = skb_seq (cur j)" for j using p by simp
  have "cur ` I \<subseteq> cur(i := s) ` K" using assms(3,5) by (auto simp: image_iff)
  moreover have "\<forall>x\<in>cur(i := s) ` K. skb_seq x < rcv_nxt (tcb tsk) \<longrightarrow> x \<in> cur ` I"
    using assms(1) n p by (auto simp: gathered_def)
  moreover have "(\<exists>x\<in>cur(i := s) ` K. skb_seq x = v) = (\<exists>x\<in>cur ` K. skb_seq x = v)" for v
    unfolding bex_simps seq ..
  ultimately show ?thesis using assms(1) unfolding gathered_def I by auto
qed

lemma upto_arrive:
  assumes "gathered_upto lo hi segs I tsk" and "hi < 2 ^ 32" and "length segs < 2 ^ 32 - 1"
    and "i < length segs" and "i \<notin> I" and "tcp_data_queue out (segs ! i) tsk = Ok (rc, x, tsk')"
  shows "gathered_upto lo hi segs (insert i I) tsk'"
proof -
  obtain cur where c: "tiling lo hi (cur ` {..<length segs})" "inj_on cur {..<length segs}"
    "\<forall>i<length segs. same_place (cur i) (segs ! i) \<and> skb_id (cur i) < next_skb tsk \<and> (i \<notin> I \<longrightarrow> cur i = segs ! i)"
    "gathered lo hi (cur ` {..<length segs}) (cur ` I) tsk" "settled tsk" "I \<subseteq> {..<length segs}" "rcv_wnd (tcb tsk) \<noteq> 0"
    using assms(1) unfolding gathered_upto_def by blast
  have "cur i = segs ! i" using c(3) assms(4,5) by blast
  then have g: "gathered lo hi (cur ` {..<length segs}) (cur ` insert i I) tsk' \<and> settled tsk'"
    using deliver_tile [OF c(1) assms(2) c(2) assms(3) c(4-6) assms(4,5) c(7)] assms(6) by metis
  have ss: "same_sender tsk tsk'" by (rule same_sender_data_queue [OF assms(6)])
  then have "\<forall>i<length segs. skb_id (cur i) < next_skb tsk'" using c(3) by (auto simp: same_sender_def intro: less_le_trans)
  then show ?thesis using c g ss assms(4) unfolding gathered_upto_def
    by (intro conjI exI [of _ cur]) (auto simp: same_sender_def)
qed

lemma upto_splice:
  assumes "gathered_upto lo hi segs I tsk" and "hi < 2 ^ 32" and "length segs < 2 ^ 32 - 1"
    and "i < length segs" and "i \<notin> I" and "tcp_fec_splice out (skb_seq (segs ! i)) d tsk = Ok tsk'"
    and "of_nat (length d) = skb_dlen (segs ! i)" and "skb_end_seq (segs ! i) = skb_seq (segs ! i) + skb_dlen (segs ! i)"
  shows "gathered_upto lo hi segs (insert i I) tsk'"
proof -
  obtain cur where c: "tiling lo hi (cur ` {..<length segs})" "inj_on cur {..<length segs}"
    "\<forall>i<length segs. same_place (cur i) (segs ! i) \<and> skb_id (cur i) < next_skb tsk \<and> (i \<notin> I \<longrightarrow> cur i = segs ! i)"
    "gathered lo hi (cur ` {..<length segs}) (cur ` I) tsk" "settled tsk" "I \<subseteq> {..<length segs}" "rcv_wnd (tcb tsk) \<noteq> 0"
    using assms(1) unfolding gathered_upto_def by blast
  let ?t = "tsk\<lparr>next_skb := next_skb tsk + 1\<rparr>"
  obtain s rc x where s: "tcp_data_queue out s ?t = Ok (rc, x, tsk')" "skb_id s = next_skb tsk" "skb_seq s = skb_seq (segs ! i)"
    "skb_dlen s = of_nat (length d)" "skb_end_seq s = skb_seq (segs ! i) + of_nat (length d)"
    using assms(6) by (auto simp: tcp_fec_splice_def Let_def cbind_Ok_iff alloc_skb_def)
  let ?cur = "cur(i := s)" and ?K = "{..<length segs}"
  have sp: "same_place s (segs ! i)" "same_place s (cur i)" using s(3-5) c(3) assms(4,7,8) by (auto simp: same_place_def)
  have fresh: "\<forall>x\<in>cur ` ?K. skb_id s \<noteq> skb_id x" using c(3) s(2) by force
  have iK: "i \<in> ?K" using assms(4) by simp
  note sw = tiling_swap [OF c(1,2) iK sp(2) fresh] and gs = gathered_swap [OF c(4,2,6) iK assms(5) sp(2)]
  have g: "gathered lo hi (?cur ` ?K) (?cur ` I) ?t" "settled ?t" using gs c(5) gathered_cong [of ?t tsk] by auto
  have "?cur i = s" by simp
  then have d: "gathered lo hi (?cur ` ?K) (?cur ` insert i I) tsk' \<and> settled tsk'"
    using deliver_tile [OF sw(1) assms(2) sw(2) assms(3) g c(6) assms(4,5)] c(7) s(1) by auto
  have ss: "same_sender ?t tsk'" by (rule same_sender_data_queue [OF s(1)])
  then have "next_skb tsk < next_skb tsk'" by (simp add: same_sender_def)
  then have "\<forall>j<length segs. skb_id (?cur j) < next_skb tsk'" using c(3) s(2) by (auto intro: less_trans)
  then show ?thesis using c(3,6,7) d ss assms(4) sw sp unfolding gathered_upto_def
    by (intro conjI exI [of _ ?cur]) (auto simp: same_sender_def)
qed

lemma insert_scan_dup:
  "x \<in> set xs \<Longrightarrow> skb_seq x = skb_seq s \<Longrightarrow> sorted_wrt (\<lambda>a b. skb_seq a < skb_seq b) xs \<Longrightarrow> insert_scan s xs = Duplicate"
  by (induction xs) (auto dest: less_not_sym)

text \<open>A segment that is already in the out-of-order queue is left out.\<close>

lemma upto_dup:
  assumes "gathered_upto lo hi segs I tsk" and "i \<in> I" and "rcv_nxt (tcb tsk) \<le> skb_seq (segs ! i)"
    and "tcp_data_queue out (segs ! i) tsk = Ok (rc, x, tsk')"
  shows "gathered_upto lo hi segs I tsk'"
proof -
  obtain cur where c: "\<forall>i<length segs. same_place (cur i) (segs ! i)"
    "gathered lo hi (cur ` {..<length segs}) (cur ` I) tsk" "settled tsk" "I \<subseteq> {..<length segs}" "rcv_wnd (tcb tsk) \<noteq> 0"
    using assms(1) unfolding gathered_upto_def by blast
  note g = c(2) [unfolded gathered_def]
  have sp: "skb_seq (cur i) = skb_seq (segs ! i)" using c(1,4) assms(2) by (auto simp: same_place_def)
  then have q: "skb_get (cur i) \<in> set (q_list (ofo_queue tsk))" "skb_seq (skb_get (cur i)) = skb_seq (segs ! i)"
    using g assms(2,3) by auto
  have dup: "insert_scan (segs ! i) (q_list (ofo_queue tsk)) = Duplicate" by (rule insert_scan_dup [OF q]) (use g in simp)
  have ne: "skb_seq (segs ! i) \<noteq> rcv_nxt (tcb tsk)" using c(3) q unfolding settled_def by metis
  have "tcb tsk' = tcb tsk" "ofo_queue tsk' = ofo_queue tsk"
    using data_queue_effect(2) [OF assms(4) c(5) ne] dup by (auto simp: tcp_data_insert_ordered_def)
  moreover have "next_skb tsk \<le> next_skb tsk'" using same_sender_data_queue [OF assms(4)] by (simp add: same_sender_def)
  ultimately show ?thesis using gathered_upto_cong assms(1) by blast
qed

text \<open>The segments of a block, as its sender emitted them.\<close>

definition block_segs :: "bytes \<Rightarrow> u32 \<Rightarrow> tcp_fec \<Rightarrow> fec_block \<Rightarrow> sk_buff list \<Rightarrow> bool" where
  "block_segs W base fec B segs \<longleftrightarrow> length segs = length (fb_syms B) \<and> segs \<noteq> [] \<and>
     (\<forall>i<length segs. source_segment W base fec B i (segs ! i) \<and> skb_end_seq (segs ! i) = skb_seq (segs ! i) + skb_dlen (segs ! i))"

lemma gathered_upto_upd [simp]: "gathered_upto lo hi segs I (upd_rx bi f tsk) = gathered_upto lo hi segs I tsk"
  by (rule iffI; erule gathered_upto_cong [rotated 3]) (simp_all add: upd_rx_def)

lemma splice_loop_upto:
  assumes "hi < 2 ^ 32" and "block_segs W base fec B segs" and "L = unat (fec_sym_len fec)"
    and "unat (rx_tail_len b) = fb_tail B" and "rx_base_seq b = base + of_nat (fb_off B)"
    and "\<forall>i<length segs. buf_read buf (i * L) L = fb_syms B ! i"
    and "gathered_upto lo hi segs I tsk" and "set is \<subseteq> {..<length segs}" and "distinct is"
    and "\<forall>i\<in>set is. \<not> rx_src_present b ! i \<longrightarrow> i \<notin> I"
    and "splice_loop out bi L (length segs) b buf is tsk = Ok tsk'"
  shows "gathered_upto lo hi segs (I \<union> {i\<in>set is. \<not> rx_src_present b ! i}) tsk'"
  using assms(7-11)
proof (induction "is" arbitrary: tsk I)
  case (Cons i "is")
  show ?case
  proof (cases "rx_src_present b ! i")
    case True
    then have "{j\<in>set (i # is). \<not> rx_src_present b ! j} = {j\<in>set is. \<not> rx_src_present b ! j}" by auto
    then show ?thesis using Cons True by simp
  next
    case False
    have len: "length segs = length (fb_syms B)" using assms(2) by (simp add: block_segs_def)
    have i: "i < length segs" "i \<notin> I" using Cons.prems(2,4) False by auto
    have src: "source_segment W base fec B i (segs ! i)" "skb_end_seq (segs ! i) = skb_seq (segs ! i) + skb_dlen (segs ! i)"
      using assms(2) i(1) by (auto simp: block_segs_def)
    let ?d = "buf_read buf (i * L) (splice_len L (length segs) (rx_tail_len b) i)"
    have ld: "length ?d = fb_len L B i"
      using splice_data(2) [of W L B b i buf] src(1) assms(3,4,6) i(1) len by (simp add: source_segment_def)
    have seq: "rx_base_seq b + of_nat i * of_nat L = skb_seq (segs ! i)"
      using src(1) assms(3,5) by (simp add: source_segment_def add.assoc)
    have dl: "of_nat (length ?d) = skb_dlen (segs ! i)" 
    proof -
      have "length ?d = unat (skb_dlen (segs ! i))" using ld src(1) assms(3) by (simp add: source_segment_def)
      then show ?thesis by (simp only: word_of_nat_eq_iff unsigned_of_nat) simp
    qed
    obtain t where t: "tcp_fec_splice out (skb_seq (segs ! i)) ?d tsk = Ok t"
      "splice_loop out bi L (length segs) b buf is
         (upd_rx bi (\<lambda>b. b\<lparr>rx_src_present := (rx_src_present b)[i := True], rx_src_count := rx_src_count b + 1\<rparr>) t) = Ok tsk'"
      using Cons.prems(5) False by (auto simp: cbind_Ok_iff seq)
    have "length segs < 2 ^ 32 - 1" using src(1) len by (simp add: source_segment_def block_of_def block_ok_def)
    from upto_splice [OF Cons.prems(1) assms(1) this i t(1) dl src(2)]
    have "gathered_upto lo hi segs (insert i I)
        (upd_rx bi (\<lambda>b. b\<lparr>rx_src_present := (rx_src_present b)[i := True], rx_src_count := rx_src_count b + 1\<rparr>) t)" by simp
    from Cons.IH [OF this _ _ _ t(2)] Cons.prems(2-4)
    have "gathered_upto lo hi segs (insert i I \<union> {j\<in>set is. \<not> rx_src_present b ! j}) tsk'" by auto
    moreover have "insert i I \<union> {j\<in>set is. \<not> rx_src_present b ! j} = I \<union> {j\<in>set (i # is). \<not> rx_src_present b ! j}"
      using False by auto
    ultimately show ?thesis by simp
  qed
qed simp

lemma recover_ready_upto:
  assumes "hi < 2 ^ 32" and "block_segs W base fec B segs" and "gathered_upto lo hi segs I tsk"
    and "tsk_fec tsk = Some fec" and "fec_geometry fec" and "b = fec_rx fec ! bi"
    and "slot_ok W base fec B b" and "rx_ready fec b" and "I \<subseteq> {i. i < length segs \<and> rx_src_present b ! i}"
    and "tcp_fec_rx_recover out True bi tsk = Ok tsk'"
  shows "gathered_upto lo hi segs (I \<union> {i. i < length segs \<and> \<not> rx_src_present b ! i}) tsk'"
proof -
  let ?L = "unat (fec_sym_len fec)" and ?k = "length (fb_syms B)"
  note r = slot_ready [OF assms(7,8)]
  have len: "length segs = ?k" using assms(2) by (simp add: block_segs_def)
  obtain buf where buf: "rx_symbol_buf b = Some buf" "buf_holds fec B (rx_src_present b) (rx_red_present b) buf"
    using assms(7) by (auto simp: slot_ok_def)
  have blk: "block_ok (fb_syms B) ?L" "?k \<le> unat (fec_k fec)" using assms(7) by (auto simp: slot_ok_def block_of_def)
  obtain buf' where d: "rx_decode True fec b ?k buf = Ok buf'" "\<forall>i<?k. buf_read buf' (i * ?L) ?L = fb_syms B ! i"
    using rx_decode_holds [OF assms(5) blk buf(2) r(3)] by blast
  have tb: "unat (rx_tail_len b) = fb_tail B" "rx_base_seq b = base + of_nat (fb_off B)" using assms(7) r(2) by (auto simp: slot_ok_def)
  let ?t = "upd_rx bi (\<lambda>b. b\<lparr>rx_symbol_buf := Some buf'\<rparr>) tsk"
  obtain t2 rc where t: "splice_loop out bi ?L ?k b buf' [0..<?k] ?t = Ok t2"
    "tcp_send_ack out (upd_rx bi (\<lambda>b. b\<lparr>rx_recovered := True\<rparr>) t2) = Ok (rc, tsk')"
    using assms(10) rx_recover_ready [OF assms(4,6,8) buf(1), of True buf' out] d(1) r(1) by (auto simp: cbind_Ok_iff)
  have g: "gathered_upto lo hi segs I ?t" using assms(3) by simp
  have all: "\<forall>i<length segs. buf_read buf' (i * ?L) ?L = fb_syms B ! i" using d(2) len by simp
  have "gathered_upto lo hi segs (I \<union> {i\<in>set [0..<length segs]. \<not> rx_src_present b ! i}) t2"
    by (rule splice_loop_upto [OF assms(1,2) refl tb all g]) (use assms(9) t(1) len in auto)
  moreover have "{i\<in>set [0..<length segs]. \<not> rx_src_present b ! i} = {i. i < length segs \<and> \<not> rx_src_present b ! i}" by auto
  ultimately have "gathered_upto lo hi segs (I \<union> {i. i < length segs \<and> \<not> rx_src_present b ! i})
      (upd_rx bi (\<lambda>b. b\<lparr>rx_recovered := True\<rparr>) t2)" by simp
  then show ?thesis
    by (rule gathered_upto_cong [rotated 3])
      (use send_ack_frame [OF t(2)] same_sender_send_ack [OF t(2)] in \<open>auto simp: same_sender_def\<close>)
qed

lemma rx_find_iff:
  "rx_find n bs bid = Some i \<longleftrightarrow> n \<le> i \<and> i < n + length bs \<and> rx_active (bs ! (i - n)) \<and> rx_block_id (bs ! (i - n)) = bid \<and>
     (\<forall>j<i - n. \<not> (rx_active (bs ! j) \<and> rx_block_id (bs ! j) = bid))"
proof (induction n bs bid rule: rx_find.induct)
  case (2 n b bs bid)
  show ?case
  proof (cases "rx_active b \<and> rx_block_id b = bid")
    case True
    then show ?thesis by (cases "i = n") (auto simp: nth_Cons' Suc_le_eq split: if_splits)
  next
    case False
    have "(\<forall>j<i - n. \<not> (rx_active ((b # bs) ! j) \<and> rx_block_id ((b # bs) ! j) = bid)) =
        (\<forall>j<i - Suc n. \<not> (rx_active (bs ! j) \<and> rx_block_id (bs ! j) = bid))" if "Suc n \<le> i"
    proof -
      have "i - n = Suc (i - Suc n)" using that by simp
      then show ?thesis using False by (simp add: All_less_Suc2)
    qed
    then show ?thesis using 2 [OF False] False by (cases "i = n") (auto simp: nth_Cons' Suc_le_eq)
  qed
qed simp

lemma rx_find_None: "rx_find n bs bid = None \<longleftrightarrow> (\<forall>b\<in>set bs. \<not> (rx_active b \<and> rx_block_id b = bid))"
  by (induction n bs bid rule: rx_find.induct) auto

lemma rx_find_update:
  assumes "rx_find 0 bs bid = Some i" and "rx_active b" and "rx_block_id b = bid"
  shows "rx_find 0 (bs[i := b]) bid = Some i"
  using assms by (auto simp: rx_find_iff)

lemma rx_find_claim:
  assumes "rx_find 0 bs bid = None" and "i < length bs" and "rx_active b" and "rx_block_id b = bid"
  shows "rx_find 0 (bs[i := b]) bid = Some i"
  using assms by (auto simp: rx_find_iff rx_find_None)

text \<open>The symbols of a block that a slot has.\<close>

abbreviation have_src :: "nat \<Rightarrow> tcp_fec_block_rx \<Rightarrow> nat set" where
  "have_src k b \<equiv> {i. i < k \<and> rx_src_present b ! i}"

abbreviation have_red :: "tcp_fec \<Rightarrow> tcp_fec_block_rx \<Rightarrow> nat set" where
  "have_red fec b \<equiv> {j. j < unat (fec_r fec) \<and> rx_red_present b ! j}"

lemma rx_recover_idle:
  assumes "tsk_fec tsk = Some fec" and "b = fec_rx fec ! bi" and "\<not> rx_ready fec b"
  shows "tcp_fec_rx_recover out mem bi tsk = Ok tsk \<or>
         tcp_fec_rx_recover out mem bi tsk = Ok (upd_rx bi (\<lambda>b. b\<lparr>rx_recovered := True\<rparr>) tsk) \<and>
           have_src (rx_block_k fec b) b = {..<rx_block_k fec b}"
proof -
  have le: "card (have_src k b) \<le> k" for k using card_mono [of "{..<k}" "have_src k b"] by auto
  have all: "have_src k b = {..<k}" if "k \<le> card (have_src k b)" for k
    using that le [of k] card_subset_eq [of "{..<k}" "have_src k b"] by auto
  show ?thesis using assms le [of "rx_block_k fec b"] all [of "rx_block_k fec b"]
    by (auto simp: tcp_fec_rx_recover_def Let_def rx_ready_def present_count)
qed

lemma slot_okD:
  assumes "slot_ok W base fec B b"
  shows "length (fb_syms B) \<le> unat (fec_k fec)" and "rx_blk_k b = 0 \<or> unat (rx_blk_k b) = length (fb_syms B)"
    and "unat (rx_red_count b) = card (have_red fec b)"
    and "rx_red_count b \<noteq> 0 \<Longrightarrow> unat (rx_blk_k b) = length (fb_syms B)" and "fb_syms B \<noteq> []"
    and "length (rx_src_present b) = 128" and "length (rx_red_present b) = 32"
  using assms unfolding slot_ok_def block_of_def block_ok_def buf_holds_def by blast+

text \<open>A slot that is not ready either has the whole block or lacks symbols.\<close>

lemma not_ready_lacks:
  assumes "slot_ok W base fec B b" and "\<not> rx_ready fec b" and "\<not> rx_recovered b" and "k = length (fb_syms B)"
  shows "have_src k b = {..<k} \<or> card (have_src k b) + card (have_red fec b) < k"
proof -
  note o = slot_okD [OF assms(1)]
  have le: "card (have_src k b) \<le> k" using card_mono [of "{..<k}" "have_src k b"] by auto
  have all: "have_src k b = {..<k}" if "k \<le> card (have_src k b)"
    using that le card_subset_eq [of "{..<k}" "have_src k b"] by auto
  show ?thesis
  proof (cases "rx_red_count b = 0")
    case True
    then have "card (have_red fec b) = 0" unfolding o(3) [symmetric] by simp
    then show ?thesis using all le by linarith
  next
    case False
    then have "unat (rx_blk_k b) = k" "rx_blk_k b \<noteq> 0" using o(4,5) assms(4) by auto
    then have "rx_block_k fec b = k" by (simp add: rx_block_k_def)
    then have "k \<le> card (have_src k b) \<or> card (have_src k b) + unat (rx_red_count b) < k"
      using assms(2,3) o(1) assms(4) unfolding rx_ready_def by force
    then show ?thesis using all o(3) by auto
  qed
qed

lemma idle_recovered_all:
  assumes "slot_ok W base fec B b" and "have_src (rx_block_k fec b) b = {..<rx_block_k fec b}" and "k = length (fb_syms B)"
    and "unat (fec_k fec) \<le> 128"
  shows "have_src k b = {..<k}"
proof -
  have f: "k \<le> unat (fec_k fec)" "rx_blk_k b = 0 \<or> unat (rx_blk_k b) = k" using slot_okD(1,2) [OF assms(1)] assms(3) by simp_all
  have "k \<le> rx_block_k fec b"
  proof (cases "rx_blk_k b = 0")
    case True
    then show ?thesis using f(1) by (simp add: rx_block_k_def)
  next
    case False
    then have "rx_block_k fec b = k" using f(2) by (simp add: rx_block_k_def)
    then show ?thesis by simp
  qed
  then have "{..<k} \<subseteq> have_src (rx_block_k fec b) b" unfolding assms(2) by simp
  then show ?thesis by blast
qed

text \<open>One step of recovery: the slot has the sources \<open>P\<close>; it ends with \<open>P'\<close>, and what it gained was
  handed to reassembly.\<close>

lemma recover_step:
  assumes "base \<noteq> 0" and "unat base + length W < 2 ^ 32" and "rx_inv W base read N tsk" and "N + 128 < 2 ^ 32 - 1"
    and "tsk_fec tsk = Some fec" and "fec_ok W base (\<lambda>_. B) fec" and "bi < 4" and "b = fec_rx fec ! bi" and "rx_active b"
    and "block_segs W base fec B segs" and "gathered_upto (unat base) (unat base + length W) segs I tsk"
    and "I \<subseteq> have_src (length segs) b" and "rx_recovered b \<Longrightarrow> have_src (length segs) b = {..<length segs}"
  shows "\<exists>tsk' b'. tcp_fec_rx_recover out True bi tsk = Ok tsk' \<and> rx_inv W base read (N + 128) tsk' \<and>
           tsk_fec tsk' = Some (fec\<lparr>fec_rx := (fec_rx fec)[bi := b']\<rparr>) \<and> slot_ok W base fec B b' \<and>
           rx_active b' \<and> rx_block_id b' = rx_block_id b \<and> rx_red_present b' = rx_red_present b \<and>
           have_src (length segs) b \<subseteq> have_src (length segs) b' \<and>
           (rx_recovered b' \<longrightarrow> have_src (length segs) b' = {..<length segs}) \<and>
           (have_src (length segs) b' = {..<length segs} \<or>
              card (have_src (length segs) b') + card (have_red fec b') < length segs) \<and>
           gathered_upto (unat base) (unat base + length W) segs
             (I \<union> (have_src (length segs) b' - have_src (length segs) b)) tsk'"
proof -
  have len: "length segs = length (fb_syms B)" using assms(10) by (simp add: block_segs_def)
  have g: "fec_geometry fec" using assms(6) by (simp add: fec_ok_def)
  then have g': "bi < length (fec_rx fec)" "unat (fec_k fec) \<le> 128" using assms(7) by (simp_all add: fec_geometry_def TCP_FEC_RX_BLOCKS_def)
  have ok: "slot_ok W base fec B b" using assms(6,8,9) g'(1) by (simp add: fec_ok_def)
  show ?thesis
  proof (cases "rx_ready fec b")
    case True
    obtain tsk' b' where r: "tcp_fec_rx_recover out True bi tsk = Ok tsk'" "rx_inv W base read (N + 128) tsk'"
      "tsk_fec tsk' = Some (fec\<lparr>fec_rx := (fec_rx fec)[bi := b']\<rparr>)"
      "slot_ok W base fec B b'" "rx_block_id b' = rx_block_id b" "rx_active b' = rx_active b"
      "rx_red_present b' = rx_red_present b" "\<forall>i<128. rx_src_present b' ! i \<longleftrightarrow> rx_src_present b ! i \<or> i < length (fb_syms B)"
      using rx_recover_ready_keeps [OF assms(1-5) g g'(1) assms(8) ok True, of out] by blast
    have k: "length segs \<le> 128" using slot_okD(1) [OF ok] g'(2) len by linarith
    then have all: "have_src (length segs) b' = {..<length segs}" using r(8) len by auto
    have "gathered_upto (unat base) (unat base + length W) segs (I \<union> {i. i < length segs \<and> \<not> rx_src_present b ! i}) tsk'"
      by (rule recover_ready_upto [OF _ assms(10,11,5) g assms(8) ok True assms(12) r(1)]) (use assms(2) in simp)
    moreover have "{i. i < length segs \<and> \<not> rx_src_present b ! i} = {..<length segs} - have_src (length segs) b" by auto
    ultimately show ?thesis using r(1-7) all assms(9) by (intro exI [of _ tsk'] exI [of _ b']) auto
  next
    case False
    have same: "fec\<lparr>fec_rx := (fec_rx fec)[bi := b]\<rparr> = fec" using assms(8) by simp
    have more: "rx_inv W base read (N + 128) t" if "rx_inv W base read N t" for t using that by (auto simp: rx_inv_def)
    have lacks: "have_src (length segs) b = {..<length segs} \<or> card (have_src (length segs) b) + card (have_red fec b) < length segs"
      using not_ready_lacks [OF ok False _ len] assms(13) by blast
    consider "tcp_fec_rx_recover out True bi tsk = Ok tsk"
      | "tcp_fec_rx_recover out True bi tsk = Ok (upd_rx bi (\<lambda>b. b\<lparr>rx_recovered := True\<rparr>) tsk)"
        "have_src (rx_block_k fec b) b = {..<rx_block_k fec b}"
      using rx_recover_idle [OF assms(5,8) False, of out True] by blast
    then show ?thesis
    proof cases
      case 1
      then show ?thesis using more [OF assms(3)] assms(5,9,11,13) ok same lacks
        by (intro exI [of _ tsk] exI [of _ b]) (simp add: Diff_cancel)
    next
      case 2
      let ?t = "upd_rx bi (\<lambda>b. b\<lparr>rx_recovered := True\<rparr>) tsk" and ?b = "b\<lparr>rx_recovered := True\<rparr>"
      have all: "have_src (length segs) b = {..<length segs}" by (rule idle_recovered_all [OF ok 2(2) len g'(2)])
      have "tsk_fec ?t = Some (fec\<lparr>fec_rx := (fec_rx fec)[bi := ?b]\<rparr>)" using assms(5,8) by (simp add: upd_rx_fec)
      moreover have "slot_ok W base fec B ?b" using ok by (simp add: slot_ok_def)
      moreover have "rx_inv W base read (N + 128) ?t" using more [OF assms(3)] by simp
      ultimately show ?thesis using 2(1) assms(9,11) all
        by (intro exI [of _ ?t] exI [of _ ?b]) (simp add: Diff_cancel)
    qed
  qed
qed

text \<open>The slot of a block whose sources \<open>I\<close> and repairs \<open>J\<close> have arrived, or no slot yet.\<close>

definition block_slot :: "tcp_fec \<Rightarrow> u32 \<Rightarrow> nat \<Rightarrow> nat set \<Rightarrow> nat set \<Rightarrow> bool" where
  "block_slot fec bid k I J \<longleftrightarrow>
     (rx_find 0 (fec_rx fec) bid = None \<and> I = {} \<and> J = {}) \<or>
     (\<exists>bi<4. rx_find 0 (fec_rx fec) bid = Some bi \<and> have_src k (fec_rx fec ! bi) = I \<and> have_red fec (fec_rx fec ! bi) = J \<and>
        (rx_recovered (fec_rx fec ! bi) \<longrightarrow> I = {..<k}))"

lemma slot_step:
  assumes "fec_ok W base (\<lambda>_. B) fec" and "block_of W (unat (fec_sym_len fec)) B" and "length (fb_syms B) \<le> unat (fec_k fec)"
    and "block_slot fec bid k I J" and "k \<le> 128"
  shows "\<exists>bi rx. tcp_fec_rx_slot True bid fec = Ok (Some bi, fec\<lparr>fec_rx := rx\<rparr>) \<and> bi < 4 \<and>
           fec_ok W base (\<lambda>_. B) (fec\<lparr>fec_rx := rx\<rparr>) \<and> rx_find 0 rx bid = Some bi \<and> length rx = 4 \<and>
           have_src k (rx ! bi) = I \<and> have_red fec (rx ! bi) = J \<and> (rx_recovered (rx ! bi) \<longrightarrow> I = {..<k})"
proof -
  obtain bi rx where s: "tcp_fec_rx_slot True bid fec = Ok (Some bi, fec\<lparr>fec_rx := rx\<rparr>)" "bi < 4"
    "fec_ok W base (\<lambda>_. B) (fec\<lparr>fec_rx := rx\<rparr>)" "rx_active (rx ! bi)" "rx_block_id (rx ! bi) = bid"
    using rx_slot_keeps [OF assms(1-3)] by blast
  have l: "length (fec_rx fec) = 4" "length rx = 4" "unat (fec_r fec) \<le> 32"
    using assms(1) s(3) by (auto simp: fec_ok_def fec_geometry_def TCP_FEC_RX_BLOCKS_def)
  show ?thesis
  proof (cases "rx_find 0 (fec_rx fec) bid")
    case (Some i)
    have e: "Ok (Some i, fec) = Ok (Some bi, fec\<lparr>fec_rx := rx\<rparr>)"
      unfolding s(1) [symmetric] tcp_fec_rx_slot_def Some by (simp only: option.case)
    have bi: "bi = i" using arg_cong [OF e, of "\<lambda>x. case x of Ok (Some j, _) \<Rightarrow> j | _ \<Rightarrow> 0"] by simp
    have rx: "rx = fec_rx fec" using arg_cong [OF e, of "\<lambda>x. case x of Ok (_, f) \<Rightarrow> fec_rx f | _ \<Rightarrow> []"] by simp
    have "have_src k (rx ! bi) = I \<and> have_red fec (rx ! bi) = J \<and> (rx_recovered (rx ! bi) \<longrightarrow> I = {..<k})"
      using assms(4) unfolding block_slot_def Some rx bi option.inject by blast
    moreover have "rx_find 0 rx bid = Some bi" unfolding rx bi by (rule Some)
    ultimately show ?thesis using s(1-3) l(2) by blast
  next
    case None
    then have IJ: "I = {}" "J = {}" using assms(4) by (auto simp: block_slot_def)
    obtain buf where "fec\<lparr>fec_rx := (fec_rx fec)[bi := rx_claim bid buf]\<rparr> = fec\<lparr>fec_rx := rx\<rparr>"
      using s(1) None by (auto simp: tcp_fec_rx_slot_def split: option.splits)
    from arg_cong [OF this, of fec_rx] have rx: "rx = (fec_rx fec)[bi := rx_claim bid buf]" by simp
    have "rx_find 0 rx bid = Some bi" unfolding rx by (rule rx_find_claim [OF None]) (use s(2) l in \<open>auto simp: rx_claim_def\<close>)
    moreover have "have_src k (rx ! bi) = {}" "have_red fec (rx ! bi) = {}" "\<not> rx_recovered (rx ! bi)"
      using s(2) l assms(5) by (auto simp: rx rx_claim_def)
    ultimately show ?thesis using s(1-3) l(2) IJ by blast
  qed
qed

definition block_rx ::
  "bytes \<Rightarrow> u32 \<Rightarrow> tcp_fec \<Rightarrow> fec_block \<Rightarrow> u32 \<Rightarrow> sk_buff list \<Rightarrow> bytes \<Rightarrow> nat \<Rightarrow> nat set \<Rightarrow> nat set \<Rightarrow> nat set \<Rightarrow> tcp_sock \<Rightarrow> bool" where
  "block_rx W base fec0 B bid segs read N G I J tsk \<longleftrightarrow>
     rx_inv W base read N tsk \<and> gathered_upto (unat base) (unat base + length W) segs G tsk \<and>
     (I = {..<length segs} \<or> card I + card J < length segs) \<and>
     (\<exists>fec. tsk_fec tsk = Some fec \<and> same_geometry fec0 fec \<and> fec_ok W base (\<lambda>_. B) fec \<and> block_slot fec bid (length segs) I J)"

lemma block_segs_geometry: "same_geometry fec fec' \<Longrightarrow> block_segs W base fec' B segs = block_segs W base fec B segs"
  by (simp add: block_segs_def same_geometry_segments)

text \<open>A slot that was just given a symbol, through recovery.\<close>

lemma stored_step:
  assumes "base \<noteq> 0" and "unat base + length W < 2 ^ 32" and "rx_inv W base read N tsk" and "N + 128 < 2 ^ 32 - 1"
    and "tsk_fec tsk = Some fec" and "same_geometry fec0 fec" and "fec_ok W base (\<lambda>_. B) fec" and "rx_find 0 (fec_rx fec) bid = Some bi" and "bi < 4"
    and "slot_ok W base fec B b" and "rx_active b" and "rx_block_id b = bid"
    and "block_segs W base fec0 B segs" and "gathered_upto (unat base) (unat base + length W) segs I tsk"
    and "I \<subseteq> have_src (length segs) b" and "rx_recovered b \<Longrightarrow> have_src (length segs) b = {..<length segs}"
  shows "\<exists>tsk' P. tcp_fec_rx_recover out True bi (upd_rx bi (\<lambda>_. b) tsk) = Ok tsk' \<and> have_src (length segs) b \<subseteq> P \<and>
           block_rx W base fec0 B bid segs read (N + 128) (I \<union> (P - have_src (length segs) b)) P (have_red fec b) tsk'"
proof -
  let ?f = "fec\<lparr>fec_rx := (fec_rx fec)[bi := b]\<rparr>" and ?t = "upd_rx bi (\<lambda>_. b) tsk" and ?k = "length segs"
  have l: "bi < length (fec_rx fec)" using assms(7,9) by (simp add: fec_ok_def fec_geometry_def TCP_FEC_RX_BLOCKS_def)
  have ok: "fec_ok W base (\<lambda>_. B) ?f" by (rule fec_ok_update [OF assms(7,10)])
  have f: "tsk_fec ?t = Some ?f" using assms(5) by (rule upd_rx_fec)
  have b: "b = fec_rx ?f ! bi" using l by simp
  have i: "rx_inv W base read N ?t" "gathered_upto (unat base) (unat base + length W) segs I ?t" using assms(3,14) by simp_all
  have sg: "same_geometry fec0 ?f" using assms(6) by (simp add: same_geometry_def)
  then have bs: "block_segs W base ?f B segs" using assms(13) block_segs_geometry by blast
  obtain tsk' b' where r: "tcp_fec_rx_recover out True bi ?t = Ok tsk'" "rx_inv W base read (N + 128) tsk'"
    "tsk_fec tsk' = Some (?f\<lparr>fec_rx := (fec_rx ?f)[bi := b']\<rparr>)" "slot_ok W base ?f B b'" "rx_active b'"
    "rx_block_id b' = rx_block_id b" "rx_red_present b' = rx_red_present b" "have_src ?k b \<subseteq> have_src ?k b'"
    "rx_recovered b' \<longrightarrow> have_src ?k b' = {..<?k}"
    "have_src ?k b' = {..<?k} \<or> card (have_src ?k b') + card (have_red ?f b') < ?k"
    "gathered_upto (unat base) (unat base + length W) segs (I \<union> (have_src ?k b' - have_src ?k b)) tsk'"
    using recover_step [OF assms(1,2) i(1) assms(4) f ok assms(9) b assms(11) bs i(2) assms(15,16), of out] by blast
  let ?g = "?f\<lparr>fec_rx := (fec_rx ?f)[bi := b']\<rparr>"
  have "fec_ok W base (\<lambda>_. B) ?g" by (rule fec_ok_update [OF ok r(4)])
  moreover have "rx_find 0 (fec_rx ?g) bid = Some bi"
    using rx_find_update [OF assms(8) r(5)] r(6) assms(12) by simp
  then have "block_slot ?g bid ?k (have_src ?k b') (have_red fec b)"
    unfolding block_slot_def using r(7,9) l assms(9) by (intro disjI2 exI [of _ bi]) auto
  moreover have "same_geometry fec0 ?g" using assms(6) by (simp add: same_geometry_def)
  moreover have "have_src ?k b' = {..<?k} \<or> card (have_src ?k b') + card (have_red fec b) < ?k" using r(7,10) by simp
  ultimately have "block_rx W base fec0 B bid segs read (N + 128) (I \<union> (have_src ?k b' - have_src ?k b)) (have_src ?k b') (have_red fec b) tsk'"
    unfolding block_rx_def using r(2,3,11) by blast
  then show ?thesis using r(1,8) by blast
qed

lemma block_input_source:
  assumes "base \<noteq> 0" and "unat base + length W < 2 ^ 32" and "block_rx W base fec0 B bid segs read N I I J tsk" and "N + 128 < 2 ^ 32 - 1"
    and "block_segs W base fec0 B segs" and "i < length segs" and "tagged FEC_SYM_SOURCE bid i (segs ! i)"
  shows "\<exists>t P. tcp_fec_input out True (segs ! i) tsk = Ok (False, t) \<and> insert i I \<subseteq> P \<and>
           block_rx W base fec0 B bid segs read (N + 128) (I \<union> (P - insert i I)) P J t"
proof -
  let ?k = "length segs"
  obtain fec where inv: "rx_inv W base read N tsk" "gathered_upto (unat base) (unat base + length W) segs I tsk"
    "tsk_fec tsk = Some fec" "same_geometry fec0 fec" "fec_ok W base (\<lambda>_. B) fec" "block_slot fec bid ?k I J"
    using assms(3) unfolding block_rx_def by blast
  have bs: "block_segs W base fec B segs" using assms(5) block_segs_geometry [OF inv(4)] by blast
  have src: "source_segment W base fec B i (segs ! i)" and len: "?k = length (fb_syms B)"
    using bs assms(6) by (auto simp: block_segs_def)
  note s = src [unfolded source_segment_def]
  have g: "fec_geometry fec" using inv(5) by (simp add: fec_ok_def)
  have k: "?k \<le> 128" "i < unat (fec_k fec)" "i < 256" using s len g by (auto simp: fec_geometry_def)
  obtain bi rx where slot: "tcp_fec_rx_slot True bid fec = Ok (Some bi, fec\<lparr>fec_rx := rx\<rparr>)" "bi < 4"
    "fec_ok W base (\<lambda>_. B) (fec\<lparr>fec_rx := rx\<rparr>)" "rx_find 0 rx bid = Some bi" "length rx = 4"
    "have_src ?k (rx ! bi) = I" "have_red fec (rx ! bi) = J" "rx_recovered (rx ! bi) \<longrightarrow> I = {..<?k}"
    using slot_step [OF inv(5) _ _ inv(6) k(1)] s by blast
  let ?f = "fec\<lparr>fec_rx := rx\<rparr>" and ?t = "tsk\<lparr>tsk_fec := Some (fec\<lparr>fec_rx := rx\<rparr>)\<rparr>" and ?L = "unat (fec_sym_len fec)"
  have g': "fec_geometry ?f" "same_geometry fec ?f" using slot(3) by (auto simp: fec_ok_def same_geometry_def)
  have act: "rx_active (rx ! bi)" "rx_block_id (rx ! bi) = bid" using slot(4) by (auto simp: rx_find_iff)
  have sk: "slot_ok W base ?f B (rx ! bi)" using slot(3) act slot(2,5) by (simp add: fec_ok_def)
  obtain b where b: "rx_source ?L i (segs ! i) (rx ! bi) = Ok b" "slot_ok W base ?f B b" "rx_block_id b = bid" "rx_active b"
    "rx_recovered b = rx_recovered (rx ! bi)" "rx_red_present b = rx_red_present (rx ! bi)"
    "rx_src_present b = (rx_src_present (rx ! bi))[i := True]"
    using rx_source_keeps [OF sk g'(1), of i "segs ! i"] src same_geometry_segments(1) [OF g'(2)] act by auto
  have "i < length (rx_src_present (rx ! bi))" using slot_okD(6) [OF sk] k(1) assms(6) by simp
  then have P: "have_src ?k b = insert i I" unfolding b(7) slot(6) [symmetric] using assms(6) by (auto simp: nth_list_update)
  have J: "have_red ?f b = J" using b(6) slot(7) by simp
  have pre: "rx_inv W base read N ?t" "gathered_upto (unat base) (unat base + length W) segs I ?t" "tsk_fec ?t = Some ?f"
    using inv(1) gathered_upto_cong [OF _ _ _ inv(2), of ?t] by (simp_all add: rx_inv_def stream_inv_def sack_ready_def)
  have sg: "same_geometry fec0 ?f" using inv(4) by (simp add: same_geometry_def)
  have fnd: "rx_find 0 (fec_rx ?f) bid = Some bi" using slot(4) by simp
  have rec: "rx_recovered b \<Longrightarrow> have_src ?k b = {..<?k}" using slot(8) b(5) P assms(6) by auto
  have sub: "I \<subseteq> have_src ?k b" using P by blast
  obtain t Q where "tcp_fec_rx_recover out True bi (upd_rx bi (\<lambda>_. b) ?t) = Ok t" "insert i I \<subseteq> Q"
    "block_rx W base fec0 B bid segs read (N + 128) (I \<union> (Q - insert i I)) Q J t"
    using stored_step [OF assms(1,2) pre(1) assms(4) pre(3) sg slot(3) fnd slot(2) b(2,4,3) assms(5) pre(2) sub rec, of out]
    unfolding P J by blast
  moreover from this(1) have "tcp_fec_input out True (segs ! i) tsk = Ok (False, t)"
    unfolding input_tagged [OF assms(7) k(3) inv(3) slot(1)] Let_def using k(2) b(1) by simp
  ultimately show ?thesis by blast
qed

lemma block_input_repair:
  assumes "base \<noteq> 0" and "unat base + length W < 2 ^ 32" and "block_rx W base fec0 B bid segs read N I I J tsk" and "N + 128 < 2 ^ 32 - 1"
    and "block_segs W base fec0 B segs" and "repair_segment W base fec0 B j skb" and "tagged FEC_SYM_REPAIR bid j skb"
  shows "\<exists>t P. tcp_fec_input out True skb tsk = Ok (True, t) \<and> I \<subseteq> P \<and>
           block_rx W base fec0 B bid segs read (N + 128) P P (insert j J) t"
proof -
  let ?k = "length segs"
  obtain fec where inv: "rx_inv W base read N tsk" "gathered_upto (unat base) (unat base + length W) segs I tsk"
    "tsk_fec tsk = Some fec" "same_geometry fec0 fec" "fec_ok W base (\<lambda>_. B) fec" "block_slot fec bid ?k I J"
    using assms(3) unfolding block_rx_def by blast
  have len: "?k = length (fb_syms B)" using assms(5) by (auto simp: block_segs_def)
  have rs: "repair_segment W base fec B j skb" using assms(6) same_geometry_segments(2) [OF inv(4)] by simp
  note s = rs [unfolded repair_segment_def]
  have g: "fec_geometry fec" using inv(5) by (simp add: fec_ok_def)
  have k: "?k \<le> 128" "j < unat (fec_r fec)" "j < 256" using s len g by (auto simp: fec_geometry_def)
  obtain bi rx where slot: "tcp_fec_rx_slot True bid fec = Ok (Some bi, fec\<lparr>fec_rx := rx\<rparr>)" "bi < 4"
    "fec_ok W base (\<lambda>_. B) (fec\<lparr>fec_rx := rx\<rparr>)" "rx_find 0 rx bid = Some bi" "length rx = 4"
    "have_src ?k (rx ! bi) = I" "have_red fec (rx ! bi) = J" "rx_recovered (rx ! bi) \<longrightarrow> I = {..<?k}"
    using slot_step [OF inv(5) _ _ inv(6) k(1)] s by blast
  let ?f = "fec\<lparr>fec_rx := rx\<rparr>" and ?t = "tsk\<lparr>tsk_fec := Some (fec\<lparr>fec_rx := rx\<rparr>)\<rparr>" and ?L = "unat (fec_sym_len fec)"
  have g': "fec_geometry ?f" "same_geometry fec ?f" using slot(3) by (auto simp: fec_ok_def same_geometry_def)
  have act: "rx_active (rx ! bi)" "rx_block_id (rx ! bi) = bid" using slot(4) by (auto simp: rx_find_iff)
  have sk: "slot_ok W base ?f B (rx ! bi)" using slot(3) act slot(2,5) by (simp add: fec_ok_def)
  have "16 + ?L < 2 ^ 31" using sym_len_lt [of fec] by simp
  then have dl: "sint (skb_dlen skb) = int (16 + ?L)" using s by (subst sint_small) simp_all
  obtain b where b: "rx_repair ?L (unat (fec_k fec)) j skb (rx ! bi) = Ok b" "slot_ok W base ?f B b" "rx_block_id b = bid" "rx_active b"
    "rx_recovered b = rx_recovered (rx ! bi)" "rx_src_present b = rx_src_present (rx ! bi)"
    "rx_red_present b = (rx_red_present (rx ! bi))[j := True]"
    using rx_repair_keeps [OF sk g'(1), of j skb] rs same_geometry_segments(2) [OF g'(2)] act by auto
  have P: "have_src ?k b = I" using b(6) slot(6) by simp
  have "j < length (rx_red_present (rx ! bi))" using slot_okD(7) [OF sk] k(2) g by (simp add: fec_geometry_def)
  then have J: "have_red ?f b = insert j J" unfolding b(7) slot(7) [symmetric] using k(2) by (auto simp: nth_list_update)
  have pre: "rx_inv W base read N ?t" "gathered_upto (unat base) (unat base + length W) segs I ?t" "tsk_fec ?t = Some ?f"
    using inv(1) gathered_upto_cong [OF _ _ _ inv(2), of ?t] by (simp_all add: rx_inv_def stream_inv_def sack_ready_def)
  have sg: "same_geometry fec0 ?f" using inv(4) by (simp add: same_geometry_def)
  have fnd: "rx_find 0 (fec_rx ?f) bid = Some bi" using slot(4) by simp
  have rec: "rx_recovered b \<Longrightarrow> have_src ?k b = {..<?k}" using slot(8) b(5) P by auto
  have sub: "I \<subseteq> have_src ?k b" using P by blast
  obtain t Q where t: "tcp_fec_rx_recover out True bi (upd_rx bi (\<lambda>_. b) ?t) = Ok t" "I \<subseteq> Q"
    "block_rx W base fec0 B bid segs read (N + 128) (I \<union> (Q - I)) Q (insert j J) t"
    using stored_step [OF assms(1,2) pre(1) assms(4) pre(3) sg slot(3) fnd slot(2) b(2,4,3) assms(5) pre(2) sub rec, of out]
    unfolding P J by blast
  have "tcp_fec_input out True skb tsk = Ok (True, t)"
    unfolding input_tagged [OF assms(7) k(3) inv(3) slot(1)] Let_def dl
    using k(2) b(1) t(1) by (simp add: FEC_SYM_SOURCE_def FEC_SYM_REPAIR_def)
  moreover have "I \<union> (Q - I) = Q" using t(2) by blast
  ultimately show ?thesis using t(2,3) by auto
qed

text \<open>What is not gathered yet lies in the window.\<close>

lemma verify_missing:
  assumes "gathered_upto (unat base) (unat base + length W) segs G t" and "i < length segs" and "i \<notin> G"
    and "th_seq (tcp_hdr (segs ! i)) = skb_seq (segs ! i)" and "unat base + length W + unat (rcv_wnd (tcb t)) < 2 ^ 32"
    and "length W \<le> unat (rcv_wnd (tcb t))"
  shows "tcp_verify_segment (segs ! i) t"
proof -
  let ?n = "rcv_nxt (tcb t)" and ?w = "rcv_wnd (tcb t)"
  obtain cur where c: "tiling (unat base) (unat base + length W) (cur ` {..<length segs})" "inj_on cur {..<length segs}"
    "\<forall>i<length segs. i \<notin> G \<longrightarrow> cur i = segs ! i"
    "gathered (unat base) (unat base + length W) (cur ` {..<length segs}) (cur ` G) t" "G \<subseteq> {..<length segs}" "?w \<noteq> 0"
    using assms(1) unfolding gathered_upto_def by blast
  have ci: "cur i = segs ! i" using c(3) assms(2,3) by blast
  have "cur i \<notin> cur ` G" using c(2,5) assms(2,3) by (auto simp: inj_on_def)
  moreover have "\<forall>s\<in>cur ` {..<length segs}. skb_seq s < ?n \<longrightarrow> s \<in> cur ` G" using c(4) by (simp add: gathered_def)
  ultimately have "\<not> skb_seq (cur i) < ?n" using assms(2) by blast
  then have "\<not> skb_seq (segs ! i) < ?n" unfolding ci .
  moreover have n: "unat base \<le> unat ?n" "unat ?n \<le> unat base + length W" using c(4) by (auto simp: gathered_def)
  have "\<forall>s\<in>cur ` {..<length segs}. unat (skb_seq s) + unat (skb_dlen s) \<le> unat base + length W"
    using c(1) unfolding tiling_def by blast
  then have "unat (skb_seq (cur i)) \<le> unat base + length W" using assms(2) by (meson add_leD1 imageI lessThan_iff)
  then have "unat (skb_seq (segs ! i)) \<le> unat base + length W" unfolding ci .
  moreover have "unat (?n + ?w) = unat ?n + unat ?w" using n assms(5) by (simp add: unat_word_ariths)
  ultimately have "skb_seq (segs ! i) \<le> ?n + ?w" using n assms(6) by (simp add: word_le_nat_alt)
  then show ?thesis using \<open>\<not> skb_seq (segs ! i) < ?n\<close> c(6) assms(4) by (simp add: tcp_verify_segment_def Let_def not_less)
qed

lemma block_rx_frame:
  assumes "block_rx W base fec0 B bid segs read N G I J t" and "rx_inv W base read N' t'" and "tsk_fec t' = tsk_fec t"
    and "gathered_upto (unat base) (unat base + length W) segs G' t'"
  shows "block_rx W base fec0 B bid segs read N' G' I J t'"
  using assms unfolding block_rx_def by simp

lemma block_state_source:
  assumes "base \<noteq> 0" and "unat base + length W < 2 ^ 32" and "block_rx W base fec0 B bid segs read N I I J tsk" and "N + 129 < 2 ^ 32 - 1"
    and "block_segs W base fec0 B segs" and "i < length segs" and "tagged FEC_SYM_SOURCE bid i (segs ! i)"
    and "idle tsk" and "plain_data (snd_una (tcb tsk)) (segs ! i)"
    and "unat base + length W + unat (rcv_wnd (tcb tsk)) < 2 ^ 32" and "length W \<le> unat (rcv_wnd (tcb tsk))"
  shows "\<exists>tsk' P. tcp_input_state out shared True (segs ! i) tsk = Ok (0, tsk') \<and> insert i I \<subseteq> P \<and>
           block_rx W base fec0 B bid segs read (N + 129) P P J tsk' \<and> same_sender tsk tsk'"
proof -
  let ?s = "segs ! i" and ?lo = "unat base" and ?hi = "unat base + length W"
  obtain fec where fec: "tsk_fec tsk = Some fec" using assms(3) by (auto simp: block_rx_def)
  have N: "N + 128 < 2 ^ 32 - 1" using assms(4) by simp
  obtain t P where t: "tcp_fec_input out True ?s tsk = Ok (False, t)" "insert i I \<subseteq> P"
    "block_rx W base fec0 B bid segs read (N + 128) (I \<union> (P - insert i I)) P J t"
    using block_input_source [OF assms(1-3) N assms(5-7), of out] by blast
  let ?G = "I \<union> (P - insert i I)"
  have G: "i \<in> ?G \<Longrightarrow> ?G = P" "insert i ?G = P" using t(2) by auto
  have inv: "rx_inv W base read (N + 128) t" "gathered_upto ?lo ?hi segs ?G t" using t(3) by (auto simp: block_rx_def)
  note run = input_state_idle [OF assms(8,9) fec t(1), of shared]
  have ss: "same_sender tsk t" by (rule same_sender_fec_input [OF t(1)])
  have w: "rcv_wnd (tcb t) = rcv_wnd (tcb tsk)" using ss by (simp add: same_sender_def)
  have more: "rx_inv W base read (N + 128) u \<Longrightarrow> rx_inv W base read (N + 129) u" for u by (auto simp: rx_inv_def)
  have pd: "th_seq (tcp_hdr ?s) = skb_seq ?s" "skb_end_seq ?s = skb_seq ?s + skb_dlen ?s" using assms(9) by (auto simp: plain_data_def)
  have missing: "i \<notin> ?G \<Longrightarrow> tcp_verify_segment ?s t"
    using verify_missing [OF inv(2) assms(6) _ pd(1)] w assms(10,11) by simp
  show ?thesis
  proof (cases "tcp_verify_segment ?s t")
    case False
    then have "?G = P" using missing G(1) by blast
    moreover obtain rc u where u: "tcp_send_ack out t = Ok (rc, u)" "rx_inv W base read (N + 128) u" "tsk_fec u = tsk_fec t"
      using send_ack_keeps [OF inv(1), of out] by auto
    have "gathered_upto ?lo ?hi segs ?G u"
      by (rule gathered_upto_cong [OF _ _ _ inv(2)])
        (use send_ack_frame [OF u(1)] same_sender_send_ack [OF u(1)] in \<open>auto simp: same_sender_def\<close>)
    ultimately have "block_rx W base fec0 B bid segs read (N + 129) P P J u"
      using block_rx_frame [OF t(3) more [OF u(2)] u(3)] by simp
    moreover have "same_sender tsk u" by (rule same_sender_trans [OF ss same_sender_send_ack [OF u(1)]])
    moreover have "tcp_input_state out shared True ?s tsk = Ok (0, u)" using run False u(1) by simp
    ultimately show ?thesis using t(2) by blast
  next
    case True
    have src: "source_segment W base fec0 B i ?s" using assms(5,6) by (simp add: block_segs_def)
    note sl = source_slice [OF src]
    have len: "length segs < 2 ^ 32 - 1" using src assms(5) by (simp add: source_segment_def block_segs_def block_of_def block_ok_def)
    have "length W < 2 ^ 32" using assms(2) by simp
    then obtain s u where u: "tcp_data_queue out ?s t = Ok (0, Some s, u)" "rx_inv W base read (N + 129) u" "tsk_fec u = tsk_fec t"
      using data_queue_total [OF _ inv(1) _ sl slice_nonzero [OF assms(1,2) sl pd(2)], of out] assms(4) by (auto simp: add.commute)
    have g: "gathered_upto ?lo ?hi segs P u"
    proof (cases "i \<in> ?G")
      case True2: True
      have "rcv_nxt (tcb t) \<le> skb_seq ?s" using True pd(1) by (simp add: tcp_verify_segment_def Let_def not_less split: if_splits)
      then show ?thesis using upto_dup [OF inv(2) True2 _ u(1)] G(1) [OF True2] by simp
    next
      case False
      then show ?thesis using upto_arrive [OF inv(2) assms(2) len assms(6) False u(1)] G(2) by simp
    qed
    have su: "same_sender tsk u" by (rule same_sender_trans [OF ss same_sender_data_queue [OF u(1)]])
    then have "idle u" using assms(8) idle_same by blast
    then obtain v where v: "tcp_delack_stage out (skb_seq ?s = rcv_nxt (tcb t)) s u = Ok v" "rx_inv W base read (N + 129) v"
      "same_sender u v" "tsk_fec v = tsk_fec u" "tcb v = tcb u" "ofo_queue v = ofo_queue u"
      using delack_idle [OF u(2)] by blast
    have "gathered_upto ?lo ?hi segs P v"
      by (rule gathered_upto_cong [OF v(5,6) _ g]) (use v(3) in \<open>simp add: same_sender_def\<close>)
    then have "block_rx W base fec0 B bid segs read (N + 129) P P J v"
      using block_rx_frame [OF t(3) v(2)] u(3) v(4) by simp
    moreover have "same_sender tsk v" by (rule same_sender_trans [OF su v(3)])
    moreover have "tcp_input_state out shared True ?s tsk = Ok (0, v)" using run True u(1) v(1) by simp
    ultimately show ?thesis using t(2) by blast
  qed
qed

lemma block_state_repair:
  assumes "base \<noteq> 0" and "unat base + length W < 2 ^ 32" and "block_rx W base fec0 B bid segs read N I I J tsk" and "N + 129 < 2 ^ 32 - 1"
    and "block_segs W base fec0 B segs" and "repair_segment W base fec0 B j skb" and "tagged FEC_SYM_REPAIR bid j skb"
    and "idle tsk" and "plain_data (snd_una (tcb tsk)) skb"
  shows "\<exists>tsk' P. tcp_input_state out shared True skb tsk = Ok (0, tsk') \<and> I \<subseteq> P \<and>
           block_rx W base fec0 B bid segs read (N + 129) P P (insert j J) tsk' \<and> same_sender tsk tsk'"
proof -
  obtain fec where fec: "tsk_fec tsk = Some fec" using assms(3) by (auto simp: block_rx_def)
  have N: "N + 128 < 2 ^ 32 - 1" using assms(4) by simp
  obtain t P where t: "tcp_fec_input out True skb tsk = Ok (True, t)" "I \<subseteq> P"
    "block_rx W base fec0 B bid segs read (N + 128) P P (insert j J) t"
    using block_input_repair [OF assms(1-3) N assms(5-7), of out] by blast
  have "rx_inv W base read (N + 129) t" "gathered_upto (unat base) (unat base + length W) segs P t"
    using t(3) by (auto simp: block_rx_def rx_inv_def)
  then have "block_rx W base fec0 B bid segs read (N + 129) P P (insert j J) t" using block_rx_frame [OF t(3)] by simp
  then show ?thesis
    using t(2) input_state_idle [OF assms(8,9) fec t(1), of shared] same_sender_fec_input [OF t(1)] by auto
qed

section \<open>A run over one block\<close>

definition block_op :: "bytes \<Rightarrow> u32 \<Rightarrow> tcp_fec \<Rightarrow> fec_block \<Rightarrow> u32 \<Rightarrow> sk_buff list \<Rightarrow> u32 \<Rightarrow> rx_op \<Rightarrow> bool" where
  "block_op W base fec B bid segs una op \<longleftrightarrow>
     (case op of
        Deliver skb \<Rightarrow> skb \<in> set segs \<or>
          (\<exists>j. tagged FEC_SYM_REPAIR bid j skb \<and> repair_segment W base fec B j skb \<and> plain_data una skb)
      | Read n \<Rightarrow> n < 2 ^ 32)"

text \<open>The numbers of the sources and repairs among the segments that arrive.\<close>

definition got_src :: "sk_buff list \<Rightarrow> rx_op list \<Rightarrow> nat set" where
  "got_src segs ops = {i. i < length segs \<and> Deliver (segs ! i) \<in> set ops}"

definition got_red :: "u32 \<Rightarrow> nat \<Rightarrow> rx_op list \<Rightarrow> nat set" where
  "got_red bid r ops = {j. j < r \<and> (\<exists>skb. Deliver skb \<in> set ops \<and> tagged FEC_SYM_REPAIR bid j skb)}"

lemma tagged_unique:
  assumes "tagged ty bid i skb" and "tagged ty' bid' j skb" and "i < 256" and "j < 256"
  shows "i = j" and "ty = ty'"
proof -
  have "tcp_opt_fec_of (th_data skb) = \<lparr>fo_type = ty, fo_index = of_nat i, fo_block_id = bid\<rparr>"
    "tcp_opt_fec_of (th_data skb) = \<lparr>fo_type = ty', fo_index = of_nat j, fo_block_id = bid'\<rparr>"
    using assms(1,2) unfolding tagged_def by (metis tcp_opt_fec_of_bytes)+
  then have "(of_nat i :: u8) = of_nat j" "ty = ty'" by simp_all
  then show "i = j" "ty = ty'" using of_nat_u8_eq [of i j] assms(3,4) by simp_all
qed

lemma got_Cons:
  assumes "\<forall>i<length segs. tagged FEC_SYM_SOURCE bid i (segs ! i)" and "length segs \<le> 128" and "r \<le> 32" and "distinct segs"
  shows "i < length segs \<Longrightarrow> got_src segs (Deliver (segs ! i) # ops) = insert i (got_src segs ops)"
    and "i < length segs \<Longrightarrow> got_red bid r (Deliver (segs ! i) # ops) = got_red bid r ops"
    and "tagged FEC_SYM_REPAIR bid j skb \<Longrightarrow> j < r \<Longrightarrow> got_src segs (Deliver skb # ops) = got_src segs ops"
    and "tagged FEC_SYM_REPAIR bid j skb \<Longrightarrow> j < r \<Longrightarrow> got_red bid r (Deliver skb # ops) = insert j (got_red bid r ops)"
    and "got_src segs (Read n # ops) = got_src segs ops" and "got_red bid r (Read n # ops) = got_red bid r ops"
proof -
  have ty: "FEC_SYM_SOURCE \<noteq> FEC_SYM_REPAIR" by (simp add: FEC_SYM_SOURCE_def FEC_SYM_REPAIR_def)
  have no: "\<not> tagged FEC_SYM_REPAIR bid j (segs ! i)" if "i < length segs" "j < r" for i j
    using tagged_unique(2) [of FEC_SYM_SOURCE bid i "segs ! i" FEC_SYM_REPAIR bid j] assms(1-3) that ty by force
  show "got_src segs (Deliver (segs ! i) # ops) = insert i (got_src segs ops)" if "i < length segs"
    using that assms(4) by (auto simp: got_src_def nth_eq_iff_index_eq)
  show "got_red bid r (Deliver (segs ! i) # ops) = got_red bid r ops" if "i < length segs"
    using no [OF that] by (auto simp: got_red_def)
  show "got_src segs (Deliver skb # ops) = got_src segs ops" if "tagged FEC_SYM_REPAIR bid j skb" "j < r"
    using no that by (auto simp: got_src_def)
  show "got_red bid r (Deliver skb # ops) = insert j (got_red bid r ops)" if h: "tagged FEC_SYM_REPAIR bid j skb" "j < r"
  proof -
    have u: "tagged FEC_SYM_REPAIR bid m skb \<and> m < r \<longleftrightarrow> m = j" for m
      using tagged_unique(1) [of FEC_SYM_REPAIR bid m skb FEC_SYM_REPAIR bid j] h assms(3) by auto
    have "got_red bid r (Deliver skb # ops) = {m. tagged FEC_SYM_REPAIR bid m skb \<and> m < r} \<union> got_red bid r ops"
      by (auto simp: got_red_def)
    then show ?thesis unfolding u by auto
  qed
qed (simp_all add: got_src_def got_red_def)

lemma run_block:
  assumes "base \<noteq> 0" and "unat base + length W < 2 ^ 32" and "block_segs W base fec0 B segs" and "distinct segs"
    and "\<forall>i<length segs. tagged FEC_SYM_SOURCE bid i (segs ! i) \<and> plain_data una (segs ! i)"
    and "unat base + length W + unat wnd < 2 ^ 32" and "length W \<le> unat wnd" and "unat (fec_r fec0) \<le> 32"
    and "block_rx W base fec0 B bid segs read N I I J tsk" and "idle tsk" and "snd_una (tcb tsk) = una" and "rcv_wnd (tcb tsk) = wnd"
    and "N + 129 * length ops < 2 ^ 32 - 1" and "\<forall>op\<in>set ops. block_op W base fec0 B bid segs una op"
  shows "\<exists>d tsk' P J'. run_input out shared ops tsk = Ok (d, tsk') \<and> I \<union> got_src segs ops \<subseteq> P \<and>
           J \<union> got_red bid (unat (fec_r fec0)) ops \<subseteq> J' \<and>
           block_rx W base fec0 B bid segs (read @ d) (N + 129 * length ops) P P J' tsk'"
  using assms(9-14)
proof (induction ops arbitrary: tsk read N I J)
  case Nil
  then show ?case by (intro exI [of _ "[]"] exI [of _ tsk] exI [of _ I] exI [of _ J]) (auto simp: got_src_def got_red_def)
next
  case (Cons op ops)
  let ?r = "unat (fec_r fec0)"
  have k: "length segs \<le> 128" using assms(3) by (auto simp: block_segs_def source_segment_def block_of_def block_ok_def)
  have "\<forall>i<length segs. tagged FEC_SYM_SOURCE bid i (segs ! i)" using assms(5) by blast
  note got = got_Cons [OF this k assms(8,4)]
  have N: "N + 129 < 2 ^ 32 - 1 \<or> (\<exists>n. op = Read n)" "N + 129 + 129 * length ops < 2 ^ 32 - 1" using Cons.prems(5) by auto
  have ops: "\<forall>op\<in>set ops. block_op W base fec0 B bid segs una op" using Cons.prems(6) by simp
  have step: ?case if h: "tcp_input_state out shared True skb tsk = Ok (0, t)" "op = Deliver skb" "same_sender tsk t"
    "block_rx W base fec0 B bid segs read (N + 129) P P J1 t"
    "I \<union> got_src segs (op # ops) \<subseteq> P \<union> got_src segs ops" "J \<union> got_red bid ?r (op # ops) \<subseteq> J1 \<union> got_red bid ?r ops" for skb t P J1
  proof -
    have t: "idle t" "snd_una (tcb t) = una" "rcv_wnd (tcb t) = wnd"
      using h(3) Cons.prems(2-4) idle_same [OF h(3)] by (auto simp: same_sender_def)
    obtain d t' P' J' where r: "run_input out shared ops t = Ok (d, t')" "P \<union> got_src segs ops \<subseteq> P'" "J1 \<union> got_red bid ?r ops \<subseteq> J'"
      "block_rx W base fec0 B bid segs (read @ d) (N + 129 + 129 * length ops) P' P' J' t'"
      using Cons.IH [OF h(4) t N(2) ops] by blast
    have "run_input out shared (op # ops) tsk = Ok (d, t')" using h(1,2) r(1) by simp
    moreover have "block_rx W base fec0 B bid segs (read @ d) (N + 129 * length (op # ops)) P' P' J' t'"
      using r(4) by (simp add: add.assoc)
    ultimately show ?thesis using order.trans [OF h(5) r(2)] order.trans [OF h(6) r(3)] by blast
  qed
  show ?case
  proof (cases op)
    case (Read n)
    let ?d = "take n (pending (sk_receive_queue tsk))"
    have rx: "rx_inv W base read N tsk" using Cons.prems(1) by (simp add: block_rx_def)
    have "n < 2 ^ 32" "length W < 2 ^ 32" using Cons.prems(6) Read assms(2) by (auto simp: block_op_def)
    then obtain t where t: "tcp_data_dequeue n tsk = Ok (?d, t)" "rx_inv W base (read @ ?d) N t"
      using data_dequeue_total [OF _ rx] by blast
    have ss: "same_sender tsk t" "tsk_fec t = tsk_fec tsk" using same_sender_dequeue [OF t(1)] by auto
    have "gathered_upto (unat base) (unat base + length W) segs I t"
      by (rule gathered_upto_cong [of _ tsk]) (use data_dequeue_frame [OF t(1)] Cons.prems(1) in \<open>auto simp: block_rx_def\<close>)
    then have b: "block_rx W base fec0 B bid segs (read @ ?d) N I I J t"
      using Cons.prems(1) t(2) ss(2) by (simp add: block_rx_def)
    have f: "idle t" "snd_una (tcb t) = una" "rcv_wnd (tcb t) = wnd"
      using ss(1) Cons.prems(2-4) idle_same [OF ss(1)] by (auto simp: same_sender_def)
    have N': "N + 129 * length ops < 2 ^ 32 - 1" using N(2) by simp
    obtain d t' P' J' where r: "run_input out shared ops t = Ok (d, t')" "I \<union> got_src segs ops \<subseteq> P'" "J \<union> got_red bid ?r ops \<subseteq> J'"
      "block_rx W base fec0 B bid segs ((read @ ?d) @ d) (N + 129 * length ops) P' P' J' t'"
      using Cons.IH [OF b f N' ops] by blast
    have "block_rx W base fec0 B bid segs (read @ ?d @ d) (N + 129 * length (op # ops)) P' P' J' t'"
      using r(4) by (auto simp: block_rx_def rx_inv_def)
    moreover have "run_input out shared (op # ops) tsk = Ok (?d @ d, t')" using t(1) r(1) Read by simp
    moreover have "I \<union> got_src segs (op # ops) \<subseteq> P'" "J \<union> got_red bid ?r (op # ops) \<subseteq> J'"
      using r(2,3) unfolding Read got(5,6) by simp_all
    ultimately show ?thesis by blast
  next
    case (Deliver skb)
    then have N1: "N + 129 < 2 ^ 32 - 1" using N(1) by simp
    consider i where "i < length segs" "skb = segs ! i"
      | j where "tagged FEC_SYM_REPAIR bid j skb" "repair_segment W base fec0 B j skb" "plain_data una skb"
      using Cons.prems(6) Deliver by (auto simp: block_op_def in_set_conv_nth)
    then show ?thesis
    proof cases
      case 1
      have s: "tagged FEC_SYM_SOURCE bid i (segs ! i)" "plain_data (snd_una (tcb tsk)) (segs ! i)"
        using assms(5) 1(1) Cons.prems(3) by auto
      have w: "unat base + length W + unat (rcv_wnd (tcb tsk)) < 2 ^ 32" "length W \<le> unat (rcv_wnd (tcb tsk))"
        using assms(6,7) Cons.prems(4) by auto
      obtain t P where t: "tcp_input_state out shared True (segs ! i) tsk = Ok (0, t)" "insert i I \<subseteq> P"
        "block_rx W base fec0 B bid segs read (N + 129) P P J t" "same_sender tsk t"
        using block_state_source [OF assms(1,2) Cons.prems(1) N1 assms(3) 1(1) s(1) Cons.prems(2) s(2) w] by blast
      show ?thesis
        by (rule step [OF t(1) _ t(4,3)]) (use t(2) Deliver 1 got(1,2) [OF 1(1), of ops] in auto)
    next
      case 2
      have j: "j < ?r" using 2(2) by (simp add: repair_segment_def)
      have pd: "plain_data (snd_una (tcb tsk)) skb" using 2(3) Cons.prems(3) by simp
      obtain t P where t: "tcp_input_state out shared True skb tsk = Ok (0, t)" "I \<subseteq> P"
        "block_rx W base fec0 B bid segs read (N + 129) P P (insert j J) t" "same_sender tsk t"
        using block_state_repair [OF assms(1,2) Cons.prems(1) N1 assms(3) 2(2,1) Cons.prems(2) pd] by blast
      show ?thesis
        by (rule step [OF t(1) _ t(4,3)]) (use t(2) Deliver got(3,4) [OF 2(1) j, of ops] in auto)
    qed
  qed
qed

text \<open>The stream is one block.\<close>

definition whole_block :: "bytes \<Rightarrow> nat \<Rightarrow> fec_block \<Rightarrow> bool" where
  "whole_block W L B \<longleftrightarrow> fb_off B = 0 \<and> (length (fb_syms B) - 1) * L + fb_tail B = length W"

lemma block_tiles:
  assumes "block_segs W base fec B segs" and "whole_block W (unat (fec_sym_len fec)) B"
  shows "tiles W base 0 segs"
proof -
  let ?L = "unat (fec_sym_len fec)" and ?k = "length segs"
  define off where "off i = (if i = ?k then length W else i * ?L)" for i
  have k: "?k = length (fb_syms B)" "0 < ?k" using assms(1) by (auto simp: block_segs_def)
  have step: "tiles W base (off i) (drop i segs)" if "i < ?k" "tiles W base (off (Suc i)) (drop (Suc i) segs)" for i
  proof -
    have s: "source_segment W base fec B i (segs ! i)" "skb_end_seq (segs ! i) = skb_seq (segs ! i) + skb_dlen (segs ! i)"
      using assms(1) that(1) by (auto simp: block_segs_def)
    note ss = s(1) [unfolded source_segment_def block_of_def]
    have tail: "0 < fb_tail B" "fb_tail B \<le> ?L" using ss by auto
    then have pos: "0 < fb_len ?L B i" by (auto simp: fb_len_def)
    have o: "off i = i * ?L" using that(1) by (simp add: off_def)
    have nx: "off i + fb_len ?L B i = off (Suc i)"
    proof (cases "Suc i = ?k")
      case True
      then have i: "i = length (fb_syms B) - 1" using k(1) by simp
      have "fb_len ?L B i = fb_tail B" unfolding fb_len_def i by simp
      moreover have "off (Suc i) = length W" using True by (simp add: off_def)
      ultimately show ?thesis unfolding o using assms(2) i by (simp add: whole_block_def)
    next
      case False
      then have "i \<noteq> length (fb_syms B) - 1" using that(1) k(1) by simp
      then have "fb_len ?L B i = ?L" by (simp add: fb_len_def)
      moreover have "off (Suc i) = Suc i * ?L" using False by (simp add: off_def)
      ultimately show ?thesis unfolding o by simp
    qed
    show ?thesis
      unfolding Cons_nth_drop_Suc [OF that(1), symmetric] tiles.simps
    proof (intro conjI)
      show "seg_ok (segs ! i)" "skb_end_seq (segs ! i) = skb_seq (segs ! i) + skb_dlen (segs ! i)" using ss s(2) by auto
      show "skb_seq (segs ! i) = base + of_nat (off i)" using ss assms(2) by (simp add: o whole_block_def)
      show "0 < unat (skb_dlen (segs ! i))" using ss pos by simp
      show "skb_pay (segs ! i) = take (unat (skb_dlen (segs ! i))) (drop (off i) W)" using ss assms(2) by (simp add: o whole_block_def)
      show "tiles W base (off i + unat (skb_dlen (segs ! i))) (drop (Suc i) segs)" using that(2) ss nx by simp
    qed
  qed
  have "tiles W base (off i) (drop i segs)" if "i \<le> ?k" for i
    using that
  proof (induction i rule: inc_induct)
    case base
    show ?case by (simp add: off_def)
  next
    case (step n)
    then show ?case using \<open>\<And>i. i < ?k \<Longrightarrow> tiles W base (off (Suc i)) (drop (Suc i) segs) \<Longrightarrow> tiles W base (off i) (drop i segs)\<close> by blast
  qed
  from this [of 0] show ?thesis using k(2) by (simp add: off_def)
qed

lemma block_rx_start:
  assumes "rx_open base tsk" and "unat base + length W < 2 ^ 32" and "tsk_fec tsk = Some fec" and "fec_fresh fec"
    and "block_segs W base fec B segs" and "whole_block W (unat (fec_sym_len fec)) B"
    and "distinct (map skb_id segs)" and "\<forall>s\<in>set segs. skb_id s < next_skb tsk"
  shows "block_rx W base fec B bid segs [] 0 {} {} {} tsk"
proof -
  note t = block_tiles [OF assms(5,6)]
  have til: "tiling (unat base) (unat base + length W) (set segs)" using tiles_tiling [OF t assms(2,7)] by simp
  have eq: "(!) segs ` {..<length segs} = set segs" by (auto simp: set_conv_nth)
  have W: "0 < length segs" using assms(5) unfolding block_segs_def length_greater_0_conv by blast
  have lo: "\<forall>s\<in>set segs. \<not> unat (skb_seq s) < unat base" using tiles_range(1) [OF t assms(2)] by (simp add: not_less)
  have fst: "\<exists>s\<in>set segs. skb_seq s = base" if "unat base < unat base + length W"
  proof -
    obtain s where "s \<in> set segs" "unat (skb_seq s) = unat base" using til \<open>unat base < _\<close> by (auto simp: tiling_def)
    then show ?thesis by (metis unsigned_word_eqI)
  qed
  have g: "gathered (unat base) (unat base + length W) (set segs) {} tsk" "settled tsk"
    using assms(1) fst lo by (auto simp: gathered_def settled_def rx_open_def skb_queue_init_def q_wf_def word_less_nat_alt)
  have "inj_on ((!) segs) {..<length segs}" using assms(7) by (auto simp: inj_on_def distinct_map nth_eq_iff_index_eq)
  then have "gathered_upto (unat base) (unat base + length W) segs {} tsk"
    unfolding gathered_upto_def using til g assms(1,8)
    by (intro conjI exI [of _ "(!) segs"]) (auto simp: eq same_place_def rx_open_def)
  moreover have "rx_find 0 (fec_rx fec) bid = None" using assms(4) by (auto simp: rx_find_None fec_fresh_def)
  then have "block_slot fec bid (length segs) {} {}" by (simp add: block_slot_def)
  ultimately show ?thesis
    unfolding block_rx_def using rx_open_inv [OF assms(1)] assms(3) fec_ok_fresh [OF assms(4)] W
    by (auto simp: same_geometry_def)
qed

lemma block_rx_complete:
  assumes "block_rx W base fec B bid segs read N P P J tsk" and "I \<subseteq> P" and "K \<subseteq> J" and "length segs \<le> card I + card K"
    and "unat base + length W < 2 ^ 32"
  shows "rcv_nxt (tcb tsk) = base + of_nat (length W) \<and> read @ pending (sk_receive_queue tsk) = W"
proof -
  obtain fec' where b: "rx_inv W base read N tsk" "gathered_upto (unat base) (unat base + length W) segs P tsk"
    "P = {..<length segs} \<or> card P + card J < length segs" "block_slot fec' bid (length segs) P J"
    using assms(1) unfolding block_rx_def by blast
  have "J = {} \<or> (\<exists>b. J = have_red fec' b)" using b(4) unfolding block_slot_def by blast
  then have "finite J" by (elim disjE exE) simp_all
  then have "card K \<le> card J" using assms(3) by (rule card_mono)
  moreover have "P \<subseteq> {..<length segs}" using b(2) by (simp add: gathered_upto_def)
  then have "card I \<le> card P" using assms(2) by (meson card_mono finite_lessThan finite_subset)
  ultimately have P: "P = {..<length segs}" using b(3) assms(4) by linarith
  obtain cur where "tiling (unat base) (unat base + length W) (cur ` {..<length segs})"
    "gathered (unat base) (unat base + length W) (cur ` {..<length segs}) (cur ` {..<length segs}) tsk" "settled tsk"
    using b(2) unfolding P gathered_upto_def by blast
  then have hi: "unat (rcv_nxt (tcb tsk)) = unat base + length W" by (rule all_gathered)
  obtain n where n: "n \<le> length W" "rcv_nxt (tcb tsk) = base + of_nat n" "read @ pending (sk_receive_queue tsk) = take n W"
    using b(1) by (auto simp: rx_inv_def stream_inv_def)
  then have "n = length W" using hi assms(5) by (simp add: unat_base)
  then show ?thesis using n by simp
qed

end
