(* ===== verification/Ip.thy ===== *)
theory Ip
  imports Main Prelude Wire Skbuff Checksum
begin

text \<open>
  Below TCP: \<open>src/netdev.c\<close>, \<open>src/route.c\<close>, \<open>src/arp.c\<close>, \<open>src/dst.c\<close>, \<open>src/ip_output.c\<close>,
  \<open>src/ip_input.c\<close> and \<open>src/icmpv4.c\<close>.  The global variables of these files are the record
  \<open>net\<close>.  \<open>tun\<close> stands for \<open>tun_write\<close>, the \<open>write\<close> system call on the tap device: a
  non-negative count of bytes, or -1.  Every function that transmits also returns the frames
  it handed to the device.
\<close>

section \<open>Data\<close>

record netdev =
  dev_addr :: u32
  dev_addr_len :: u8
  dev_hwaddr :: bytes
  dev_mtu :: u32

record rtentry =
  rt_dst :: u32
  rt_gateway :: u32
  rt_netmask :: u32
  rt_flags :: u8
  rt_metric :: u32
  rt_dev :: netdev

record arp_cache_entry =
  ae_hwtype :: u16
  ae_sip :: u32
  ae_smac :: bytes
  ae_state :: u8

record net =
  net_loop :: netdev
  net_dev :: netdev
  net_routes :: "rtentry list"
  net_arp :: "arp_cache_entry list"

definition RT_LOOPBACK :: u8 where "RT_LOOPBACK = 0x01"
definition RT_GATEWAY :: u8 where "RT_GATEWAY = 0x02"
definition RT_HOST :: u8 where "RT_HOST = 0x04"
definition ETH_P_IP :: u16 where "ETH_P_IP = 0x0800"
definition ETH_P_ARP :: u16 where "ETH_P_ARP = 0x0806"
definition ARP_ETHERNET :: u16 where "ARP_ETHERNET = 1"
definition ARP_IPV4 :: u16 where "ARP_IPV4 = 0x0800"
definition ARP_REQUEST :: u16 where "ARP_REQUEST = 1"
definition ARP_REPLY :: u16 where "ARP_REPLY = 2"
definition ARP_RESOLVED :: u8 where "ARP_RESOLVED = 2"
definition ARP_HDR_LEN :: nat where "ARP_HDR_LEN = 8"
definition ARP_DATA_LEN :: nat where "ARP_DATA_LEN = 20"
definition broadcast_hw :: bytes where "broadcast_hw = replicate 6 0xff"
definition BUFLEN :: nat where "BUFLEN = 1600"

section \<open>Device\<close>

definition netdev_alloc :: "u32 \<Rightarrow> bytes \<Rightarrow> u32 \<Rightarrow> netdev" where
  "netdev_alloc addr hwaddr mtu = \<lparr>dev_addr = addr, dev_addr_len = 6, dev_hwaddr = hwaddr, dev_mtu = mtu\<rparr>"

text \<open>127.0.0.1 with a zero address, and 10.0.0.5 with 00:0c:29:6d:50:25.\<close>

definition netdev_init :: "netdev \<times> netdev" where
  "netdev_init = (netdev_alloc 0x7f000001 (replicate 6 0) 1500,
                  netdev_alloc 0x0a000005 [0x00, 0x0c, 0x29, 0x6d, 0x50, 0x25] 1500)"

definition netdev_transmit ::
  "(bytes \<Rightarrow> int) \<Rightarrow> netdev \<Rightarrow> bytes \<Rightarrow> u16 \<Rightarrow> sk_buff \<Rightarrow> int \<times> sk_buff \<times> bytes list" where
  "netdev_transmit tun dev dst_hw ethertype skb =
     (let skb = skb_push skb ETH_HDR_LEN; n = unat (dev_addr_len dev);
          skb = skb_store (take n dst_hw) 0 skb;
          skb = skb_store (take n (dev_hwaddr dev)) 6 skb;
          skb = skb_store (be16 ethertype) 12 skb;
          frame = take (unat (skb_len skb)) (skb_bytes skb)
      in (tun frame, skb, [frame]))"

definition netdev_get :: "net \<Rightarrow> u32 \<Rightarrow> netdev option" where
  "netdev_get nc sip = (if dev_addr (net_dev nc) = sip then Some (net_dev nc) else None)"

section \<open>Routing\<close>

definition route_alloc :: "u32 \<Rightarrow> u32 \<Rightarrow> u32 \<Rightarrow> u8 \<Rightarrow> u32 \<Rightarrow> netdev \<Rightarrow> rtentry" where
  "route_alloc dst gateway netmask flags metric dev =
     \<lparr>rt_dst = dst, rt_gateway = gateway, rt_netmask = netmask, rt_flags = flags, rt_metric = metric, rt_dev = dev\<rparr>"

definition route_add :: "u32 \<Rightarrow> u32 \<Rightarrow> u32 \<Rightarrow> u8 \<Rightarrow> u32 \<Rightarrow> netdev \<Rightarrow> rtentry list \<Rightarrow> rtentry list" where
  "route_add dst gateway netmask flags metric dev routes =
     routes @ [route_alloc dst gateway netmask flags metric dev]"

text \<open>\<open>tapaddr\<close> is 10.0.0.5 in \<open>src/tuntap_if.c\<close>.\<close>

definition route_init :: "netdev \<Rightarrow> netdev \<Rightarrow> rtentry list" where
  "route_init lo dev =
     route_add 0 0x0a000005 0 RT_GATEWAY 0 dev
       (route_add (dev_addr dev) 0 0xffffff00 RT_HOST 0 dev
          (route_add (dev_addr lo) 0 0xff000000 RT_LOOPBACK 0 lo []))"

fun route_scan :: "u32 \<Rightarrow> rtentry list \<Rightarrow> rtentry option \<Rightarrow> rtentry option" where
  "route_scan daddr [] rt = rt"
| "route_scan daddr (r # rs) rt =
     (if daddr AND rt_netmask r = rt_dst r AND rt_netmask r then Some r else route_scan daddr rs (Some r))"

definition route_lookup :: "net \<Rightarrow> u32 \<Rightarrow> rtentry option" where
  "route_lookup nc daddr = route_scan daddr (net_routes nc) None"

section \<open>ARP\<close>

record arp_hdr =
  ah_hwtype :: u16
  ah_protype :: u16
  ah_hwsize :: u8
  ah_prosize :: u8
  ah_opcode :: u16

record arp_ipv4 =
  ad_smac :: bytes
  ad_sip :: u32
  ad_dmac :: bytes
  ad_dip :: u32

text \<open>The ARP packet behind the Ethernet header, fields converted from and to network order.\<close>

definition arp_hdr_of :: "bytes \<Rightarrow> arp_hdr" where
  "arp_hdr_of b = \<lparr>ah_hwtype = get_be16 b 0, ah_protype = get_be16 b 2, ah_hwsize = b ! 4, ah_prosize = b ! 5,
     ah_opcode = get_be16 b 6\<rparr>"

definition arp_hdr_bytes :: "arp_hdr \<Rightarrow> bytes" where
  "arp_hdr_bytes h = be16 (ah_hwtype h) @ be16 (ah_protype h) @ [ah_hwsize h, ah_prosize h] @ be16 (ah_opcode h)"

definition arp_ipv4_of :: "bytes \<Rightarrow> arp_ipv4" where
  "arp_ipv4_of b = \<lparr>ad_smac = take 6 b, ad_sip = get_be32 b 6, ad_dmac = take 6 (drop 10 b), ad_dip = get_be32 b 16\<rparr>"

definition arp_ipv4_bytes :: "arp_ipv4 \<Rightarrow> bytes" where
  "arp_ipv4_bytes d = ad_smac d @ be32 (ad_sip d) @ ad_dmac d @ be32 (ad_dip d)"

definition arp_entry_alloc :: "arp_hdr \<Rightarrow> arp_ipv4 \<Rightarrow> arp_cache_entry" where
  "arp_entry_alloc h d = \<lparr>ae_hwtype = ah_hwtype h, ae_sip = ad_sip d, ae_smac = ad_smac d, ae_state = ARP_RESOLVED\<rparr>"

definition insert_arp_translation_table :: "arp_hdr \<Rightarrow> arp_ipv4 \<Rightarrow> arp_cache_entry list \<Rightarrow> arp_cache_entry list" where
  "insert_arp_translation_table h d cache = cache @ [arp_entry_alloc h d]"

fun update_arp_translation_table ::
  "arp_hdr \<Rightarrow> arp_ipv4 \<Rightarrow> arp_cache_entry list \<Rightarrow> bool \<times> arp_cache_entry list" where
  "update_arp_translation_table h d [] = (False, [])"
| "update_arp_translation_table h d (e # es) =
     (if ae_hwtype e = ah_hwtype h \<and> ae_sip e = ad_sip d then (True, e\<lparr>ae_smac := ad_smac d\<rparr> # es)
      else let (m, es') = update_arp_translation_table h d es in (m, e # es'))"

fun arp_get_hwaddr :: "u32 \<Rightarrow> arp_cache_entry list \<Rightarrow> bytes option" where
  "arp_get_hwaddr sip [] = None"
| "arp_get_hwaddr sip (e # es) =
     (if ae_state e = ARP_RESOLVED \<and> ae_sip e = sip then Some (ae_smac e) else arp_get_hwaddr sip es)"

definition arp_alloc_skb :: sk_buff where
  "arp_alloc_skb =
     (let n = ETH_HDR_LEN + ARP_HDR_LEN + ARP_DATA_LEN
      in (skb_reserve (alloc_skb 0 n) n)\<lparr>skb_protocol := htons ETH_P_ARP\<rparr>)"

definition arp_request :: "(bytes \<Rightarrow> int) \<Rightarrow> u32 \<Rightarrow> u32 \<Rightarrow> netdev \<Rightarrow> int \<times> bytes list" where
  "arp_request tun sip dip dev =
     (let n = unat (dev_addr_len dev);
          skb = skb_push arp_alloc_skb ARP_DATA_LEN;
          skb = skb_store (arp_ipv4_bytes \<lparr>ad_smac = take n (dev_hwaddr dev), ad_sip = sip,
                             ad_dmac = take n broadcast_hw, ad_dip = dip\<rparr>) 0 skb;
          skb = skb_push skb ARP_HDR_LEN;
          skb = skb_store (arp_hdr_bytes \<lparr>ah_hwtype = ARP_ETHERNET, ah_protype = ETH_P_IP,
                             ah_hwsize = dev_addr_len dev, ah_prosize = 4, ah_opcode = ARP_REQUEST\<rparr>) 0 skb;
          (rc, _, frames) = netdev_transmit tun dev broadcast_hw ETH_P_ARP skb
      in (rc, frames))"

definition arp_reply :: "(bytes \<Rightarrow> int) \<Rightarrow> netdev \<Rightarrow> arp_hdr \<Rightarrow> arp_ipv4 \<Rightarrow> sk_buff \<Rightarrow> bytes list" where
  "arp_reply tun dev h d skb =
     (let skb = skb_reserve skb (ETH_HDR_LEN + ARP_HDR_LEN + ARP_DATA_LEN);
          skb = skb_push skb (ARP_HDR_LEN + ARP_DATA_LEN);
          d = \<lparr>ad_smac = dev_hwaddr dev, ad_sip = dev_addr dev, ad_dmac = ad_smac d, ad_dip = ad_sip d\<rparr>;
          h = h\<lparr>ah_opcode := ARP_REPLY\<rparr>;
          skb = skb\<lparr>skb_head := buf_write (skb_head skb) ETH_HDR_LEN (arp_hdr_bytes h @ arp_ipv4_bytes d)\<rparr>;
          (_, _, frames) = netdev_transmit tun dev (ad_dmac d) ETH_P_ARP skb
      in frames)"

definition arp_rcv :: "(bytes \<Rightarrow> int) \<Rightarrow> sk_buff \<Rightarrow> net \<Rightarrow> net \<times> bytes list" where
  "arp_rcv tun skb nc =
     (let h = arp_hdr_of (drop ETH_HDR_LEN (skb_head skb));
          d = arp_ipv4_of (drop (ETH_HDR_LEN + ARP_HDR_LEN) (skb_head skb)) in
      if ah_hwtype h \<noteq> ARP_ETHERNET then (nc, [])
      else if ah_protype h \<noteq> ARP_IPV4 then (nc, [])
      else
        let (merge, cache) = update_arp_translation_table h d (net_arp nc); nc = nc\<lparr>net_arp := cache\<rparr> in
        case netdev_get nc (ad_dip d) of
          None \<Rightarrow> (nc, [])
        | Some dev \<Rightarrow>
            let nc = (if \<not> merge then nc\<lparr>net_arp := insert_arp_translation_table h d (net_arp nc)\<rparr> else nc) in
            if ah_opcode h = ARP_REQUEST then (nc, arp_reply tun dev h d skb) else (nc, []))"

section \<open>IP output\<close>

definition dst_neigh_output ::
  "(bytes \<Rightarrow> int) \<Rightarrow> net \<Rightarrow> rtentry \<Rightarrow> sk_buff \<Rightarrow> int \<times> sk_buff \<times> bytes list" where
  "dst_neigh_output tun nc rt skb =
     (let ih = ip_hdr skb;
          daddr = ntohl (ip_daddr ih); saddr = ntohl (ip_saddr ih);
          daddr = (if rt_flags rt AND RT_GATEWAY \<noteq> 0 then rt_gateway rt else daddr)
      in case arp_get_hwaddr daddr (net_arp nc) of
           Some dmac \<Rightarrow> netdev_transmit tun (rt_dev rt) dmac ETH_P_IP skb
         | None \<Rightarrow> (-1, skb, snd (arp_request tun saddr daddr (rt_dev rt))))"

definition ip_send_check :: "iphdr \<Rightarrow> iphdr" where
  "ip_send_check ih = ih\<lparr>ip_csum := checksum (take (4 * unat (ip_ihl ih)) (iphdr_bytes ih)) 0\<rparr>"

definition ip_fill_header :: "u32 \<Rightarrow> u32 \<Rightarrow> sk_buff \<Rightarrow> iphdr \<Rightarrow> iphdr" where
  "ip_fill_header saddr daddr skb ih =
     ip_send_check
       \<lparr>ip_ihl = 5, ip_version = 4, ip_tos = 0, ip_tot_len = htons (ucast (skb_len skb)),
        ip_ident = htons (ip_ident ih), ip_frag_offset = htons 0x4000, ip_ttl = 64,
        ip_proto = ucast (skb_protocol skb), ip_csum = 0, ip_saddr = htonl saddr, ip_daddr = htonl daddr\<rparr>"

definition ip_output ::
  "(bytes \<Rightarrow> int) \<Rightarrow> net \<Rightarrow> u32 \<Rightarrow> sk_buff \<Rightarrow> int \<times> sk_buff \<times> bytes list" where
  "ip_output tun nc daddr skb =
     (case route_lookup nc daddr of
        None \<Rightarrow> (-1, skb, [])
      | Some rt \<Rightarrow>
          let ih = ip_hdr skb;
              skb = skb_push skb IP_HDR_LEN;
              skb = set_ip_hdr (ip_fill_header (dev_addr (rt_dev rt)) daddr skb ih) skb
          in dst_neigh_output tun nc rt skb)"

section \<open>IP input and ICMP\<close>

definition ip_hdr_to_host :: "iphdr \<Rightarrow> iphdr" where
  "ip_hdr_to_host ih =
     ih\<lparr>ip_saddr := ntohl (ip_saddr ih), ip_daddr := ntohl (ip_daddr ih), ip_tot_len := ntohs (ip_tot_len ih),
        ip_ident := ntohs (ip_ident ih)\<rparr>"

datatype ip_verdict = IpDrop | IpIcmp sk_buff | IpTcp sk_buff

definition ip_rcv :: "sk_buff \<Rightarrow> ip_verdict" where
  "ip_rcv skb =
     (let ih = ip_hdr skb in
      if ip_version ih \<noteq> 4 then IpDrop
      else if ip_ihl ih < 5 then IpDrop
      else if ip_ttl ih = 0 then IpDrop
      else if checksum (take (4 * unat (ip_ihl ih)) (drop ETH_HDR_LEN (skb_head skb))) 0 \<noteq> 0 then IpDrop
      else
        let skb = set_ip_hdr (ip_hdr_to_host ih) skb in
        if ip_proto ih = 1 then IpIcmp skb
        else if ip_proto ih = 6 then IpTcp skb
        else IpDrop)"

definition ICMP_V4_REPLY :: u8 where "ICMP_V4_REPLY = 0"
definition ICMP_V4_ECHO :: u8 where "ICMP_V4_ECHO = 8"

definition icmpv4_reply :: "(bytes \<Rightarrow> int) \<Rightarrow> net \<Rightarrow> sk_buff \<Rightarrow> int \<times> sk_buff \<times> bytes list" where
  "icmpv4_reply tun nc skb =
     (let ih = ip_hdr skb;
          icmp_len = unat (of_int (ip_len ih) :: u16);
          skb = skb_reserve skb (ETH_HDR_LEN + IP_HDR_LEN + icmp_len);
          skb = skb_push skb icmp_len;
          skb = skb_store [ICMP_V4_REPLY] 0 skb;
          skb = skb_store [0, 0] 2 skb;
          skb = skb_store (le16 (checksum (take icmp_len (skb_bytes skb)) 0)) 2 skb
      in ip_output tun nc (ip_saddr ih) (skb\<lparr>skb_protocol := 1\<rparr>))"

definition icmpv4_incoming :: "(bytes \<Rightarrow> int) \<Rightarrow> net \<Rightarrow> sk_buff \<Rightarrow> bytes list" where
  "icmpv4_incoming tun nc skb =
     (let ty = skb_head skb ! (ETH_HDR_LEN + IP_HDR_LEN) in
      if ty = ICMP_V4_ECHO then snd (snd (icmpv4_reply tun nc skb)) else [])"

datatype rx_verdict = RxNone | RxArp | RxIp ip_verdict

definition netdev_receive :: "(bytes \<Rightarrow> int) \<Rightarrow> sk_buff \<Rightarrow> net \<Rightarrow> rx_verdict \<times> net \<times> bytes list" where
  "netdev_receive tun skb nc =
     (let ethertype = get_be16 (skb_head skb) 12 in
      if ethertype = ETH_P_ARP then let (nc, frames) = arp_rcv tun skb nc in (RxArp, nc, frames)
      else if ethertype = ETH_P_IP then
        (case ip_rcv skb of
           IpIcmp s \<Rightarrow> (RxIp (IpIcmp s), nc, icmpv4_incoming tun nc s)
         | v \<Rightarrow> (RxIp v, nc, []))
      else (RxNone, nc, []))"

text \<open>One round of \<open>netdev_rx_loop\<close>: a buffer of \<open>BUFLEN\<close> bytes, the frame read into it.\<close>

definition netdev_rx :: "(bytes \<Rightarrow> int) \<Rightarrow> bytes \<Rightarrow> net \<Rightarrow> rx_verdict \<times> net \<times> bytes list" where
  "netdev_rx tun frame nc =
     (let skb = alloc_skb 0 BUFLEN;
          skb = skb\<lparr>skb_head := buf_write (skb_head skb) 0 (take BUFLEN frame),
                    skb_len := of_nat (length (take BUFLEN frame))\<rparr>
      in netdev_receive tun skb nc)"

end
