(* ===== verification/Tcp_Fec_Tx.thy ===== *)
theory Tcp_Fec_Tx
  imports Tcp_Fec_Block Ip
begin

text \<open>
  The sending side of the block code, down to the bytes: how a source or repair segment is laid out
  in its buffer, what \<open>tcp_transmit_skb\<close> puts on the wire, what the receiver's \<open>tcp_init_segment\<close> makes of
  it, the parity that \<open>tcp_fec_emit_block\<close> computes, and the loop of \<open>tcp_send\<close> that fills a block.
\<close>

section \<open>The layout of a segment buffer\<close>

text \<open>A buffer with room for the frame and IP headers, a TCP header and the bytes behind it.\<close>

definition laid :: "bytes \<Rightarrow> tcphdr \<Rightarrow> bytes \<Rightarrow> sk_buff \<Rightarrow> bool" where
  "laid pre th d s \<longleftrightarrow> length pre = 34 \<and> skb_head s = pre @ tcphdr_bytes th @ d"


lemma laid_reads:
  assumes "laid pre th d s"
  shows "tcp_hdr s = th" and "th_data s = d" and "length (skb_head s) = 54 + length d"
  using assms by (simp_all add: laid_def tcp_hdr_def th_data_def hdr_lens)

lemma laid_set_hdr: "laid pre th d s \<Longrightarrow> laid pre th' d (set_tcp_hdr th' s)"
  by (simp add: laid_def set_tcp_hdr_def hdr_lens buf_write_def)

lemma laid_push [simp]: "laid pre th d (skb_push s n) = laid pre th d s"
  by (simp add: laid_def)

lemma laid_data_update:
  assumes "laid pre th d s" and "off \<le> length d"
  shows "laid pre th (buf_write d off x) (set_th_data off x s)"
  using assms by (simp add: laid_def set_th_data_def hdr_lens buf_write_def)

lemma laid_store:
  assumes "laid pre th d s" and "nat (skb_data s) = 54 + o'" and "o' + off \<le> length d"
  shows "laid pre th (buf_write d (o' + off) x) (skb_store x off s)"
  using assms by (simp add: laid_def skb_store_def buf_write_def add.assoc)

lemma store_fields [simp]:
  "skb_id (skb_store x off s) = skb_id s" "skb_dlen (skb_store x off s) = skb_dlen s" "skb_data (skb_store x off s) = skb_data s"
  "skb_len (skb_store x off s) = skb_len s" "skb_payload (set_th_data off x s) = skb_payload s" "skb_protocol (skb_store x off s) = skb_protocol s"
  by (simp_all add: skb_store_def set_th_data_def)

definition zero_hdr :: tcphdr where
  "zero_hdr = tcphdr_of (replicate 20 0)"

lemma zero_hdr_bytes: "tcphdr_bytes zero_hdr = replicate 20 0"
  by (simp add: zero_hdr_def tcphdr_of_def tcphdr_bytes_def le_defs bytes_of_be16 bytes_of_be32 nibbles_def flag_byte_def numeral_eq_Suc upt_rec)

lemma alloc_laid:
  assumes "tcp_alloc_skb optlen n tsk = (s, t)"
  shows "laid (replicate 34 0) zero_hdr (replicate (optlen + n) 0) s" and "skb_data s = int (54 + optlen + n)" and "skb_len s = 0"
    and "skb_dlen s = of_nat n" and "skb_id s = next_skb tsk" and "t = tsk\<lparr>next_skb := next_skb tsk + 1\<rparr>"
    and "skb_protocol s = ucast IP_TCP"
  using assms
  by (auto simp: tcp_alloc_skb_def laid_def zero_hdr_bytes alloc_skb_def skb_reserve_def hdr_lens replicate_add [symmetric] Let_def)

lemma buf_write_exact: "length x = length d \<Longrightarrow> buf_write d 0 x = x"
  by (simp add: buf_write_def)

lemma buf_write_skip: "length a = off \<Longrightarrow> buf_write (a @ b) (off + n) x = a @ buf_write b n x"
  by (simp add: buf_write_def)

lemma buf_write_front: "length x \<le> length d \<Longrightarrow> buf_write d 0 x = x @ drop (length x) d"
  by (simp add: buf_write_def)

section \<open>A tagged segment on the wire\<close>

text \<open>The header of a segment on the wire: the fields that \<open>tcp_transmit_skb\<close> fills in, in network
  order, and a checksum.\<close>

definition wire_hdr :: "u32 \<Rightarrow> tcp_sock \<Rightarrow> tcphdr \<Rightarrow> u16 \<Rightarrow> tcphdr" where
  "wire_hdr seq tsk th csum = (tcp_hdr_to_net (tcp_fill_header seq tsk th))\<lparr>th_csum := csum\<rparr>"

definition sent_as :: "u32 \<Rightarrow> tcp_sock \<Rightarrow> tcphdr \<Rightarrow> bytes \<Rightarrow> sk_buff \<Rightarrow> bool" where
  "sent_as seq tsk th d s \<longleftrightarrow> (\<exists>csum. skb_bytes s = tcphdr_bytes (wire_hdr seq tsk th csum) @ d)"

lemma transmit_tagged:
  assumes l: "laid pre th d s" and "th_hl th = 7" and "d \<noteq> []" "d ! 0 = TCP_OPT_FEC" and "skb_data s = 62"
  shows "\<exists>s' csum. tcp_transmit_skb out s seq tsk =
           (let (rc, s2) = out (sk_daddr tsk) s' in Ok (rc, s2, tsk\<lparr>tx_log := tx_log tsk @ [s']\<rparr>)) \<and>
         laid pre (wire_hdr seq tsk th csum) d s' \<and> skb_data s' = 34 \<and> skb_len s' = skb_len s + 28 \<and> skb_id s' = skb_id s \<and>
         skb_dlen s' = skb_dlen s"
proof -
  let ?th = "tcp_fill_header seq tsk th"
  let ?p = "set_tcp_hdr ?th (skb_push s 28)"
  define csum where "csum = tcp_v4_checksum (set_tcp_hdr (tcp_hdr_to_net ?th) ?p) (htonl (sk_saddr tsk)) (htonl (sk_daddr tsk))"
  let ?q = "set_tcp_hdr (wire_hdr seq tsk th csum) ?p"
  have hl: "th_hl ?th = 7" using assms(2) by (simp add: tcp_fill_header_def)
  have p: "laid pre ?th d ?p" using laid_set_hdr [of pre th d "skb_push s 28" ?th] l by simp
  have "tcp_write_options ?p tsk = Ok (?p, tsk)" using assms(3,4) by (simp add: tcp_write_options_def laid_reads(2) [OF p])
  moreover have "tcp_seal_header (sk_saddr tsk) (sk_daddr tsk) ?th ?p = ?q"
    by (simp add: tcp_seal_header_def wire_hdr_def csum_def Let_def)
  ultimately have "tcp_transmit_skb out s seq tsk = (let (rc, s2) = out (sk_daddr tsk) ?q in Ok (rc, s2, tsk\<lparr>tx_log := tx_log tsk @ [?q]\<rparr>))"
    unfolding tcp_transmit_skb_def laid_reads(1) [OF l] Let_def hl by (simp add: case_prod_beta)
  moreover have "laid pre (wire_hdr seq tsk th csum) d ?q" by (rule laid_set_hdr [OF p])
  moreover have "skb_data ?q = 34" "skb_len ?q = skb_len s + 28" "skb_id ?q = skb_id s" "skb_dlen ?q = skb_dlen s"
    using assms(5) by (simp_all add: skb_push_def)
  ultimately show ?thesis by blast
qed

lemma laid_sent:
  assumes "laid pre (wire_hdr seq tsk th csum) d s" and "skb_data s = 34"
  shows "sent_as seq tsk th d s"
  using assms by (auto simp: sent_as_def laid_def skb_bytes_def)

section \<open>The segment at the receiver\<close>

text \<open>A received buffer that carries the bytes of a sent segment behind its frame and IP headers.\<close>

definition carries :: "sk_buff \<Rightarrow> sk_buff \<Rightarrow> bool" where
  "carries s u \<longleftrightarrow> (\<exists>junk. 34 \<le> length (skb_head u) \<and> drop 34 (skb_head u) = skb_bytes s @ junk) \<and>
     ip_len (ip_hdr u) = int (length (skb_bytes s))"

lemma host_order: "tcp_hdr_to_host (wire_hdr seq tsk th csum) = (tcp_fill_header seq tsk th)\<lparr>th_csum := htons csum\<rparr>"
  by (simp add: wire_hdr_def tcp_hdr_to_host_def tcp_hdr_to_net_def)

lemma received:
  assumes s: "sent_as seq tsk th d s" and "carries s u" and "th_hl th = 7" and "8 \<le> length d" and "length d < 2 ^ 16"
    and "\<not> th_syn th" and "\<not> th_fin th"
  defines "v \<equiv> tcp_init_segment u"
  shows "\<exists>c junk. tcp_hdr v = (tcp_fill_header seq tsk th)\<lparr>th_csum := c\<rparr> \<and> th_data v = d @ junk"
    and "skb_seq v = seq" and "skb_end_seq v = seq + of_nat (length d - 8)" and "skb_dlen v = of_nat (length d - 8)"
    and "seg_ok v" and "skb_pay v = drop 8 d"
proof -
  obtain csum where b: "skb_bytes s = tcphdr_bytes (wire_hdr seq tsk th csum) @ d" using s by (auto simp: sent_as_def)
  obtain junk where j: "34 \<le> length (skb_head u)" "drop 34 (skb_head u) = skb_bytes s @ junk" "ip_len (ip_hdr u) = int (20 + length d)"
    using assms(2) b by (auto simp: carries_def)
  let ?w = "wire_hdr seq tsk th csum" and ?h = "(tcp_fill_header seq tsk th)\<lparr>th_csum := htons csum\<rparr>"
  define pre where "pre = take 34 (skb_head u)"
  have u: "laid pre ?w (d @ junk) u" using j(1) append_take_drop_id [of 34 "skb_head u"] unfolding j(2) b by (simp add: laid_def pre_def)
  note set = laid_set_hdr [OF u, of ?h]
  have hl: "uint (th_hl ?h) = 7" and sq: "th_seq ?h = seq" using assms(3) by (simp_all add: tcp_fill_header_def)
  have flags: "\<not> th_syn ?h" "\<not> th_fin ?h" using assms(6,7) by (simp_all add: tcp_fill_header_def)
  have v: "v = (set_tcp_hdr ?h u)\<lparr>skb_seq := seq, skb_dlen := of_nat (length d - 8), skb_len := of_nat (length d - 8),
      skb_end_seq := seq + of_nat (length d - 8), skb_payload := 62\<rparr>"
    using assms(4) unfolding v_def tcp_init_segment_def laid_reads(1) [OF u] host_order Let_def tcp_hlen_def hl j(3) sq
    by (simp add: flags hdr_lens of_nat_diff)
  have lv: "laid pre ?h (d @ junk) v" using set by (simp add: v laid_def)
  show "\<exists>c junk. tcp_hdr v = (tcp_fill_header seq tsk th)\<lparr>th_csum := c\<rparr> \<and> th_data v = d @ junk" using laid_reads(1,2) [OF lv] by blast
  show "skb_seq v = seq" "skb_end_seq v = seq + of_nat (length d - 8)" and dl: "skb_dlen v = of_nat (length d - 8)" by (simp_all add: v)
  have n: "unat (skb_dlen v) = length d - 8" using assms(5) dl by (simp add: unat_of_nat)
  have head: "skb_head v = pre @ tcphdr_bytes ?h @ d @ junk" "length pre = 34" using lv by (simp_all add: laid_def)
  have "skb_payload v = 62" by (simp add: v)
  then show "seg_ok v" "skb_pay v = drop 8 d"
    using assms(4) n head by (simp_all add: seg_ok_def skb_pay_def in_bounds_def buf_read_def)
qed

section \<open>Repair segments on the wire\<close>

definition repair_hdr :: "tcp_fec \<Rightarrow> u8 \<Rightarrow> u8 \<Rightarrow> u16 \<Rightarrow> fec_repair_hdr" where
  "repair_hdr fec blk_k j tail_len =
     \<lparr>rh_version = FEC_WIRE_VERSION, rh_k = blk_k, rh_r = fec_r fec, rh_repair_index = j, rh_block_id = tx_block_id fec,
      rh_base_seq = tx_base_seq fec, rh_sym_len = fec_sym_len fec, rh_tail_len = tail_len\<rparr>"

definition repair_bytes :: "tcp_fec \<Rightarrow> u8 \<Rightarrow> u8 \<Rightarrow> u16 \<Rightarrow> bytes \<Rightarrow> bytes" where
  "repair_bytes fec blk_k j tail_len parity =
     tcp_opt_fec_bytes \<lparr>fo_type = FEC_SYM_REPAIR, fo_index = j, fo_block_id = tx_block_id fec\<rparr> @
     fec_repair_hdr_bytes (repair_hdr fec blk_k j tail_len) @ parity"

abbreviation tagged_hdr :: tcphdr where
  "tagged_hdr \<equiv> zero_hdr\<lparr>th_hl := 7, th_ack := True\<rparr>"

lemma repair_skb_laid:
  assumes "length parity = unat (fec_sym_len fec)"
  shows "\<exists>s. repair_skb fec blk_k j tail_len parity tsk = (s, tsk\<lparr>next_skb := next_skb tsk + 1\<rparr>) \<and>
           laid (replicate 34 0) tagged_hdr (repair_bytes fec blk_k j tail_len parity) s \<and> skb_data s = 62"
proof -
  let ?n = "16 + unat (fec_sym_len fec)"
  obtain s0 where a: "tcp_alloc_skb 8 ?n tsk = (s0, tsk\<lparr>next_skb := next_skb tsk + 1\<rparr>)"
    using alloc_laid(6) by (metis surj_pair)
  note l0 = alloc_laid [OF a]
  let ?o = "tcp_opt_fec_bytes \<lparr>fo_type = FEC_SYM_REPAIR, fo_index = j, fo_block_id = tx_block_id fec\<rparr>"
  let ?h = "fec_repair_hdr_bytes (repair_hdr fec blk_k j tail_len)"
  define s1 where "s1 = tcp_write_fec_option FEC_SYM_REPAIR j (tx_block_id fec) s0"
  have l1: "laid (replicate 34 0) zero_hdr (?o @ replicate ?n 0) s1"
    using laid_data_update [OF l0(1), of 0 ?o] by (simp add: s1_def tcp_write_fec_option_def buf_write_front)
  define s2 where "s2 = skb_push (set_tcp_hdr tagged_hdr s1) ?n"
  have l2: "laid (replicate 34 0) tagged_hdr (?o @ replicate ?n 0) s2" using laid_set_hdr [OF l1, of tagged_hdr] by (simp add: s2_def)
  have d2: "skb_data s2 = 62" using l0(2) by (simp add: s2_def s1_def tcp_write_fec_option_def skb_push_def)
  define s3 where "s3 = skb_store ?h 0 s2"
  have l3: "laid (replicate 34 0) tagged_hdr (?o @ ?h @ replicate (unat (fec_sym_len fec)) 0) s3"
    using laid_store [OF l2, of 8 0 ?h] d2 buf_write_skip [of ?o 8 "replicate ?n 0" 0 ?h] by (simp add: s3_def buf_write_front)
  define s4 where "s4 = skb_store parity 16 s3"
  have d3: "skb_data s3 = 62" using d2 by (simp add: s3_def)
  have "buf_write (?o @ ?h @ replicate (unat (fec_sym_len fec)) 0) 24 parity = ?o @ ?h @ parity"
    using assms by (simp add: buf_write_def)
  then have "laid (replicate 34 0) tagged_hdr (?o @ ?h @ parity) s4"
    using laid_store [OF l3, of 8 16 parity] d3 by (simp add: s4_def)
  moreover have "repair_skb fec blk_k j tail_len parity tsk = (s4, tsk\<lparr>next_skb := next_skb tsk + 1\<rparr>)"
    using a assms laid_reads(1) [OF l1] unfolding repair_skb_def
    by (simp add: Let_def TCP_OPTLEN_FEC_def s4_def s3_def s2_def s1_def repair_hdr_def)
  moreover have "skb_data s4 = 62" using d3 by (simp add: s4_def)
  ultimately show ?thesis by (auto simp: repair_bytes_def)
qed

lemma repair_bytes_tag: "repair_bytes fec blk_k j tail_len parity \<noteq> []" "repair_bytes fec blk_k j tail_len parity ! 0 = TCP_OPT_FEC"
  by (simp_all add: repair_bytes_def tcp_opt_fec_bytes_def)

lemma send_repair:
  assumes "length parity = unat (fec_sym_len fec)"
  shows "\<exists>s. tcp_fec_send_repair out fec blk_k j tail_len parity tsk =
           Ok (fst (out (sk_daddr tsk) s), tsk\<lparr>next_skb := next_skb tsk + 1, tx_log := tx_log tsk @ [s]\<rparr>) \<and>
           sent_as (snd_nxt (tcb tsk)) tsk tagged_hdr (repair_bytes fec blk_k j tail_len parity) s"
proof -
  let ?t = "tsk\<lparr>next_skb := next_skb tsk + 1\<rparr>"
  obtain s where s: "repair_skb fec blk_k j tail_len parity tsk = (s, ?t)"
    "laid (replicate 34 0) tagged_hdr (repair_bytes fec blk_k j tail_len parity) s" "skb_data s = 62"
    using repair_skb_laid [OF assms] by blast
  obtain s' csum where t: "tcp_transmit_skb out s (snd_nxt (tcb ?t)) ?t =
      (let (rc, s2) = out (sk_daddr ?t) s' in Ok (rc, s2, ?t\<lparr>tx_log := tx_log ?t @ [s']\<rparr>))"
    "laid (replicate 34 0) (wire_hdr (snd_nxt (tcb ?t)) ?t tagged_hdr csum) (repair_bytes fec blk_k j tail_len parity) s'" "skb_data s' = 34"
    using transmit_tagged [OF s(2) _ repair_bytes_tag s(3), of out "snd_nxt (tcb ?t)" ?t] by auto
  have "sent_as (snd_nxt (tcb ?t)) ?t tagged_hdr (repair_bytes fec blk_k j tail_len parity) s'" by (rule laid_sent [OF t(2,3)])
  then have "sent_as (snd_nxt (tcb tsk)) tsk tagged_hdr (repair_bytes fec blk_k j tail_len parity) s'"
    by (simp add: sent_as_def wire_hdr_def tcp_fill_header_def)
  moreover have "tcp_fec_send_repair out fec blk_k j tail_len parity tsk =
      Ok (fst (out (sk_daddr tsk) s'), tsk\<lparr>next_skb := next_skb tsk + 1, tx_log := tx_log tsk @ [s']\<rparr>)"
    using t(1) unfolding tcp_fec_send_repair_def s(1) by (simp add: transmit_and_free_def case_prod_beta)
  ultimately show ?thesis by blast
qed

definition repairs_sent :: "tcp_sock \<Rightarrow> tcp_fec \<Rightarrow> u8 \<Rightarrow> u16 \<Rightarrow> (nat \<times> bytes) list \<Rightarrow> sk_buff list \<Rightarrow> bool" where
  "repairs_sent tsk fec blk_k tail_len ps ss \<longleftrightarrow>
     list_all2 (\<lambda>(j, parity) s. sent_as (snd_nxt (tcb tsk)) tsk tagged_hdr (repair_bytes fec blk_k (of_nat j) tail_len parity) s) ps ss"

text \<open>When the IP layer reports 0 for every segment, all repairs go out.\<close>

lemma send_repairs_all:
  assumes "\<forall>d s. fst (out d s) = 0" and "\<forall>(j, p)\<in>set ps. length p = unat (fec_sym_len fec)"
  shows "\<exists>ss. send_repairs out fec blk_k tail_len ps tsk =
           Ok (0, tsk\<lparr>next_skb := next_skb tsk + length ps, tx_log := tx_log tsk @ ss\<rparr>) \<and> repairs_sent tsk fec blk_k tail_len ps ss"
  using assms(2)
proof (induction ps arbitrary: tsk)
  case Nil
  then show ?case by (intro exI [of _ "[]"]) (simp add: repairs_sent_def)
next
  case (Cons a ps)
  obtain j p where a: "a = (j, p)" by (cases a)
  obtain s where s: "tcp_fec_send_repair out fec blk_k (of_nat j) tail_len p tsk =
      Ok (0, tsk\<lparr>next_skb := next_skb tsk + 1, tx_log := tx_log tsk @ [s]\<rparr>)"
    "sent_as (snd_nxt (tcb tsk)) tsk tagged_hdr (repair_bytes fec blk_k (of_nat j) tail_len p) s"
    using send_repair [of p fec out blk_k "of_nat j" tail_len tsk] assms(1) Cons.prems a by auto
  let ?t = "tsk\<lparr>next_skb := next_skb tsk + 1, tx_log := tx_log tsk @ [s]\<rparr>"
  obtain ss where "send_repairs out fec blk_k tail_len ps ?t = Ok (0, ?t\<lparr>next_skb := next_skb ?t + length ps, tx_log := tx_log ?t @ ss\<rparr>)"
    "repairs_sent ?t fec blk_k tail_len ps ss" using Cons.IH [of ?t] Cons.prems by auto
  then show ?case using s a by (intro exI [of _ "s # ss"]) (simp add: repairs_sent_def sent_as_def wire_hdr_def tcp_fill_header_def)
qed

text \<open>When it reports anything else, only the first one does.\<close>

lemma send_repairs_first:
  assumes "\<forall>d s. fst (out d s) \<noteq> 0" and "length p = unat (fec_sym_len fec)"
  shows "\<exists>s. send_repairs out fec blk_k tail_len ((j, p) # ps) tsk =
           Ok (-1, tsk\<lparr>next_skb := next_skb tsk + 1, tx_log := tx_log tsk @ [s]\<rparr>) \<and> repairs_sent tsk fec blk_k tail_len [(j, p)] [s]"
  using send_repair [OF assms(2), of out blk_k "of_nat j" tail_len tsk] assms(1) by (auto simp: repairs_sent_def)

section \<open>Emitting a block\<close>

text \<open>The transmit side of the FEC state is consistent; \<open>staged\<close>: the symbols \<open>S\<close> of the open block are
  registered with the encoder and their memory still holds them.\<close>

definition fec_tx_wf :: "tcp_fec \<Rightarrow> bool" where
  "fec_tx_wf fec \<longleftrightarrow>
     fec_geometry fec \<and> enc_wf (tx_enc fec) \<and> enc_k (tx_enc fec) = uint (fec_k fec) \<and> enc_r (tx_enc fec) = uint (fec_r fec) \<and>
     enc_sym_len (tx_enc fec) = unat (fec_sym_len fec) \<and>
     take (unat (fec_r fec)) (enc_red_x (tx_enc fec)) = red_points None (unat (fec_k fec)) (unat (fec_r fec)) \<and>
     enc_filled (tx_enc fec) = uint (tx_filled fec) \<and>
     length (tx_repair_buf fec) = unat (fec_r fec) * unat (fec_sym_len fec) \<and>
     length (tx_src_buf fec) = unat (fec_k fec) * unat (fec_sym_len fec)"

definition staged :: "sk_buff_head \<Rightarrow> tcp_fec \<Rightarrow> bytes list \<Rightarrow> bool" where
  "staged wq fec S \<longleftrightarrow>
     fec_tx_wf fec \<and> unat (tx_filled fec) = length S \<and> (\<forall>s\<in>set S. length s = unat (fec_sym_len fec)) \<and>
     (\<forall>i<length S. \<exists>p. enc_src (tx_enc fec) ! i = Some p \<and> sym_load wq fec p = Some (S ! i) \<and>
        (\<forall>off. p = SrcSlot off \<longrightarrow> off = i * unat (fec_sym_len fec)))"

definition block_parity :: "bytes list \<Rightarrow> nat \<Rightarrow> nat \<Rightarrow> bytes list" where
  "block_parity S L r = map (code_symbol S L) (red_points None (length S) r)"

lemma add_sources_fill: "add_sources (map Some ps) e = fill_encoder ps e"
  by (induction ps arbitrary: e) (auto split: cres.splits)

lemma staged_bounds:
  assumes "staged wq fec S"
  shows "S \<noteq> [] \<Longrightarrow> block_ok S (unat (fec_sym_len fec))" "length S \<le> unat (fec_k fec)" "unat (fec_k fec) \<le> 128" "0 < unat (fec_r fec)" "unat (fec_r fec) \<le> 32"
    and "uint (tx_filled fec) = int (length S)" and "length (red_points None (length S) (unat (fec_r fec))) = unat (fec_r fec)"
proof -
  have "int (unat (tx_filled fec)) = int (length S)" using assms by (simp add: staged_def)
  then show u: "uint (tx_filled fec) = int (length S)" by simp
  have "enc_filled (tx_enc fec) \<le> enc_k (tx_enc fec)" using assms by (simp add: staged_def fec_tx_wf_def enc_wf_def)
  then have "int (length S) \<le> int (unat (fec_k fec))" using assms u by (simp add: staged_def fec_tx_wf_def)
  then show n: "length S \<le> unat (fec_k fec)" by linarith
  show k: "unat (fec_k fec) \<le> 128" and "0 < unat (fec_r fec)" "unat (fec_r fec) \<le> 32"
    using assms by (simp_all add: staged_def fec_tx_wf_def fec_geometry_def)
  show "S \<noteq> [] \<Longrightarrow> block_ok S (unat (fec_sym_len fec))" using assms n k by (simp add: staged_def block_ok_def)
  show "length (red_points None (length S) (unat (fec_r fec))) = unat (fec_r fec)" by (simp add: red_points_def)
qed

lemma source_ptrs:
  assumes "staged wq fec S"
  shows "\<exists>ps. length ps = length S \<and> take (length S) (enc_src (tx_enc fec)) = map Some ps \<and>
    (\<forall>i<length S. sym_load wq fec (ps ! i) = Some (S ! i))"
proof -
  let ?src = "enc_src (tx_enc fec)"
  have n: "length S \<le> length ?src" using staged_bounds(2,3) [OF assms] assms by (simp add: staged_def fec_tx_wf_def enc_wf_def)
  have "\<forall>i<length S. \<exists>p. ?src ! i = Some p \<and> sym_load wq fec p = Some (S ! i)" using assms by (auto simp: staged_def)
  then have "?src ! i = Some (the (?src ! i)) \<and> sym_load wq fec (the (?src ! i)) = Some (S ! i)" if "i < length S" for i using that by force
  moreover from this n have "take (length S) ?src = map Some (map the (take (length S) ?src))" by (intro nth_equalityI) simp_all
  ultimately show ?thesis using n by (intro exI [of _ "map the (take (length S) ?src)"]) simp
qed

lemma block_encoder_Ok:
  assumes s: "staged wq fec S" and ne: "S \<noteq> []"
  shows "\<exists>e. block_encoder fec (tx_filled fec) = Ok e \<and> enc_wf e \<and> enc_k e = int (length S) \<and> enc_filled e = int (length S) \<and>
    enc_r e = uint (fec_r fec) \<and> enc_sym_len e = unat (fec_sym_len fec) \<and>
    take (unat (fec_r fec)) (enc_red_x e) = red_points None (length S) (unat (fec_r fec)) \<and>
    (\<forall>i<length S. \<exists>p. enc_src e ! i = Some p \<and> sym_load wq fec p = Some (S ! i))"
proof (cases "tx_filled fec = fec_k fec")
  case True
  then show ?thesis using s staged_bounds(6) [OF s] by (intro exI [of _ "tx_enc fec"]) (auto simp: block_encoder_def staged_def fec_tx_wf_def)
next
  case False
  note b = staged_bounds [OF s]
  have n0: "0 < length S" using ne by simp
  obtain ps where ps: "length ps = length S" "take (length S) (enc_src (tx_enc fec)) = map Some ps"
    "\<forall>i<length S. sym_load wq fec (ps ! i) = Some (S ! i)" using source_ptrs [OF s] by blast
  have ctx: "fec_ctx fec = Some fec_shared_ctx" using s by (simp add: staged_def fec_tx_wf_def fec_geometry_def)
  have r: "0 < uint (fec_r fec)" "uint (fec_r fec) \<le> 32" using b(4,5) unfolding uint_nat by linarith+
  obtain e0 where e0: "fec_encoder_init (Some enc_zero :: sym_ptr fec_encoder option) (Some fec_shared_ctx) (int (length S)) (uint (fec_r fec))
      (unat (fec_sym_len fec)) None = Ok e0"
    using default_inits(1) [OF n0 order_trans [OF b(2,3)] r, of enc_zero fec_shared_ctx "unat (fec_sym_len fec)"] by blast
  note i = enc_wf_init [OF e0]
  obtain e where e: "fill_encoder ps e0 = Ok e" "enc_wf e" "enc_k e = enc_k e0" "enc_r e = enc_r e0" "enc_sym_len e = enc_sym_len e0"
    "enc_red_x e = enc_red_x e0" "enc_filled e = int (length ps)" "take (length ps) (enc_src e) = map Some ps"
    using fill_encoder_Ok [OF i(1), of ps] i(2,5) ps(1) by auto
  have "enc_src e ! j = Some (ps ! j)" if "j < length S" for j
    using e(8) that ps(1) by (metis nth_map nth_take)
  moreover have "block_encoder fec (tx_filled fec) = Ok e"
    using False e0 ps(2) e(1) b(6) s unfolding block_encoder_def ctx by (simp add: add_sources_fill staged_def)
  ultimately show ?thesis using e i ps(1,3) by (intro exI [of _ e]) simp
qed

lemma emit_generates:
  assumes s: "staged wq fec S" and ne: "S \<noteq> []"
  defines "L \<equiv> unat (fec_sym_len fec)" and "r \<equiv> unat (fec_r fec)"
  shows "\<exists>e. block_encoder fec (tx_filled fec) = Ok e \<and>
    fec_encoder_generate (sym_load wq fec) (Some e) (Some (map (\<lambda>j. Some (buf_read (tx_repair_buf fec) (j * L) L)) [0..<r])) True =
      Ok (block_parity S L r)"
proof -
  obtain e where e: "block_encoder fec (tx_filled fec) = Ok e" "enc_wf e" "enc_k e = int (length S)" "enc_filled e = int (length S)"
    "enc_r e = uint (fec_r fec)" "enc_sym_len e = L" "take r (enc_red_x e) = red_points None (length S) r"
    "\<forall>i<length S. \<exists>p. enc_src e ! i = Some p \<and> sym_load wq fec p = Some (S ! i)"
    using block_encoder_Ok [OF s ne] unfolding L_def r_def by blast
  have r: "nat (enc_r e) = r" by (simp add: e(5) r_def)
  have buf: "length (tx_repair_buf fec) = r * L" using s by (simp add: staged_def fec_tx_wf_def L_def r_def)
  let ?outs = "map (\<lambda>j. buf_read (tx_repair_buf fec) (j * L) L) [0..<r]"
  have "\<forall>out\<in>set ?outs. length out = enc_sym_len e"
  proof
    fix out assume "out \<in> set ?outs"
    then obtain j where j: "j < r" "out = buf_read (tx_repair_buf fec) (j * L) L" by auto
    have "Suc j * L \<le> r * L" using j(1) by (intro mult_le_mono1) simp
    then show "length out = enc_sym_len e" using j(2) buf e(6) by (simp add: length_buf_read in_bounds_def add.commute)
  qed
  moreover have "block_ok S (enc_sym_len e)" using staged_bounds(1) [OF s ne] e(6) by (simp add: L_def)
  ultimately have "fec_encoder_generate (sym_load wq fec) (Some e) (Some (map Some ?outs)) True =
      Ok (map (code_symbol S (enc_sym_len e)) (take (nat (enc_r e)) (enc_red_x e)))"
    by (intro generate_parity) (use e r in simp_all)
  then show ?thesis using e(1,6,7) r by (auto simp: block_parity_def comp_def)
qed

lemma parity_lengths:
  assumes "staged wq fec S"
  shows "length (block_parity S L (unat (fec_r fec))) = unat (fec_r fec)"
    and "\<forall>(j, p)\<in>set (zip [0..<unat (fec_r fec)] (block_parity S L (unat (fec_r fec)))). length p = L"
  using staged_bounds(7) [OF assms] by (auto simp: block_parity_def dest!: set_zip_rightD)

lemma repairs_sent_fec:
  assumes "fec_r fec' = fec_r fec" "tx_block_id fec' = tx_block_id fec" "tx_base_seq fec' = tx_base_seq fec" "fec_sym_len fec' = fec_sym_len fec"
    and "sk_sport t = sk_sport tsk" "sk_dport t = sk_dport tsk" "tcb t = tcb tsk"
  shows "repairs_sent t fec' blk_k tail_len ps ss = repairs_sent tsk fec blk_k tail_len ps ss"
  using assms by (simp add: repairs_sent_def sent_as_def repair_bytes_def repair_hdr_def wire_hdr_def tcp_fill_header_def)

definition with_parity :: "tcp_fec \<Rightarrow> bytes list \<Rightarrow> tcp_fec" where
  "with_parity fec S = fec\<lparr>tx_repair_buf := concat (block_parity S (unat (fec_sym_len fec)) (unat (fec_r fec)))\<rparr>"

lemma emit_unfold:
  assumes s: "staged (sk_write_queue tsk) fec S" and ne: "S \<noteq> []"
  shows "tcp_fec_emit_block out True fec (tx_filled fec) tail_len tsk =
    cbind (send_repairs out (with_parity fec S) (tx_filled fec) tail_len
        (zip [0..<unat (fec_r fec)] (block_parity S (unat (fec_sym_len fec)) (unat (fec_r fec)))) (tsk\<lparr>tsk_fec := Some (with_parity fec S)\<rparr>))
      (\<lambda>(rc, tsk). if rc \<noteq> 0 then Ok (-1, tsk)
         else Ok (0, tsk\<lparr>tsk_fec := Some ((with_parity fec S)\<lparr>tx_block_id := tx_block_id fec + 1, tx_filled := 0,
                           tx_enc := the (fec_encoder_reset (Some (tx_enc fec)))\<rparr>)\<rparr>))"
proof -
  let ?L = "unat (fec_sym_len fec)" and ?r = "unat (fec_r fec)"
  obtain e where e: "block_encoder fec (tx_filled fec) = Ok e"
    "fec_encoder_generate (sym_load (sk_write_queue tsk) fec) (Some e) (Some (map (\<lambda>j. Some (buf_read (tx_repair_buf fec) (j * ?L) ?L)) [0..<?r])) True =
      Ok (block_parity S ?L ?r)" using emit_generates [OF s ne] by blast
  have k: "tx_filled fec \<noteq> 0" "\<not> tx_filled fec > fec_k fec"
    using staged_bounds(2) [OF s] s ne by (auto simp: staged_def word_less_nat_alt)
  have rest: "drop (?r * ?L) (tx_repair_buf fec) = []" using s by (simp add: staged_def fec_tx_wf_def)
  show ?thesis unfolding tcp_fec_emit_block_def Let_def e cres.case rest with_parity_def
    using k by (simp cong: if_cong)
qed

definition next_block :: "tcp_fec \<Rightarrow> bytes list \<Rightarrow> tcp_fec" where
  "next_block fec S = (with_parity fec S)\<lparr>tx_block_id := tx_block_id fec + 1, tx_filled := 0, tx_enc := the (fec_encoder_reset (Some (tx_enc fec)))\<rparr>"

lemma emit_all:
  assumes "staged (sk_write_queue tsk) fec S" and "S \<noteq> []" and "\<forall>d s. fst (out d s) = 0"
  defines "L \<equiv> unat (fec_sym_len fec)" and "r \<equiv> unat (fec_r fec)"
  shows "\<exists>ss. tcp_fec_emit_block out True fec (tx_filled fec) tail_len tsk =
      Ok (0, tsk\<lparr>next_skb := next_skb tsk + r, tx_log := tx_log tsk @ ss, tsk_fec := Some (next_block fec S)\<rparr>) \<and>
    repairs_sent tsk fec (tx_filled fec) tail_len (zip [0..<r] (block_parity S L r)) ss"
proof -
  let ?f = "with_parity fec S" and ?t = "tsk\<lparr>tsk_fec := Some (with_parity fec S)\<rparr>" and ?ps = "zip [0..<r] (block_parity S L r)"
  have "\<forall>(j, p)\<in>set ?ps. length p = unat (fec_sym_len ?f)" using parity_lengths(2) [OF assms(1), of L] by (simp add: L_def r_def with_parity_def)
  from send_repairs_all [OF assms(3) this, of "tx_filled fec" tail_len ?t] obtain ss where
    ss: "send_repairs out ?f (tx_filled fec) tail_len ?ps ?t = Ok (0, ?t\<lparr>next_skb := next_skb ?t + length ?ps, tx_log := tx_log ?t @ ss\<rparr>)"
      "repairs_sent ?t ?f (tx_filled fec) tail_len ?ps ss" by blast
  have "repairs_sent tsk fec (tx_filled fec) tail_len ?ps ss"
    using ss(2) repairs_sent_fec [of ?f fec ?t tsk] by (simp add: with_parity_def)
  then show ?thesis using ss(1) parity_lengths(1) [OF assms(1)] unfolding emit_unfold [OF assms(1,2)]
    by (intro exI [of _ ss]) (simp add: L_def r_def next_block_def)
qed

lemma emit_first:
  assumes "staged (sk_write_queue tsk) fec S" and "S \<noteq> []" and "\<forall>d s. fst (out d s) \<noteq> 0"
  defines "L \<equiv> unat (fec_sym_len fec)" and "r \<equiv> unat (fec_r fec)"
  shows "\<exists>s. tcp_fec_emit_block out True fec (tx_filled fec) tail_len tsk =
      Ok (-1, tsk\<lparr>next_skb := next_skb tsk + 1, tx_log := tx_log tsk @ [s], tsk_fec := Some (with_parity fec S)\<rparr>) \<and>
    repairs_sent tsk fec (tx_filled fec) tail_len [(0, block_parity S L r ! 0)] [s]"
proof -
  let ?f = "with_parity fec S" and ?t = "tsk\<lparr>tsk_fec := Some (with_parity fec S)\<rparr>"
  let ?p = "block_parity S L r ! 0"
  have r: "0 < r" using staged_bounds(4) [OF assms(1)] by (simp add: r_def)
  have n: "length (block_parity S L r) = r" using parity_lengths(1) [OF assms(1)] by (simp add: r_def)
  have ps: "zip [0..<r] (block_parity S L r) = (0, ?p) # zip [1..<r] (drop 1 (block_parity S L r))"
    using r n by (cases "block_parity S L r") (simp_all add: upt_rec [of 0])
  have "length ?p = unat (fec_sym_len ?f)" using r n by (simp add: block_parity_def L_def with_parity_def)
  from send_repairs_first [OF assms(3) this, of "tx_filled fec" tail_len 0 "zip [1..<r] (drop 1 (block_parity S L r))" ?t] obtain s where
    s: "send_repairs out ?f (tx_filled fec) tail_len (zip [0..<r] (block_parity S L r)) ?t =
          Ok (-1, ?t\<lparr>next_skb := next_skb ?t + 1, tx_log := tx_log ?t @ [s]\<rparr>)"
       "repairs_sent ?t ?f (tx_filled fec) tail_len [(0, ?p)] [s]" unfolding ps by blast
  have "repairs_sent tsk fec (tx_filled fec) tail_len [(0, ?p)] [s]"
    using s(2) repairs_sent_fec [of ?f fec ?t tsk] by (simp add: with_parity_def)
  then show ?thesis using s(1) unfolding emit_unfold [OF assms(1,2)] by (intro exI [of _ s]) (simp add: L_def r_def)
qed

text \<open>What arrives of a repair segment of the block \<open>B\<close> is an honest repair of \<open>B\<close>.\<close>

lemma repair_received:
  assumes s: "sent_as seq tsk tagged_hdr (repair_bytes fec (of_nat (length (fb_syms B))) (of_nat j) (of_nat (fb_tail B)) (fb_parity L r B j)) s"
    and u: "carries s u" and L: "L = unat (fec_sym_len fec)" "L + 24 < 2 ^ 16" and r: "r = unat (fec_r fec)" "j < r"
    and B: "block_of W L B" "length (fb_syms B) \<le> unat (fec_k fec)" "tx_base_seq fec = base + of_nat (fb_off B)"
    and g: "same_geometry fec peer"
  defines "v \<equiv> tcp_init_segment u"
  shows "tagged FEC_SYM_REPAIR (tx_block_id fec) j v" and "repair_segment W base peer B j v"
    and "plain_data (rcv_nxt (tcb tsk)) v"
proof -
  let ?p = "fb_parity L r B j"
  let ?d = "repair_bytes fec (of_nat (length (fb_syms B))) (of_nat j) (of_nat (fb_tail B)) ?p"
  have p: "length ?p = L" by (simp add: fb_parity_def)
  have d: "length ?d = 24 + L" "drop 8 ?d = fec_repair_hdr_bytes (repair_hdr fec (of_nat (length (fb_syms B))) (of_nat j) (of_nat (fb_tail B))) @ ?p"
    by (simp_all add: repair_bytes_def p)
  have f: "th_hl tagged_hdr = 7" "\<not> th_syn tagged_hdr" "\<not> th_fin tagged_hdr" "\<not> th_rst tagged_hdr" "th_ack tagged_hdr"
    by (simp_all add: zero_hdr_def tcphdr_of_def)
  have len: "8 \<le> length ?d" "length ?d < 2 ^ 16" using d(1) L(2) by simp_all
  note rcv = received [OF s u f(1) len f(2,3), folded v_def]
  obtain c junk where v: "tcp_hdr v = (tcp_fill_header seq tsk tagged_hdr)\<lparr>th_csum := c\<rparr>" "th_data v = ?d @ junk" using rcv(1) by blast
  show "tagged FEC_SYM_REPAIR (tx_block_id fec) j v"
    unfolding tagged_def v by (simp add: tcp_fill_header_def tcp_hlen_def repair_bytes_def)
  have "skb_dlen v = of_nat (16 + L)" using rcv(4) d(1) by simp
  then have n: "unat (skb_dlen v) = 16 + L" using L(2) by (simp only: unat_of_nat) simp
  show "repair_segment W base peer B j v"
    unfolding repair_segment_def
    using g B L(1) r n rcv(5,6) d(2) by (auto simp: same_geometry_def repair_hdr_def intro!: exI [of _ "repair_hdr fec (of_nat (length (fb_syms B))) (of_nat j) (of_nat (fb_tail B))"])
  show "plain_data (rcv_nxt (tcb tsk)) v"
    unfolding plain_data_def v using f rcv(2-4) n by (auto simp: tcp_fill_header_def word_less_nat_alt)
qed

section \<open>Source segments\<close>

definition source_bytes :: "u32 \<Rightarrow> u8 \<Rightarrow> bytes \<Rightarrow> bytes" where
  "source_bytes bid i chunk = tcp_opt_fec_bytes \<lparr>fo_type = FEC_SYM_SOURCE, fo_index = i, fo_block_id = bid\<rparr> @ chunk"

definition data_hdr :: "tcphdr \<Rightarrow> bool" where
  "data_hdr th \<longleftrightarrow> th_hl th = 7 \<and> th_ack th \<and> \<not> th_syn th \<and> \<not> th_fin th \<and> \<not> th_rst th"

text \<open>A segment on the write queue that is tagged as symbol \<open>i\<close> of block \<open>bid\<close> and carries \<open>chunk\<close>.\<close>

definition source_ready :: "u32 \<Rightarrow> nat \<Rightarrow> bytes \<Rightarrow> sk_buff \<Rightarrow> bool" where
  "source_ready bid i chunk s \<longleftrightarrow>
     (\<exists>pre th. laid pre th (source_bytes bid (of_nat i) chunk) s \<and> data_hdr th) \<and> skb_dlen s = of_nat (length chunk)"

definition source_skb :: "u32 \<Rightarrow> u8 \<Rightarrow> bytes \<Rightarrow> bool \<Rightarrow> sk_buff \<Rightarrow> sk_buff" where
  "source_skb bid i chunk final skb =
     (let skb = tcp_write_fec_option FEC_SYM_SOURCE i bid skb
      in data_skb chunk final (set_tcp_hdr ((tcp_hdr skb)\<lparr>th_hl := 7\<rparr>) skb))"

lemma source_skb_laid:
  assumes "tcp_alloc_skb 8 (length chunk) tsk = (s0, t)"
  shows "laid (replicate 34 0) (zero_hdr\<lparr>th_hl := 7, th_ack := True, th_psh := final\<rparr>) (source_bytes bid i chunk) (source_skb bid i chunk final s0)"
    and "skb_data (source_skb bid i chunk final s0) = 62" and "skb_dlen (source_skb bid i chunk final s0) = of_nat (length chunk)"
    and "skb_id (source_skb bid i chunk final s0) = next_skb tsk"
proof -
  note l0 = alloc_laid [OF assms]
  let ?o = "tcp_opt_fec_bytes \<lparr>fo_type = FEC_SYM_SOURCE, fo_index = i, fo_block_id = bid\<rparr>"
  define s1 where "s1 = tcp_write_fec_option FEC_SYM_SOURCE i bid s0"
  have l1: "laid (replicate 34 0) zero_hdr (?o @ replicate (length chunk) 0) s1"
    using laid_data_update [OF l0(1), of 0 ?o] by (simp add: s1_def tcp_write_fec_option_def buf_write_front)
  define s2 where "s2 = skb_push (set_tcp_hdr (zero_hdr\<lparr>th_hl := 7\<rparr>) s1) (length chunk)"
  have l2: "laid (replicate 34 0) (zero_hdr\<lparr>th_hl := 7\<rparr>) (?o @ replicate (length chunk) 0) s2"
    using laid_set_hdr [OF l1, of "zero_hdr\<lparr>th_hl := 7\<rparr>"] by (simp add: s2_def)
  have d2: "skb_data s2 = 62" using l0(2) by (simp add: s2_def s1_def tcp_write_fec_option_def skb_push_def)
  define s3 where "s3 = skb_store chunk 0 s2"
  have l3: "laid (replicate 34 0) (zero_hdr\<lparr>th_hl := 7\<rparr>) (source_bytes bid i chunk) s3"
    using laid_store [OF l2, of 8 0 chunk] d2 buf_write_skip [of ?o 8 "replicate (length chunk) 0" 0 chunk] by (simp add: s3_def buf_write_front source_bytes_def)
  have psh: "\<not> th_psh zero_hdr" by (simp add: zero_hdr_def tcphdr_of_def)
  have s: "source_skb bid i chunk final s0 = set_tcp_hdr (zero_hdr\<lparr>th_hl := 7, th_ack := True, th_psh := final\<rparr>) s3"
    unfolding source_skb_def data_skb_def Let_def s1_def [symmetric] laid_reads(1) [OF l1] s2_def [symmetric] s3_def [symmetric] laid_reads(1) [OF l3]
    using psh by simp
  show "laid (replicate 34 0) (zero_hdr\<lparr>th_hl := 7, th_ack := True, th_psh := final\<rparr>) (source_bytes bid i chunk) (source_skb bid i chunk final s0)"
    unfolding s by (rule laid_set_hdr [OF l3])
  show "skb_data (source_skb bid i chunk final s0) = 62" using d2 by (simp add: s s3_def)
  show "skb_dlen (source_skb bid i chunk final s0) = of_nat (length chunk)" "skb_id (source_skb bid i chunk final s0) = next_skb tsk"
    using l0(4,5) by (simp_all add: s s3_def s2_def s1_def tcp_write_fec_option_def)
qed

lemma source_data_hdr: "data_hdr (zero_hdr\<lparr>th_hl := 7, th_ack := True, th_psh := final\<rparr>)"
  by (simp add: data_hdr_def zero_hdr_def tcphdr_of_def)

lemma source_received:
  assumes s: "sent_as seq tsk th (source_bytes bid (of_nat i) chunk) s" and u: "carries s u" and th: "data_hdr th"
    and L: "L = unat (fec_sym_len peer)" "L + 24 < 2 ^ 16"
    and B: "block_of W L B" "length (fb_syms B) \<le> unat (fec_k peer)" "i < length (fb_syms B)"
    and c: "chunk = take (fb_len L B i) (drop (fb_off B + i * L) W)" "length chunk = fb_len L B i"
    and q: "seq = base + of_nat (fb_off B + i * L)"
  defines "v \<equiv> tcp_init_segment u"
  shows "tagged FEC_SYM_SOURCE bid i v" and "source_segment W base peer B i v" and "plain_data (rcv_nxt (tcb tsk)) v"
proof -
  let ?d = "source_bytes bid (of_nat i) chunk"
  have cl: "0 < length chunk" "length chunk \<le> L" using c(2) B(1,3) by (auto simp: fb_len_def block_of_def)
  have d: "length ?d = 8 + length chunk" "drop 8 ?d = chunk" by (simp_all add: source_bytes_def)
  have len: "8 \<le> length ?d" "length ?d < 2 ^ 16" using d(1) L(2) cl(2) by simp_all
  have f: "th_hl th = 7" "\<not> th_syn th" "\<not> th_fin th" "\<not> th_rst th" "th_ack th" using th by (simp_all add: data_hdr_def)
  note rcv = received [OF s u f(1) len f(2,3), folded v_def]
  obtain x junk where v: "tcp_hdr v = (tcp_fill_header seq tsk th)\<lparr>th_csum := x\<rparr>" "th_data v = ?d @ junk" using rcv(1) by blast
  show "tagged FEC_SYM_SOURCE bid i v"
    unfolding tagged_def v using f(1) by (simp add: tcp_fill_header_def tcp_hlen_def source_bytes_def)
  have "skb_dlen v = of_nat (length chunk)" using rcv(4) d(1) by simp
  then have n: "unat (skb_dlen v) = length chunk" using L(2) cl(2) by (simp only: unat_of_nat) simp
  show "source_segment W base peer B i v"
    unfolding source_segment_def using B L(1) n rcv(2,5,6) d(2) c q by simp
  show "plain_data (rcv_nxt (tcb tsk)) v"
    unfolding plain_data_def v using f rcv(2-4) n cl(1) by (auto simp: tcp_fill_header_def word_less_nat_alt)
qed

section \<open>Registering a symbol\<close>

definition pad :: "nat \<Rightarrow> bytes \<Rightarrow> bytes" where
  "pad L chunk = chunk @ replicate (L - length chunk) 0"

lemma find_append: "find P (xs @ ys) = (case find P xs of None \<Rightarrow> find P ys | Some x \<Rightarrow> Some x)"
  by (induction xs) auto

lemma load_kept:
  assumes "sym_load wq fec p = Some d" and "fec_sym_len fec' = fec_sym_len fec"
    and "\<And>off. p = SrcSlot off \<Longrightarrow> buf_read (tx_src_buf fec') off (unat (fec_sym_len fec)) = buf_read (tx_src_buf fec) off (unat (fec_sym_len fec))"
  shows "sym_load (skb_queue_tail wq s) fec' p = Some d"
  using assms by (cases p) (auto simp: sym_load_def skb_queue_tail_def find_append split: option.splits)

lemma slot_kept:
  assumes "i < n" and "n * L + length d \<le> length b"
  shows "buf_read (buf_write b (n * L) d) (i * L) L = buf_read b (i * L) L"
proof -
  have "Suc i * L \<le> n * L" using assms(1) by (intro mult_le_mono1) simp
  then have "i * L + L \<le> n * L" by simp
  then show ?thesis using assms(2) by (intro buf_read_write_other) (simp_all add: in_bounds_def)
qed

text \<open>The encoder's pointer to a new symbol, and the state it is registered in.\<close>

definition symbol_ptr :: "sk_buff \<Rightarrow> nat \<Rightarrow> tcp_fec \<Rightarrow> sym_ptr" where
  "symbol_ptr skb n fec = (if n = unat (fec_sym_len fec) then SkbPayload (skb_id skb) 62 else SrcSlot (unat (tx_filled fec) * unat (fec_sym_len fec)))"

definition stage_chunk :: "bytes \<Rightarrow> tcp_fec \<Rightarrow> tcp_fec" where
  "stage_chunk chunk fec =
     (let L = unat (fec_sym_len fec)
      in if length chunk = L then fec\<lparr>tx_tail_len := fec_sym_len fec\<rparr>
         else fec\<lparr>tx_src_buf := buf_write (tx_src_buf fec) (unat (tx_filled fec) * L) (pad L chunk), tx_tail_len := of_nat (length chunk)\<rparr>)"

definition add_symbol :: "sk_buff \<Rightarrow> bytes \<Rightarrow> tcp_fec \<Rightarrow> tcp_fec" where
  "add_symbol skb chunk fec =
     (stage_chunk chunk fec)\<lparr>tx_enc := (tx_enc fec)\<lparr>enc_src := (enc_src (tx_enc fec))[unat (tx_filled fec) := Some (symbol_ptr skb (length chunk) fec)],
                                        enc_filled := enc_filled (tx_enc fec) + 1\<rparr>,
        tx_filled := tx_filled fec + 1\<rparr>"

lemma stage_fields [simp]:
  "fec_k (stage_chunk chunk fec) = fec_k fec" "fec_r (stage_chunk chunk fec) = fec_r fec" "fec_sym_len (stage_chunk chunk fec) = fec_sym_len fec"
  "fec_ctx (stage_chunk chunk fec) = fec_ctx fec" "tx_block_id (stage_chunk chunk fec) = tx_block_id fec"
  "tx_base_seq (stage_chunk chunk fec) = tx_base_seq fec" "tx_filled (stage_chunk chunk fec) = tx_filled fec" "tx_enc (stage_chunk chunk fec) = tx_enc fec"
  "tx_repair_buf (stage_chunk chunk fec) = tx_repair_buf fec" "fec_rx (stage_chunk chunk fec) = fec_rx fec"
  "tx_tail_len (stage_chunk chunk fec) = of_nat (length chunk)"
  by (simp_all add: stage_chunk_def Let_def)

lemma slot_bounds:
  assumes "staged wq fec S" and "length S < unat (fec_k fec)"
  shows "length S * unat (fec_sym_len fec) + unat (fec_sym_len fec) \<le> length (tx_src_buf fec)"
proof -
  have "Suc (length S) * unat (fec_sym_len fec) \<le> unat (fec_k fec) * unat (fec_sym_len fec)" using assms(2) by (intro mult_le_mono1) simp
  then show ?thesis using assms(1) by (simp add: staged_def fec_tx_wf_def)
qed

lemma register_add:
  assumes st: "staged wq fec S" and f: "tsk_fec tsk = Some fec" and room: "length S < unat (fec_k fec)"
    and c: "length chunk \<le> unat (fec_sym_len fec)" and d: "skb_data skb = 62"
  shows "fec_register_symbol skb chunk tsk = Ok (tsk\<lparr>tsk_fec := Some (add_symbol skb chunk fec)\<rparr>)"
proof -
  have n: "unat (tx_filled fec) = length S" using st by (simp add: staged_def)
  have "enc_filled (tx_enc fec) = int (length S)" "enc_k (tx_enc fec) = uint (fec_k fec)"
    using st staged_bounds(6) [OF st] by (simp_all add: staged_def fec_tx_wf_def)
  moreover have "int (length S) < uint (fec_k fec)" using room unfolding uint_nat by linarith
  ultimately have add: "fec_encoder_add_source (Some (tx_enc fec)) (Some p) =
      Ok ((tx_enc fec)\<lparr>enc_src := (enc_src (tx_enc fec))[length S := Some p], enc_filled := enc_filled (tx_enc fec) + 1\<rparr>)" for p
    by (simp add: fec_encoder_add_source_def)
  have b: "in_bounds (tx_src_buf fec) (length S * unat (fec_sym_len fec)) (unat (fec_sym_len fec))" "\<not> unat (fec_sym_len fec) < length chunk"
    using slot_bounds [OF st room] c by (simp_all add: in_bounds_def)
  show ?thesis
    using b d unfolding fec_register_symbol_def f option.case Let_def n add_symbol_def
    by (cases "length chunk = unat (fec_sym_len fec)") (simp_all add: add stage_chunk_def symbol_ptr_def n pad_def Let_def)
qed


lemma add_symbol_fields [simp]:
  "fec_k (add_symbol skb chunk fec) = fec_k fec" "fec_r (add_symbol skb chunk fec) = fec_r fec" "fec_sym_len (add_symbol skb chunk fec) = fec_sym_len fec"
  "tx_block_id (add_symbol skb chunk fec) = tx_block_id fec" "tx_base_seq (add_symbol skb chunk fec) = tx_base_seq fec"
  "tx_tail_len (add_symbol skb chunk fec) = of_nat (length chunk)" "tx_filled (add_symbol skb chunk fec) = tx_filled fec + 1"
  by (simp_all add: add_symbol_def)

lemma add_symbol_wf:
  assumes st: "staged wq fec S" and room: "length S < unat (fec_k fec)" and c: "length chunk \<le> unat (fec_sym_len fec)"
  shows "fec_tx_wf (add_symbol skb chunk fec)" and "unat (tx_filled fec + 1) = length S + 1"
proof -
  have n: "unat (tx_filled fec) = length S" using st by (simp add: staged_def)
  have k: "unat (fec_k fec) \<le> 128" by (rule staged_bounds(3) [OF st])
  show m: "unat (tx_filled fec + 1) = length S + 1" using room k by (simp add: unat_word_ariths n)
  have u: "uint (tx_filled fec + 1) = uint (tx_filled fec) + 1" using m n unfolding uint_nat by simp
  have wf: "enc_wf (tx_enc fec)" and fl: "enc_filled (tx_enc fec) = int (length S)" and ek: "enc_k (tx_enc fec) = uint (fec_k fec)"
    using st staged_bounds(6) [OF st] by (simp_all add: staged_def fec_tx_wf_def)
  have "int (length S) < uint (fec_k fec)" using room unfolding uint_nat by linarith
  then have "fec_encoder_add_source (Some (tx_enc fec)) (Some (symbol_ptr skb (length chunk) fec)) = Ok (tx_enc (add_symbol skb chunk fec))"
    using fl ek by (simp add: fec_encoder_add_source_def add_symbol_def n)
  then have "enc_wf (tx_enc (add_symbol skb chunk fec))" by (rule enc_wf_add_source [OF wf])
  moreover have "length (tx_src_buf (add_symbol skb chunk fec)) = length (tx_src_buf fec)"
    using slot_bounds [OF st room] c by (simp add: add_symbol_def stage_chunk_def n Let_def length_buf_write in_bounds_def pad_def)
  ultimately show "fec_tx_wf (add_symbol skb chunk fec)"
    using st u by (simp add: fec_tx_wf_def staged_def fec_geometry_def add_symbol_def)
qed

lemma symbol_loads:
  assumes st: "staged wq fec S" and room: "length S < unat (fec_k fec)" and c: "length chunk \<le> unat (fec_sym_len fec)"
    and l: "laid pre th (source_bytes bid i chunk) skb" and fresh: "\<forall>s\<in>set (q_list wq). skb_id s \<noteq> skb_id skb"
    and s': "skb_id s' = skb_id skb" "th_data s' = th_data skb"
  shows "sym_load (skb_queue_tail wq s') (add_symbol skb chunk fec) (symbol_ptr skb (length chunk) fec) = Some (pad (unat (fec_sym_len fec)) chunk)"
proof (cases "length chunk = unat (fec_sym_len fec)")
  case True
  have "find (\<lambda>s. skb_id s = skb_id skb) (q_list wq) = None" using fresh by (auto simp: find_None_iff)
  then have "find (\<lambda>s. skb_id s = skb_id skb) (q_list (skb_queue_tail wq s')) = Some s'"
    using s'(1) by (simp add: skb_queue_tail_def find_append)
  moreover have "drop 62 (skb_head s') = drop 8 (th_data s')" by (simp add: th_data_def hdr_lens)
  then have "drop 62 (skb_head s') = chunk" unfolding s'(2) laid_reads(2) [OF l] by (simp add: source_bytes_def)
  ultimately show ?thesis using True by (simp add: symbol_ptr_def sym_load_def buf_read_def pad_def)
next
  case False
  have n: "unat (tx_filled fec) = length S" using st by (simp add: staged_def)
  have "length (pad (unat (fec_sym_len fec)) chunk) = unat (fec_sym_len fec)" using c by (simp add: pad_def)
  then show ?thesis using False slot_bounds [OF st room] n
    by (simp add: symbol_ptr_def sym_load_def add_symbol_def stage_chunk_def Let_def buf_read_write_same in_bounds_def)
qed

lemma add_symbol_staged:
  assumes st: "staged wq fec S" and room: "length S < unat (fec_k fec)" and c: "length chunk \<le> unat (fec_sym_len fec)"
    and l: "laid pre th (source_bytes bid i chunk) skb" and fresh: "\<forall>s\<in>set (q_list wq). skb_id s \<noteq> skb_id skb"
    and s': "skb_id s' = skb_id skb" "th_data s' = th_data skb"
  shows "staged (skb_queue_tail wq s') (add_symbol skb chunk fec) (S @ [pad (unat (fec_sym_len fec)) chunk])"
proof -
  let ?f = "add_symbol skb chunk fec" and ?L = "unat (fec_sym_len fec)" and ?p = "symbol_ptr skb (length chunk) fec"
  let ?good = "\<lambda>j p d. sym_load (skb_queue_tail wq s') ?f p = Some d \<and> (\<forall>off. p = SrcSlot off \<longrightarrow> off = j * ?L)"
  have n: "unat (tx_filled fec) = length S" using st by (simp add: staged_def)
  have len: "length (enc_src (tx_enc fec)) = 128" using st by (simp add: staged_def fec_tx_wf_def enc_wf_def)
  have src: "enc_src (tx_enc ?f) = (enc_src (tx_enc fec))[length S := Some ?p]" by (simp add: add_symbol_def n)
  have "\<exists>p. enc_src (tx_enc ?f) ! j = Some p \<and> ?good j p ((S @ [pad ?L chunk]) ! j)" if j: "j < Suc (length S)" for j
  proof (cases "j = length S")
    case True
    then show ?thesis using symbol_loads [OF assms] src len room staged_bounds(3) [OF st] n by (auto simp: symbol_ptr_def)
  next
    case False
    then have "j < length S" using j by simp
    then obtain p where p: "enc_src (tx_enc fec) ! j = Some p" "sym_load wq fec p = Some (S ! j)" "\<forall>off. p = SrcSlot off \<longrightarrow> off = j * ?L"
      using st by (auto simp: staged_def)
    have "sym_load (skb_queue_tail wq s') ?f p = Some (S ! j)"
    proof (rule load_kept [OF p(2)])
      fix off assume "p = SrcSlot off"
      then show "buf_read (tx_src_buf ?f) off ?L = buf_read (tx_src_buf fec) off ?L"
        using p(3) slot_kept [OF \<open>j < length S\<close>] slot_bounds [OF st room] n c by (simp add: add_symbol_def stage_chunk_def Let_def pad_def)
    qed simp
    then show ?thesis using p \<open>j < length S\<close> src by (simp add: nth_append)
  qed
  moreover have "\<forall>s\<in>set (S @ [pad ?L chunk]). length s = ?L" using st c by (auto simp: staged_def pad_def)
  ultimately show ?thesis using add_symbol_wf(1) [OF st room c, of skb] add_symbol_wf(2) [OF st room c] by (simp add: staged_def)
qed

section \<open>Queueing and transmitting a source segment\<close>

text \<open>An IP layer that writes in front of the segment it is given, as \<open>ip_output\<close> does.\<close>

definition ip_transparent :: "ip_layer \<Rightarrow> bool" where
  "ip_transparent out \<longleftrightarrow>
     (\<forall>d s. skb_data s = 34 \<and> 54 \<le> length (skb_head s) \<longrightarrow>
        skb_id (snd (out d s)) = skb_id s \<and> skb_dlen (snd (out d s)) = skb_dlen s \<and>
        34 \<le> length (skb_head (snd (out d s))) \<and> drop 34 (skb_head (snd (out d s))) = drop 34 (skb_head s))"

definition same_peer :: "tcp_sock \<Rightarrow> tcp_sock \<Rightarrow> bool" where
  "same_peer tsk t \<longleftrightarrow> sk_sport t = sk_sport tsk \<and> sk_dport t = sk_dport tsk \<and> rcv_nxt (tcb t) = rcv_nxt (tcb tsk) \<and> rcv_wnd (tcb t) = rcv_wnd (tcb tsk)"

lemma same_peer_sent: "same_peer tsk t \<Longrightarrow> sent_as seq t th d s = sent_as seq tsk th d s"
  by (simp add: same_peer_def sent_as_def wire_hdr_def tcp_fill_header_def)

lemma rearm_fields [simp]:
  "sk_write_queue (tcp_rearm_rto_timer t) = sk_write_queue t" "tsk_fec (tcp_rearm_rto_timer t) = tsk_fec t" "tcb (tcp_rearm_rto_timer t) = tcb t"
  "inflight (tcp_rearm_rto_timer t) = inflight t" "tx_log (tcp_rearm_rto_timer t) = tx_log t" "next_skb (tcp_rearm_rto_timer t) = next_skb t"
  "sk_sport (tcp_rearm_rto_timer t) = sk_sport t" "sk_dport (tcp_rearm_rto_timer t) = sk_dport t"
  by (simp_all add: tcp_rearm_rto_timer_def tcp_release_rto_timer_def add_timer_def Let_def case_prod_beta)

lemma laid_out:
  assumes "ip_transparent out" and "laid pre th d s" and "skb_data s = 34"
  shows "\<exists>pre'. laid pre' th d (snd (out a s)) \<and> skb_id (snd (out a s)) = skb_id s \<and> skb_dlen (snd (out a s)) = skb_dlen s"
proof -
  let ?s = "snd (out a s)"
  have "54 \<le> length (skb_head s)" using assms(2) by (simp add: laid_def)
  then have o: "skb_id ?s = skb_id s" "skb_dlen ?s = skb_dlen s" "34 \<le> length (skb_head ?s)" "drop 34 (skb_head ?s) = drop 34 (skb_head s)"
    using assms(1,3) unfolding ip_transparent_def by blast+
  have "drop 34 (skb_head s) = tcphdr_bytes th @ d" using assms(2) by (simp add: laid_def)
  then have "laid (take 34 (skb_head ?s)) th d ?s"
    using o(3,4) append_take_drop_id [of 34 "skb_head ?s"] by (simp add: laid_def)
  then show ?thesis using o(1,2) by blast
qed

lemma wire_hdr_flags: "th_hl th = 7 \<Longrightarrow> data_hdr th \<Longrightarrow> data_hdr (wire_hdr seq tsk th csum)"
  by (simp add: data_hdr_def wire_hdr_def tcp_hdr_to_net_def tcp_fill_header_def)

text \<open>What queueing does: the segment ends on the queue; it is transmitted at once when nothing is in
  flight.\<close>

lemma queue_source:
  assumes out: "ip_transparent out" and l: "laid pre th (source_bytes bid (of_nat i) chunk) s" and h: "data_hdr th"
    and d: "skb_data s = 62" "skb_dlen s = of_nat (length chunk)"
  shows "\<exists>rc s' t. tcp_queue_transmit_skb out s tsk = Ok (rc, t) \<and> sk_write_queue t = skb_queue_tail (sk_write_queue tsk) s' \<and>
     skb_id s' = skb_id s \<and> th_data s' = th_data s \<and> source_ready bid i chunk s' \<and> tsk_fec t = tsk_fec tsk \<and> next_skb t = next_skb tsk \<and>
     same_peer tsk t \<and>
     (if inflight tsk = 0 then inflight t = 1 \<and> (\<exists>s0. tx_log t = tx_log tsk @ [s0] \<and>
         sent_as (snd_nxt (tcb tsk)) tsk th (source_bytes bid (of_nat i) chunk) s0)
      else inflight t = inflight tsk \<and> tcb t = tcb tsk \<and> tx_log t = tx_log tsk)"
proof (cases "inflight tsk = 0")
  case False
  define t where "t = (if skb_queue_empty (sk_write_queue tsk) then tcp_rearm_rto_timer tsk else tsk)"
  have t: "sk_write_queue t = sk_write_queue tsk" "tsk_fec t = tsk_fec tsk" "tcb t = tcb tsk" "inflight t = inflight tsk" "tx_log t = tx_log tsk"
    "next_skb t = next_skb tsk" "same_peer tsk t" by (simp_all add: t_def same_peer_def)
  have "tcp_queue_transmit_skb out s tsk = Ok (0, t\<lparr>sk_write_queue := skb_queue_tail (sk_write_queue t) s\<rparr>)"
    unfolding tcp_queue_transmit_skb_def Let_def t_def [symmetric] using False t(4) by simp
  moreover have "source_ready bid i chunk s" using l h d(2) by (auto simp: source_ready_def)
  ultimately show ?thesis using False t by (intro exI [of _ 0] exI [of _ s] exI [of _ "t\<lparr>sk_write_queue := skb_queue_tail (sk_write_queue t) s\<rparr>"]) (simp add: same_peer_def)
next
  case True
  let ?t = "if skb_queue_empty (sk_write_queue tsk) then tcp_rearm_rto_timer tsk else tsk"
  let ?d = "source_bytes bid (of_nat i) chunk"
  have tag: "?d \<noteq> []" "?d ! 0 = TCP_OPT_FEC" by (simp_all add: source_bytes_def tcp_opt_fec_bytes_def)
  have hl: "th_hl th = 7" using h by (simp add: data_hdr_def)
  obtain s0 csum where t: "tcp_transmit_skb out s (snd_nxt (tcb ?t)) ?t =
      (let (rc, s2) = out (sk_daddr ?t) s0 in Ok (rc, s2, ?t\<lparr>tx_log := tx_log ?t @ [s0]\<rparr>))"
    "laid pre (wire_hdr (snd_nxt (tcb ?t)) ?t th csum) ?d s0" "skb_data s0 = 34" "skb_id s0 = skb_id s" "skb_dlen s0 = skb_dlen s"
    using transmit_tagged [OF l hl tag d(1), of out "snd_nxt (tcb ?t)" ?t] by blast
  obtain rc s2 where o: "out (sk_daddr ?t) s0 = (rc, s2)" by fastforce
  obtain pre' where l2: "laid pre' (wire_hdr (snd_nxt (tcb ?t)) ?t th csum) ?d s2" "skb_id s2 = skb_id s0" "skb_dlen s2 = skb_dlen s0"
    using laid_out [OF out t(2,3), of "sk_daddr ?t"] o by auto
  let ?u = "?t\<lparr>tx_log := tx_log ?t @ [s0]\<rparr>"
  let ?v = "?u\<lparr>inflight := inflight ?u + 1\<rparr>"
  define s3 where "s3 = fst (stamp_skb s2 ?v)"
  define w where "w = snd (stamp_skb s2 ?v)"
  have q: "tcp_queue_transmit_skb out s tsk = Ok (rc, w\<lparr>sk_write_queue := skb_queue_tail (sk_write_queue w) s3\<rparr>)"
    using True t(1) o by (simp add: tcp_queue_transmit_skb_def Let_def s3_def w_def case_prod_beta cong: if_cong)
  have s3: "skb_id s3 = skb_id s" "skb_dlen s3 = skb_dlen s" "laid pre' (wire_hdr (snd_nxt (tcb ?t)) ?t th csum) ?d s3"
    using l2 t(4,5) by (simp_all add: s3_def stamp_skb_def Let_def laid_def)
  have w: "sk_write_queue w = sk_write_queue tsk" "tsk_fec w = tsk_fec tsk" "next_skb w = next_skb tsk" "same_peer tsk w" "inflight w = 1"
    "tx_log w = tx_log tsk @ [s0]"
    using True by (simp_all add: w_def stamp_skb_def Let_def same_peer_def)
  have sent: "sent_as (snd_nxt (tcb tsk)) tsk th ?d s0"
    using laid_sent [OF t(2,3)] same_peer_sent [of tsk ?t] by (simp add: same_peer_def split: if_splits)
  have "source_ready bid i chunk s3" unfolding source_ready_def using s3 d(2) wire_hdr_flags [OF hl h] by metis
  then show ?thesis using q s3 w sent True laid_reads(2) [OF s3(3)] laid_reads(2) [OF l]
    by (intro exI [of _ rc] exI [of _ s3] exI [of _ "w\<lparr>sk_write_queue := skb_queue_tail (sk_write_queue w) s3\<rparr>"]) (simp add: same_peer_def)
qed

section \<open>Writing a block\<close>

definition wchunk :: "nat \<Rightarrow> bytes \<Rightarrow> nat \<Rightarrow> bytes" where
  "wchunk L W i = take L (drop (i * L) W)"

definition write_syms :: "nat \<Rightarrow> bytes \<Rightarrow> nat \<Rightarrow> bytes list" where
  "write_syms L W n = map (\<lambda>i. pad L (wchunk L W i)) [0..<n]"

text \<open>The state of a connection that was idle in \<open>tsk0\<close>, after \<open>i\<close> segments of \<open>W\<close> have been queued.\<close>

definition log_first :: "bytes \<Rightarrow> u32 \<Rightarrow> nat \<Rightarrow> tcp_sock \<Rightarrow> nat \<Rightarrow> tcp_sock \<Rightarrow> bool" where
  "log_first W bid L tsk0 i tsk \<longleftrightarrow>
     (if i = 0 then inflight tsk = 0 \<and> snd_nxt (tcb tsk) = snd_nxt (tcb tsk0) \<and> tx_log tsk = tx_log tsk0
      else inflight tsk = 1 \<and> (\<exists>s th. tx_log tsk = tx_log tsk0 @ [s] \<and> data_hdr th \<and>
             sent_as (snd_nxt (tcb tsk0)) tsk0 th (source_bytes bid 0 (wchunk L W 0)) s))"

definition queue_holds :: "bytes \<Rightarrow> u32 \<Rightarrow> nat \<Rightarrow> nat \<Rightarrow> tcp_sock \<Rightarrow> bool" where
  "queue_holds W bid L i tsk \<longleftrightarrow>
     length (q_list (sk_write_queue tsk)) = i \<and> (\<forall>s\<in>set (q_list (sk_write_queue tsk)). skb_id s < next_skb tsk) \<and>
     (\<forall>j<i. source_ready bid j (wchunk L W j) (q_list (sk_write_queue tsk) ! j))"

definition filling :: "bytes \<Rightarrow> tcp_fec \<Rightarrow> tcp_sock \<Rightarrow> nat \<Rightarrow> tcp_fec \<Rightarrow> tcp_sock \<Rightarrow> bool" where
  "filling W fec0 tsk0 i fec tsk \<longleftrightarrow>
     tsk_fec tsk = Some fec \<and> same_geometry fec0 fec \<and> tx_block_id fec = tx_block_id fec0 \<and>
     staged (sk_write_queue tsk) fec (write_syms (unat (fec_sym_len fec0)) W i) \<and>
     (0 < i \<longrightarrow> tx_base_seq fec = snd_nxt (tcb tsk0) \<and> tx_tail_len fec = of_nat (length (wchunk (unat (fec_sym_len fec0)) W (i - 1)))) \<and>
     same_peer tsk0 tsk \<and> queue_holds W (tx_block_id fec0) (unat (fec_sym_len fec0)) i tsk \<and>
     log_first W (tx_block_id fec0) (unat (fec_sym_len fec0)) tsk0 i tsk"

lemma staged_base: "staged wq (fec\<lparr>tx_base_seq := x\<rparr>) S = staged wq fec S"
proof -
  have "sym_load wq (fec\<lparr>tx_base_seq := x\<rparr>) = sym_load wq fec" by (rule ext) (simp add: sym_load_def split: sym_ptr.split)
  then show ?thesis by (simp add: staged_def fec_tx_wf_def fec_geometry_def)
qed

definition pin_base :: "u32 \<Rightarrow> tcp_fec \<Rightarrow> tcp_fec" where
  "pin_base nxt fec = (if tx_filled fec = 0 then fec\<lparr>tx_base_seq := nxt\<rparr> else fec)"

lemma pin_fields [simp]:
  "fec_sym_len (pin_base x fec) = fec_sym_len fec" "fec_k (pin_base x fec) = fec_k fec" "fec_r (pin_base x fec) = fec_r fec"
  "tx_filled (pin_base x fec) = tx_filled fec" "tx_block_id (pin_base x fec) = tx_block_id fec"
  "staged wq (pin_base x fec) S = staged wq fec S"
  by (simp_all add: pin_base_def staged_base)

lemma queue_tail_nth [simp]: "q_list (skb_queue_tail q s) = q_list q @ [s]"
  by (simp add: skb_queue_tail_def)

lemma segment_unfold:
  assumes f: "tsk_fec tsk = Some fec" and st: "staged (sk_write_queue tsk) fec S" and room: "length S < unat (fec_k fec)"
    and c: "length chunk \<le> unat (fec_sym_len fec)"
  shows "\<exists>s. tcp_send_segment out mem 8 chunk final tsk =
      cbind (tcp_queue_transmit_skb out s (tsk\<lparr>next_skb := next_skb tsk + 1, tsk_fec := Some (add_symbol s chunk (pin_base (snd_nxt (tcb tsk)) fec))\<rparr>))
        (\<lambda>(_, t). fec_complete_block out mem t) \<and>
    laid (replicate 34 0) (zero_hdr\<lparr>th_hl := 7, th_ack := True, th_psh := final\<rparr>) (source_bytes (tx_block_id fec) (tx_filled fec) chunk) s \<and>
    skb_data s = 62 \<and> skb_dlen s = of_nat (length chunk) \<and> skb_id s = next_skb tsk"
proof -
  let ?f = "pin_base (snd_nxt (tcb tsk)) fec"
  obtain s0 where a: "tcp_alloc_skb 8 (length chunk) tsk = (s0, tsk\<lparr>next_skb := next_skb tsk + 1\<rparr>)" using alloc_laid(6) by (metis surj_pair)
  let ?t = "tsk\<lparr>next_skb := next_skb tsk + 1\<rparr>"
  let ?s = "source_skb (tx_block_id fec) (tx_filled fec) chunk final s0"
  note l = source_skb_laid [OF a, where final = final and bid = "tx_block_id fec" and i = "tx_filled fec"]
  have "\<not> tx_filled fec \<ge> fec_k fec" using room st by (simp add: staged_def word_le_nat_alt)
  then have tag: "fec_tag_segment out mem s0 ?t =
      Ok (let s = tcp_write_fec_option FEC_SYM_SOURCE (tx_filled fec) (tx_block_id fec) s0 in set_tcp_hdr ((tcp_hdr s)\<lparr>th_hl := 7\<rparr>) s, ?t\<lparr>tsk_fec := Some ?f\<rparr>)"
    using f by (simp add: fec_tag_segment_def Let_def pin_base_def)
  have "staged (sk_write_queue tsk) ?f S" using st by simp
  then have "fec_register_symbol ?s chunk (?t\<lparr>tsk_fec := Some ?f\<rparr>) = Ok (?t\<lparr>tsk_fec := Some ?f\<rparr>\<lparr>tsk_fec := Some (add_symbol ?s chunk ?f)\<rparr>)"
    by (rule register_add) (use room c l in simp_all)
  then have "tcp_send_segment out mem 8 chunk final tsk =
      cbind (tcp_queue_transmit_skb out ?s (?t\<lparr>tsk_fec := Some (add_symbol ?s chunk ?f)\<rparr>)) (\<lambda>(_, t). fec_complete_block out mem t)"
    unfolding tcp_send_segment_def Let_def a prod.case tag by (simp add: source_skb_def Let_def)
  then show ?thesis using l by blast
qed

lemma write_syms_Suc: "write_syms L W (Suc i) = write_syms L W i @ [pad L (wchunk L W i)]"
  by (simp add: write_syms_def)

lemma filling_step:
  assumes out: "ip_transparent out" and fl: "filling W fec0 tsk0 i fec tsk" and room: "i < unat (fec_k fec0)"
  defines "L \<equiv> unat (fec_sym_len fec0)"
  shows "\<exists>fec' t. filling W fec0 tsk0 (Suc i) fec' t \<and> tcp_send_segment out mem 8 (wchunk L W i) final tsk = fec_complete_block out mem t"
proof -
  let ?c = "wchunk L W i" and ?S = "write_syms L W i" and ?bid = "tx_block_id fec0"
  have f: "tsk_fec tsk = Some fec" and g: "same_geometry fec0 fec" and bid: "tx_block_id fec = ?bid"
    and st: "staged (sk_write_queue tsk) fec ?S" and b: "0 < i \<longrightarrow> tx_base_seq fec = snd_nxt (tcb tsk0)"
    and p: "same_peer tsk0 tsk" and q: "queue_holds W ?bid L i tsk" and lg: "log_first W ?bid L tsk0 i tsk"
    using fl by (simp_all add: filling_def L_def)
  have n: "length ?S = i" by (simp add: write_syms_def)
  have L: "fec_sym_len fec = fec_sym_len fec0" "fec_k fec = fec_k fec0" using g by (simp_all add: same_geometry_def)
  have fill: "tx_filled fec = of_nat i" using st n by (metis staged_def of_nat_unat ucast_id)
  have c: "length ?c \<le> unat (fec_sym_len fec)" by (simp add: wchunk_def L_def L)
  let ?f = "pin_base (snd_nxt (tcb tsk)) fec"
  obtain s where s: "tcp_send_segment out mem 8 ?c final tsk =
      cbind (tcp_queue_transmit_skb out s (tsk\<lparr>next_skb := next_skb tsk + 1, tsk_fec := Some (add_symbol s ?c ?f)\<rparr>)) (\<lambda>(_, t). fec_complete_block out mem t)"
    and sl: "laid (replicate 34 0) (zero_hdr\<lparr>th_hl := 7, th_ack := True, th_psh := final\<rparr>) (source_bytes ?bid (of_nat i) ?c) s"
    and sd: "skb_data s = 62" "skb_dlen s = of_nat (length ?c)" "skb_id s = next_skb tsk"
    using segment_unfold [OF f st, of ?c out mem final] room c n L fill bid by auto
  define u where "u = tsk\<lparr>next_skb := next_skb tsk + 1, tsk_fec := Some (add_symbol s ?c ?f)\<rparr>"
  have u: "sk_write_queue u = sk_write_queue tsk" "inflight u = inflight tsk" "tx_log u = tx_log tsk" "tcb u = tcb tsk"
    "next_skb u = next_skb tsk + 1" "tsk_fec u = Some (add_symbol s ?c ?f)" "same_peer tsk0 u" using p by (simp_all add: u_def same_peer_def)
  let ?h = "zero_hdr\<lparr>th_hl := 7, th_ack := True, th_psh := final\<rparr>"
  obtain rc s' t where t: "tcp_queue_transmit_skb out s u = Ok (rc, t)" and tq: "sk_write_queue t = skb_queue_tail (sk_write_queue u) s'"
    and s': "skb_id s' = skb_id s" "th_data s' = th_data s" "source_ready ?bid i ?c s'"
    and tf: "tsk_fec t = tsk_fec u" "next_skb t = next_skb u" "same_peer u t"
    and tl': "if inflight u = 0 then inflight t = 1 \<and> (\<exists>s0. tx_log t = tx_log u @ [s0] \<and> sent_as (snd_nxt (tcb u)) u ?h (source_bytes ?bid (of_nat i) ?c) s0)
      else inflight t = inflight u \<and> tcb t = tcb u \<and> tx_log t = tx_log u"
    using queue_source [OF out sl source_data_hdr sd(1,2), of u] by blast
  have peer: "same_peer tsk0 t" using u(7) tf(3) by (simp add: same_peer_def)
  have fresh: "\<forall>x\<in>set (q_list (sk_write_queue tsk)). skb_id x \<noteq> skb_id s" using q sd(3) by (auto simp: queue_holds_def)
  have "staged (sk_write_queue tsk) ?f ?S" "length ?S < unat (fec_k ?f)" "length ?c \<le> unat (fec_sym_len ?f)"
    using st room n c L by simp_all
  from add_symbol_staged [OF this sl fresh s'(1,2)]
  have "staged (sk_write_queue t) (add_symbol s ?c ?f) (?S @ [pad L ?c])" by (simp add: tq u(1) L_def L)
  moreover have "tx_filled fec = 0 \<longleftrightarrow> i = 0" using st n by (auto simp: staged_def simp flip: unat_eq_0)
  then have "tx_base_seq ?f = snd_nxt (tcb tsk0)" using b lg by (cases "i = 0") (auto simp: pin_base_def log_first_def)
  moreover have "tx_tail_len (add_symbol s ?c ?f) = of_nat (length ?c)" by simp
  moreover have "queue_holds W ?bid L (Suc i) t"
    using q s' sd(3) tf(2) u(5) unfolding queue_holds_def tq u(1) by (auto simp: nth_append less_Suc_eq)
  moreover have "log_first W ?bid L tsk0 (Suc i) t"
    using tl' lg source_data_hdr [of final] unfolding same_peer_sent [OF u(7)] u(2-4) by (cases "i = 0") (auto simp: log_first_def)
  moreover have "same_geometry fec0 (add_symbol s ?c ?f)" using g by (simp add: same_geometry_def)
  ultimately have "filling W fec0 tsk0 (Suc i) (add_symbol s ?c ?f) t"
    using tf(1) u(6) peer bid unfolding filling_def L_def by (simp add: write_syms_Suc)
  then show ?thesis using s t unfolding u_def [symmetric] by (intro exI) simp
qed

definition nsegs :: "nat \<Rightarrow> bytes \<Rightarrow> nat" where
  "nsegs L W = (length W + L - 1) div L"

lemma nsegs_iff: "0 < L \<Longrightarrow> i < nsegs L W \<longleftrightarrow> i * L < length W"
  unfolding nsegs_def by (auto simp: less_eq_Suc_le less_eq_div_iff_mult_less_eq)

lemma nsegs_le: "0 < L \<Longrightarrow> length W \<le> k * L \<Longrightarrow> nsegs L W \<le> k"
  using nsegs_iff [of L k W] by linarith

lemma complete_open:
  assumes "filling W fec0 tsk0 i fec t" and "i \<noteq> unat (fec_k fec0)"
  shows "fec_complete_block out mem t = Ok t"
proof -
  have "unat (tx_filled fec) = i" "tsk_fec t = Some fec" "fec_k fec = fec_k fec0"
    using assms(1) by (simp_all add: filling_def staged_def write_syms_def same_geometry_def)
  then show ?thesis using assms(2) by (auto simp: fec_complete_block_def)
qed

lemma complete_full:
  assumes "filling W fec0 tsk0 i fec t" and "i = unat (fec_k fec0)"
  shows "fec_complete_block out mem t = cbind (tcp_fec_emit_block out mem fec (tx_filled fec) (tx_tail_len fec) t) (\<lambda>(_, t). Ok t)"
proof -
  have "unat (tx_filled fec) = unat (fec_k fec)" "tsk_fec t = Some fec"
    using assms by (simp_all add: filling_def staged_def write_syms_def same_geometry_def)
  then have "tx_filled fec = fec_k fec" by (simp add: word_unat_eq_iff)
  then show ?thesis using \<open>tsk_fec t = Some fec\<close> by (simp add: fec_complete_block_def)
qed

lemma cbind_Ok_right: "cbind m Ok = m"
  by (cases m) simp_all

lemma send_loop_fills:
  assumes out: "ip_transparent out" and L: "L = unat (fec_sym_len fec0)" "0 < L"
    and n: "nsegs L W \<le> unat (fec_k fec0)"
  shows "filling W fec0 tsk0 i fec tsk \<Longrightarrow> i < nsegs L W \<Longrightarrow>
    \<exists>fec' t. filling W fec0 tsk0 (nsegs L W) fec' t \<and> tcp_send_loop out mem 8 L (drop (i * L) W) tsk = fec_complete_block out mem t"
proof (induction "nsegs L W - i" arbitrary: i fec tsk)
  case (Suc m)
  let ?final = "drop (Suc i * L) W = []"
  have ne: "drop (i * L) W \<noteq> []" using nsegs_iff [OF L(2)] Suc.prems(2) by auto
  have step: "tcp_send_loop out mem 8 L (drop (i * L) W) tsk =
      cbind (tcp_send_segment out mem 8 (wchunk L W i) ?final tsk) (tcp_send_loop out mem 8 L (drop (Suc i * L) W))"
    using ne L(2) by (simp add: tcp_send_loop.simps [of _ _ _ _ "drop (i * L) W"] wchunk_def add.commute)
  obtain f1 t1 where t1: "filling W fec0 tsk0 (Suc i) f1 t1" "tcp_send_segment out mem 8 (wchunk L W i) ?final tsk = fec_complete_block out mem t1"
    using filling_step [OF out Suc.prems(1), of mem ?final] Suc.prems(2) n L(1) by auto
  show ?case
  proof (cases "Suc i < nsegs L W")
    case True
    have m: "m = nsegs L W - Suc i" using Suc.hyps(2) by simp
    have "fec_complete_block out mem t1 = Ok t1" using complete_open [OF t1(1)] True n by simp
    then show ?thesis using Suc.hyps(1) [OF m t1(1) True] step t1(2) by simp
  next
    case False
    then have "Suc i = nsegs L W" using Suc.prems(2) by simp
    moreover have "drop (Suc i * L) W = []" using False nsegs_iff [OF L(2), of "Suc i" W] by simp
    moreover have "tcp_send_loop out mem 8 L [] = Ok" by (rule ext) (simp add: tcp_send_loop.simps)
    ultimately show ?thesis using step t1 cbind_Ok_right by (intro exI [of _ f1] exI [of _ t1]) simp
  qed
qed simp

lemma user_timer_fields [simp]:
  "sk_write_queue (tcp_rearm_user_timeout t) = sk_write_queue t" "tsk_fec (tcp_rearm_user_timeout t) = tsk_fec t"
  "tcb (tcp_rearm_user_timeout t) = tcb t" "tx_log (tcp_rearm_user_timeout t) = tx_log t"
  "sk_sport (tcp_rearm_user_timeout t) = sk_sport t" "sk_dport (tcp_rearm_user_timeout t) = sk_dport t"
  by (simp_all add: tcp_rearm_user_timeout_def add_timer_def Let_def case_prod_beta)

text \<open>An idle connection with forward error correction, and a write of at most one block.\<close>

definition fec_idle :: "tcp_sock \<Rightarrow> tcp_fec \<Rightarrow> bool" where
  "fec_idle tsk fec \<longleftrightarrow> tsk_fec tsk = Some fec \<and> fec_tx_wf fec \<and> tx_filled fec = 0 \<and> inflight tsk = 0 \<and> q_list (sk_write_queue tsk) = []"

lemma idle_filling: "fec_idle tsk fec \<Longrightarrow> filling W fec tsk 0 fec tsk"
  by (simp add: fec_idle_def filling_def staged_def write_syms_def same_geometry_def same_peer_def queue_holds_def log_first_def)

lemma send_fills:
  assumes "ip_transparent out" and "fec_idle tsk fec" and "W \<noteq> []" and "length W \<le> unat (fec_k fec) * unat (fec_sym_len fec)"
  shows "\<exists>fec' t. filling W fec tsk (nsegs (unat (fec_sym_len fec)) W) fec' t \<and>
    tcp_send out mem W tsk = cbind (fec_complete_block out mem t) (\<lambda>t. Ok (int (length W), tcp_rearm_user_timeout t))"
proof -
  let ?L = "unat (fec_sym_len fec)"
  have f: "tsk_fec tsk = Some fec" and L: "0 < ?L" using assms(2) by (simp_all add: fec_idle_def fec_tx_wf_def fec_geometry_def)
  obtain fec' t where "filling W fec tsk (nsegs ?L W) fec' t" "tcp_send_loop out mem 8 ?L (drop (0 * ?L) W) tsk = fec_complete_block out mem t"
    using send_loop_fills [OF assms(1) refl L nsegs_le [OF L assms(4)] idle_filling [OF assms(2)], of mem] assms(3) nsegs_iff [OF L] by auto
  then show ?thesis using f by (intro exI [of _ fec'] exI [of _ t]) (simp add: tcp_send_def TCP_OPTLEN_FEC_def)
qed

lemma write_syms_ne: "0 < n \<Longrightarrow> write_syms L W n \<noteq> []"
  by (simp add: write_syms_def)

section \<open>The block of a write\<close>

definition write_block :: "nat \<Rightarrow> bytes \<Rightarrow> fec_block" where
  "write_block L W = \<lparr>fb_syms = write_syms L W (nsegs L W), fb_off = 0, fb_tail = length (wchunk L W (nsegs L W - 1))\<rparr>"

lemma write_block_simps [simp]:
  "fb_syms (write_block L W) = write_syms L W (nsegs L W)" "fb_off (write_block L W) = 0"
  "fb_tail (write_block L W) = length (wchunk L W (nsegs L W - 1))" "length (write_syms L W n) = n"
  by (simp_all add: write_block_def write_syms_def)

lemma wchunk_full:
  assumes "0 < L" and "Suc i < nsegs L W"
  shows "length (wchunk L W i) = L"
  using nsegs_iff [OF assms(1), of "Suc i" W] assms(2) by (simp add: wchunk_def)

lemma write_fb_len:
  assumes "0 < L" and "i < nsegs L W"
  shows "fb_len L (write_block L W) i = length (wchunk L W i)"
  using wchunk_full [OF assms(1), of i W] assms(2) by (cases "Suc i = nsegs L W") (auto simp: fb_len_def)

lemma write_chunk_take: "wchunk L W i = take (length (wchunk L W i)) (drop (i * L) W)"
  by (simp add: wchunk_def min_def)

lemma write_block_of:
  assumes "0 < L" and "W \<noteq> []" and "nsegs L W \<le> 128"
  shows "block_of W L (write_block L W)"
proof -
  let ?n = "nsegs L W" and ?B = "write_block L W"
  have n: "0 < ?n" using nsegs_iff [OF assms(1), of 0 W] assms(2) by simp
  have last: "(?n - 1) * L < length W" using nsegs_iff [OF assms(1), of "?n - 1" W] n by simp
  have "block_ok (fb_syms ?B) L" using n assms(3) by (auto simp: block_ok_def write_syms_def pad_def wchunk_def)
  moreover have "0 < fb_tail ?B" "fb_tail ?B \<le> L" "fb_off ?B + (length (fb_syms ?B) - 1) * L + fb_tail ?B \<le> length W"
    using last assms(1) by (simp_all add: wchunk_def)
  moreover have "fb_syms ?B ! i = take (fb_len L ?B i) (drop (fb_off ?B + i * L) W) @ replicate (L - fb_len L ?B i) 0" if "i < ?n" for i
    using that write_chunk_take [of L W i] unfolding write_fb_len [OF assms(1) that] by (simp add: write_syms_def pad_def)
  ultimately show ?thesis by (simp add: block_of_def)
qed

lemma filled_index: "filling W fec0 tsk0 i fec t \<Longrightarrow> tx_filled fec = of_nat i"
  by (metis filling_def of_nat_unat staged_def ucast_id write_block_simps(4))

section \<open>From a write to honest segments\<close>

text \<open>A source segment that has been queued leaves as such whenever it is transmitted.\<close>

lemma queued_transmit:
  assumes r: "source_ready bid i chunk s" and c: "length chunk < 2 ^ 16"
  shows "\<exists>s' th. tcp_transmit_skb out (skb_reset_header s) seq tsk =
      (let (rc, s2) = out (sk_daddr tsk) s' in Ok (rc, s2, tsk\<lparr>tx_log := tx_log tsk @ [s']\<rparr>)) \<and>
    data_hdr th \<and> sent_as seq tsk th (source_bytes bid (of_nat i) chunk) s'"
proof -
  obtain pre th where l: "laid pre th (source_bytes bid (of_nat i) chunk) s" "data_hdr th" and d: "skb_dlen s = of_nat (length chunk)"
    using r by (auto simp: source_ready_def)
  have u: "unat (skb_dlen s) = length chunk" unfolding d using c by (simp add: unat_of_nat)
  have "laid pre th (source_bytes bid (of_nat i) chunk) (skb_reset_header s)" using l(1) by (simp add: laid_def)
  moreover have "skb_data (skb_reset_header s) = 62"
    using u laid_reads(3) [OF l(1)] by (simp add: skb_reset_header_def source_bytes_def)
  moreover have "source_bytes bid (of_nat i) chunk \<noteq> []" "source_bytes bid (of_nat i) chunk ! 0 = TCP_OPT_FEC"
    by (simp_all add: source_bytes_def tcp_opt_fec_bytes_def)
  ultimately show ?thesis using transmit_tagged [of pre th _ "skb_reset_header s" out seq tsk] laid_sent l(2) by (metis data_hdr_def)
qed

lemma emit_fill:
  assumes fl: "filling W fec0 tsk0 n fec t" and n: "0 < n" and out: "\<forall>d s. fst (out d s) = 0"
    and t': "sk_write_queue t' = sk_write_queue t" "tsk_fec t' = tsk_fec t" "tcb t' = tcb t" "sk_sport t' = sk_sport t" "sk_dport t' = sk_dport t"
  defines "L \<equiv> unat (fec_sym_len fec)" and "r \<equiv> unat (fec_r fec)"
  shows "\<exists>ss. tcp_fec_emit_block out True fec (tx_filled fec) (tx_tail_len fec) t' =
      Ok (0, t'\<lparr>next_skb := next_skb t' + r, tx_log := tx_log t' @ ss, tsk_fec := Some (next_block fec (write_syms L W n))\<rparr>) \<and>
    repairs_sent t fec (of_nat n) (tx_tail_len fec) (zip [0..<r] (block_parity (write_syms L W n) L r)) ss"
proof -
  have "staged (sk_write_queue t') fec (write_syms L W n)" using fl t'(1) by (simp add: filling_def same_geometry_def L_def)
  from emit_all [OF this write_syms_ne [OF n] out] obtain ss where
    "tcp_fec_emit_block out True fec (tx_filled fec) (tx_tail_len fec) t' =
      Ok (0, t'\<lparr>next_skb := next_skb t' + r, tx_log := tx_log t' @ ss, tsk_fec := Some (next_block fec (write_syms L W n))\<rparr>)"
    "repairs_sent t' fec (tx_filled fec) (tx_tail_len fec) (zip [0..<r] (block_parity (write_syms L W n) L r)) ss"
    unfolding L_def r_def by blast
  moreover have "repairs_sent t' fec = repairs_sent t fec" using repairs_sent_fec [of fec fec t' t] t' by (intro ext) simp
  ultimately show ?thesis using filled_index [OF fl] by auto
qed

lemma write_and_flush:
  assumes "ip_transparent out" and out: "\<forall>d s. fst (out d s) = 0" and "fec_idle tsk fec" and "W \<noteq> []"
    and "length W \<le> unat (fec_k fec) * unat (fec_sym_len fec)"
  defines "L \<equiv> unat (fec_sym_len fec)" and "r \<equiv> unat (fec_r fec)"
  shows "\<exists>t t' t1 fec1 ss. tcp_send out True W tsk = Ok (int (length W), t) \<and> tcp_fec_flush out True t = Ok (0, t') \<and>
    filling W fec tsk (nsegs L W) fec1 t1 \<and> sk_write_queue t' = sk_write_queue t1 \<and> tx_log t' = tx_log t1 @ ss \<and>
    repairs_sent t1 fec1 (of_nat (nsegs L W)) (tx_tail_len fec1) (zip [0..<r] (block_parity (write_syms L W (nsegs L W)) L r)) ss"
proof -
  let ?n = "nsegs L W"
  have L: "0 < L" using assms(3) by (simp add: fec_idle_def fec_tx_wf_def fec_geometry_def L_def)
  have n: "0 < ?n" "?n \<le> unat (fec_k fec)" using nsegs_iff [OF L, of 0 W] nsegs_le [OF L] assms(4,5) by (simp_all add: L_def)
  obtain f1 t1 where fl: "filling W fec tsk ?n f1 t1"
    and s: "tcp_send out True W tsk = cbind (fec_complete_block out True t1) (\<lambda>t. Ok (int (length W), tcp_rearm_user_timeout t))"
    using send_fills [OF assms(1,3-5), of True] by (auto simp: L_def)
  have g: "tsk_fec t1 = Some f1" "fec_sym_len f1 = fec_sym_len fec" "fec_r f1 = fec_r fec" using fl by (simp_all add: filling_def same_geometry_def)
  show ?thesis
  proof (cases "?n = unat (fec_k fec)")
    case True
    obtain ss where e: "tcp_fec_emit_block out True f1 (tx_filled f1) (tx_tail_len f1) t1 =
        Ok (0, t1\<lparr>next_skb := next_skb t1 + r, tx_log := tx_log t1 @ ss, tsk_fec := Some (next_block f1 (write_syms L W ?n))\<rparr>)"
      "repairs_sent t1 f1 (of_nat ?n) (tx_tail_len f1) (zip [0..<r] (block_parity (write_syms L W ?n) L r)) ss"
      using emit_fill [OF fl n(1) out refl refl refl refl refl] g by (auto simp: L_def r_def)
    let ?t = "tcp_rearm_user_timeout (t1\<lparr>next_skb := next_skb t1 + r, tx_log := tx_log t1 @ ss, tsk_fec := Some (next_block f1 (write_syms L W ?n))\<rparr>)"
    have "tcp_send out True W tsk = Ok (int (length W), ?t)" using s complete_full [OF fl True] e(1) by simp
    moreover have "tcp_fec_flush out True ?t = Ok (0, ?t)" by (simp add: tcp_fec_flush_def next_block_def)
    ultimately show ?thesis using fl e(2)
      by (intro exI [of _ ?t] exI [of _ ?t] exI [of _ t1] exI [of _ f1] exI [of _ ss] conjI) simp_all
  next
    case False
    let ?t = "tcp_rearm_user_timeout t1"
    have snd: "tcp_send out True W tsk = Ok (int (length W), ?t)" using s complete_open [OF fl False] by simp
    have n0: "tx_filled f1 \<noteq> 0" using fl n by (auto simp: filling_def staged_def simp flip: unat_eq_0)
    obtain ss where e: "tcp_fec_emit_block out True f1 (tx_filled f1) (tx_tail_len f1) ?t =
        Ok (0, ?t\<lparr>next_skb := next_skb ?t + r, tx_log := tx_log ?t @ ss, tsk_fec := Some (next_block f1 (write_syms L W ?n))\<rparr>)"
      "repairs_sent t1 f1 (of_nat ?n) (tx_tail_len f1) (zip [0..<r] (block_parity (write_syms L W ?n) L r)) ss"
      using emit_fill [OF fl n(1) out, of ?t] g by (auto simp: L_def r_def)
    let ?t' = "?t\<lparr>next_skb := next_skb ?t + r, tx_log := tx_log ?t @ ss, tsk_fec := Some (next_block f1 (write_syms L W ?n))\<rparr>"
    have "tcp_fec_flush out True ?t = Ok (0, ?t')" using g(1) n0 e(1) by (simp add: tcp_fec_flush_def)
    then show ?thesis using snd fl e(2)
      by (intro exI [of _ ?t] exI [of _ ?t'] exI [of _ t1] exI [of _ f1] exI [of _ ss] conjI) simp_all
  qed
qed

section \<open>The IP layer of the stack\<close>

definition ip_of :: "(bytes \<Rightarrow> int) \<Rightarrow> net \<Rightarrow> ip_layer" where
  "ip_of tun nc d s = (let (rc, s', frames) = ip_output tun nc d s in (rc, s'))"

definition dev_ok :: "net \<Rightarrow> bool" where
  "dev_ok nc \<longleftrightarrow> (\<forall>d rt. route_lookup nc d = Some rt \<longrightarrow> unat (dev_addr_len (rt_dev rt)) \<le> 6)"

lemma store_keeps:
  assumes "nat (skb_data s) + off + length x \<le> 34" and "34 \<le> length (skb_head s)"
  shows "drop 34 (skb_head (skb_store x off s)) = drop 34 (skb_head s)" and "length (skb_head (skb_store x off s)) = length (skb_head s)"
  using assms by (simp_all add: skb_store_def buf_write_drop_later length_buf_write in_bounds_def)

lemma netdev_transmit_keeps:
  assumes "netdev_transmit tun dev dst ty s = (rc, s', fs)" and "skb_data s = 14" and "unat (dev_addr_len dev) \<le> 6" and "34 \<le> length (skb_head s)"
  shows "drop 34 (skb_head s') = drop 34 (skb_head s)" and "length (skb_head s') = length (skb_head s)" and "skb_id s' = skb_id s" and "skb_dlen s' = skb_dlen s"
proof -
  let ?n = "unat (dev_addr_len dev)"
  define s1 where "s1 = skb_push s ETH_HDR_LEN"
  define s2 where "s2 = skb_store (take ?n dst) 0 s1"
  define s3 where "s3 = skb_store (take ?n (dev_hwaddr dev)) 6 s2"
  have s': "s' = skb_store (be16 ty) 12 s3" using assms(1) by (auto simp: netdev_transmit_def Let_def s1_def s2_def s3_def)
  have d: "skb_data s1 = 0" using assms(2) by (simp add: s1_def skb_push_def ETH_HDR_LEN_def)
  have 1: "drop 34 (skb_head s2) = drop 34 (skb_head s)" "length (skb_head s2) = length (skb_head s)" "skb_data s2 = 0"
    using store_keeps [of s1 0 "take ?n dst"] d assms(3,4) by (simp_all add: s2_def s1_def)
  have 2: "drop 34 (skb_head s3) = drop 34 (skb_head s)" "length (skb_head s3) = length (skb_head s)" "skb_data s3 = 0"
    using store_keeps [of s2 6 "take ?n (dev_hwaddr dev)"] 1 assms(3,4) by (simp_all add: s3_def)
  show "drop 34 (skb_head s') = drop 34 (skb_head s)" "length (skb_head s') = length (skb_head s)"
    using store_keeps [of s3 12 "be16 ty"] 2 assms(4) by (simp_all add: s' be16_def)
  show "skb_id s' = skb_id s" "skb_dlen s' = skb_dlen s" by (simp_all add: s' s3_def s2_def s1_def)
qed

lemma ip_of_transparent:
  assumes "dev_ok nc"
  shows "ip_transparent (ip_of tun nc)"
  unfolding ip_transparent_def
proof (intro allI impI)
  fix d and s :: sk_buff assume "skb_data s = 34 \<and> 54 \<le> length (skb_head s)"
  then have s: "skb_data s = 34" "54 \<le> length (skb_head s)" by simp_all
  let ?P = "\<lambda>s'. skb_id s' = skb_id s \<and> skb_dlen s' = skb_dlen s \<and> 34 \<le> length (skb_head s') \<and> drop 34 (skb_head s') = drop 34 (skb_head s)"
  show "?P (snd (ip_of tun nc d s))"
  proof (cases "route_lookup nc d")
    case None
    then show ?thesis using s by (simp add: ip_of_def ip_output_def)
  next
    case (Some rt)
    let ?s1 = "skb_push s IP_HDR_LEN"
    define s2 where "s2 = set_ip_hdr (ip_fill_header (dev_addr (rt_dev rt)) d ?s1 (ip_hdr s)) ?s1"
    have s2: "skb_data s2 = 14" "length (skb_head s2) = length (skb_head s)" "drop 34 (skb_head s2) = drop 34 (skb_head s)"
      "skb_id s2 = skb_id s" "skb_dlen s2 = skb_dlen s"
      using s by (simp_all add: s2_def set_ip_hdr_def skb_push_def hdr_lens length_buf_write in_bounds_def buf_write_drop_later)
    have o: "ip_output tun nc d s = dst_neigh_output tun nc rt s2" by (simp add: ip_output_def Some s2_def Let_def)
    show ?thesis
    proof (cases "arp_get_hwaddr (if rt_flags rt AND RT_GATEWAY \<noteq> 0 then rt_gateway rt else ntohl (ip_daddr (ip_hdr s2))) (net_arp nc)")
      case None
      then show ?thesis using s2 s(2) o by (simp add: ip_of_def dst_neigh_output_def Let_def)
    next
      case A: (Some dmac)
      obtain rc s' fs where n: "netdev_transmit tun (rt_dev rt) dmac ETH_P_IP s2 = (rc, s', fs)" by (metis prod_cases3)
      have "unat (dev_addr_len (rt_dev rt)) \<le> 6" using assms Some by (auto simp: dev_ok_def)
      note k = netdev_transmit_keeps [OF n s2(1) this]
      have "ip_of tun nc d s = (rc, s')" using o A n by (simp add: ip_of_def dst_neigh_output_def Let_def)
      then show ?thesis using k s2 s(2) by simp
    qed
  qed
qed

text \<open>The device reports how many bytes it took, or -1; so \<open>ip_output\<close> never returns 0.\<close>

lemma ip_of_nonzero:
  assumes "\<forall>f. tun f \<noteq> 0"
  shows "fst (ip_of tun nc d s) \<noteq> 0"
  using assms by (auto simp: ip_of_def ip_output_def dst_neigh_output_def netdev_transmit_def Let_def split: option.splits)

lemma emit_once:
  assumes fl: "filling W fec0 tsk0 n fec t" and n: "0 < n" and out: "\<forall>d s. fst (out d s) \<noteq> 0"
    and t': "sk_write_queue t' = sk_write_queue t"
  shows "\<exists>s. tcp_fec_emit_block out True fec (tx_filled fec) (tx_tail_len fec) t' =
      Ok (-1, t'\<lparr>next_skb := next_skb t' + 1, tx_log := tx_log t' @ [s], tsk_fec := Some (with_parity fec (write_syms (unat (fec_sym_len fec)) W n))\<rparr>)"
proof -
  have "staged (sk_write_queue t') fec (write_syms (unat (fec_sym_len fec)) W n)" using fl t' by (simp add: filling_def same_geometry_def)
  from emit_first [OF this write_syms_ne [OF n] out] show ?thesis by blast
qed

section \<open>What arrives\<close>

definition arrives_as_source :: "bytes \<Rightarrow> u32 \<Rightarrow> tcp_fec \<Rightarrow> fec_block \<Rightarrow> u32 \<Rightarrow> nat \<Rightarrow> u32 \<Rightarrow> sk_buff \<Rightarrow> bool" where
  "arrives_as_source W base peer B bid i una s \<longleftrightarrow>
     (\<forall>u. carries s u \<longrightarrow> tagged FEC_SYM_SOURCE bid i (tcp_init_segment u) \<and> source_segment W base peer B i (tcp_init_segment u) \<and>
        plain_data una (tcp_init_segment u))"

definition arrives_as_repair :: "bytes \<Rightarrow> u32 \<Rightarrow> tcp_fec \<Rightarrow> fec_block \<Rightarrow> u32 \<Rightarrow> nat \<Rightarrow> u32 \<Rightarrow> sk_buff \<Rightarrow> bool" where
  "arrives_as_repair W base peer B bid j una s \<longleftrightarrow>
     (\<forall>u. carries s u \<longrightarrow> tagged FEC_SYM_REPAIR bid j (tcp_init_segment u) \<and> repair_segment W base peer B j (tcp_init_segment u) \<and>
        plain_data una (tcp_init_segment u))"

lemma source_arrives:
  assumes s: "sent_as seq tsk th (source_bytes bid (of_nat i) (wchunk L W i)) s" and th: "data_hdr th"
    and L: "L = unat (fec_sym_len peer)" "L + 24 < 2 ^ 16" "0 < L" and W: "W \<noteq> []" "nsegs L W \<le> unat (fec_k peer)" "unat (fec_k peer) \<le> 128"
    and i: "i < nsegs L W" and q: "seq = base + of_nat (i * L)"
  shows "arrives_as_source W base peer (write_block L W) bid i (rcv_nxt (tcb tsk)) s"
proof -
  have B: "block_of W L (write_block L W)" using write_block_of [OF L(3) W(1)] W(2,3) by simp
  have k: "length (fb_syms (write_block L W)) \<le> unat (fec_k peer)" "i < length (fb_syms (write_block L W))" using W(2) i by simp_all
  have c: "wchunk L W i = take (fb_len L (write_block L W) i) (drop (fb_off (write_block L W) + i * L) W)"
    "length (wchunk L W i) = fb_len L (write_block L W) i"
    using write_fb_len [OF L(3) i] write_chunk_take [of L W i] by simp_all
  have q': "seq = base + of_nat (fb_off (write_block L W) + i * L)" using q by simp
  show ?thesis unfolding arrives_as_source_def
    using source_received [OF s _ th L(1,2) B k c q'] by blast
qed

lemma repair_arrives:
  assumes fl: "filling W fec0 tsk0 n fec t" and n: "n = nsegs L W" "0 < n"
    and rs: "repairs_sent t fec (of_nat n) (tx_tail_len fec) (zip [0..<r] (block_parity (write_syms L W n) L r)) ss"
    and L: "L = unat (fec_sym_len fec0)" "L + 24 < 2 ^ 16" and r: "r = unat (fec_r fec0)" "j < r" and W: "W \<noteq> []"
    and g: "same_geometry fec0 peer"
  shows "arrives_as_repair W (snd_nxt (tcb tsk0)) peer (write_block L W) (tx_block_id fec0) j (rcv_nxt (tcb tsk0)) (ss ! j)"
proof -
  let ?B = "write_block L W"
  have st: "staged (sk_write_queue t) fec (write_syms L W n)" and ge: "same_geometry fec0 fec" and b: "tx_base_seq fec = snd_nxt (tcb tsk0)"
    and tl: "tx_tail_len fec = of_nat (fb_tail ?B)" and id: "tx_block_id fec = tx_block_id fec0" and p: "same_peer tsk0 t"
    using fl n L(1) by (simp_all add: filling_def)
  have f: "L = unat (fec_sym_len fec)" "r = unat (fec_r fec)" using ge L(1) r(1) by (simp_all add: same_geometry_def)
  have L0: "0 < L" using st f(1) by (simp add: staged_def fec_tx_wf_def fec_geometry_def)
  have k: "n \<le> unat (fec_k fec)" "unat (fec_k fec) \<le> 128" using staged_bounds(2,3) [OF st] by simp_all
  have len: "length (block_parity (write_syms L W n) L r) = r" by (simp add: block_parity_def red_points_def)
  have par: "block_parity (write_syms L W n) L r ! j = fb_parity L r ?B j"
    using r(2) n(1) by (simp add: block_parity_def fb_parity_def red_points_def)
  have "sent_as (snd_nxt (tcb t)) t tagged_hdr (repair_bytes fec (of_nat (length (fb_syms ?B))) (of_nat j) (of_nat (fb_tail ?B)) (fb_parity L r ?B j)) (ss ! j)"
    using list_all2_nthD [OF rs [unfolded repairs_sent_def], of j] r(2) len par tl n(1) by simp
  moreover have "block_of W L ?B" using write_block_of [OF L0 W] k n(1) by simp
  moreover have "length (fb_syms ?B) \<le> unat (fec_k fec)" using k(1) n(1) by simp
  moreover have "tx_base_seq fec = snd_nxt (tcb tsk0) + of_nat (fb_off ?B)" using b by simp
  moreover have "same_geometry fec peer" using ge g by (simp add: same_geometry_def)
  ultimately show ?thesis
    using repair_received [OF _ _ f(1) L(2) f(2) r(2)] p id unfolding arrives_as_repair_def same_peer_def by metis
qed

text \<open>A connection that has just negotiated forward error correction is idle.\<close>

lemma enable_idle:
  assumes "tsk_fec tsk = None" and "inflight tsk = 0" and "q_list (sk_write_queue tsk) = []"
  shows "\<exists>fec. tcp_fec_enable (Some fec_shared_ctx) True True tsk = (0, tsk\<lparr>tsk_fec := Some fec\<rparr>) \<and>
    fec_idle (tsk\<lparr>tsk_fec := Some fec\<rparr>) fec \<and> fec_k fec = 8 \<and> fec_r fec = 2 \<and> fec_sym_len fec = 512 \<and> tx_block_id fec = 0"
proof -
  obtain e where e: "fec_encoder_init (Some enc_zero) (Some fec_shared_ctx) 8 2 512 None = Ok e"
    using default_inits(1) [of 8 2 enc_zero fec_shared_ctx 512] by auto
  note w = enc_wf_init [OF e]
  let ?f = "\<lparr>fec_k = 8, fec_r = 2, fec_sym_len = 512, fec_ctx = Some fec_shared_ctx, tx_block_id = 0, tx_base_seq = 0, tx_filled = 0,
    tx_tail_len = 0, tx_enc = e, tx_src_buf = replicate 4096 0, tx_repair_buf = replicate 1024 0, fec_rx = replicate TCP_FEC_RX_BLOCKS rx_zero\<rparr>"
  have "tcp_fec_enable (Some fec_shared_ctx) True True tsk = (0, tsk\<lparr>tsk_fec := Some ?f\<rparr>)"
    using assms(1) e by (simp add: tcp_fec_enable_def Let_def TCP_FEC_DEFAULT_K_def TCP_FEC_DEFAULT_R_def TCP_FEC_DEFAULT_SYM_LEN_def
        FEC_BLK_MAX_K_def FEC_BLK_MAX_R_def)
  moreover have "fec_tx_wf ?f" using w by (simp add: fec_tx_wf_def fec_geometry_def)
  ultimately show ?thesis using assms(2,3) by (intro exI [of _ ?f]) (simp add: fec_idle_def)
qed

end
