(* ===== verification/List_Head.thy ===== *)
theory List_Head
  imports Main Prelude
begin

text \<open>
  The intrusive lists of \<open>include/list.h\<close>.  A node is an address, the memory a partial map from
  addresses to the two links; a load or store through an address that is not allocated is undefined
  behaviour.  \<open>list_entry\<close> is the identity here, since the surrounding structure has the node's address.
\<close>

section \<open>Links and the operations on them\<close>

type_synonym addr = nat

record list_head =
  lh_next :: addr
  lh_prev :: addr

type_synonym list_heap = "addr \<rightharpoonup> list_head"

definition get_next :: "addr \<Rightarrow> list_heap \<Rightarrow> addr cres" where
  "get_next p h = (case h p of None \<Rightarrow> UB | Some n \<Rightarrow> Ok (lh_next n))"

definition get_prev :: "addr \<Rightarrow> list_heap \<Rightarrow> addr cres" where
  "get_prev p h = (case h p of None \<Rightarrow> UB | Some n \<Rightarrow> Ok (lh_prev n))"

definition set_next :: "addr \<Rightarrow> addr \<Rightarrow> list_heap \<Rightarrow> list_heap cres" where
  "set_next p v h = (case h p of None \<Rightarrow> UB | Some n \<Rightarrow> Ok (h(p \<mapsto> n\<lparr>lh_next := v\<rparr>)))"

definition set_prev :: "addr \<Rightarrow> addr \<Rightarrow> list_heap \<Rightarrow> list_heap cres" where
  "set_prev p v h = (case h p of None \<Rightarrow> UB | Some n \<Rightarrow> Ok (h(p \<mapsto> n\<lparr>lh_prev := v\<rparr>)))"

definition list_init :: "addr \<Rightarrow> list_heap \<Rightarrow> list_heap cres" where
  "list_init head h = cbind (set_next head head h) (set_prev head head)"

definition list_add :: "addr \<Rightarrow> addr \<Rightarrow> list_heap \<Rightarrow> list_heap cres" where
  "list_add new head h =
     cbind (get_next head h) (\<lambda>n.
     cbind (set_prev n new h) (\<lambda>h.
     cbind (get_next head h) (\<lambda>n.
     cbind (set_next new n h) (\<lambda>h.
     cbind (set_prev new head h) (set_next head new)))))"

definition list_add_tail :: "addr \<Rightarrow> addr \<Rightarrow> list_heap \<Rightarrow> list_heap cres" where
  "list_add_tail new head h =
     cbind (get_prev head h) (\<lambda>p.
     cbind (set_next p new h) (\<lambda>h.
     cbind (get_prev head h) (\<lambda>p.
     cbind (set_prev new p h) (\<lambda>h.
     cbind (set_next new head h) (set_prev head new)))))"

definition list_del :: "addr \<Rightarrow> list_heap \<Rightarrow> list_heap cres" where
  "list_del elem h =
     cbind (get_prev elem h) (\<lambda>p.
     cbind (get_next elem h) (\<lambda>n.
     cbind (set_next p n h) (set_prev n p)))"

definition list_empty :: "addr \<Rightarrow> list_heap \<Rightarrow> bool cres" where
  "list_empty head h = cbind (get_next head h) (\<lambda>n. Ok (n = head))"

text \<open>\<open>list_for_each\<close> with the nodes it visits, and \<open>list_for_each_safe\<close> with a body that may change the
  list.  On a broken list neither need end.\<close>

partial_function (option) list_for_each :: "addr \<Rightarrow> addr \<Rightarrow> list_heap \<Rightarrow> addr list cres option" where
  "list_for_each head pos h =
     (if pos = head then Some (Ok [])
      else case get_next pos h of
        Ok n \<Rightarrow> Option.bind (list_for_each head n h) (\<lambda>r. Some (cbind r (\<lambda>xs. Ok (pos # xs))))
      | Fail c \<Rightarrow> Some (Fail c)
      | UB \<Rightarrow> Some UB)"

partial_function (option) list_for_each_safe ::
  "(addr \<Rightarrow> list_heap \<Rightarrow> list_heap cres) \<Rightarrow> addr \<Rightarrow> addr \<Rightarrow> addr \<Rightarrow> list_heap \<Rightarrow> list_heap cres option" where
  "list_for_each_safe body head pos p h =
     (if pos = head then Some (Ok h)
      else case body pos h of
        Ok h \<Rightarrow>
          (case get_next p h of
             Ok n \<Rightarrow> list_for_each_safe body head p n h
           | Fail c \<Rightarrow> Some (Fail c)
           | UB \<Rightarrow> Some UB)
      | Fail c \<Rightarrow> Some (Fail c)
      | UB \<Rightarrow> Some UB)"

definition for_each :: "addr \<Rightarrow> list_heap \<Rightarrow> addr list cres option" where
  "for_each head h = (case get_next head h of Ok n \<Rightarrow> list_for_each head n h | Fail c \<Rightarrow> Some (Fail c) | UB \<Rightarrow> Some UB)"

definition for_each_safe :: "(addr \<Rightarrow> list_heap \<Rightarrow> list_heap cres) \<Rightarrow> addr \<Rightarrow> list_heap \<Rightarrow> list_heap cres option" where
  "for_each_safe body head h =
     (case get_next head h of
        Ok pos \<Rightarrow> (case get_next pos h of Ok p \<Rightarrow> list_for_each_safe body head pos p h | Fail c \<Rightarrow> Some (Fail c) | UB \<Rightarrow> Some UB)
      | Fail c \<Rightarrow> Some (Fail c)
      | UB \<Rightarrow> Some UB)"

section \<open>The abstract list of a ring\<close>

fun links :: "list_heap \<Rightarrow> addr \<Rightarrow> addr list \<Rightarrow> addr \<Rightarrow> bool" where
  "links h a [] b = (get_next a h = Ok b \<and> get_prev b h = Ok a)"
| "links h a (x # xs) b = (get_next a h = Ok x \<and> get_prev x h = Ok a \<and> links h x xs b)"

definition ring :: "list_heap \<Rightarrow> addr \<Rightarrow> addr list \<Rightarrow> bool" where
  "ring h head xs \<longleftrightarrow> distinct (head # xs) \<and> links h head xs head"

lemma links_append: "links h a (xs @ y # ys) b \<longleftrightarrow> links h a xs y \<and> links h y ys b"
  by (induction xs arbitrary: a) auto

lemma links_frame:
  assumes "\<forall>p\<in>set (a # xs). get_next p h' = get_next p h" and "\<forall>p\<in>set (xs @ [b]). get_prev p h' = get_prev p h"
  shows "links h' a xs b = links h a xs b"
  using assms by (induction xs arbitrary: a) auto

lemma links_defined:
  assumes "links h a xs b"
  shows "a \<in> dom h" and "b \<in> dom h" and "\<forall>x\<in>set xs. x \<in> dom h"
  using assms by (induction xs arbitrary: a) (auto simp: get_next_def get_prev_def split: option.splits)

lemma set_next_Ok: "p \<in> dom h \<Longrightarrow> \<exists>h'. set_next p v h = Ok h'"
  by (auto simp: set_next_def split: option.splits)

lemma set_prev_Ok: "p \<in> dom h \<Longrightarrow> \<exists>h'. set_prev p v h = Ok h'"
  by (auto simp: set_prev_def split: option.splits)

lemma set_next_reads:
  assumes "set_next p v h = Ok h'"
  shows "get_next q h' = (if q = p then Ok v else get_next q h)" and "get_prev q h' = get_prev q h" and "dom h' = dom h"
  using assms by (auto simp: set_next_def get_next_def get_prev_def split: option.splits if_splits)

lemma set_prev_reads:
  assumes "set_prev p v h = Ok h'"
  shows "get_prev q h' = (if q = p then Ok v else get_prev q h)" and "get_next q h' = get_next q h" and "dom h' = dom h"
  using assms by (auto simp: set_prev_def get_next_def get_prev_def split: option.splits if_splits)

section \<open>What the operations do to the links\<close>

text \<open>The links after an operation, as reads: \<open>nx\<close> and \<open>pv\<close> are the changed ones.\<close>

definition relinked :: "list_heap \<Rightarrow> (addr \<rightharpoonup> addr) \<Rightarrow> (addr \<rightharpoonup> addr) \<Rightarrow> list_heap \<Rightarrow> bool" where
  "relinked h nx pv h' \<longleftrightarrow>
     (\<forall>q. get_next q h' = (case nx q of Some v \<Rightarrow> Ok v | None \<Rightarrow> get_next q h)) \<and>
     (\<forall>q. get_prev q h' = (case pv q of Some v \<Rightarrow> Ok v | None \<Rightarrow> get_prev q h)) \<and>
     dom h' = dom h"

lemma relinked_refl: "relinked h Map.empty Map.empty h"
  by (simp add: relinked_def)

lemma relinked_next:
  assumes "relinked h nx pv h1" and "p \<in> dom h"
  shows "\<exists>h'. set_next p v h1 = Ok h' \<and> relinked h (nx(p \<mapsto> v)) pv h'"
proof -
  have "p \<in> dom h1" using assms by (simp add: relinked_def)
  then obtain h' where h': "set_next p v h1 = Ok h'" using set_next_Ok by blast
  then show ?thesis using assms(1) set_next_reads [OF h'] by (auto simp: relinked_def split: option.splits if_splits)
qed

lemma relinked_prev:
  assumes "relinked h nx pv h1" and "p \<in> dom h"
  shows "\<exists>h'. set_prev p v h1 = Ok h' \<and> relinked h nx (pv(p \<mapsto> v)) h'"
proof -
  have "p \<in> dom h1" using assms by (simp add: relinked_def)
  then obtain h' where h': "set_prev p v h1 = Ok h'" using set_prev_Ok by blast
  then show ?thesis using assms(1) set_prev_reads [OF h'] by (auto simp: relinked_def split: option.splits if_splits)
qed

lemma list_init_links:
  assumes "head \<in> dom h"
  shows "\<exists>h'. list_init head h = Ok h' \<and> relinked h [head \<mapsto> head] [head \<mapsto> head] h'"
proof -
  obtain h1 where 1: "set_next head head h = Ok h1" "relinked h [head \<mapsto> head] Map.empty h1" using relinked_next [OF relinked_refl assms] by blast
  obtain h2 where "set_prev head head h1 = Ok h2" "relinked h [head \<mapsto> head] [head \<mapsto> head] h2" using relinked_prev [OF 1(2) assms] by blast
  then show ?thesis using 1(1) by (simp add: list_init_def)
qed

lemma list_add_links:
  assumes "get_next head h = Ok n" and "new \<in> dom h" and "n \<in> dom h" and "head \<in> dom h"
  shows "\<exists>h'. list_add new head h = Ok h' \<and> relinked h [new \<mapsto> n, head \<mapsto> new] [n \<mapsto> new, new \<mapsto> head] h'"
proof -
  obtain h1 where 1: "set_prev n new h = Ok h1" "relinked h Map.empty [n \<mapsto> new] h1" using relinked_prev [OF relinked_refl assms(3)] by blast
  have g: "get_next head h1 = Ok n" using 1(2) assms(1) by (simp add: relinked_def)
  obtain h2 where 2: "set_next new n h1 = Ok h2" "relinked h [new \<mapsto> n] [n \<mapsto> new] h2" using relinked_next [OF 1(2) assms(2)] by blast
  obtain h3 where 3: "set_prev new head h2 = Ok h3" "relinked h [new \<mapsto> n] [n \<mapsto> new, new \<mapsto> head] h3" using relinked_prev [OF 2(2) assms(2)] by blast
  obtain h4 where 4: "set_next head new h3 = Ok h4" "relinked h [new \<mapsto> n, head \<mapsto> new] [n \<mapsto> new, new \<mapsto> head] h4"
    using relinked_next [OF 3(2) assms(4)] by blast
  show ?thesis using assms(1) 1(1) g 2(1) 3(1) 4 by (simp add: list_add_def)
qed

lemma list_add_tail_links:
  assumes "get_prev head h = Ok p" and "new \<in> dom h" and "p \<in> dom h" and "head \<in> dom h"
  shows "\<exists>h'. list_add_tail new head h = Ok h' \<and> relinked h [p \<mapsto> new, new \<mapsto> head] [new \<mapsto> p, head \<mapsto> new] h'"
proof -
  obtain h1 where 1: "set_next p new h = Ok h1" "relinked h [p \<mapsto> new] Map.empty h1" using relinked_next [OF relinked_refl assms(3)] by blast
  have g: "get_prev head h1 = Ok p" using 1(2) assms(1) by (simp add: relinked_def)
  obtain h2 where 2: "set_prev new p h1 = Ok h2" "relinked h [p \<mapsto> new] [new \<mapsto> p] h2" using relinked_prev [OF 1(2) assms(2)] by blast
  obtain h3 where 3: "set_next new head h2 = Ok h3" "relinked h [p \<mapsto> new, new \<mapsto> head] [new \<mapsto> p] h3" using relinked_next [OF 2(2) assms(2)] by blast
  obtain h4 where 4: "set_prev head new h3 = Ok h4" "relinked h [p \<mapsto> new, new \<mapsto> head] [new \<mapsto> p, head \<mapsto> new] h4"
    using relinked_prev [OF 3(2) assms(4)] by blast
  show ?thesis using assms(1) 1(1) g 2(1) 3(1) 4 by (simp add: list_add_tail_def)
qed

lemma list_del_links:
  assumes "get_prev e h = Ok p" and "get_next e h = Ok n" and "p \<in> dom h" and "n \<in> dom h"
  shows "\<exists>h'. list_del e h = Ok h' \<and> relinked h [p \<mapsto> n] [n \<mapsto> p] h'"
proof -
  obtain h1 where 1: "set_next p n h = Ok h1" "relinked h [p \<mapsto> n] Map.empty h1" using relinked_next [OF relinked_refl assms(3)] by blast
  obtain h2 where "set_prev n p h1 = Ok h2" "relinked h [p \<mapsto> n] [n \<mapsto> p] h2" using relinked_prev [OF 1(2) assms(4)] by blast
  then show ?thesis using assms(1,2) 1(1) by (simp add: list_del_def)
qed

lemma links_relinked:
  assumes "relinked h nx pv h'" and "\<forall>p\<in>set (a # xs). nx p = None" and "\<forall>p\<in>set (xs @ [b]). pv p = None"
  shows "links h' a xs b = links h a xs b"
  using assms by (intro links_frame) (auto simp: relinked_def)

section \<open>Refinement\<close>

text \<open>Memory outside \<open>A\<close> keeps its links, so every list that lies outside stays as it is.\<close>

definition untouched :: "addr set \<Rightarrow> list_heap \<Rightarrow> list_heap \<Rightarrow> bool" where
  "untouched A h h' \<longleftrightarrow> dom h' = dom h \<and> (\<forall>q. q \<notin> A \<longrightarrow> get_next q h' = get_next q h \<and> get_prev q h' = get_prev q h)"

lemma untouched_refl: "untouched A h h"
  by (simp add: untouched_def)

lemma untouched_trans: "untouched A h h1 \<Longrightarrow> untouched B h1 h2 \<Longrightarrow> A \<subseteq> C \<Longrightarrow> B \<subseteq> C \<Longrightarrow> untouched C h h2"
  unfolding untouched_def by (metis subsetD)

lemma relinked_untouched: "relinked h nx pv h' \<Longrightarrow> dom nx \<union> dom pv \<subseteq> A \<Longrightarrow> untouched A h h'"
  unfolding relinked_def untouched_def by (auto simp: domIff split: option.splits)

lemma ring_untouched:
  assumes "ring h head xs" and "untouched A h h'" and "set (head # xs) \<inter> A = {}"
  shows "ring h' head xs"
proof -
  have "links h' head xs head = links h head xs head" using assms(2,3) by (intro links_frame) (auto simp: untouched_def)
  then show ?thesis using assms(1) by (simp add: ring_def)
qed

lemma ring_init:
  assumes "head \<in> dom h"
  shows "\<exists>h'. list_init head h = Ok h' \<and> ring h' head [] \<and> untouched {head} h h'"
proof -
  obtain h' where h': "list_init head h = Ok h'" "relinked h [head \<mapsto> head] [head \<mapsto> head] h'" using list_init_links [OF assms] by blast
  then show ?thesis using relinked_untouched [OF h'(2), of "{head}"] by (auto simp: ring_def relinked_def)
qed

lemma ring_empty: "ring h head xs \<Longrightarrow> list_empty head h = Ok (xs = [])"
  by (cases xs) (auto simp: ring_def list_empty_def)

lemma ring_add:
  assumes r: "ring h head xs" and new: "new \<in> dom h" "new \<notin> set (head # xs)"
  shows "\<exists>h'. list_add new head h = Ok h' \<and> ring h' head (new # xs) \<and> untouched (set (head # new # xs)) h h'"
proof (cases xs)
  case Nil
  then have n: "get_next head h = Ok head" "head \<in> dom h" using r links_defined(1) [of h head xs head] by (simp_all add: ring_def)
  from list_add_links [OF n(1) new(1) n(2,2)] obtain h' where h': "list_add new head h = Ok h'"
    "relinked h [new \<mapsto> head, head \<mapsto> new] [head \<mapsto> new, new \<mapsto> head] h'" by blast
  have "untouched (set (head # new # xs)) h h'" by (rule relinked_untouched [OF h'(2)]) auto
  then show ?thesis using h' r new(2) Nil by (auto simp: ring_def relinked_def)
next
  case (Cons y ys)
  then have l: "get_next head h = Ok y" "get_prev y h = Ok head" "links h y ys head" and d: "distinct (head # y # ys)" using r by (auto simp: ring_def)
  obtain h' where h': "list_add new head h = Ok h'" "relinked h [new \<mapsto> y, head \<mapsto> new] [y \<mapsto> new, new \<mapsto> head] h'"
    using list_add_links [OF l(1) new(1) links_defined(1,2) [OF l(3)]] by blast
  have "links h' y ys head" by (subst links_relinked [OF h'(2)]) (use d new(2) l(3) Cons in auto)
  moreover have "get_next head h' = Ok new" "get_prev new h' = Ok head" "get_next new h' = Ok y" "get_prev y h' = Ok new"
    using h'(2) d new(2) Cons by (auto simp: relinked_def)
  moreover have "untouched (set (head # new # xs)) h h'" by (rule relinked_untouched [OF h'(2)]) (auto simp: Cons)
  ultimately show ?thesis using h'(1) d new(2) Cons by (auto simp: ring_def)
qed

lemma ring_last:
  assumes "ring h head xs"
  shows "get_prev head h = Ok (last (head # xs))" and "(last (head # xs)) \<in> dom h" and "head \<in> dom h"
proof -
  have l: "links h head xs head" using assms by (simp add: ring_def)
  show "get_prev head h = Ok (last (head # xs))"
  proof (cases xs rule: rev_cases)
    case (snoc ys p)
    then show ?thesis using l by (simp add: links_append)
  qed (use l in simp)
  show "head \<in> dom h" "(last (head # xs)) \<in> dom h" using links_defined [OF l] by (auto split: if_splits)
qed

lemma ring_add_tail:
  assumes r: "ring h head xs" and new: "new \<in> dom h" "new \<notin> set (head # xs)"
  shows "\<exists>h'. list_add_tail new head h = Ok h' \<and> ring h' head (xs @ [new]) \<and> untouched (set (head # new # xs)) h h'"
proof -
  let ?p = "last (head # xs)"
  have d: "distinct (head # xs)" and l: "links h head xs head" using r by (simp_all add: ring_def)
  obtain h' where h': "list_add_tail new head h = Ok h'" "relinked h [?p \<mapsto> new, new \<mapsto> head] [new \<mapsto> ?p, head \<mapsto> new] h'"
    using list_add_tail_links [OF ring_last(1) [OF r] new(1) ring_last(2,3) [OF r]] by blast
  have pn: "?p \<noteq> new" using new(2) by (auto split: if_splits)
  have e: "get_next ?p h' = Ok new" "get_prev new h' = Ok ?p" "get_next new h' = Ok head" "get_prev head h' = Ok new"
    using h'(2) pn new(2) by (auto simp: relinked_def)
  have "links h' head xs new"
  proof (cases xs rule: rev_cases)
    case (snoc ys p)
    have "links h head ys p" using l snoc by (simp add: links_append)
    then have "links h' head ys p" by (subst links_relinked [OF h'(2)]) (use d new(2) snoc in auto)
    then show ?thesis using e snoc by (simp add: links_append)
  qed (use e in simp)
  moreover have "untouched (set (head # new # xs)) h h'" by (rule relinked_untouched [OF h'(2)]) (auto split: if_splits)
  ultimately show ?thesis using h'(1) e d new(2) by (auto simp: ring_def links_append)
qed

lemma ring_at:
  assumes "ring h head (xs @ e # ys)"
  shows "get_prev e h = Ok (last (head # xs))" and "get_next e h = Ok (hd (ys @ [head]))"
    and "links h head xs e" and "links h e ys head" and "last (head # xs) \<in> dom h" and "hd (ys @ [head]) \<in> dom h"
proof -
  show l: "links h head xs e" "links h e ys head" using assms by (simp_all add: ring_def links_append)
  show "get_prev e h = Ok (last (head # xs))"
  proof (cases xs rule: rev_cases)
    case (snoc zs p)
    then show ?thesis using l(1) by (simp add: links_append)
  qed (use l in simp)
  show "get_next e h = Ok (hd (ys @ [head]))" using l(2) by (cases ys) simp_all
  show "last (head # xs) \<in> dom h" using links_defined [OF l(1)] by (auto split: if_splits)
  show "hd (ys @ [head]) \<in> dom h" using links_defined [OF l(2)] by (cases ys) auto
qed

lemma links_join:
  assumes "links h a xs b" and "links h e ys c" and "get_next (last (a # xs)) h' = Ok (hd (ys @ [c]))" and "get_prev (hd (ys @ [c])) h' = Ok (last (a # xs))"
    and "\<forall>p\<in>set (butlast (a # xs)) \<union> set ys. get_next p h' = get_next p h"
    and "\<forall>p\<in>set xs \<union> set (tl (ys @ [c])). get_prev p h' = get_prev p h"
  shows "links h' a (xs @ ys) c"
  using assms
proof (induction xs arbitrary: a)
  case Nil
  then show ?case
  proof (cases ys)
    case (Cons y zs)
    have "links h' y zs c = links h y zs c" using Nil.prems(5,6) Cons by (intro links_frame) auto
    then show ?thesis using Nil.prems Cons by simp
  qed simp
next
  case (Cons x xs)
  have "links h' x (xs @ ys) c" using Cons.prems by (intro Cons.IH) auto
  then show ?case using Cons.prems by (cases "xs = []") auto
qed

lemma ring_del:
  assumes r: "ring h head (xs @ e # ys)"
  shows "\<exists>h'. list_del e h = Ok h' \<and> ring h' head (xs @ ys) \<and> untouched (set (head # xs @ ys)) h h'"
proof -
  let ?p = "last (head # xs)" and ?n = "hd (ys @ [head])"
  note a = ring_at [OF r]
  obtain h' where h': "list_del e h = Ok h'" "relinked h [?p \<mapsto> ?n] [?n \<mapsto> ?p] h'"
    using list_del_links [OF a(1,2,5,6)] by blast
  have d: "distinct (head # xs @ e # ys)" using r by (simp add: ring_def)
  have nx: "get_next q h' = (if q = ?p then Ok ?n else get_next q h)" and pv: "get_prev q h' = (if q = ?n then Ok ?p else get_prev q h)" for q
    using h'(2) by (simp_all add: relinked_def)
  have "?p \<notin> set (butlast (head # xs)) \<union> set ys"
  proof (cases xs rule: rev_cases)
    case (snoc zs z)
    then show ?thesis using d by (auto simp: butlast_append)
  qed (use d in auto)
  moreover have "?n \<notin> set xs \<union> set (tl (ys @ [head]))" using d by (cases ys) auto
  ultimately have "links h' head (xs @ ys) head"
    by (intro links_join [OF a(3,4)]) (auto simp: nx pv)
  moreover have "untouched (set (head # xs @ ys)) h h'" by (rule relinked_untouched [OF h'(2)]) (cases ys; auto split: if_splits)
  ultimately show ?thesis using h'(1) d by (auto simp: ring_def)
qed

section \<open>Loops\<close>

lemma for_each_links:
  assumes "links h a xs head" and "head \<notin> set xs" and "a \<noteq> head"
  shows "list_for_each head a h = Some (Ok (a # xs))"
  using assms
proof (induction xs arbitrary: a)
  case Nil
  then show ?case by (simp add: list_for_each.simps [of head a] list_for_each.simps [of head head])
next
  case (Cons x xs)
  then show ?case by (simp add: list_for_each.simps [of head a])
qed

lemma ring_for_each:
  assumes "ring h head xs"
  shows "for_each head h = Some (Ok xs)"
proof (cases xs)
  case Nil
  then show ?thesis using assms by (simp add: ring_def for_each_def list_for_each.simps)
next
  case (Cons y ys)
  then show ?thesis using assms for_each_links [of h y ys head] by (auto simp: ring_def for_each_def)
qed

text \<open>The use that the stack makes of the safe loop: unlink the elements that satisfy a condition.\<close>

definition purge :: "(addr \<Rightarrow> bool) \<Rightarrow> addr \<Rightarrow> list_heap \<Rightarrow> list_heap cres" where
  "purge P e h = (if P e then list_del e h else Ok h)"

lemma purge_one:
  assumes "ring h head (xs @ e # ys)"
  shows "\<exists>h'. purge P e h = Ok h' \<and> ring h' head ((xs @ filter (\<lambda>x. \<not> P x) [e]) @ ys) \<and> untouched (set (head # xs @ ys)) h h'"
  using ring_del [OF assms] assms by (cases "P e") (simp_all add: purge_def untouched_refl)

lemma purge_loop:
  assumes "ring h head (xs @ e # ys)"
  shows "\<exists>h'. list_for_each_safe (purge P) head e (hd (ys @ [head])) h = Some (Ok h') \<and>
    ring h' head (xs @ filter (\<lambda>x. \<not> P x) (e # ys)) \<and> untouched (set (head # xs @ e # ys)) h h'"
  using assms
proof (induction ys arbitrary: h xs e)
  case (Nil h xs e)
  have ne: "e \<noteq> head" using Nil.prems by (auto simp: ring_def)
  obtain h1 where h1: "purge P e h = Ok h1" "ring h1 head (xs @ filter (\<lambda>x. \<not> P x) [e])" "untouched (set (head # xs)) h h1"
    using purge_one [OF Nil.prems, of P] by auto
  have u: "untouched (set (head # xs @ [e])) h h1" by (rule untouched_trans [OF h1(3) untouched_refl [of "{}"]]) auto
  obtain n where "get_next head h1 = Ok n" using h1(2) by (cases "xs @ filter (\<lambda>x. \<not> P x) [e]") (auto simp: ring_def)
  then show ?case using ne h1(1,2) u by (simp add: list_for_each_safe.simps [of _ head e] list_for_each_safe.simps [of _ head head])
next
  case (Cons y ys h xs e)
  have ne: "e \<noteq> head" using Cons.prems by (auto simp: ring_def)
  obtain h1 where h1: "purge P e h = Ok h1" and r: "ring h1 head ((xs @ filter (\<lambda>x. \<not> P x) [e]) @ y # ys)" and dm: "untouched (set (head # xs @ y # ys)) h h1"
    using purge_one [OF Cons.prems, of P] by blast
  have "get_next y h1 = Ok (hd (ys @ [head]))" by (rule ring_at(2) [OF r])
  then have step: "list_for_each_safe (purge P) head e y h = list_for_each_safe (purge P) head y (hd (ys @ [head])) h1"
    using ne h1 by (simp add: list_for_each_safe.simps [of _ head e])
  obtain h2 where h2: "list_for_each_safe (purge P) head y (hd (ys @ [head])) h1 = Some (Ok h2)"
    "ring h2 head ((xs @ filter (\<lambda>x. \<not> P x) [e]) @ filter (\<lambda>x. \<not> P x) (y # ys))"
    "untouched (set (head # (xs @ filter (\<lambda>x. \<not> P x) [e]) @ y # ys)) h1 h2" using Cons.IH [OF r] by blast
  have "untouched (set (head # xs @ e # y # ys)) h h2" by (rule untouched_trans [OF dm h2(3)]) auto
  then show ?case using h2(1,2) step by (cases "P e") simp_all
qed

lemma ring_purge:
  assumes "ring h head xs"
  shows "\<exists>h'. for_each_safe (purge P) head h = Some (Ok h') \<and> ring h' head (filter (\<lambda>x. \<not> P x) xs) \<and> untouched (set (head # xs)) h h'"
proof (cases xs)
  case Nil
  then show ?thesis using assms untouched_refl by (auto simp: ring_def for_each_safe_def list_for_each_safe.simps)
next
  case (Cons y ys)
  then have "get_next head h = Ok y" "get_next y h = Ok (hd (ys @ [head]))" using assms ring_at(2) [of h head "[]" y ys] by (auto simp: ring_def)
  then show ?thesis using purge_loop [of h head "[]" y ys P] assms Cons by (simp add: for_each_safe_def)
qed

section \<open>Operation sequences\<close>

datatype list_op = L_add addr | L_add_tail addr | L_del addr | L_purge "addr \<Rightarrow> bool"

fun run_op :: "addr \<Rightarrow> list_op \<Rightarrow> list_heap \<Rightarrow> list_heap cres option" where
  "run_op head (L_add n) h = Some (list_add n head h)"
| "run_op head (L_add_tail n) h = Some (list_add_tail n head h)"
| "run_op head (L_del e) h = Some (list_del e h)"
| "run_op head (L_purge P) h = for_each_safe (purge P) head h"

fun run_ops :: "addr \<Rightarrow> list_op list \<Rightarrow> list_heap \<Rightarrow> list_heap cres option" where
  "run_ops head [] h = Some (Ok h)"
| "run_ops head (x # xs) h =
     (case run_op head x h of Some (Ok h) \<Rightarrow> run_ops head xs h | r \<Rightarrow> r)"

fun spec_op :: "list_op \<Rightarrow> addr list \<Rightarrow> addr list" where
  "spec_op (L_add n) xs = n # xs"
| "spec_op (L_add_tail n) xs = xs @ [n]"
| "spec_op (L_del e) xs = remove1 e xs"
| "spec_op (L_purge P) xs = filter (\<lambda>x. \<not> P x) xs"

text \<open>The contract of a caller: a node that is added is allocated and in no list, one that is removed is
  in the list.\<close>

fun op_ok :: "list_heap \<Rightarrow> addr \<Rightarrow> list_op \<Rightarrow> addr list \<Rightarrow> bool" where
  "op_ok h head (L_add n) xs = (n \<in> dom h \<and> n \<notin> set (head # xs))"
| "op_ok h head (L_add_tail n) xs = (n \<in> dom h \<and> n \<notin> set (head # xs))"
| "op_ok h head (L_del e) xs = (e \<in> set xs)"
| "op_ok h head (L_purge P) xs = True"

fun ops_ok :: "list_heap \<Rightarrow> addr \<Rightarrow> list_op list \<Rightarrow> addr list \<Rightarrow> bool" where
  "ops_ok h head [] xs = True"
| "ops_ok h head (x # ops) xs = (op_ok h head x xs \<and> ops_ok h head ops (spec_op x xs))"

fun op_nodes :: "list_op \<Rightarrow> addr set" where
  "op_nodes (L_add n) = {n}"
| "op_nodes (L_add_tail n) = {n}"
| "op_nodes _ = {}"

lemma spec_nodes: "set (spec_op x xs) \<subseteq> set xs \<union> op_nodes x"
  by (cases x) (auto dest: set_remove1_subset [THEN subsetD])

lemma ring_op:
  assumes "ring h head xs" and "op_ok h head x xs"
  shows "\<exists>h'. run_op head x h = Some (Ok h') \<and> ring h' head (spec_op x xs) \<and> untouched (set (head # xs) \<union> op_nodes x) h h'"
proof (cases x)
  case (L_del e)
  then obtain ys zs where xs: "xs = ys @ e # zs" using assms(2) split_list by fastforce
  have "e \<notin> set ys" using assms(1) xs by (auto simp: ring_def)
  obtain h' where h': "list_del e h = Ok h'" "ring h' head (ys @ zs)" "untouched (set (head # ys @ zs)) h h'"
    using ring_del [of h head ys e zs] assms(1) xs by blast
  have "untouched (set (head # xs) \<union> op_nodes x) h h'" by (rule untouched_trans [OF h'(3) untouched_refl [of "{}"]]) (auto simp: xs)
  then show ?thesis using h'(1,2) \<open>e \<notin> set ys\<close> xs L_del by (simp add: remove1_append)
next
  case (L_purge P)
  then show ?thesis using ring_purge [OF assms(1), of P] by simp
qed (use assms ring_add [of h head xs] ring_add_tail [of h head xs] in \<open>simp_all add: insert_commute Un_commute\<close>)

lemma op_ok_dom: "dom h' = dom h \<Longrightarrow> op_ok h' head x xs = op_ok h head x xs"
  by (cases x) (simp_all only: op_ok.simps)

lemma ops_ok_dom:
  assumes "dom h' = dom h"
  shows "ops_ok h' head ops xs = ops_ok h head ops xs"
  by (induction ops arbitrary: xs) (simp_all only: ops_ok.simps op_ok_dom [OF assms])

lemma ring_ops:
  assumes "ring h head xs" and "ops_ok h head ops xs"
  shows "\<exists>h'. run_ops head ops h = Some (Ok h') \<and> ring h' head (fold spec_op ops xs) \<and>
    untouched (set (head # xs) \<union> (\<Union>x\<in>set ops. op_nodes x)) h h'"
  using assms
proof (induction ops arbitrary: h xs)
  case Nil
  then show ?case by (simp add: untouched_refl)
next
  case (Cons x ops)
  obtain h1 where h1: "run_op head x h = Some (Ok h1)" "ring h1 head (spec_op x xs)" "untouched (set (head # xs) \<union> op_nodes x) h h1"
    using ring_op [OF Cons.prems(1), of x] Cons.prems(2) by (simp only: ops_ok.simps) blast
  have d: "dom h1 = dom h" using h1(3) by (simp add: untouched_def)
  have "ops_ok h1 head ops (spec_op x xs)" using Cons.prems(2) ops_ok_dom [OF d] by (simp only: ops_ok.simps)
  from Cons.IH [OF h1(2) this] obtain h2 where h2: "run_ops head ops h1 = Some (Ok h2)" "ring h2 head (fold spec_op ops (spec_op x xs))"
    "untouched (set (head # spec_op x xs) \<union> (\<Union>x\<in>set ops. op_nodes x)) h1 h2" by blast
  have "untouched (set (head # xs) \<union> (\<Union>x\<in>set (x # ops). op_nodes x)) h h2"
    by (rule untouched_trans [OF h1(3) h2(3)]) (use spec_nodes [of x xs] in auto)
  then show ?case using h1(1) h2(1,2) by simp
qed

end
