(* ===== verification/Socket.thy ===== *)
theory Socket
  imports Tcp
begin

text \<open>
  The socket layer: the table of \<open>src/socket.c\<close>, the calls an application makes through it and
  the INET family of \<open>src/inet.c\<close> and \<open>src/sock.c\<close> below it.  A socket is known by the address of
  its allocation (\<open>so_ptr\<close>); \<open>state\<close>, \<open>flags\<close> and \<open>sleep\<close> of \<open>struct socket\<close> are fields of the
  connection in \<open>Tcp_Sock\<close>.  Addresses passed to \<open>free\<close> are recorded in \<open>freed\<close>.  Locks are not
  part of the state: every call is one step, and what other threads do while a call sleeps is a
  parameter of that call.
\<close>

section \<open>The table\<close>

record socket =
  so_ptr :: nat
  so_fd :: int
  so_pid :: int
  so_refcnt :: int
  so_type :: u16
  so_ops :: bool
  so_sk :: "tcp_sock option"

record sock_table =
  sockets :: "socket list"
  sock_amount :: int
  next_fd :: int
  next_ptr :: nat
  next_port :: int
  net_tick :: u32
  freed :: "nat list"

definition sock_table_init :: sock_table where
  "sock_table_init = \<lparr>sockets = [], sock_amount = 0, next_fd = 4097, next_ptr = 0, next_port = 40000, net_tick = 0, freed = []\<rparr>"

definition AF_UNSPEC :: u16 where "AF_UNSPEC = 0"
definition AF_INET :: int where "AF_INET = 2"
definition SOCK_STREAM :: u16 where "SOCK_STREAM = 1"
definition ENOPROTOOPT :: int where "ENOPROTOOPT = 92"
definition POLLNVAL :: u16 where "POLLNVAL = 0x020"
definition F_GETFL :: int where "F_GETFL = 3"
definition F_SETFL :: int where "F_SETFL = 4"
definition SOL_SOCKET :: int where "SOL_SOCKET = 1"
definition SO_ERROR :: int where "SO_ERROR = 4"

definition alloc_socket :: "int \<Rightarrow> sock_table \<Rightarrow> socket \<times> sock_table" where
  "alloc_socket pid tab =
     (\<lparr>so_ptr = next_ptr tab, so_fd = next_fd tab, so_pid = pid, so_refcnt = 1, so_type = 0, so_ops = False, so_sk = None\<rparr>,
      tab\<lparr>next_fd := next_fd tab + 1, next_ptr := next_ptr tab + 1\<rparr>)"

text \<open>A store through a pointer to a socket of the table.\<close>

definition put_socket :: "socket \<Rightarrow> sock_table \<Rightarrow> sock_table" where
  "put_socket so tab = tab\<lparr>sockets := map (\<lambda>s. if so_ptr s = so_ptr so then so else s) (sockets tab)\<rparr>"

definition del_socket :: "nat \<Rightarrow> sock_table \<Rightarrow> sock_table" where
  "del_socket p tab = tab\<lparr>sockets := filter (\<lambda>s. so_ptr s \<noteq> p) (sockets tab)\<rparr>"

definition socket_rd_acquire :: "socket \<Rightarrow> socket" where
  "socket_rd_acquire so = so\<lparr>so_refcnt := so_refcnt so + 1\<rparr>"

definition socket_wr_acquire :: "socket \<Rightarrow> socket" where
  "socket_wr_acquire so = so\<lparr>so_refcnt := so_refcnt so + 1\<rparr>"

definition socket_release :: "socket \<Rightarrow> sock_table \<Rightarrow> sock_table" where
  "socket_release so tab =
     (let so = so\<lparr>so_refcnt := so_refcnt so - 1\<rparr>; tab = put_socket so tab in
      if so_refcnt so = 0 then tab\<lparr>freed := so_ptr so # freed tab\<rparr> else tab)"

definition get_socket :: "int \<Rightarrow> int \<Rightarrow> sock_table \<Rightarrow> socket option" where
  "get_socket pid fd tab = find (\<lambda>so. so_pid so = pid \<and> so_fd so = fd) (sockets tab)"

definition socket_lookup :: "u16 \<Rightarrow> u16 \<Rightarrow> sock_table \<Rightarrow> socket option" where
  "socket_lookup remoteport localport tab =
     find (\<lambda>so. case so_sk so of None \<Rightarrow> False | Some sk \<Rightarrow> sk_sport sk = localport \<and> sk_dport sk = remoteport) (sockets tab)"

definition socket_find :: "nat \<Rightarrow> sock_table \<Rightarrow> socket option" where
  "socket_find p tab = find (\<lambda>so. so_ptr so = p) (sockets tab)"

section \<open>The INET family\<close>

definition sock_free :: "tcp_sock \<Rightarrow> tcp_sock cres" where
  "sock_free sk =
     cbind (skb_queue_free (sk_receive_queue sk)) (\<lambda>(q, _).
     cbind (skb_queue_free (sk_write_queue sk)) (\<lambda>(w, _).
     Ok (sk\<lparr>sk_receive_queue := q, sk_write_queue := w\<rparr>)))"

text \<open>\<open>inet_create\<close>: the only entry of \<open>inet_ops\<close> is the stream type; the comparison is a bit test.\<close>

definition inet_create :: "u32 \<Rightarrow> socket \<Rightarrow> int \<times> socket" where
  "inet_create tick so =
     (if SOCK_STREAM AND so_type so = 0 then (1, so)
      else (0, so\<lparr>so_ops := True, so_sk := Some (tcp_alloc_sock (timers_init\<lparr>ts_tick := tick\<rparr>) 0)\<rparr>))"

text \<open>The sleep of a blocking connect: \<open>env i\<close> is what happens to the connection during the \<open>i\<close>-th
  sleep; \<open>None\<close>: still asleep after \<open>fuel\<close> rounds.  The release and the acquire around each sleep
  leave the reference count as it was.\<close>

fun connect_wait :: "nat \<Rightarrow> nat \<Rightarrow> (nat \<Rightarrow> tcp_sock \<Rightarrow> tcp_sock) \<Rightarrow> tcp_sock \<Rightarrow> tcp_sock option" where
  "connect_wait 0 i env sk = None"
| "connect_wait (Suc fuel) i env sk =
     (if so_state sk = SS_CONNECTING \<and> sk_err sk = - EINPROGRESS
      then connect_wait fuel (Suc i) env (env i (sk\<lparr>so_sleeping := True\<rparr>))
      else Some sk)"

record sockaddr_in =
  sin_family :: u16
  sin_port :: u16
  s_addr :: u32

definition inet_stream_connect ::
  "ip_layer \<Rightarrow> u32 \<Rightarrow> nat \<Rightarrow> (nat \<Rightarrow> tcp_sock \<Rightarrow> tcp_sock) \<Rightarrow> sockaddr_in \<Rightarrow> int \<Rightarrow> socket \<Rightarrow> int \<Rightarrow>
   (int \<times> socket \<times> int) cres option" where
  "inet_stream_connect out generate_iss fuel env addr addr_len so port =
     (case so_sk so of
        None \<Rightarrow> Some UB
      | Some sk \<Rightarrow>
          let fail = (\<lambda>e. Some (Ok (e, so\<lparr>so_sk := Some (sk\<lparr>sk_err := e\<rparr>)\<rparr>, port))) in
          if 0 \<le> addr_len \<and> addr_len < 2 then Some (Ok (- EINVAL, so, port))
          else if sin_family addr = AF_UNSPEC then
            Some (Ok (- EAFNOSUPPORT, so\<lparr>so_sk := Some (snd (tcp_disconnect sk))\<rparr>, port))
          else case so_state sk of
            SS_CONNECTED \<Rightarrow> fail (- EISCONN)
          | SS_CONNECTING \<Rightarrow> fail (- EALREADY)
          | SS_UNCONNECTED \<Rightarrow>
              if sk_state sk \<noteq> TCP_CLOSE then fail (- EISCONN)
              else
                let (port, sport) = generate_port port (timer_get_tick (tsk_timers sk)) in
                (case tcp_v4_connect out generate_iss sport (sin_port addr) (s_addr addr) (sk\<lparr>sk_err := - EISCONN\<rparr>) of
                   Fail c \<Rightarrow> Some (Fail c)
                 | UB \<Rightarrow> Some UB
                 | Ok (_, sk) \<Rightarrow>
                     let sk = sk\<lparr>so_state := SS_CONNECTING, sk_err := - EINPROGRESS\<rparr> in
                     if so_flags sk AND O_NONBLOCK \<noteq> 0 then Some (Ok (sk_err sk, so\<lparr>so_sk := Some sk\<rparr>, port))
                     else map_option (\<lambda>sk.
                       let so = socket_wr_acquire so in
                       if sk_err sk = - ETIMEDOUT \<or> sk_err sk = - ECONNREFUSED then Ok (sk_err sk, so\<lparr>so_sk := Some sk\<rparr>, port)
                       else if sk_err sk \<noteq> 0 then Ok (sk_err sk, so\<lparr>so_sk := Some sk\<rparr>, port)
                       else Ok (sk_err sk, so\<lparr>so_sk := Some (sk\<lparr>so_state := SS_CONNECTED\<rparr>)\<rparr>, port))
                     (connect_wait fuel 0 env sk))
          | _ \<Rightarrow> fail (- EINVAL))"

definition inet_write :: "ip_layer \<Rightarrow> bool \<Rightarrow> bytes \<Rightarrow> socket \<Rightarrow> (int \<times> socket) cres" where
  "inet_write out mem buf so =
     (case so_sk so of None \<Rightarrow> UB
      | Some sk \<Rightarrow> cbind (tcp_write out mem buf sk) (\<lambda>(rc, sk). Ok (rc, so\<lparr>so_sk := Some sk\<rparr>)))"

definition inet_read ::
  "nat \<Rightarrow> (nat \<Rightarrow> tcp_sock \<Rightarrow> tcp_sock) \<Rightarrow> nat \<Rightarrow> socket \<Rightarrow> (int \<times> bytes \<times> socket) cres option" where
  "inet_read fuel env len so =
     (case so_sk so of None \<Rightarrow> Some UB
      | Some sk \<Rightarrow> map_option (\<lambda>r. cbind r (\<lambda>(rc, d, sk). Ok (rc, d, so\<lparr>so_sk := Some sk\<rparr>))) (tcp_read fuel env len sk))"

definition inet_lookup :: "u16 \<Rightarrow> u16 \<Rightarrow> sock_table \<Rightarrow> socket option" where
  "inet_lookup sport dport tab = socket_lookup sport dport tab"

definition inet_close :: "ip_layer \<Rightarrow> bool \<Rightarrow> socket \<Rightarrow> (int \<times> socket) cres" where
  "inet_close out mem so =
     (case so_sk so of None \<Rightarrow> UB
      | Some sk \<Rightarrow> cbind (tcp_close out mem sk) (\<lambda>(rc, sk). Ok (rc, so\<lparr>so_sk := Some sk\<rparr>)))"

definition inet_free :: "socket \<Rightarrow> socket cres" where
  "inet_free so =
     (case so_sk so of None \<Rightarrow> UB
      | Some sk \<Rightarrow> cbind (sock_free sk) (\<lambda>_. Ok (so\<lparr>so_sk := None\<rparr>)))"

definition inet_abort :: "ip_layer \<Rightarrow> socket \<Rightarrow> socket cres" where
  "inet_abort out so =
     (case so_sk so of None \<Rightarrow> Ok so
      | Some sk \<Rightarrow> cbind (tcp_abort out sk) (\<lambda>(_, sk). Ok (so\<lparr>so_sk := Some sk\<rparr>)))"

definition inet_getpeername :: "socket \<Rightarrow> int \<times> sockaddr_in option" where
  "inet_getpeername so =
     (case so_sk so of None \<Rightarrow> (-1, None)
      | Some sk \<Rightarrow> (0, Some \<lparr>sin_family = of_int AF_INET, sin_port = htons (sk_dport sk), s_addr = htonl (sk_daddr sk)\<rparr>))"

definition inet_getsockname :: "socket \<Rightarrow> int \<times> sockaddr_in option" where
  "inet_getsockname so =
     (case so_sk so of None \<Rightarrow> (-1, None)
      | Some sk \<Rightarrow> (0, Some \<lparr>sin_family = of_int AF_INET, sin_port = htons (sk_sport sk), s_addr = htonl (sk_saddr sk)\<rparr>))"

section \<open>The end of a socket\<close>

definition socket_free :: "socket \<Rightarrow> sock_table \<Rightarrow> sock_table cres" where
  "socket_free so tab =
     (let so = socket_wr_acquire so; tab = del_socket (so_ptr so) tab; tab = tab\<lparr>sock_amount := sock_amount tab - 1\<rparr> in
      cbind (if so_ops so then inet_free so else Ok so) (\<lambda>so. Ok (socket_release so tab)))"

definition socket_garbage_collect :: "nat \<Rightarrow> sock_table \<Rightarrow> sock_table cres" where
  "socket_garbage_collect p tab = (case socket_find p tab of None \<Rightarrow> Ok tab | Some so \<Rightarrow> socket_free so tab)"

definition abort_sockets :: "ip_layer \<Rightarrow> sock_table \<Rightarrow> sock_table cres" where
  "abort_sockets out tab =
     cbind (cmap (\<lambda>so. if so_ops so then inet_abort out so else UB) (sockets tab)) (\<lambda>ss. Ok (tab\<lparr>sockets := ss\<rparr>))"

section \<open>The calls of an application\<close>

definition lvl_socket :: "int \<Rightarrow> int \<Rightarrow> int \<Rightarrow> int \<Rightarrow> sock_table \<Rightarrow> (int \<times> sock_table) cres" where
  "lvl_socket pid domain type protocol tab =
     (let (so, tab) = alloc_socket pid tab; so = so\<lparr>so_type := of_int type\<rparr> in
      if domain < 0 \<or> 128 \<le> domain then UB
      else if domain \<noteq> AF_INET then cbind (socket_free so tab) (\<lambda>tab. Ok (-1, tab))
      else let (rc, so) = inet_create (net_tick tab) so in
        if rc \<noteq> 0 then cbind (socket_free so tab) (\<lambda>tab. Ok (-1, tab))
        else
          let tab = tab\<lparr>sockets := sockets tab @ [so], sock_amount := sock_amount tab + 1\<rparr>; so = socket_rd_acquire so
          in Ok (so_fd so, socket_release so tab))"

definition lvl_connect ::
  "ip_layer \<Rightarrow> u32 \<Rightarrow> nat \<Rightarrow> (nat \<Rightarrow> tcp_sock \<Rightarrow> tcp_sock) \<Rightarrow> int \<Rightarrow> int \<Rightarrow> sockaddr_in \<Rightarrow> int \<Rightarrow> sock_table \<Rightarrow>
   (int \<times> sock_table) cres option" where
  "lvl_connect out generate_iss fuel env pid sockfd addr addrlen tab =
     (case get_socket pid sockfd tab of
        None \<Rightarrow> Some (Ok (- EBADF, tab))
      | Some so \<Rightarrow>
          if \<not> so_ops so then Some UB
          else map_option (\<lambda>r. cbind r (\<lambda>(rc, so, port).
            let tab = socket_release so (tab\<lparr>next_port := port\<rparr>); so = so\<lparr>so_refcnt := so_refcnt so - 1\<rparr> in
            if rc = - EINVAL \<or> rc = - EAFNOSUPPORT \<or> rc = - ECONNREFUSED \<or> rc = - ETIMEDOUT
            then cbind (socket_free so tab) (\<lambda>tab. Ok (rc, tab))
            else Ok (rc, tab)))
          (inet_stream_connect out generate_iss fuel env addr addrlen (socket_wr_acquire so) (next_port tab)))"

definition lvl_write :: "ip_layer \<Rightarrow> bool \<Rightarrow> int \<Rightarrow> int \<Rightarrow> bytes \<Rightarrow> sock_table \<Rightarrow> (int \<times> sock_table) cres" where
  "lvl_write out mem pid sockfd buf tab =
     (case get_socket pid sockfd tab of
        None \<Rightarrow> Ok (- EBADF, tab)
      | Some so \<Rightarrow>
          if \<not> so_ops so then UB
          else cbind (inet_write out mem buf (socket_wr_acquire so)) (\<lambda>(rc, so). Ok (rc, socket_release so tab)))"

definition lvl_read ::
  "nat \<Rightarrow> (nat \<Rightarrow> tcp_sock \<Rightarrow> tcp_sock) \<Rightarrow> int \<Rightarrow> int \<Rightarrow> nat \<Rightarrow> sock_table \<Rightarrow> (int \<times> bytes \<times> sock_table) cres option" where
  "lvl_read fuel env pid sockfd len tab =
     (case get_socket pid sockfd tab of
        None \<Rightarrow> Some (Ok (- EBADF, [], tab))
      | Some so \<Rightarrow>
          if \<not> so_ops so then Some UB
          else map_option (\<lambda>r. cbind r (\<lambda>(rc, d, so). Ok (rc, d, socket_release so tab)))
                 (inet_read fuel env len (socket_wr_acquire so)))"

definition lvl_close :: "ip_layer \<Rightarrow> bool \<Rightarrow> int \<Rightarrow> int \<Rightarrow> sock_table \<Rightarrow> (int \<times> sock_table) cres" where
  "lvl_close out mem pid sockfd tab =
     (case get_socket pid sockfd tab of
        None \<Rightarrow> Ok (- EBADF, tab)
      | Some so \<Rightarrow>
          if \<not> so_ops so then UB
          else cbind (inet_close out mem (socket_wr_acquire so)) (\<lambda>(rc, so). Ok (rc, socket_release so tab)))"

record pollfd =
  pfd_fd :: int
  pfd_events :: u16
  pfd_revents :: u16

text \<open>One pass over the array: the number of entries with events, or \<open>None\<close> at a bad descriptor, where
  the entries before it have been written.\<close>

fun poll_scan :: "int \<Rightarrow> pollfd list \<Rightarrow> sock_table \<Rightarrow> (int option \<times> pollfd list \<times> sock_table) cres" where
  "poll_scan pid [] tab = Ok (Some 0, [], tab)"
| "poll_scan pid (p # ps) tab =
     (case get_socket pid (pfd_fd p) tab of
        None \<Rightarrow> Ok (None, p # ps, tab)
      | Some so \<Rightarrow>
          let so = socket_rd_acquire so in
          (case so_sk so of
             None \<Rightarrow> UB
           | Some sk \<Rightarrow>
               let p = p\<lparr>pfd_revents := sk_poll_events sk AND (pfd_events p OR POLLHUP OR POLLERR OR POLLNVAL)\<rparr>
               in cbind (poll_scan pid ps (socket_release so tab)) (\<lambda>(n, ps, tab).
                    Ok (map_option (\<lambda>n. if sint (pfd_revents p) > 0 then n + 1 else n) n, p # ps, tab))))"

text \<open>\<open>_poll\<close>: \<open>env i\<close> is what happens during the \<open>i\<close>-th pause of 10 ms; \<open>None\<close>: still polling after
  \<open>fuel\<close> passes.\<close>

fun lvl_poll ::
  "nat \<Rightarrow> nat \<Rightarrow> (nat \<Rightarrow> sock_table \<Rightarrow> sock_table) \<Rightarrow> int \<Rightarrow> pollfd list \<Rightarrow> int \<Rightarrow> sock_table \<Rightarrow>
   (int \<times> pollfd list \<times> sock_table) cres option" where
  "lvl_poll 0 i env pid fds timeout tab = None"
| "lvl_poll (Suc fuel) i env pid fds timeout tab =
     (case poll_scan pid fds tab of
        Fail c \<Rightarrow> Some (Fail c)
      | UB \<Rightarrow> Some UB
      | Ok (None, fds, tab) \<Rightarrow> Some (Ok (- EBADF, fds, tab))
      | Ok (Some polled, fds, tab) \<Rightarrow>
          if polled > 0 \<or> timeout = 0 then Some (Ok (polled, fds, tab))
          else
            let timeout = (if timeout > 0 then if timeout > 10 then timeout - 10 else 0 else timeout)
            in lvl_poll fuel (Suc i) env pid fds timeout (env i tab))"

definition lvl_fcntl :: "int \<Rightarrow> int \<Rightarrow> int \<Rightarrow> int \<Rightarrow> sock_table \<Rightarrow> (int \<times> sock_table) cres" where
  "lvl_fcntl pid fildes cmd arg tab =
     (case get_socket pid fildes tab of
        None \<Rightarrow> Ok (- EBADF, tab)
      | Some so \<Rightarrow>
          let so = socket_wr_acquire so in
          (case so_sk so of
             None \<Rightarrow> UB
           | Some sk \<Rightarrow>
               if cmd = F_GETFL then Ok (sint (so_flags sk), socket_release so tab)
               else if cmd = F_SETFL then
                 Ok (0, socket_release (so\<lparr>so_sk := Some (sk\<lparr>so_flags := of_int arg\<rparr>)\<rparr>) tab)
               else Ok (-1, socket_release so tab)))"

text \<open>\<open>_getsockopt\<close>: the value and the length stored through \<open>optval\<close> and \<open>optlen\<close>, if any.\<close>

definition lvl_getsockopt :: "int \<Rightarrow> int \<Rightarrow> int \<Rightarrow> int \<Rightarrow> sock_table \<Rightarrow> (int \<times> (int \<times> u32) option \<times> sock_table) cres" where
  "lvl_getsockopt pid fd level optname tab =
     (case get_socket pid fd tab of
        None \<Rightarrow> Ok (- EBADF, None, tab)
      | Some so \<Rightarrow>
          let so = socket_rd_acquire so in
          if level = SOL_SOCKET then
            if optname = SO_ERROR then
              (case so_sk so of
                 None \<Rightarrow> UB
               | Some sk \<Rightarrow> Ok (0, Some (sk_err sk, 4), socket_release so tab))
            else Ok (- ENOPROTOOPT, None, socket_release so tab)
          else Ok (- EINVAL, None, socket_release so tab))"

definition lvl_getpeername :: "int \<Rightarrow> int \<Rightarrow> sock_table \<Rightarrow> (int \<times> sockaddr_in option \<times> sock_table) cres" where
  "lvl_getpeername pid fd tab =
     (case get_socket pid fd tab of
        None \<Rightarrow> Ok (- EBADF, None, tab)
      | Some so \<Rightarrow>
          if \<not> so_ops so then UB
          else let so = socket_rd_acquire so; (rc, a) = inet_getpeername so in Ok (rc, a, socket_release so tab))"

definition lvl_getsockname :: "int \<Rightarrow> int \<Rightarrow> sock_table \<Rightarrow> (int \<times> sockaddr_in option \<times> sock_table) cres" where
  "lvl_getsockname pid fd tab =
     (case get_socket pid fd tab of
        None \<Rightarrow> Ok (- EBADF, None, tab)
      | Some so \<Rightarrow>
          if \<not> so_ops so then UB
          else let so = socket_rd_acquire so; (rc, a) = inet_getsockname so in Ok (rc, a, socket_release so tab))"

section \<open>Segments and timers reach their socket\<close>

definition tcp_in_sock :: "ip_layer \<Rightarrow> bool \<times> fec_rs_ctx option \<Rightarrow> bool \<Rightarrow> sk_buff \<Rightarrow> sock_table \<Rightarrow> sock_table cres" where
  "tcp_in_sock out shared mem skb tab =
     (let skb = tcp_init_segment skb; th = tcp_hdr skb in
      case inet_lookup (th_sport th) (th_dport th) tab of
        None \<Rightarrow> Ok tab
      | Some so \<Rightarrow>
          let so = socket_wr_acquire so in
          cbind (tcp_input_state out shared mem skb (the (so_sk so))) (\<lambda>(_, sk). Ok (socket_release (so\<lparr>so_sk := Some sk\<rparr>) tab)))"

definition sock_timer :: "ip_layer \<Rightarrow> handler \<Rightarrow> nat \<Rightarrow> sock_table \<Rightarrow> sock_table cres" where
  "sock_timer out h p tab =
     (case h of
        H_socket_garbage_collect \<Rightarrow> socket_garbage_collect p tab
      | _ \<Rightarrow>
          (case socket_find p tab of
             None \<Rightarrow> UB
           | Some so \<Rightarrow>
               let so = socket_wr_acquire so in
               (case so_sk so of
                  None \<Rightarrow> UB
                | Some sk \<Rightarrow> cbind (run_handler out h sk) (\<lambda>sk. Ok (socket_release (so\<lparr>so_sk := Some sk\<rparr>) tab)))))"

end
