(* ===== verification/Socket_Inv.thy ===== *)
theory Socket_Inv
  imports Socket
begin

text \<open>
  The table of sockets as an object table (the locale \<open>object_table\<close>, interpreted on
  \<open>socket_find\<close>, \<open>put_socket\<close> and \<open>del_socket\<close>), the invariant \<open>table_wf\<close> of the table, what each call
  leaves alone (\<open>touches\<close>), and runs of the layer as a step relation: one step per call,
  incoming segment, timer callback or tick of the clock.
\<close>

section \<open>Objects known by a key\<close>

text \<open>What the callers rely on: a store changes the object it names and no other, and an object that
  was taken out stays out, whatever is stored through old pointers to it.\<close>

locale object_table =
  fixes key :: "'v \<Rightarrow> 'k" and lookup :: "'k \<Rightarrow> 't \<Rightarrow> 'v option" and store :: "'v \<Rightarrow> 't \<Rightarrow> 't" and delete :: "'k \<Rightarrow> 't \<Rightarrow> 't"
  assumes lookup_key: "lookup k t = Some v \<Longrightarrow> key v = k"
    and lookup_store: "lookup k (store v t) = (if k = key v \<and> lookup k t \<noteq> None then Some v else lookup k t)"
    and lookup_delete: "lookup k (delete k' t) = (if k = k' then None else lookup k t)"
begin

lemma store_other: "k \<noteq> key v \<Longrightarrow> lookup k (store v t) = lookup k t"
  by (simp add: lookup_store)

lemma store_hit: "lookup (key v) t = Some u \<Longrightarrow> lookup (key v) (store v t) = Some v"
  by (simp add: lookup_store)

lemma store_same: "lookup (key v) t = Some v \<Longrightarrow> lookup k (store v t) = lookup k t"
  by (simp add: lookup_store)

lemma store_keeps_keys: "lookup k (store v t) = None \<longleftrightarrow> lookup k t = None"
  by (auto simp: lookup_store)

lemma stores_keep_keys: "lookup k (fold store vs t) = None \<longleftrightarrow> lookup k t = None"
  by (induction vs arbitrary: t) (simp_all add: store_keeps_keys)

lemma stores_other: "k \<notin> key ` set vs \<Longrightarrow> lookup k (fold store vs t) = lookup k t"
  by (induction vs arbitrary: t) (simp_all add: store_other)

lemma deleted_stays_out: "lookup k (fold store vs (delete k t)) = None"
  by (simp add: stores_keep_keys lookup_delete)

end

lemma find_map_ptr:
  "find (\<lambda>s. so_ptr s = k) (map (\<lambda>s. if so_ptr s = so_ptr so then so else s) xs) =
     (if k = so_ptr so \<and> find (\<lambda>s. so_ptr s = k) xs \<noteq> None then Some so else find (\<lambda>s. so_ptr s = k) xs)"
  by (induction xs) auto

lemma find_filter_ptr:
  "find (\<lambda>s. so_ptr s = k) (filter (\<lambda>s. so_ptr s \<noteq> p) xs) = (if k = p then None else find (\<lambda>s. so_ptr s = k) xs)"
  by (induction xs) auto

interpretation st: object_table so_ptr socket_find put_socket del_socket
proof
  fix k t v assume "socket_find k t = Some v"
  then show "so_ptr v = k" by (auto simp: socket_find_def find_Some_iff)
next
  fix k v t show "socket_find k (put_socket v t) = (if k = so_ptr v \<and> socket_find k t \<noteq> None then Some v else socket_find k t)"
    using find_map_ptr [of k v "sockets t"] by (auto simp: socket_find_def put_socket_def)
next
  fix k k' t show "socket_find k (del_socket k' t) = (if k = k' then None else socket_find k t)"
    using find_filter_ptr [of k k' "sockets t"] by (simp add: socket_find_def del_socket_def)
qed

section \<open>The invariant of the table\<close>

definition socket_ok :: "sock_table \<Rightarrow> socket \<Rightarrow> bool" where
  "socket_ok tab so \<longleftrightarrow> so_ptr so < next_ptr tab \<and> 4097 \<le> so_fd so \<and> so_fd so < next_fd tab \<and> 1 \<le> so_refcnt so \<and>
     so_ops so \<and> so_sk so \<noteq> None"

definition table_wf :: "sock_table \<Rightarrow> bool" where
  "table_wf tab \<longleftrightarrow>
     distinct (map so_ptr (sockets tab)) \<and> distinct (map so_fd (sockets tab)) \<and> (\<forall>so\<in>set (sockets tab). socket_ok tab so) \<and>
     4097 \<le> next_fd tab \<and> freed tab = [] \<and> sock_amount tab \<le> int (length (sockets tab))"

text \<open>Same place in the table, the same owner and descriptor.\<close>

definition same_socket :: "socket \<Rightarrow> socket \<Rightarrow> bool" where
  "same_socket so so' \<longleftrightarrow> so_ptr so' = so_ptr so \<and> so_fd so' = so_fd so \<and> so_pid so' = so_pid so"

lemma same_socket_simps [simp]:
  "same_socket so so" "same_socket so (socket_wr_acquire so')= same_socket so so'" "same_socket so (socket_rd_acquire so') = same_socket so so'"
  "same_socket so (so'\<lparr>so_sk := sk\<rparr>) = same_socket so so'" "same_socket so (so'\<lparr>so_refcnt := n\<rparr>) = same_socket so so'"
  by (simp_all add: same_socket_def socket_wr_acquire_def socket_rd_acquire_def)

lemma find_ptr_distinct:
  assumes "distinct (map so_ptr xs)" and "so \<in> set xs"
  shows "find (\<lambda>s. so_ptr s = so_ptr so) xs = Some so"
  using assms by (induction xs) (auto simp: rev_image_eqI)

lemma wf_find_iff: "table_wf tab \<Longrightarrow> socket_find p tab = Some so \<longleftrightarrow> so \<in> set (sockets tab) \<and> so_ptr so = p"
  using find_ptr_distinct [of "sockets tab" so] st.lookup_key [of p tab so]
  by (auto simp: table_wf_def socket_find_def find_Some_iff)

lemma get_Some: "get_socket pid fd tab = Some so \<Longrightarrow> so \<in> set (sockets tab) \<and> so_pid so = pid \<and> so_fd so = fd"
  by (auto simp: get_socket_def find_Some_iff)

lemma wf_get_iff:
  assumes "table_wf tab"
  shows "get_socket pid fd tab = Some so \<longleftrightarrow> so \<in> set (sockets tab) \<and> so_pid so = pid \<and> so_fd so = fd"
proof
  assume so: "so \<in> set (sockets tab) \<and> so_pid so = pid \<and> so_fd so = fd"
  then have "get_socket pid fd tab \<noteq> None" by (auto simp: get_socket_def find_None_iff)
  then obtain s where s: "get_socket pid fd tab = Some s" by blast
  have "distinct (map so_fd (sockets tab))" using assms by (simp add: table_wf_def)
  then have "s = so" using get_Some [OF s] so by (auto simp: distinct_map inj_on_def)
  then show "get_socket pid fd tab = Some so" using s by simp
qed (use get_Some in blast)

lemma put_sockets:
  assumes "table_wf tab" and "s0 \<in> set (sockets tab)" and "same_socket s0 so"
  shows "map so_ptr (sockets (put_socket so tab)) = map so_ptr (sockets tab)"
    and "map so_fd (sockets (put_socket so tab)) = map so_fd (sockets tab)"
    and "set (sockets (put_socket so tab)) = insert so (set (sockets tab) - {s0})"
proof -
  have inj: "s = s0" if "s \<in> set (sockets tab)" "so_ptr s = so_ptr so" for s
    using assms that by (auto simp: table_wf_def distinct_map inj_on_def same_socket_def)
  show "map so_ptr (sockets (put_socket so tab)) = map so_ptr (sockets tab)" by (simp add: put_socket_def)
  show "map so_fd (sockets (put_socket so tab)) = map so_fd (sockets tab)"
    using inj assms(3) by (auto simp: put_socket_def same_socket_def)
  have p: "so_ptr s0 = so_ptr so" using assms(3) by (simp add: same_socket_def)
  have "set (sockets (put_socket so tab)) = (\<lambda>s. if s = s0 then so else s) ` set (sockets tab)"
    unfolding put_socket_def using inj p by (auto intro!: image_cong)
  also have "\<dots> = insert so (set (sockets tab) - {s0})" using assms(2) by auto
  finally show "set (sockets (put_socket so tab)) = insert so (set (sockets tab) - {s0})" .
qed

text \<open>Writing back a socket that is in use: only that socket changes, and nothing is freed.\<close>

lemma release_keeps:
  assumes "table_wf tab" and "s0 \<in> set (sockets tab)" and "same_socket s0 so" and "2 \<le> so_refcnt so" and "so_ops so" and "so_sk so \<noteq> None"
  shows "table_wf (socket_release so tab)"
    and "set (sockets (socket_release so tab)) = insert (so\<lparr>so_refcnt := so_refcnt so - 1\<rparr>) (set (sockets tab) - {s0})"
    and "next_fd (socket_release so tab) = next_fd tab" and "next_ptr (socket_release so tab) = next_ptr tab"
proof -
  let ?so = "so\<lparr>so_refcnt := so_refcnt so - 1\<rparr>"
  have r: "socket_release so tab = put_socket ?so tab" using assms(4) by (simp add: socket_release_def Let_def)
  have ss: "same_socket s0 ?so" using assms(3) by simp
  note p = put_sockets [OF assms(1,2) ss]
  have len: "length (sockets (put_socket ?so tab)) = length (sockets tab)" by (simp add: put_socket_def)
  have oth: "next_fd (put_socket ?so tab) = next_fd tab" "next_ptr (put_socket ?so tab) = next_ptr tab"
    "freed (put_socket ?so tab) = freed tab" "sock_amount (put_socket ?so tab) = sock_amount tab"
    by (simp_all add: put_socket_def)
  show "set (sockets (socket_release so tab)) = insert ?so (set (sockets tab) - {s0})" unfolding r by (rule p(3))
  show "next_fd (socket_release so tab) = next_fd tab" "next_ptr (socket_release so tab) = next_ptr tab" unfolding r by (rule oth)+
  have "socket_ok tab s0" using assms(1,2) by (simp add: table_wf_def)
  then have "socket_ok tab ?so" using assms(3-6) by (simp add: socket_ok_def same_socket_def)
  then have "\<forall>s\<in>set (sockets (put_socket ?so tab)). socket_ok (put_socket ?so tab) s"
    unfolding p(3) using assms(1) by (auto simp: table_wf_def socket_ok_def oth)
  then show "table_wf (socket_release so tab)"
    unfolding r using assms(1) unfolding table_wf_def p(1,2) len oth by blast
qed

text \<open>Taking a socket out.  The reference that \<open>alloc_socket\<close> took is never dropped: the structure is
  not passed to \<open>free\<close>.\<close>

lemma free_detached:
  assumes "p \<notin> so_ptr ` set (sockets tab)" and "so_ptr so = p" and "1 \<le> so_refcnt so" and "\<not> so_ops so"
  shows "socket_free so tab = Ok (tab\<lparr>sock_amount := sock_amount tab - 1\<rparr>)"
proof -
  have "del_socket p tab = tab" using assms(1) unfolding del_socket_def
    by (cases tab) (auto simp: filter_id_conv image_iff)
  moreover have "put_socket s t = t" if "so_ptr s = p" "sockets t = sockets tab" for s t
    using assms(1) that unfolding put_socket_def by (cases t) (auto intro!: map_idI simp: image_iff)
  ultimately show ?thesis using assms(2-4)
    by (simp add: socket_free_def socket_release_def socket_wr_acquire_def Let_def)
qed

lemma free_keeps:
  assumes "table_wf tab" and "s0 \<in> set (sockets tab)" and "same_socket s0 so" and "1 \<le> so_refcnt so" and "socket_free so tab = Ok tab'"
  shows "table_wf tab'" and "set (sockets tab') = set (sockets tab) - {s0}" and "next_fd tab' = next_fd tab" and "next_ptr tab' = next_ptr tab"
proof -
  let ?d = "del_socket (so_ptr so) tab"
  obtain s where s: "tab' = socket_release s (?d\<lparr>sock_amount := sock_amount tab - 1\<rparr>)" "so_ptr s = so_ptr so" "so_refcnt s = so_refcnt so + 1"
    using assms(5) by (auto simp: socket_free_def Let_def cbind_Ok_iff inet_free_def socket_wr_acquire_def del_socket_def
        split: if_splits option.splits)
  have out: "so_ptr so \<notin> so_ptr ` set (sockets ?d)" by (auto simp: del_socket_def)
  have "put_socket (s\<lparr>so_refcnt := n\<rparr>) t = t" if "sockets t = sockets ?d" for n t
    using out that s(2) unfolding put_socket_def by (cases t) (auto intro!: map_idI simp: image_iff)
  then have t: "tab' = ?d\<lparr>sock_amount := sock_amount tab - 1\<rparr>"
    unfolding s(1) socket_release_def Let_def using s(3) assms(4) by simp
  have inj: "x = s0" if "x \<in> set (sockets tab)" "so_ptr x = so_ptr so" for x
    using assms(1-3) that by (auto simp: table_wf_def distinct_map inj_on_def same_socket_def)
  have p: "so_ptr s0 = so_ptr so" using assms(3) by (simp add: same_socket_def)
  show e: "set (sockets tab') = set (sockets tab) - {s0}" "next_fd tab' = next_fd tab" "next_ptr tab' = next_ptr tab"
    unfolding t del_socket_def using inj p by auto
  have len: "int (length (sockets tab)) - 1 \<le> int (length (sockets tab'))"
  proof -
    have d: "distinct (sockets tab)" "distinct (sockets ?d)"
      using assms(1) by (auto simp: table_wf_def del_socket_def distinct_map)
    have "length (sockets tab) = card (set (sockets tab))" "length (sockets ?d) = card (set (sockets ?d))"
      using distinct_card [OF d(1)] distinct_card [OF d(2)] by simp_all
    moreover have "card (set (sockets tab)) - 1 \<le> card (set (sockets tab) - {s0})" by (simp add: card_Diff_singleton_if)
    ultimately show ?thesis using e(1) t by simp
  qed
  have "distinct (map so_ptr (sockets tab'))" "distinct (map so_fd (sockets tab'))"
    using assms(1) unfolding t table_wf_def del_socket_def by (auto simp: distinct_map_filter)
  moreover have "\<forall>x\<in>set (sockets tab'). socket_ok tab' x" unfolding e(1) using assms(1) e(2,3) by (auto simp: table_wf_def socket_ok_def)
  moreover have "freed tab' = freed tab" "sock_amount tab' = sock_amount tab - 1" unfolding t by (simp_all add: del_socket_def)
  ultimately show "table_wf tab'" using assms(1) len e(2) unfolding table_wf_def by auto
qed

section \<open>The calls, one by one\<close>

text \<open>A call on one socket: every socket but that one is left alone, and it is either still there, with
  its owner and descriptor, or gone.\<close>

definition touches :: "socket \<Rightarrow> sock_table \<Rightarrow> sock_table \<Rightarrow> bool" where
  "touches s0 tab tab' \<longleftrightarrow> table_wf tab' \<and> next_fd tab' = next_fd tab \<and> next_ptr tab' = next_ptr tab \<and>
     (set (sockets tab') = set (sockets tab) - {s0} \<or>
      (\<exists>so. same_socket s0 so \<and> set (sockets tab') = insert so (set (sockets tab) - {s0})))"

lemma touches_release:
  assumes "table_wf tab" and "s0 \<in> set (sockets tab)" and "same_socket s0 so" and "so_refcnt s0 < so_refcnt so" and "so_ops so" and "so_sk so \<noteq> None"
  shows "touches s0 tab (socket_release so tab)"
proof -
  have "2 \<le> so_refcnt so" using assms(1,2,4) by (auto simp: table_wf_def socket_ok_def)
  note r = release_keeps [OF assms(1-3) this assms(5,6)]
  then show ?thesis using assms(3) unfolding touches_def by (metis same_socket_simps(5))
qed

lemma wf_port [simp]: "table_wf (tab\<lparr>next_port := n\<rparr>) = table_wf tab"
  by (simp add: table_wf_def socket_ok_def)

lemma touches_port [simp]: "touches s0 (tab\<lparr>next_port := n\<rparr>) tab' = touches s0 tab tab'"
  by (simp add: touches_def)

lemma wf_member: "table_wf tab \<Longrightarrow> so \<in> set (sockets tab) \<Longrightarrow> so_ops so \<and> so_sk so \<noteq> None \<and> 1 \<le> so_refcnt so"
  by (auto simp: table_wf_def socket_ok_def)

lemma touches_refl: "table_wf tab \<Longrightarrow> so \<in> set (sockets tab) \<Longrightarrow> touches so tab tab"
  unfolding touches_def by (auto intro!: disjI2 exI [of _ so])

lemma acquire_simps [simp]:
  "so_sk (socket_wr_acquire so) = so_sk so" "so_ops (socket_wr_acquire so) = so_ops so" "so_refcnt (socket_wr_acquire so) = so_refcnt so + 1"
  "so_sk (socket_rd_acquire so) = so_sk so" "so_ops (socket_rd_acquire so) = so_ops so" "so_refcnt (socket_rd_acquire so) = so_refcnt so + 1"
  "so_ptr (socket_wr_acquire so) = so_ptr so" "so_fd (socket_wr_acquire so) = so_fd so" "so_fd (socket_rd_acquire so) = so_fd so"
  by (simp_all add: socket_wr_acquire_def socket_rd_acquire_def)

lemma write_touches:
  assumes "table_wf tab" and "get_socket pid fd tab = Some s0" and "lvl_write out mem pid fd buf tab = Ok (rc, tab')"
  shows "touches s0 tab tab'"
proof -
  have m: "s0 \<in> set (sockets tab)" using get_Some [OF assms(2)] by blast
  obtain sk where "tab' = socket_release ((socket_wr_acquire s0)\<lparr>so_sk := Some sk\<rparr>) tab"
    using assms(2,3) by (auto simp: lvl_write_def inet_write_def cbind_Ok_iff split: if_splits option.splits)
  then show ?thesis using touches_release [OF assms(1) m] wf_member [OF assms(1) m] by simp
qed

lemma close_touches:
  assumes "table_wf tab" and "get_socket pid fd tab = Some s0" and "lvl_close out mem pid fd tab = Ok (rc, tab')"
  shows "touches s0 tab tab'"
proof -
  have m: "s0 \<in> set (sockets tab)" using get_Some [OF assms(2)] by blast
  obtain sk where "tab' = socket_release ((socket_wr_acquire s0)\<lparr>so_sk := Some sk\<rparr>) tab"
    using assms(2,3) by (auto simp: lvl_close_def inet_close_def cbind_Ok_iff split: if_splits option.splits)
  then show ?thesis using touches_release [OF assms(1) m] wf_member [OF assms(1) m] by simp
qed

lemma read_touches:
  assumes "table_wf tab" and "get_socket pid fd tab = Some s0" and "lvl_read fuel env pid fd len tab = Some (Ok (rc, d, tab'))"
  shows "touches s0 tab tab'"
proof -
  have m: "s0 \<in> set (sockets tab)" using get_Some [OF assms(2)] by blast
  obtain sk where "tab' = socket_release ((socket_wr_acquire s0)\<lparr>so_sk := Some sk\<rparr>) tab"
    using assms(2,3) by (auto simp: lvl_read_def inet_read_def cbind_Ok_iff split: if_splits option.splits)
  then show ?thesis using touches_release [OF assms(1) m] wf_member [OF assms(1) m] by simp
qed

lemma fcntl_touches:
  assumes "table_wf tab" and "get_socket pid fd tab = Some s0" and "lvl_fcntl pid fd cmd arg tab = Ok (rc, tab')"
  shows "touches s0 tab tab'"
proof -
  have m: "s0 \<in> set (sockets tab)" using get_Some [OF assms(2)] by blast
  obtain sk where "tab' = socket_release ((socket_wr_acquire s0)\<lparr>so_sk := Some sk\<rparr>) tab \<or> tab' = socket_release (socket_wr_acquire s0) tab"
    using assms(2,3) by (auto simp: lvl_fcntl_def Let_def split: if_splits option.splits)
  then show ?thesis using touches_release [OF assms(1) m] wf_member [OF assms(1) m] by auto
qed

lemma query_touches:
  assumes "table_wf tab" and "get_socket pid fd tab = Some s0"
  shows "lvl_getsockopt pid fd level optname tab = Ok (rc, v, tab') \<Longrightarrow> touches s0 tab tab'"
    and "lvl_getpeername pid fd tab = Ok (rc, a, tab') \<Longrightarrow> touches s0 tab tab'"
    and "lvl_getsockname pid fd tab = Ok (rc, a, tab') \<Longrightarrow> touches s0 tab tab'"
proof -
  have m: "s0 \<in> set (sockets tab)" using get_Some [OF assms(2)] by blast
  have t: "touches s0 tab (socket_release (socket_rd_acquire s0) tab)"
    using touches_release [OF assms(1) m] wf_member [OF assms(1) m] by simp
  show "lvl_getsockopt pid fd level optname tab = Ok (rc, v, tab') \<Longrightarrow> touches s0 tab tab'"
    using t assms(2) by (auto simp: lvl_getsockopt_def Let_def split: if_splits option.splits)
  show "lvl_getpeername pid fd tab = Ok (rc, a, tab') \<Longrightarrow> touches s0 tab tab'"
    "lvl_getsockname pid fd tab = Ok (rc, a, tab') \<Longrightarrow> touches s0 tab tab'"
    using t assms(2) by (auto simp: lvl_getpeername_def lvl_getsockname_def Let_def split: if_splits option.splits prod.splits)
qed

text \<open>The branch of \<open>inet_stream_connect\<close> that opens a connection.\<close>

lemma stream_connect_run:
  assumes "so_sk so = Some sk" and F: "(0 \<le> addr_len \<and> addr_len < 2) = False" "(sin_family addr = AF_UNSPEC) = False"
    "so_state sk = SS_UNCONNECTED" "(sk_state sk \<noteq> TCP_CLOSE) = False"
  shows "inet_stream_connect out generate_iss fuel env addr addr_len so port =
    (let g = generate_port port (timer_get_tick (tsk_timers sk)) in
     case tcp_v4_connect out generate_iss (snd g) (sin_port addr) (s_addr addr) (sk\<lparr>sk_err := - EISCONN\<rparr>) of
       Fail c \<Rightarrow> Some (Fail c) | UB \<Rightarrow> Some UB
     | Ok r \<Rightarrow>
         let sk = (snd r)\<lparr>so_state := SS_CONNECTING, sk_err := - EINPROGRESS\<rparr> in
         if so_flags sk AND O_NONBLOCK \<noteq> 0 then Some (Ok (sk_err sk, so\<lparr>so_sk := Some sk\<rparr>, fst g))
         else map_option (\<lambda>sk.
           let so = socket_wr_acquire so in
           if sk_err sk = - ETIMEDOUT \<or> sk_err sk = - ECONNREFUSED then Ok (sk_err sk, so\<lparr>so_sk := Some sk\<rparr>, fst g)
           else if sk_err sk \<noteq> 0 then Ok (sk_err sk, so\<lparr>so_sk := Some sk\<rparr>, fst g)
           else Ok (sk_err sk, so\<lparr>so_sk := Some (sk\<lparr>so_state := SS_CONNECTED\<rparr>)\<rparr>, fst g))
         (connect_wait fuel 0 env sk))"
  unfolding inet_stream_connect_def assms(1) option.case Let_def F if_False F(3) socket_state.case case_prod_beta ..

lemma stream_connect_shape:
  assumes "inet_stream_connect out generate_iss fuel env addr addr_len so port = Some (Ok (rc, so', port'))"
  shows "\<exists>sk'. so' = so\<lparr>so_sk := Some sk'\<rparr> \<or> so' = (socket_wr_acquire so)\<lparr>so_sk := Some sk'\<rparr>"
proof (cases "so_sk so")
  case (Some sk)
  then have same: "so = so\<lparr>so_sk := Some sk\<rparr>" by (cases so) simp
  show ?thesis
  proof (cases "0 \<le> addr_len \<and> addr_len < 2 \<or> sin_family addr = AF_UNSPEC \<or> so_state sk \<noteq> SS_UNCONNECTED \<or> sk_state sk \<noteq> TCP_CLOSE")
    case True
    have "so' = so \<or> (\<exists>sk'. so' = so\<lparr>so_sk := Some sk'\<rparr>)"
      using assms True Some unfolding inet_stream_connect_def Let_def
      by (cases "so_state sk") (auto split: if_splits)
    then show ?thesis using same by metis
  next
    case False
    let ?g = "generate_port port (timer_get_tick (tsk_timers sk))"
    have run: "(0 \<le> addr_len \<and> addr_len < 2) = False" "(sin_family addr = AF_UNSPEC) = False" "so_state sk = SS_UNCONNECTED"
      "(sk_state sk \<noteq> TCP_CLOSE) = False" using False by auto
    note run = assms [unfolded stream_connect_run [OF Some run] Let_def]
    obtain r where c: "tcp_v4_connect out generate_iss (snd ?g) (sin_port addr) (s_addr addr) (sk\<lparr>sk_err := - EISCONN\<rparr>) = Ok r"
      using run by (cases "tcp_v4_connect out generate_iss (snd ?g) (sin_port addr) (s_addr addr) (sk\<lparr>sk_err := - EISCONN\<rparr>)") simp_all
    let ?sk = "(snd r)\<lparr>so_state := SS_CONNECTING, sk_err := - EINPROGRESS\<rparr>"
    note run = run [unfolded c cres.case]
    show ?thesis
    proof (cases "so_flags ?sk AND O_NONBLOCK \<noteq> 0")
      case True
      then have "so' = so\<lparr>so_sk := Some ?sk\<rparr>" using run by auto
      then show ?thesis by blast
    next
      case False
      then obtain sk2 where "connect_wait fuel 0 env ?sk = Some sk2" using run by (cases "connect_wait fuel 0 env ?sk") simp_all
      then have "\<exists>sk'. so' = (socket_wr_acquire so)\<lparr>so_sk := Some sk'\<rparr>"
        using run False by (cases "sk_err sk2 = - ETIMEDOUT \<or> sk_err sk2 = - ECONNREFUSED"; cases "sk_err sk2 = 0") auto
      then show ?thesis by blast
    qed
  qed
qed (use assms in \<open>simp add: inet_stream_connect_def\<close>)

lemma connect_touches:
  assumes "table_wf tab" and "get_socket pid fd tab = Some s0"
    and "lvl_connect out generate_iss fuel env pid fd addr addrlen tab = Some (Ok (rc, tab'))"
  shows "touches s0 tab tab'"
proof -
  have m: "s0 \<in> set (sockets tab)" using get_Some [OF assms(2)] by blast
  note w = wf_member [OF assms(1) m]
  obtain so port where so: "inet_stream_connect out generate_iss fuel env addr addrlen (socket_wr_acquire s0) (next_port tab) = Some (Ok (rc, so, port))"
    and t: "tab' = socket_release so (tab\<lparr>next_port := port\<rparr>) \<or>
      socket_free (so\<lparr>so_refcnt := so_refcnt so - 1\<rparr>) (socket_release so (tab\<lparr>next_port := port\<rparr>)) = Ok tab'"
    using assms(2,3) by (auto simp: lvl_connect_def cbind_Ok_iff Let_def split: if_splits)
  have s: "same_socket s0 so" "so_refcnt s0 < so_refcnt so" "so_ops so" "so_sk so \<noteq> None"
    using stream_connect_shape [OF so] w by auto
  let ?t = "tab\<lparr>next_port := port\<rparr>" and ?s = "so\<lparr>so_refcnt := so_refcnt so - 1\<rparr>"
  have wf: "table_wf ?t" "s0 \<in> set (sockets ?t)" using assms(1) m by simp_all
  note r = touches_release [OF wf s]
  show ?thesis using t
  proof
    assume "tab' = socket_release so ?t"
    then show ?thesis using r by simp
  next
    assume f: "socket_free ?s (socket_release so ?t) = Ok tab'"
    have "2 \<le> so_refcnt so" using s(2) w by simp
    note k = release_keeps [OF wf s(1) this s(3,4)]
    have "?s \<in> set (sockets (socket_release so ?t))" unfolding k(2) by simp
    have ss: "same_socket ?s ?s" "1 \<le> so_refcnt ?s" using s(2) w by simp_all
    note fr = free_keeps [OF k(1) \<open>?s \<in> _\<close> ss f]
    have nin: "?s \<notin> set (sockets tab) - {s0}"
    proof
      assume a: "?s \<in> set (sockets tab) - {s0}"
      then have "so_ptr ?s = so_ptr s0" using s(1) by (simp add: same_socket_def)
      moreover have "inj_on so_ptr (set (sockets tab))" using assms(1) by (simp add: table_wf_def distinct_map)
      ultimately have "?s = s0" using a m by (blast dest: inj_onD)
      then show False using a by blast
    qed
    have "set (sockets tab') = set (sockets tab) - {s0}"
      unfolding fr(2) k(2) using nin by simp
    moreover have "next_fd tab' = next_fd tab" "next_ptr tab' = next_ptr tab" using fr(3,4) k(3,4) by simp_all
    ultimately show ?thesis unfolding touches_def using fr(1) by blast
  qed
qed

text \<open>\<open>_socket\<close>: exactly the stream bit of the type decides.\<close>

lemma socket_cases:
  assumes "table_wf tab" and "0 \<le> domain" and "domain < 128"
  shows "lvl_socket pid domain type protocol tab =
    (let t = tab\<lparr>next_fd := next_fd tab + 1, next_ptr := next_ptr tab + 1\<rparr> in
     if domain = 2 \<and> SOCK_STREAM AND of_int type \<noteq> 0
     then Ok (next_fd tab, t\<lparr>sockets := sockets tab @
            [\<lparr>so_ptr = next_ptr tab, so_fd = next_fd tab, so_pid = pid, so_refcnt = 1, so_type = of_int type, so_ops = True,
              so_sk = Some (tcp_alloc_sock (timers_init\<lparr>ts_tick := net_tick tab\<rparr>) 0)\<rparr>],
            sock_amount := sock_amount tab + 1\<rparr>)
     else Ok (-1, t\<lparr>sock_amount := sock_amount tab - 1\<rparr>))"
proof -
  let ?t = "tab\<lparr>next_fd := next_fd tab + 1, next_ptr := next_ptr tab + 1\<rparr>"
  have fresh: "next_ptr tab \<notin> so_ptr ` set (sockets ?t)" using assms(1) by (auto simp: table_wf_def socket_ok_def)
  have fr: "socket_free \<lparr>so_ptr = next_ptr tab, so_fd = next_fd tab, so_pid = pid, so_refcnt = 1, so_type = ty, so_ops = False, so_sk = None\<rparr> ?t =
      Ok (?t\<lparr>sock_amount := sock_amount ?t - 1\<rparr>)" for ty
    by (rule free_detached [OF fresh]) simp_all
  have mp: "map (\<lambda>s. if so_ptr s = next_ptr tab then so else s) (sockets tab) = sockets tab" for so
    using fresh by (intro map_idI) (auto simp: image_iff)
  show ?thesis
    unfolding lvl_socket_def alloc_socket_def Let_def prod.case inet_create_def
    using assms(2,3) fr [of "of_int type"] mp
    by (simp add: AF_INET_def socket_release_def put_socket_def socket_rd_acquire_def Let_def)
qed

lemma socket_keeps:
  assumes "table_wf tab" and "lvl_socket pid domain type protocol tab = Ok (rc, tab')"
  shows "table_wf tab'" and "set (sockets tab) \<subseteq> set (sockets tab')"
    and "\<And>so. so \<in> set (sockets tab') \<Longrightarrow> so \<notin> set (sockets tab) \<Longrightarrow> so_pid so = pid \<and> so_fd so = rc \<and> rc = next_fd tab"
proof -
  have d: "0 \<le> domain" "domain < 128" using assms(2) by (auto simp: lvl_socket_def alloc_socket_def Let_def split: if_splits)
  have ok: "\<forall>so\<in>set (sockets tab). so_ptr so < next_ptr tab \<and> so_fd so < next_fd tab"
    using assms(1) by (auto simp: table_wf_def socket_ok_def)
  then show "table_wf tab'" "set (sockets tab) \<subseteq> set (sockets tab')"
    "\<And>so. so \<in> set (sockets tab') \<Longrightarrow> so \<notin> set (sockets tab) \<Longrightarrow> so_pid so = pid \<and> so_fd so = rc \<and> rc = next_fd tab"
    using assms(1) socket_cases [OF assms(1) d, of pid type protocol] unfolding assms(2)
    by (auto simp: Let_def table_wf_def socket_ok_def split: if_splits)
qed

lemma poll_scan_keeps:
  assumes "table_wf tab"
  shows "\<exists>n fds'. poll_scan pid fds tab = Ok (n, fds', tab) \<and> length fds' = length fds"
  using assms
proof (induction pid fds tab rule: poll_scan.induct)
  case (2 pid p ps tab)
  show ?case
  proof (cases "get_socket pid (pfd_fd p) tab")
    case (Some so)
    then have so: "so \<in> set (sockets tab)" "so_sk so \<noteq> None" "1 \<le> so_refcnt so"
      using get_Some [OF Some] wf_member [OF 2(2)] by auto
    then obtain sk where sk: "so_sk so = Some sk" by blast
    have "put_socket so tab = tab"
      unfolding put_socket_def using so(1) 2(2)
      by (cases tab) (auto intro!: map_idI simp: table_wf_def distinct_map inj_on_def)
    then have same: "socket_release (socket_rd_acquire so) tab = tab"
      using so(3) by (simp add: socket_release_def socket_rd_acquire_def Let_def)
    have "\<exists>n fds'. poll_scan pid ps tab = Ok (n, fds', tab) \<and> length fds' = length ps"
      using 2(1) [OF Some refl, of sk] sk 2(2) same by simp
    then show ?thesis using Some sk same by (auto simp: Let_def)
  qed simp
qed simp

lemma segment_touches:
  assumes "table_wf tab" and "tcp_in_sock out shared mem skb tab = Ok tab'"
  shows "tab' = tab \<or> (\<exists>s0\<in>set (sockets tab). touches s0 tab tab' \<and>
    (\<exists>sk. so_sk s0 = Some sk \<and> sk_sport sk = th_dport (tcp_hdr (tcp_init_segment skb)) \<and> sk_dport sk = th_sport (tcp_hdr (tcp_init_segment skb))))"
proof -
  let ?th = "tcp_hdr (tcp_init_segment skb)"
  show ?thesis
  proof (cases "inet_lookup (th_sport ?th) (th_dport ?th) tab")
    case (Some s0)
    then have m: "s0 \<in> set (sockets tab)"
      and p: "\<exists>sk. so_sk s0 = Some sk \<and> sk_sport sk = th_dport ?th \<and> sk_dport sk = th_sport ?th"
      by (auto simp: inet_lookup_def socket_lookup_def find_Some_iff split: option.splits)
    obtain sk where "tab' = socket_release ((socket_wr_acquire s0)\<lparr>so_sk := Some sk\<rparr>) tab"
      using assms(2) Some by (auto simp: tcp_in_sock_def Let_def cbind_Ok_iff)
    then have "touches s0 tab tab'" using touches_release [OF assms(1) m] wf_member [OF assms(1) m] by simp
    then show ?thesis using m p by blast
  qed (use assms(2) in \<open>simp add: tcp_in_sock_def Let_def\<close>)
qed

lemma timer_touches:
  assumes "table_wf tab" and "sock_timer out h p tab = Ok tab'"
  shows "tab' = tab \<or> (\<exists>s0\<in>set (sockets tab). so_ptr s0 = p \<and> touches s0 tab tab')"
proof (cases "socket_find p tab")
  case None
  then show ?thesis using assms(2) by (auto simp: sock_timer_def socket_garbage_collect_def split: handler.splits)
next
  case (Some s0)
  then have m: "s0 \<in> set (sockets tab)" "so_ptr s0 = p" using wf_find_iff [OF assms(1)] by auto
  have "(\<exists>sk. tab' = socket_release ((socket_wr_acquire s0)\<lparr>so_sk := Some sk\<rparr>) tab) \<or> socket_free s0 tab = Ok tab'"
    using assms(2) Some
    by (cases h) (auto simp: sock_timer_def socket_garbage_collect_def Let_def cbind_Ok_iff split: option.splits)
  then have "touches s0 tab tab'"
  proof (elim disjE exE)
    fix sk assume "tab' = socket_release ((socket_wr_acquire s0)\<lparr>so_sk := Some sk\<rparr>) tab"
    then show ?thesis using touches_release [OF assms(1) m(1)] wf_member [OF assms(1) m(1)] by simp
  next
    assume f: "socket_free s0 tab = Ok tab'"
    have "1 \<le> so_refcnt s0" using wf_member [OF assms(1) m(1)] by blast
    note free_keeps [OF assms(1) m(1) same_socket_simps(1) this f]
    then show ?thesis unfolding touches_def by blast
  qed
  then show ?thesis using m by blast
qed

lemma cmap_list_all2: "cmap f xs = Ok ys \<Longrightarrow> list_all2 (\<lambda>x y. f x = Ok y) xs ys"
  by (induction xs arbitrary: ys) (auto split: cres.splits)

lemma all2_map: "list_all2 P xs ys \<Longrightarrow> (\<And>x y. P x y \<Longrightarrow> f y = f x) \<Longrightarrow> map f ys = map f xs"
  by (induction rule: list_all2_induct) auto

lemma all2_set: "list_all2 P xs ys \<Longrightarrow> y \<in> set ys \<Longrightarrow> \<exists>x\<in>set xs. P x y"
  by (induction rule: list_all2_induct) auto

lemma abort_keeps:
  assumes "table_wf tab" and "abort_sockets out tab = Ok tab'"
  shows "table_wf tab'"
proof -
  obtain ss where ss: "cmap (\<lambda>so. if so_ops so then inet_abort out so else UB) (sockets tab) = Ok ss" and t: "tab' = tab\<lparr>sockets := ss\<rparr>"
    using assms(2) by (auto simp: abort_sockets_def cbind_Ok_iff)
  have same: "same_socket so so' \<and> so_refcnt so' = so_refcnt so \<and> so_ops so' = so_ops so \<and> (so_sk so \<noteq> None \<longrightarrow> so_sk so' \<noteq> None)"
    if "(if so_ops so then inet_abort out so else UB) = Ok so'" for so so'
    using that by (auto simp: inet_abort_def cbind_Ok_iff split: if_splits option.splits)
  note l = cmap_list_all2 [OF ss]
  have "length ss = length (sockets tab)" using list_all2_lengthD [OF l] by simp
  moreover have "map so_ptr ss = map so_ptr (sockets tab)" "map so_fd ss = map so_fd (sockets tab)"
    by (rule all2_map [OF l], drule same, simp add: same_socket_def)+
  moreover have "socket_ok tab so'" if mem: "so' \<in> set ss" for so'
  proof -
    obtain so where so: "so \<in> set (sockets tab)" "(if so_ops so then inet_abort out so else UB) = Ok so'" using all2_set [OF l mem] by blast
    have "socket_ok tab so" using assms(1) so(1) by (simp add: table_wf_def)
    then show ?thesis using same [OF so(2)] by (simp add: socket_ok_def same_socket_def)
  qed
  ultimately show ?thesis using assms(1) unfolding t table_wf_def by (simp add: socket_ok_def)
qed

section \<open>Runs of the socket layer\<close>

datatype sys_event = New_Socket int | Call int int | Segment u16 u16 | Timer_Of nat | Abort | Clock

inductive sys_step :: "ip_layer \<Rightarrow> sys_event \<Rightarrow> sock_table \<Rightarrow> sock_table \<Rightarrow> bool" for out where
  on_socket: "lvl_socket pid domain type protocol tab = Ok (rc, tab') \<Longrightarrow> sys_step out (New_Socket pid) tab tab'"
| on_connect: "lvl_connect out isn fuel env pid fd addr alen tab = Some (Ok (rc, tab')) \<Longrightarrow> sys_step out (Call pid fd) tab tab'"
| on_write: "lvl_write out mem pid fd buf tab = Ok (rc, tab') \<Longrightarrow> sys_step out (Call pid fd) tab tab'"
| on_read: "lvl_read fuel env pid fd len tab = Some (Ok (rc, d, tab')) \<Longrightarrow> sys_step out (Call pid fd) tab tab'"
| on_close: "lvl_close out mem pid fd tab = Ok (rc, tab') \<Longrightarrow> sys_step out (Call pid fd) tab tab'"
| on_poll: "poll_scan pid fds tab = Ok (n, fds', tab') \<Longrightarrow> sys_step out Clock tab tab'"
| on_fcntl: "lvl_fcntl pid fd cmd arg tab = Ok (rc, tab') \<Longrightarrow> sys_step out (Call pid fd) tab tab'"
| on_getsockopt: "lvl_getsockopt pid fd level optname tab = Ok (rc, v, tab') \<Longrightarrow> sys_step out (Call pid fd) tab tab'"
| on_getpeername: "lvl_getpeername pid fd tab = Ok (rc, a, tab') \<Longrightarrow> sys_step out (Call pid fd) tab tab'"
| on_getsockname: "lvl_getsockname pid fd tab = Ok (rc, a, tab') \<Longrightarrow> sys_step out (Call pid fd) tab tab'"
| on_segment: "tcp_in_sock out shared mem skb tab = Ok tab' \<Longrightarrow>
    sys_step out (Segment (th_sport (tcp_hdr (tcp_init_segment skb))) (th_dport (tcp_hdr (tcp_init_segment skb)))) tab tab'"
| on_timer: "sock_timer out h p tab = Ok tab' \<Longrightarrow> sys_step out (Timer_Of p) tab tab'"
| on_abort: "abort_sockets out tab = Ok tab' \<Longrightarrow> sys_step out Abort tab tab'"
| on_tick: "sys_step out Clock tab (tab\<lparr>net_tick := net_tick tab + 10\<rparr>)"

inductive_cases sys_stepE: "sys_step out ev tab tab'"

inductive sys_run :: "ip_layer \<Rightarrow> sock_table \<Rightarrow> sys_event list \<Rightarrow> sock_table \<Rightarrow> bool" for out where
  run_nil: "sys_run out tab [] tab"
| run_snoc: "sys_run out tab es tab' \<Longrightarrow> sys_step out e tab' tab'' \<Longrightarrow> sys_run out tab (es @ [e]) tab''"

text \<open>Which sockets a step is about.\<close>

fun concerns :: "sys_event \<Rightarrow> socket \<Rightarrow> bool" where
  "concerns (New_Socket pid) so = False"
| "concerns (Call pid fd) so = (so_pid so = pid \<and> so_fd so = fd)"
| "concerns (Segment remote local) so = (case so_sk so of None \<Rightarrow> False | Some sk \<Rightarrow> sk_sport sk = local \<and> sk_dport sk = remote)"
| "concerns (Timer_Of p) so = (so_ptr so = p)"
| "concerns Abort so = True"
| "concerns Clock so = False"

text \<open>Every step but the abort of all sockets and the creation of one: nothing happens, or one socket
  that it concerns is touched.\<close>

lemma missing_call:
  assumes "get_socket pid fd tab = None"
  shows "lvl_connect out isn fuel env pid fd addr alen tab = Some (Ok (- EBADF, tab))"
    and "lvl_write out mem pid fd buf tab = Ok (- EBADF, tab)" and "lvl_read fuel env pid fd len tab = Some (Ok (- EBADF, [], tab))"
    and "lvl_close out mem pid fd tab = Ok (- EBADF, tab)" and "lvl_fcntl pid fd cmd arg tab = Ok (- EBADF, tab)"
    and "lvl_getsockopt pid fd level optname tab = Ok (- EBADF, None, tab)"
    and "lvl_getpeername pid fd tab = Ok (- EBADF, None, tab)" and "lvl_getsockname pid fd tab = Ok (- EBADF, None, tab)"
  using assms
  by (simp_all add: lvl_connect_def lvl_write_def lvl_read_def lvl_close_def lvl_fcntl_def lvl_getsockopt_def lvl_getpeername_def
      lvl_getsockname_def)

lemma call_touches:
  assumes "sys_step out (Call pid fd) tab tab'" and "table_wf tab"
  shows "tab' = tab \<or> (\<exists>s0\<in>set (sockets tab). so_pid s0 = pid \<and> so_fd s0 = fd \<and> touches s0 tab tab')"
proof (cases "get_socket pid fd tab")
  case None
  show ?thesis using assms(1) by (cases rule: sys_step.cases) (auto simp: missing_call [OF None])
next
  case (Some s0)
  have "touches s0 tab tab'" using assms(1)
    by (cases rule: sys_step.cases)
      (auto dest: connect_touches [OF assms(2) Some] write_touches [OF assms(2) Some] read_touches [OF assms(2) Some]
        close_touches [OF assms(2) Some] fcntl_touches [OF assms(2) Some] query_touches [OF assms(2) Some])
  then show ?thesis using get_Some [OF Some] by blast
qed

lemma touches_wf: "touches s0 tab tab' \<Longrightarrow> table_wf tab'"
  by (simp add: touches_def)

lemma step_keeps:
  assumes "sys_step out e tab tab'" and "table_wf tab"
  shows "table_wf tab'"
proof (cases e)
  case (New_Socket pid)
  then show ?thesis using assms by (auto elim: sys_step.cases dest: socket_keeps(1))
next
  case (Call pid fd)
  then show ?thesis using call_touches [OF assms(1) [unfolded Call] assms(2)] assms(2) touches_wf by blast
next
  case (Segment r l)
  obtain shared mem skb where "tcp_in_sock out shared mem skb tab = Ok tab'" using assms(1) unfolding Segment by (cases rule: sys_step.cases)
  then show ?thesis using segment_touches [OF assms(2)] assms(2) touches_wf by blast
next
  case (Timer_Of p)
  obtain h where "sock_timer out h p tab = Ok tab'" using assms(1) unfolding Timer_Of by (cases rule: sys_step.cases)
  then show ?thesis using timer_touches [OF assms(2)] assms(2) touches_wf by blast
next
  case Abort
  then show ?thesis using assms abort_keeps by (auto elim: sys_step.cases)
next
  case Clock
  have "(\<exists>pid fds n fds'. poll_scan pid fds tab = Ok (n, fds', tab')) \<or> tab' = tab\<lparr>net_tick := net_tick tab + 10\<rparr>"
    using assms(1) unfolding Clock by (cases rule: sys_step.cases) auto
  then show ?thesis
  proof (elim disjE exE)
    fix pid fds n fds' assume "poll_scan pid fds tab = Ok (n, fds', tab')"
    then show ?thesis using poll_scan_keeps [OF assms(2), of pid fds] assms(2) by auto
  qed (use assms(2) in \<open>simp add: table_wf_def socket_ok_def\<close>)
qed

lemma touches_other: "touches s0 tab tab' \<Longrightarrow> so \<in> set (sockets tab) \<Longrightarrow> so \<noteq> s0 \<Longrightarrow> so \<in> set (sockets tab')"
  by (auto simp: touches_def)

lemma step_frame:
  assumes "sys_step out e tab tab'" and "table_wf tab" and "so \<in> set (sockets tab)" and "\<not> concerns e so"
  shows "so \<in> set (sockets tab')"
proof (cases e)
  case (New_Socket pid)
  then show ?thesis using assms by (auto elim!: sys_step.cases dest: socket_keeps(2))
next
  case (Call pid fd)
  then have "so_pid so \<noteq> pid \<or> so_fd so \<noteq> fd" using assms(4) by auto
  then show ?thesis using call_touches [OF assms(1) [unfolded Call] assms(2)] touches_other assms(3) by blast
next
  case (Segment r l)
  then have "\<nexists>sk. so_sk so = Some sk \<and> sk_sport sk = l \<and> sk_dport sk = r" using assms(4) by auto
  moreover obtain shared mem skb where "tcp_in_sock out shared mem skb tab = Ok tab'"
    "r = th_sport (tcp_hdr (tcp_init_segment skb))" "l = th_dport (tcp_hdr (tcp_init_segment skb))"
    using assms(1) unfolding Segment by (cases rule: sys_step.cases)
  ultimately show ?thesis using segment_touches [OF assms(2)] touches_other assms(3) by blast
next
  case (Timer_Of p)
  then obtain h where "sock_timer out h p tab = Ok tab'" using assms(1) by (auto elim: sys_step.cases)
  moreover have "so_ptr so \<noteq> p" using assms(4) Timer_Of by simp
  ultimately show ?thesis using timer_touches [OF assms(2)] touches_other assms(3) by blast
next
  case Clock
  have "(\<exists>pid fds n fds'. poll_scan pid fds tab = Ok (n, fds', tab')) \<or> tab' = tab\<lparr>net_tick := net_tick tab + 10\<rparr>"
    using assms(1) unfolding Clock by (cases rule: sys_step.cases) auto
  then show ?thesis
  proof (elim disjE exE)
    fix pid fds n fds' assume "poll_scan pid fds tab = Ok (n, fds', tab')"
    then show ?thesis using poll_scan_keeps [OF assms(2), of pid fds] assms(3) by auto
  qed (use assms(3) in simp)
qed (use assms(4) in simp)

lemma run_keeps: "sys_run out tab es tab' \<Longrightarrow> table_wf tab \<Longrightarrow> table_wf tab'"
  by (induction rule: sys_run.induct) (auto intro: step_keeps)

lemma run_frame:
  "sys_run out tab es tab' \<Longrightarrow> table_wf tab \<Longrightarrow> so \<in> set (sockets tab) \<Longrightarrow> \<forall>e\<in>set es. \<not> concerns e so \<Longrightarrow> so \<in> set (sockets tab')"
  by (induction rule: sys_run.induct) (auto intro: step_frame run_keeps)

lemma init_wf: "table_wf sock_table_init"
  by (simp add: table_wf_def sock_table_init_def)

section \<open>Polling\<close>

lemma poll_scan_count:
  "poll_scan pid fds tab = Ok (Some n, fds', tab') \<Longrightarrow> 0 \<le> n \<and> n \<le> int (length fds)"
proof (induction fds arbitrary: tab n fds' tab')
  case (Cons p ps)
  then show ?case
    by (fastforce simp: Let_def cbind_Ok_iff split: option.splits if_splits)
qed simp

text \<open>Each pass takes ten milliseconds off the timeout.\<close>

lemma poll_terminates:
  assumes "\<And>j t. table_wf t \<Longrightarrow> table_wf (env j t)" and "table_wf tab" and "0 \<le> timeout" and "nat ((timeout + 9) div 10) < fuel"
  shows "\<exists>rc fds' tab'. lvl_poll fuel i env pid fds timeout tab = Some (Ok (rc, fds', tab')) \<and> table_wf tab' \<and> length fds' = length fds \<and>
    (rc = - EBADF \<or> 0 \<le> rc \<and> rc \<le> int (length fds))"
  using assms(2-4)
proof (induction fuel arbitrary: i fds timeout tab)
  case (Suc fuel)
  obtain n fds' where s: "poll_scan pid fds tab = Ok (n, fds', tab)" "length fds' = length fds" using poll_scan_keeps [OF Suc(2)] by blast
  show ?case
  proof (cases n)
    case None
    then show ?thesis using s Suc(2) by auto
  next
    case (Some polled)
    note b = poll_scan_count [OF s(1) [unfolded Some]]
    show ?thesis
    proof (cases "polled > 0 \<or> timeout = 0")
      case True
      then show ?thesis using s Some b Suc(2) by auto
    next
      case False
      let ?t = "if timeout > 10 then timeout - 10 else 0"
      have "0 \<le> ?t" "nat ((?t + 9) div 10) < fuel" using Suc(3,4) False by (auto simp: nat_less_iff split: if_splits)
      note ih = Suc(1) [OF assms(1) [OF Suc(2), of i] this, of "Suc i" fds']
      have "lvl_poll (Suc fuel) i env pid fds timeout tab = lvl_poll fuel (Suc i) env pid fds' ?t (env i tab)"
        using s(1) Some False Suc(3) by simp
      then show ?thesis using ih s(2) by simp
    qed
  qed
qed simp

end
