(* ===== verification/Ipc.thy ===== *)
theory Ipc
  imports Socket_Inv
begin

text \<open>
  The IPC server of \<open>src/ipc.c\<close>: the packed little-endian messages of \<open>include/ipc.h\<close>, one handler per
  call, the dispatcher and the loop of a connection's thread.  A message is decoded from the 8192-byte
  receive buffer by its offsets; what an earlier message left behind it is still there.  Reads outside
  the buffer and arrays that do not fit a stack of 8 MB are undefined behaviour.  The environment
  of a call (the IP layer, what happens while it sleeps, the bytes found in fresh stack memory) is a
  record of parameters; \<open>None\<close> means that the call is still asleep.
\<close>

section \<open>Little-endian fields\<close>

fun le_int :: "nat \<Rightarrow> int \<Rightarrow> bytes" where
  "le_int 0 x = []"
| "le_int (Suc n) x = of_int x # le_int n (x div 256)"

fun le_val :: "bytes \<Rightarrow> int" where
  "le_val [] = 0"
| "le_val (b # bs) = uint b + 256 * le_val bs"

definition get_u :: "nat \<Rightarrow> bytes \<Rightarrow> nat \<Rightarrow> int" where
  "get_u n buf off = le_val (take n (drop off buf))"

definition get_s :: "nat \<Rightarrow> bytes \<Rightarrow> nat \<Rightarrow> int" where
  "get_s n buf off = (let v = get_u n buf off in if 2 ^ (8 * n - 1) \<le> v then v - 2 ^ (8 * n) else v)"

section \<open>Messages\<close>

definition IPC_BUFLEN :: nat where "IPC_BUFLEN = 8192"
definition IPC_SOCKET :: int where "IPC_SOCKET = 0x0001"
definition IPC_CONNECT :: int where "IPC_CONNECT = 0x0002"
definition IPC_WRITE :: int where "IPC_WRITE = 0x0003"
definition IPC_READ :: int where "IPC_READ = 0x0004"
definition IPC_CLOSE :: int where "IPC_CLOSE = 0x0005"
definition IPC_POLL :: int where "IPC_POLL = 0x0006"
definition IPC_FCNTL :: int where "IPC_FCNTL = 0x0007"
definition IPC_GETSOCKOPT :: int where "IPC_GETSOCKOPT = 0x0008"
definition IPC_SETSOCKOPT :: int where "IPC_SETSOCKOPT = 0x0009"
definition IPC_GETPEERNAME :: int where "IPC_GETPEERNAME = 0x000A"
definition IPC_GETSOCKNAME :: int where "IPC_GETSOCKNAME = 0x000B"

lemmas ipc_types = IPC_SOCKET_def IPC_CONNECT_def IPC_WRITE_def IPC_READ_def IPC_CLOSE_def IPC_POLL_def IPC_FCNTL_def
  IPC_GETSOCKOPT_def IPC_SETSOCKOPT_def IPC_GETPEERNAME_def IPC_GETSOCKNAME_def

definition ipc_msg :: "int \<Rightarrow> int \<Rightarrow> bytes" where
  "ipc_msg type pid = le_int 2 type @ le_int 4 pid"

definition msg_type :: "bytes \<Rightarrow> int" where "msg_type msg = get_u 2 msg 0"
definition msg_pid :: "bytes \<Rightarrow> int" where "msg_pid msg = get_s 4 msg 2"

definition ipc_err :: "int \<Rightarrow> bytes" where
  "ipc_err rc = (if rc < 0 then le_int 4 (-1) @ le_int 4 (- rc) else le_int 4 rc @ le_int 4 0)"

definition get_pollfd :: "bytes \<Rightarrow> nat \<Rightarrow> pollfd" where
  "get_pollfd msg off = \<lparr>pfd_fd = get_s 4 msg off, pfd_events = of_int (get_u 2 msg (off + 4)), pfd_revents = of_int (get_u 2 msg (off + 6))\<rparr>"

definition ipc_pollfd :: "pollfd \<Rightarrow> bytes" where
  "ipc_pollfd p = le_int 4 (pfd_fd p) @ le_int 2 (uint (pfd_events p)) @ le_int 2 (uint (pfd_revents p))"

definition get_sockaddr :: "bytes \<Rightarrow> nat \<Rightarrow> sockaddr_in" where
  "get_sockaddr msg off = \<lparr>sin_family = of_int (get_u 2 msg off), sin_port = of_int (get_u 2 msg (off + 2)), s_addr = of_int (get_u 4 msg (off + 4))\<rparr>"

definition sockaddr_bytes :: "sockaddr_in \<Rightarrow> bytes" where
  "sockaddr_bytes a = le_int 2 (uint (sin_family a)) @ le_int 2 (uint (sin_port a)) @ le_int 4 (uint (s_addr a))"

text \<open>\<open>address_len\<close> and \<open>sa_data\<close> of \<open>struct ipc_sockname\<close> in fresh stack memory: \<open>sin_zero\<close> and all bytes
  behind it, or everything when there is no address, are not written.\<close>

definition sockname_bytes :: "(nat \<Rightarrow> u8) \<Rightarrow> sockaddr_in option \<Rightarrow> bytes" where
  "sockname_bytes junk a =
     (case a of None \<Rightarrow> map junk [0..<132] | Some a \<Rightarrow> le_int 4 16 @ sockaddr_bytes a @ map junk [12..<132])"

section \<open>Handlers\<close>

record ipc_world =
  w_out :: ip_layer
  w_iss :: u32
  w_mem :: bool
  w_fuel :: nat
  w_env :: "nat \<Rightarrow> tcp_sock \<Rightarrow> tcp_sock"
  w_pause :: "nat \<Rightarrow> sock_table \<Rightarrow> sock_table"
  w_junk :: "nat \<Rightarrow> u8"

definition vla_ok :: "nat \<Rightarrow> bool" where "vla_ok n \<longleftrightarrow> n \<le> 8388608"

text \<open>A handler returns its return code, the responses sent and the table.\<close>

type_synonym ipc_result = "(int \<times> bytes list \<times> sock_table) cres option"

text \<open>The dispatcher also hands on the receive buffer, which one handler writes to, and the reads still to come.\<close>

type_synonym ipc_step = "(int \<times> bytes list \<times> bytes \<times> bytes option list \<times> sock_table) cres option"

definition ipc_write_rc :: "int \<Rightarrow> int \<Rightarrow> int \<Rightarrow> sock_table \<Rightarrow> int \<times> bytes list \<times> sock_table" where
  "ipc_write_rc pid type rc tab = (0, [ipc_msg type pid @ ipc_err rc], tab)"

definition ipc_read :: "ipc_world \<Rightarrow> bytes \<Rightarrow> sock_table \<Rightarrow> ipc_result" where
  "ipc_read w msg tab =
     (let sockfd = get_s 4 msg 6; len = nat (get_u 8 msg 10); pid = msg_pid msg in
      if \<not> vla_ok len then Some UB
      else map_option (\<lambda>r. cbind r (\<lambda>(rlen, d, tab).
        let rbuf = d @ drop (length d) (replicate len 0) in
        Ok (0, [ipc_msg IPC_READ pid @ ipc_err rlen @ le_int 4 sockfd @ le_int 8 rlen @ take (nat rlen) rbuf], tab)))
      (lvl_read (w_fuel w) (w_env w) pid sockfd len tab))"

text \<open>\<open>rs\<close> are the results of the reads still to come on the connection: \<open>None\<close> for -1, \<open>Some []\<close> at the end.
  A write whose data exceed the buffer takes the next one.\<close>

definition ipc_write :: "ipc_world \<Rightarrow> bytes \<Rightarrow> bytes option list \<Rightarrow> sock_table \<Rightarrow> ipc_step" where
  "ipc_write w msg rs tab =
     (let sockfd = get_s 4 msg 6; len = nat (get_u 8 msg 10); pid = msg_pid msg; head = IPC_BUFLEN - 12 - 6;
          run = (\<lambda>buf rs. Some (cbind (lvl_write (w_out w) (w_mem w) pid sockfd buf tab) (\<lambda>(rc, tab).
                   let (rc, out, tab) = ipc_write_rc pid IPC_WRITE rc tab in Ok (rc, out, msg, rs, tab)))) in
      if \<not> vla_ok len then Some UB
      else if len > head then
        (case rs of
           [] \<Rightarrow> None
         | None # rs \<Rightarrow> Some (Ok (-1, [], msg, rs, tab))
         | Some c # rs \<Rightarrow>
             let c = take (len - head) c in
             run (take head (drop 18 msg) @ c @ replicate (len - head - length c) 0) rs)
      else run (take len (drop 18 msg)) rs)"

definition ipc_connect :: "ipc_world \<Rightarrow> bytes \<Rightarrow> sock_table \<Rightarrow> ipc_result" where
  "ipc_connect w msg tab =
     (let pid = msg_pid msg in
      map_option (\<lambda>r. cbind r (\<lambda>(rc, tab). Ok (ipc_write_rc pid IPC_CONNECT rc tab)))
        (lvl_connect (w_out w) (w_iss w) (w_fuel w) (w_env w) pid (get_s 4 msg 6) (get_sockaddr msg 10) (get_s 4 msg 26) tab))"

definition ipc_socket :: "bytes \<Rightarrow> sock_table \<Rightarrow> ipc_result" where
  "ipc_socket msg tab =
     (let pid = msg_pid msg in
      Some (cbind (lvl_socket pid (get_s 4 msg 6) (get_s 4 msg 10) (get_s 4 msg 14) tab) (\<lambda>(rc, tab).
        Ok (ipc_write_rc pid IPC_SOCKET rc tab))))"

definition ipc_close :: "ipc_world \<Rightarrow> bytes \<Rightarrow> sock_table \<Rightarrow> ipc_result" where
  "ipc_close w msg tab =
     (let pid = msg_pid msg in
      Some (cbind (lvl_close (w_out w) (w_mem w) pid (get_s 4 msg 6) tab) (\<lambda>(rc, tab). Ok (ipc_write_rc pid IPC_CLOSE rc tab))))"

definition ipc_poll :: "ipc_world \<Rightarrow> bytes \<Rightarrow> sock_table \<Rightarrow> ipc_result" where
  "ipc_poll w msg tab =
     (let nfds = nat (get_u 8 msg 6); timeout = get_s 4 msg 14; pid = msg_pid msg in
      if \<not> vla_ok (8 * nfds) \<or> IPC_BUFLEN < 18 + 8 * nfds then Some UB
      else map_option (\<lambda>r. cbind r (\<lambda>(rc, fds, tab).
        Ok (0, [ipc_msg IPC_POLL pid @ ipc_err rc @ concat (map ipc_pollfd fds)], tab)))
      (lvl_poll (w_fuel w) 0 (w_pause w) pid (map (\<lambda>i. get_pollfd msg (18 + 8 * i)) [0..<nfds]) timeout tab))"

definition ipc_fcntl :: "bytes \<Rightarrow> sock_table \<Rightarrow> ipc_result" where
  "ipc_fcntl msg tab =
     (let sockfd = get_s 4 msg 6; cmd = get_s 4 msg 10; pid = msg_pid msg in
      if cmd = F_GETFL then Some (cbind (lvl_fcntl pid sockfd cmd 0 tab) (\<lambda>(rc, tab). Ok (ipc_write_rc pid IPC_FCNTL rc tab)))
      else if cmd = F_SETFL then
        Some (cbind (lvl_fcntl pid sockfd cmd (get_s 4 msg 14) tab) (\<lambda>(rc, tab). Ok (ipc_write_rc pid IPC_FCNTL rc tab)))
      else Some (Ok (ipc_write_rc pid IPC_FCNTL (- EINVAL) tab)))"

text \<open>\<open>ipc_getsockopt\<close>: the option is stored into the message itself before it is copied out.\<close>

definition ipc_getsockopt :: "bytes \<Rightarrow> bytes option list \<Rightarrow> sock_table \<Rightarrow> ipc_step" where
  "ipc_getsockopt msg rs tab =
     (let fd = get_s 4 msg 6; level = get_s 4 msg 10; optname = get_s 4 msg 14; pid = msg_pid msg in
      Some (cbind (lvl_getsockopt pid fd level optname tab) (\<lambda>(rc, res, tab).
        let msg = (case res of None \<Rightarrow> msg | Some (v, n) \<Rightarrow> buf_write msg 18 (le_int 4 (uint n) @ le_int 4 v));
            optlen = nat (get_u 4 msg 18) in
        if length msg < 22 + optlen then UB
        else Ok (rc, [ipc_msg IPC_GETSOCKOPT pid @ ipc_err rc @ le_int 4 fd @ le_int 4 level @ le_int 4 optname @
               le_int 4 (int optlen) @ take optlen (drop 22 msg)], msg, rs, tab))))"

definition ipc_getpeername :: "ipc_world \<Rightarrow> bytes \<Rightarrow> sock_table \<Rightarrow> ipc_result" where
  "ipc_getpeername w msg tab =
     (let socket = get_s 4 msg 6; pid = msg_pid msg in
      Some (cbind (lvl_getpeername pid socket tab) (\<lambda>(rc, a, tab).
        Ok (rc, [ipc_msg IPC_GETPEERNAME pid @ ipc_err rc @ le_int 4 socket @ sockname_bytes (w_junk w) a], tab))))"

definition ipc_getsockname :: "ipc_world \<Rightarrow> bytes \<Rightarrow> sock_table \<Rightarrow> ipc_result" where
  "ipc_getsockname w msg tab =
     (let socket = get_s 4 msg 6; pid = msg_pid msg in
      Some (cbind (lvl_getsockname pid socket tab) (\<lambda>(rc, a, tab).
        Ok (rc, [ipc_msg IPC_GETSOCKNAME pid @ ipc_err rc @ le_int 4 socket @ sockname_bytes (w_junk w) a], tab))))"

section \<open>The thread of a connection\<close>

text \<open>Handlers that read nothing more leave the buffer and the coming reads as they are.\<close>

definition with_reads :: "bytes \<Rightarrow> bytes option list \<Rightarrow> ipc_result \<Rightarrow> ipc_step" where
  "with_reads msg rs r = map_option (\<lambda>r. cbind r (\<lambda>(rc, out, tab). Ok (rc, out, msg, rs, tab))) r"

definition demux_ipc_socket_call ::
  "ipc_world \<Rightarrow> bytes \<Rightarrow> bytes option list \<Rightarrow> sock_table \<Rightarrow> ipc_step" where
  "demux_ipc_socket_call w msg rs tab =
     (let t = msg_type msg in
      if t = IPC_SOCKET then with_reads msg rs (ipc_socket msg tab)
      else if t = IPC_CONNECT then with_reads msg rs (ipc_connect w msg tab)
      else if t = IPC_WRITE then ipc_write w msg rs tab
      else if t = IPC_READ then with_reads msg rs (ipc_read w msg tab)
      else if t = IPC_CLOSE then with_reads msg rs (ipc_close w msg tab)
      else if t = IPC_POLL then with_reads msg rs (ipc_poll w msg tab)
      else if t = IPC_FCNTL then with_reads msg rs (ipc_fcntl msg tab)
      else if t = IPC_GETSOCKOPT then ipc_getsockopt msg rs tab
      else if t = IPC_GETPEERNAME then with_reads msg rs (ipc_getpeername w msg tab)
      else if t = IPC_GETSOCKNAME then with_reads msg rs (ipc_getsockname w msg tab)
      else Some (Ok (0, [], msg, rs, tab)))"

lemma with_reads_rs: "with_reads msg rs r = Some (Ok (rc, out, msg', rs', tab)) \<Longrightarrow> rs' = rs"
  by (auto simp: with_reads_def cbind_Ok_iff)

lemma demux_consumes:
  assumes "demux_ipc_socket_call w msg rs tab = Some (Ok (rc, out, msg', rs', tab'))"
  shows "length rs' \<le> length rs"
proof (cases "msg_type msg = IPC_WRITE")
  case True
  then have "ipc_write w msg rs tab = Some (Ok (rc, out, msg', rs', tab'))"
    using assms by (simp add: demux_ipc_socket_call_def Let_def ipc_types)
  then show ?thesis
    by (auto simp: ipc_write_def Let_def cbind_Ok_iff ipc_write_rc_def split: if_splits list.splits option.splits)
next
  case False
  have "rs' = rs" if "ipc_getsockopt msg rs tab = Some (Ok (rc, out, msg', rs', tab'))"
    using that by (auto simp: ipc_getsockopt_def Let_def cbind_Ok_iff split: if_splits)
  with False have "(\<exists>r. with_reads msg rs r = Some (Ok (rc, out, msg', rs', tab'))) \<or> rs' = rs"
    using assms unfolding demux_ipc_socket_call_def Let_def by (auto split: if_splits)
  then show ?thesis by (auto dest: with_reads_rs)
qed

text \<open>The loop of \<open>socket_ipc_open\<close>: the flag says whether it left through \<open>ipc_free_thread\<close>.  \<open>ws i\<close> is the
  environment of the \<open>i\<close>-th message.\<close>

function ipc_loop ::
  "(nat \<Rightarrow> ipc_world) \<Rightarrow> nat \<Rightarrow> bytes \<Rightarrow> bytes option list \<Rightarrow> sock_table \<Rightarrow> (bool \<times> bytes list \<times> sock_table) cres option" where
  "ipc_loop ws i buf rs tab =
     (case rs of
        [] \<Rightarrow> None
      | None # rs \<Rightarrow> Some (Ok (True, [], tab))
      | Some [] # rs \<Rightarrow> Some (Ok (True, [], tab))
      | Some chunk # rs \<Rightarrow>
          let buf = buf_write buf 0 (take IPC_BUFLEN chunk) in
          (case demux_ipc_socket_call (ws i) buf rs tab of
             None \<Rightarrow> None
           | Some UB \<Rightarrow> Some UB
           | Some (Fail c) \<Rightarrow> Some (Fail c)
           | Some (Ok (rc, out, buf, rs, tab)) \<Rightarrow>
               if rc = -1 then Some (Ok (False, out, tab))
               else map_option (\<lambda>r. cbind r (\<lambda>(fr, outs, tab). Ok (fr, out @ outs, tab))) (ipc_loop ws (Suc i) buf rs tab)))"
  by pat_completeness auto

termination
  by (relation "measure (\<lambda>(ws, i, buf, rs, tab). length rs)") (auto dest!: demux_consumes)

declare ipc_loop.simps [simp del]

record ipc_threads =
  th_socks :: "int list"
  socket_count :: int
  th_closed :: "int list"

definition ipc_alloc_thread :: "int \<Rightarrow> ipc_threads \<Rightarrow> ipc_threads" where
  "ipc_alloc_thread sock st = st\<lparr>th_socks := th_socks st @ [sock], socket_count := socket_count st + 1\<rparr>"

definition ipc_free_thread :: "int \<Rightarrow> ipc_threads \<Rightarrow> ipc_threads" where
  "ipc_free_thread sock st =
     (if sock \<in> set (th_socks st)
      then st\<lparr>th_socks := remove1 sock (th_socks st), th_closed := sock # th_closed st, socket_count := socket_count st - 1\<rparr>
      else st)"

definition socket_ipc_open ::
  "(nat \<Rightarrow> ipc_world) \<Rightarrow> bytes \<Rightarrow> int \<Rightarrow> bytes option list \<Rightarrow> sock_table \<Rightarrow> ipc_threads \<Rightarrow>
   (bytes list \<times> sock_table \<times> ipc_threads) cres option" where
  "socket_ipc_open ws buf sockfd rs tab st =
     map_option (\<lambda>r. cbind r (\<lambda>(fr, outs, tab).
       Ok (outs, tab, if fr then ipc_free_thread sockfd st else st\<lparr>th_closed := sockfd # th_closed st\<rparr>)))
     (ipc_loop ws 0 buf rs tab)"

section \<open>Fields survive the wire\<close>

definition i32 :: "int \<Rightarrow> bool" where "i32 x \<longleftrightarrow> - (2 ^ 31) \<le> x \<and> x < 2 ^ 31"

lemma length_le_int [simp]: "length (le_int n x) = n"
  by (induction n arbitrary: x) simp_all

lemma le_val_le_int: "le_val (le_int n x) = x mod 256 ^ n"
proof (induction n arbitrary: x)
  case (Suc n)
  have "x mod (256 * 256 ^ n) = 256 * (x div 256 mod 256 ^ n) + x mod 256" by (rule zmod_zmult2_eq) simp
  then show ?case using Suc by (simp add: uint_word_of_int)
qed simp

lemma get_u_here: "get_u n (le_int n x @ rest) 0 = x mod 256 ^ n"
  by (simp add: get_u_def le_val_le_int)

lemma get_u_skip: "length pre \<le> off \<Longrightarrow> get_u n (pre @ rest) off = get_u n rest (off - length pre)"
  by (simp add: get_u_def)

lemma get_s_skip: "length pre \<le> off \<Longrightarrow> get_s n (pre @ rest) off = get_s n rest (off - length pre)"
  by (simp add: get_s_def get_u_skip)

lemma i32_mod: "i32 x \<Longrightarrow> x mod 256 ^ 4 = (if x < 0 then x + 2 ^ 32 else x)"
proof -
  assume x: "i32 x"
  show ?thesis
  proof (cases "x < 0")
    case True
    have "x mod 256 ^ 4 = (x + 256 ^ 4) mod 256 ^ 4" by (rule mod_add_self2 [symmetric])
    also have "\<dots> = x + 256 ^ 4" using x True by (intro mod_pos_pos_trivial) (simp_all add: i32_def)
    finally show ?thesis using True by simp
  qed (use x in \<open>simp add: i32_def mod_pos_pos_trivial\<close>)
qed

lemma get_s4_here: "i32 x \<Longrightarrow> get_s 4 (le_int 4 x @ rest) 0 = x"
  unfolding get_s_def get_u_here i32_mod Let_def by (auto simp: i32_def)

lemma get_u16_here: "of_int (get_u 2 (le_int 2 (uint (w :: u16)) @ rest) 0) = w"
  unfolding get_u_here using uint_bounded [of w] by (simp add: mod_pos_pos_trivial)

lemma get_u32_here: "of_int (get_u 4 (le_int 4 (uint (w :: u32)) @ rest) 0) = w"
  unfolding get_u_here using uint_bounded [of w] by (simp add: mod_pos_pos_trivial)

lemma get_u8_here: "0 \<le> x \<Longrightarrow> x < 2 ^ 64 \<Longrightarrow> get_u 8 (le_int 8 x @ rest) 0 = x"
  unfolding get_u_here by (simp add: mod_pos_pos_trivial)

lemma get_u2_here: "0 \<le> x \<Longrightarrow> x < 65536 \<Longrightarrow> get_u 2 (le_int 2 x @ rest) 0 = x"
  unfolding get_u_here by (simp add: mod_pos_pos_trivial)

lemma get_u4_here: "0 \<le> x \<Longrightarrow> x < 2 ^ 32 \<Longrightarrow> get_u 4 (le_int 4 x @ rest) 0 = x"
  unfolding get_u_here by (simp add: mod_pos_pos_trivial)

lemmas field_simps_ipc = get_u_skip get_s_skip get_s4_here get_u16_here get_u32_here get_u8_here get_u2_here get_u4_here

text \<open>The header and the error part of a message.\<close>

lemma ipc_msg_fields [simp]:
  "length (ipc_msg type pid) = 6"
  "0 \<le> type \<Longrightarrow> type < 65536 \<Longrightarrow> msg_type (ipc_msg type pid @ rest) = type"
  "i32 pid \<Longrightarrow> msg_pid (ipc_msg type pid @ rest) = pid"
  by (simp_all add: ipc_msg_def msg_type_def msg_pid_def field_simps_ipc)

lemma ipc_field [simp]:
  "6 \<le> off \<Longrightarrow> get_u n (ipc_msg type pid @ rest) off = get_u n rest (off - 6)"
  "6 \<le> off \<Longrightarrow> get_s n (ipc_msg type pid @ rest) off = get_s n rest (off - 6)"
  by (simp_all add: get_u_skip get_s_skip)

lemma ipc_err_fields [simp]:
  assumes "i32 rc"
  shows "length (ipc_err rc) = 8" and "get_s 4 (ipc_err rc @ rest) 0 = (if rc < 0 then -1 else rc)"
    and "- (2 ^ 31) < rc \<Longrightarrow> get_s 4 (ipc_err rc @ rest) 4 = (if rc < 0 then - rc else 0)"
    and "8 \<le> off \<Longrightarrow> get_s n (ipc_err rc @ rest) off = get_s n rest (off - 8)"
    and "8 \<le> off \<Longrightarrow> get_u n (ipc_err rc @ rest) off = get_u n rest (off - 8)"
proof -
  have i: "i32 (-1)" "i32 0" by (simp_all add: i32_def)
  show l: "length (ipc_err rc) = 8" by (simp add: ipc_err_def)
  show "get_s 4 (ipc_err rc @ rest) 0 = (if rc < 0 then -1 else rc)"
    using assms i by (simp add: ipc_err_def get_s4_here)
  show "- (2 ^ 31) < rc \<Longrightarrow> get_s 4 (ipc_err rc @ rest) 4 = (if rc < 0 then - rc else 0)"
    using assms i by (simp add: ipc_err_def field_simps_ipc i32_def)
  show "8 \<le> off \<Longrightarrow> get_s n (ipc_err rc @ rest) off = get_s n rest (off - 8)"
    "8 \<le> off \<Longrightarrow> get_u n (ipc_err rc @ rest) off = get_u n rest (off - 8)"
    using l by (simp_all add: get_u_skip get_s_skip)
qed

lemma sockaddr_fields [simp]:
  "length (sockaddr_bytes a) = 8" "get_sockaddr (sockaddr_bytes a @ rest) 0 = a"
  by (simp_all add: sockaddr_bytes_def get_sockaddr_def field_simps_ipc)

lemma get_sockaddr_skip: "length pre \<le> off \<Longrightarrow> get_sockaddr (pre @ rest) off = get_sockaddr rest (off - length pre)"
  by (simp add: get_sockaddr_def get_u_skip Suc_diff_le)

lemma pollfd_fields [simp]: "length (ipc_pollfd p) = 8"
  and get_pollfd_here: "i32 (pfd_fd p) \<Longrightarrow> get_pollfd (ipc_pollfd p @ rest) 0 = p"
  by (simp_all add: ipc_pollfd_def get_pollfd_def field_simps_ipc)

lemma get_pollfd_skip: "length pre \<le> off \<Longrightarrow> get_pollfd (pre @ rest) off = get_pollfd rest (off - length pre)"
  by (simp add: get_pollfd_def get_u_skip get_s_skip Nat.add_diff_assoc2)

lemma get_pollfds:
  assumes "\<forall>p\<in>set fds. i32 (pfd_fd p)"
  shows "map (\<lambda>i. get_pollfd (concat (map ipc_pollfd fds) @ rest) (8 * i)) [0..<length fds] = fds"
  using assms
proof (induction fds)
  case (Cons p fds)
  have "get_pollfd (ipc_pollfd p @ concat (map ipc_pollfd fds) @ rest) (8 * Suc i) = get_pollfd (concat (map ipc_pollfd fds) @ rest) (8 * i)" for i
    by (simp add: get_pollfd_skip)
  then show ?case using Cons by (simp add: upt_conv_Cons map_Suc_upt [symmetric] get_pollfd_here comp_def del: upt_Suc mult_Suc_right)
qed simp

end
