(* ===== verification/Liblevelip.thy ===== *)
theory Liblevelip
  imports Ipc
begin

text \<open>
  The library \<open>tools/liblevelip.c\<close> that an application is started with: it takes the socket calls of the
  C library over, sends those on sockets of the stack to the IPC server and hands all others on.
  The functions behind it (found with \<open>dlsym\<close>) are the C library's: \<open>Real\<close> says that the call goes to
  the C library with the arguments it came with, \<open>Real_On fd\<close> that it goes there with another
  descriptor.  The Unix socket to the server is a parameter \<open>xchg\<close>: one message written and one
  answer of at most so many bytes read, \<open>None\<close> when the write or the read failed.
\<close>

section \<open>Results and state\<close>

datatype 'a lres = Real | Real_On int | Exited | Waiting | Undef | Done 'a

fun lbind :: "'a lres \<Rightarrow> ('a \<Rightarrow> 'b lres) \<Rightarrow> 'b lres" where
  "lbind Real f = Real"
| "lbind (Real_On fd) f = Real_On fd"
| "lbind Exited f = Exited"
| "lbind Waiting f = Waiting"
| "lbind Undef f = Undef"
| "lbind (Done x) f = f x"

fun of_chan :: "'a cres option \<Rightarrow> 'a lres" where
  "of_chan None = Waiting"
| "of_chan (Some (Ok x)) = Done x"
| "of_chan (Some (Fail c)) = Undef"
| "of_chan (Some UB) = Undef"

type_synonym 's exchange = "int \<Rightarrow> bytes \<Rightarrow> nat \<Rightarrow> 's \<Rightarrow> (bytes option \<times> 's) cres option"

record lvlip_sock =
  lvlfd :: int
  ls_fd :: int
  ls_freed :: bool

record 's lib =
  lvlip_socks :: "lvlip_sock list"
  lvlip_socks_count :: int
  errno :: int
  lib_closed :: "int list"
  chan :: 's

definition RCBUF_LEN :: nat where "RCBUF_LEN = 512"
definition F_GETFD :: int where "F_GETFD = 1"
definition F_SETFD :: int where "F_SETFD = 2"
definition IPPROTO_TCP :: int where "IPPROTO_TCP = 6"

text \<open>A list node that was freed while it is still linked is read by every search that reaches it.\<close>

fun lvlip_get_sock :: "int \<Rightarrow> lvlip_sock list \<Rightarrow> lvlip_sock option cres" where
  "lvlip_get_sock fd [] = Ok None"
| "lvlip_get_sock fd (s # ss) = (if ls_freed s then UB else if ls_fd s = fd then Ok (Some s) else lvlip_get_sock fd ss)"

definition with_sock :: "int \<Rightarrow> 's lib \<Rightarrow> (lvlip_sock \<Rightarrow> 'a lres) \<Rightarrow> 'a lres" where
  "with_sock fd l f =
     (case lvlip_get_sock fd (lvlip_socks l) of Ok None \<Rightarrow> Real | Ok (Some s) \<Rightarrow> f s | Fail c \<Rightarrow> Undef | UB \<Rightarrow> Undef)"

definition is_socket_supported :: "int \<Rightarrow> int \<Rightarrow> int \<Rightarrow> bool" where
  "is_socket_supported domain type protocol \<longleftrightarrow>
     domain = AF_INET \<and> (of_int type :: u32) AND 1 \<noteq> 0 \<and> (protocol = 0 \<or> protocol = IPPROTO_TCP)"

definition transmit_lvlip :: "'s exchange \<Rightarrow> (nat \<Rightarrow> u8) \<Rightarrow> int \<Rightarrow> bytes \<Rightarrow> 's lib \<Rightarrow> (int \<times> 's lib) lres" where
  "transmit_lvlip xchg junk fd msg l =
     lbind (of_chan (xchg fd msg RCBUF_LEN (chan l))) (\<lambda>(r, s).
       let fresh = map junk [0..<8 * RCBUF_LEN];
           buf = (case r of None \<Rightarrow> fresh | Some r \<Rightarrow> buf_write fresh 0 (take RCBUF_LEN r));
           l = l\<lparr>chan := s\<rparr> in
       if msg_type buf \<noteq> msg_type msg \<or> msg_pid buf \<noteq> msg_pid msg then Done (-1, l)
       else let rc = get_s 4 buf 6 in Done (rc, if rc = -1 then l\<lparr>errno := get_s 4 buf 10\<rparr> else l))"

section \<open>The calls\<close>

text \<open>\<open>conn\<close>: the results of the C library's \<open>socket\<close> and \<open>connect\<close> for the Unix socket of the server.  When one
  of them fails, the process exits.\<close>

definition init_socket :: "('s \<Rightarrow> int \<times> int \<times> 's) \<Rightarrow> 's \<Rightarrow> (int \<times> 's) option" where
  "init_socket conn s =
     (let (data_socket, ret, s) = conn s in
      if data_socket = -1 then None
      else if ret = -1 then None
      else Some (data_socket, s))"

definition lib_socket ::
  "'s exchange \<Rightarrow> (nat \<Rightarrow> u8) \<Rightarrow> ('s \<Rightarrow> int \<times> int \<times> 's) \<Rightarrow> int \<Rightarrow> int \<Rightarrow> int \<Rightarrow> int \<Rightarrow> 's lib \<Rightarrow> (int \<times> 's lib) lres" where
  "lib_socket xchg junk conn pid domain type protocol l =
     (if \<not> is_socket_supported domain type protocol then Real
      else case init_socket conn (chan l) of
        None \<Rightarrow> Exited
      | Some (fd, s) \<Rightarrow>
          let sock = \<lparr>lvlfd = fd, ls_fd = 0, ls_freed = False\<rparr>; old = lvlip_socks l;
              l = l\<lparr>chan := s, lvlip_socks := old @ [sock], lvlip_socks_count := lvlip_socks_count l + 1\<rparr>;
              msg = ipc_msg IPC_SOCKET pid @ le_int 4 domain @ le_int 4 type @ le_int 4 protocol in
          lbind (transmit_lvlip xchg junk fd msg l) (\<lambda>(sockfd, l).
            if sockfd = -1 then Done (-1, l\<lparr>lvlip_socks := old @ [sock\<lparr>ls_freed := True\<rparr>]\<rparr>)
            else Done (sockfd, l\<lparr>lvlip_socks := old @ [sock\<lparr>ls_fd := sockfd\<rparr>]\<rparr>)))"

definition free_socket :: "int \<Rightarrow> 's lib \<Rightarrow> 's lib" where
  "free_socket fd l = l\<lparr>lib_closed := fd # lib_closed l\<rparr>"

definition lib_close :: "'s exchange \<Rightarrow> (nat \<Rightarrow> u8) \<Rightarrow> int \<Rightarrow> int \<Rightarrow> 's lib \<Rightarrow> (int \<times> 's lib) lres" where
  "lib_close xchg junk pid fd l =
     with_sock fd l (\<lambda>sock.
       lbind (transmit_lvlip xchg junk (lvlfd sock) (ipc_msg IPC_CLOSE pid @ le_int 4 fd) l) (\<lambda>(rc, l).
         Done (rc, free_socket (lvlfd sock) l)))"

text \<open>\<open>addr\<close>: the bytes the application's pointer leads to, of which \<open>struct sockaddr\<close> takes sixteen.\<close>

definition lib_connect :: "'s exchange \<Rightarrow> (nat \<Rightarrow> u8) \<Rightarrow> int \<Rightarrow> int \<Rightarrow> bytes \<Rightarrow> int \<Rightarrow> 's lib \<Rightarrow> (int \<times> 's lib) lres" where
  "lib_connect xchg junk pid sockfd addr addrlen l =
     with_sock sockfd l (\<lambda>sock.
       if length addr < 16 then Undef
       else transmit_lvlip xchg junk (lvlfd sock)
              (ipc_msg IPC_CONNECT pid @ le_int 4 sockfd @ take 16 addr @ le_int 4 addrlen) l)"

definition lib_write :: "'s exchange \<Rightarrow> (nat \<Rightarrow> u8) \<Rightarrow> int \<Rightarrow> int \<Rightarrow> bytes \<Rightarrow> 's lib \<Rightarrow> (int \<times> 's lib) lres" where
  "lib_write xchg junk pid sockfd buf l =
     with_sock sockfd l (\<lambda>sock.
       if \<not> vla_ok (18 + length buf) then Undef
       else transmit_lvlip xchg junk (lvlfd sock)
              (ipc_msg IPC_WRITE pid @ le_int 4 sockfd @ le_int 8 (int (length buf)) @ buf) l)"

text \<open>An answer read into a zeroed array of \<open>rlen\<close> bytes.\<close>

definition answer :: "nat \<Rightarrow> bytes option \<Rightarrow> bytes" where
  "answer rlen r = (case r of None \<Rightarrow> replicate rlen 0 | Some r \<Rightarrow> buf_write (replicate rlen 0) 0 (take rlen r))"

text \<open>\<open>read\<close>: the return value and the application's buffer, when it was written.\<close>

definition lib_read :: "'s exchange \<Rightarrow> int \<Rightarrow> int \<Rightarrow> nat \<Rightarrow> 's lib \<Rightarrow> (int \<times> bytes option \<times> 's lib) lres" where
  "lib_read xchg pid sockfd len l =
     with_sock sockfd l (\<lambda>sock.
       let rlen = 26 + len in
       if \<not> vla_ok rlen then Undef
       else lbind (of_chan (xchg (lvlfd sock) (ipc_msg IPC_READ pid @ le_int 4 sockfd @ le_int 8 (int len)) rlen (chan l))) (\<lambda>(r, s).
         let rbuf = answer rlen r; l = l\<lparr>chan := s\<rparr> in
         if msg_type rbuf \<noteq> IPC_READ \<or> msg_pid rbuf \<noteq> pid then Done (-1, None, l)
         else if get_s 4 rbuf 6 < 0 then Done (get_s 4 rbuf 6, None, l\<lparr>errno := get_s 4 rbuf 10\<rparr>)
         else let n = nat (get_u 8 rbuf 18) in
           if len < n then Done (-1, None, l)
           else Done (int n, Some (take n (drop 26 rbuf) @ replicate (len - n) 0), l)))"

definition lib_sendto :: "'s exchange \<Rightarrow> (nat \<Rightarrow> u8) \<Rightarrow> int \<Rightarrow> int \<Rightarrow> bytes \<Rightarrow> 's lib \<Rightarrow> (int \<times> 's lib) lres" where
  "lib_sendto xchg junk pid fd buf l = with_sock fd l (\<lambda>_. lib_write xchg junk pid fd buf l)"

definition lib_send :: "'s exchange \<Rightarrow> (nat \<Rightarrow> u8) \<Rightarrow> int \<Rightarrow> int \<Rightarrow> bytes \<Rightarrow> 's lib \<Rightarrow> (int \<times> 's lib) lres" where
  "lib_send xchg junk pid fd buf l = lib_sendto xchg junk pid fd buf l"

definition lib_recvfrom :: "'s exchange \<Rightarrow> int \<Rightarrow> int \<Rightarrow> nat \<Rightarrow> 's lib \<Rightarrow> (int \<times> bytes option \<times> 's lib) lres" where
  "lib_recvfrom xchg pid fd len l = with_sock fd l (\<lambda>_. lib_read xchg pid fd len l)"

definition lib_recv :: "'s exchange \<Rightarrow> int \<Rightarrow> int \<Rightarrow> nat \<Rightarrow> 's lib \<Rightarrow> (int \<times> bytes option \<times> 's lib) lres" where
  "lib_recv xchg pid fd len l = lib_recvfrom xchg pid fd len l"

section \<open>Poll\<close>

text \<open>The first loop: the positions of the stack's and of the kernel's descriptors and the Unix socket of
  the last stack socket.\<close>

fun poll_split :: "nat \<Rightarrow> pollfd list \<Rightarrow> lvlip_sock list \<Rightarrow> (nat list \<times> nat list \<times> int) cres" where
  "poll_split i [] socks = Ok ([], [], 0)"
| "poll_split i (p # ps) socks =
     cbind (lvlip_get_sock (pfd_fd p) socks) (\<lambda>s.
     cbind (poll_split (Suc i) ps socks) (\<lambda>(lvl, kern, fd).
       case s of
         Some sock \<Rightarrow> Ok (i # lvl, kern, if lvl = [] then lvlfd sock else fd)
       | None \<Rightarrow> Ok (lvl, i # kern, fd)))"

definition store_polled :: "nat list \<Rightarrow> bytes \<Rightarrow> pollfd list \<Rightarrow> pollfd list" where
  "store_polled lvl rbuf fds =
     fold (\<lambda>(k, i) fds. let p = get_pollfd rbuf (14 + 8 * k) in
       fds[i := (fds ! i)\<lparr>pfd_events := pfd_events p, pfd_revents := pfd_revents p\<rparr>]) (enumerate 0 lvl) fds"

text \<open>One round: the kernel's \<open>poll\<close> gets as many consecutive entries as there are kernel descriptors,
  from the first of them on; \<open>kpoll i\<close> is its \<open>i\<close>-th call.\<close>

fun poll_rounds ::
  "nat \<Rightarrow> nat \<Rightarrow> 's exchange \<Rightarrow> (nat \<Rightarrow> pollfd list \<Rightarrow> int \<Rightarrow> int \<times> pollfd list) \<Rightarrow> int \<Rightarrow> nat list \<Rightarrow> nat list \<Rightarrow> int \<Rightarrow> int \<Rightarrow> bool \<Rightarrow>
   pollfd list \<Rightarrow> 's lib \<Rightarrow> (int \<times> pollfd list \<times> 's lib) lres" where
  "poll_rounds 0 i xchg kpoll pid lvl kern fd timeout blocking fds l = Waiting"
| "poll_rounds (Suc fuel) i xchg kpoll pid lvl kern fd timeout blocking fds l =
     (let (events, fds) =
        (if kern \<noteq> [] then
           let (e, ps) = kpoll i (take (length kern) (drop (hd kern) fds)) timeout
           in (e, take (hd kern) fds @ ps @ drop (hd kern + length ps) fds)
         else (0, fds)) in
      if kern \<noteq> [] \<and> events = -1 then Done (-1, fds, l\<lparr>errno := EAGAIN\<rparr>)
      else if lvl = [] then Done (events, fds, l)
      else
        let msg = ipc_msg IPC_POLL pid @ le_int 8 (int (length lvl)) @ le_int 4 timeout @ concat (map (\<lambda>i. ipc_pollfd (fds ! i)) lvl);
            rlen = 14 + 8 * length lvl in
        lbind (of_chan (xchg fd msg rlen (chan l))) (\<lambda>(r, s).
          let rbuf = answer rlen r; l = l\<lparr>chan := s\<rparr> in
          if r = None then Done (-1, fds, l\<lparr>errno := EAGAIN\<rparr>)
          else if msg_type rbuf \<noteq> IPC_POLL \<or> msg_pid rbuf \<noteq> pid then Done (-1, fds, l\<lparr>errno := EAGAIN\<rparr>)
          else let rc = get_s 4 rbuf 6 in
            if rc < 0 then Done (rc, fds, l\<lparr>errno := get_s 4 rbuf 10\<rparr>)
            else let fds = store_polled lvl rbuf fds; result = events + rc in
              if result > 0 \<or> \<not> blocking then Done (result, fds, l)
              else poll_rounds fuel (Suc i) xchg kpoll pid lvl kern fd timeout blocking fds l))"

definition lib_poll ::
  "nat \<Rightarrow> 's exchange \<Rightarrow> (nat \<Rightarrow> pollfd list \<Rightarrow> int \<Rightarrow> int \<times> pollfd list) \<Rightarrow> int \<Rightarrow> pollfd list \<Rightarrow> int \<Rightarrow> 's lib \<Rightarrow>
   (int \<times> pollfd list \<times> 's lib) lres" where
  "lib_poll fuel xchg kpoll pid fds timeout l =
     (case poll_split 0 fds (lvlip_socks l) of
        Ok (lvl, kern, fd) \<Rightarrow>
          let blocking = (kern \<noteq> [] \<and> lvl \<noteq> [] \<and> timeout = -1) in
          poll_rounds fuel 0 xchg kpoll pid lvl kern fd (if blocking then 100 else timeout) blocking fds l
      | _ \<Rightarrow> Undef)"

section \<open>Options, names and flags\<close>

definition lib_setsockopt :: "int \<Rightarrow> 's lib \<Rightarrow> (int \<times> 's lib) lres" where
  "lib_setsockopt fd l = with_sock fd l (\<lambda>_. Done (0, l))"

text \<open>\<open>getsockopt\<close>: \<open>opts\<close> has no room behind its sixteen bytes for the option value, and with a length of
  0 the answer has none either.\<close>

definition lib_getsockopt :: "'s exchange \<Rightarrow> int \<Rightarrow> int \<Rightarrow> int \<Rightarrow> int \<Rightarrow> nat \<Rightarrow> 's lib \<Rightarrow> (int \<times> (int \<times> int) option \<times> 's lib) lres" where
  "lib_getsockopt xchg pid fd level optname optlen l =
     with_sock fd l (\<lambda>sock.
       if optlen > 0 then Undef
       else
         let msg = ipc_msg IPC_GETSOCKOPT pid @ le_int 4 fd @ le_int 4 level @ le_int 4 optname @ le_int 4 (int optlen);
             rlen = 30 + optlen in
         lbind (of_chan (xchg (lvlfd sock) msg rlen (chan l))) (\<lambda>(r, s).
           let rbuf = answer rlen r; l = l\<lparr>chan := s\<rparr> in
           if msg_type rbuf \<noteq> IPC_GETSOCKOPT \<or> msg_pid rbuf \<noteq> pid then Done (-1, None, l)
           else if get_s 4 rbuf 6 \<noteq> 0 then Done (get_s 4 rbuf 6, None, l\<lparr>errno := get_s 4 rbuf 10\<rparr>)
           else if rlen < 34 then Undef
           else Done (0, Some (- get_s 4 rbuf 30, get_u 4 rbuf 26), l)))"

text \<open>\<open>cap\<close>: the room behind the application's \<open>address\<close>.\<close>

definition lib_getname :: "int \<Rightarrow> 's exchange \<Rightarrow> (nat \<Rightarrow> u8) \<Rightarrow> int \<Rightarrow> int \<Rightarrow> nat \<Rightarrow> 's lib \<Rightarrow> (int \<times> (int \<times> bytes) option \<times> 's lib) lres" where
  "lib_getname type xchg junk pid socket cap l =
     with_sock socket l (\<lambda>sock.
       lbind (of_chan (xchg (lvlfd sock) (ipc_msg type pid @ le_int 4 socket @ map junk [0..<132]) 150 (chan l))) (\<lambda>(r, s).
         let rbuf = answer 150 r; l = l\<lparr>chan := s\<rparr> in
         if msg_type rbuf \<noteq> type \<or> msg_pid rbuf \<noteq> pid then Done (-1, None, l)
         else if get_s 4 rbuf 6 \<noteq> 0 then Done (get_s 4 rbuf 6, None, l\<lparr>errno := get_s 4 rbuf 10\<rparr>)
         else let n = nat (get_u 4 rbuf 18) in
           if n > 128 \<or> n > cap then Undef
           else Done (0, Some (int n, take n (drop 22 rbuf)), l)))"

definition lib_getpeername :: "'s exchange \<Rightarrow> (nat \<Rightarrow> u8) \<Rightarrow> int \<Rightarrow> int \<Rightarrow> nat \<Rightarrow> 's lib \<Rightarrow> (int \<times> (int \<times> bytes) option \<times> 's lib) lres" where
  "lib_getpeername = lib_getname IPC_GETPEERNAME"

definition lib_getsockname :: "'s exchange \<Rightarrow> (nat \<Rightarrow> u8) \<Rightarrow> int \<Rightarrow> int \<Rightarrow> nat \<Rightarrow> 's lib \<Rightarrow> (int \<times> (int \<times> bytes) option \<times> 's lib) lres" where
  "lib_getsockname = lib_getname IPC_GETSOCKNAME"

definition lib_fcntl :: "'s exchange \<Rightarrow> (nat \<Rightarrow> u8) \<Rightarrow> int \<Rightarrow> int \<Rightarrow> int \<Rightarrow> int \<Rightarrow> 's lib \<Rightarrow> (int \<times> 's lib) lres" where
  "lib_fcntl xchg junk pid fildes cmd arg l =
     with_sock fildes l (\<lambda>sock.
       let head = ipc_msg IPC_FCNTL pid @ le_int 4 fildes @ le_int 4 cmd in
       if cmd = F_GETFL then transmit_lvlip xchg junk (lvlfd sock) (head @ map junk [0..<36]) l
       else if cmd = F_SETFL then transmit_lvlip xchg junk (lvlfd sock) (head @ le_int 4 arg @ map junk [4..<36]) l
       else if cmd = F_GETFD \<or> cmd = F_SETFD then Real_On (lvlfd sock)
       else Done (-1, l\<lparr>errno := EINVAL\<rparr>))"

definition lib_poll_chk ::
  "nat \<Rightarrow> 's exchange \<Rightarrow> (nat \<Rightarrow> pollfd list \<Rightarrow> int \<Rightarrow> int \<times> pollfd list) \<Rightarrow> int \<Rightarrow> pollfd list \<Rightarrow> int \<Rightarrow> 's lib \<Rightarrow>
   (int \<times> pollfd list \<times> 's lib) lres" where
  "lib_poll_chk fuel xchg kpoll pid fds timeout l = lib_poll fuel xchg kpoll pid fds timeout l"

definition lib_select :: "'s lib \<Rightarrow> (int \<times> 's lib) lres" where
  "lib_select l = Real"

definition lib_ppoll :: "'s lib \<Rightarrow> (int \<times> 's lib) lres" where
  "lib_ppoll l = Done (-1, l)"

end
