(* ===== verification/Ipc_Client.thy ===== *)
theory Ipc_Client
  imports Liblevelip
begin

text \<open>
  The library and the server together: a request that the library encodes is decoded to the same
  call of the stack, also when it is longer than the server's receive buffer, and the answer gives
  the application the return code, \<open>errno\<close> and data of that call.
\<close>

section \<open>The server at the other end\<close>

text \<open>The Unix sockets with the server's threads behind them: \<open>bufs\<close> are the receive buffers of the
  threads.  The thread takes the first 8192 bytes of a message, a write reads the rest, and the
  application reads the answer; it reads nothing (end of file) when the thread closed the
  connection without one.\<close>

definition ipc_exchange :: "ipc_world \<Rightarrow> ((int \<Rightarrow> bytes) \<times> sock_table) exchange" where
  "ipc_exchange w fd msg n = (\<lambda>(bufs, tab).
     case demux_ipc_socket_call w (buf_write (bufs fd) 0 (take IPC_BUFLEN msg)) [Some (drop IPC_BUFLEN msg)] tab of
       None \<Rightarrow> None
     | Some UB \<Rightarrow> Some UB
     | Some (Fail c) \<Rightarrow> Some (Fail c)
     | Some (Ok (rc, out, buf, rs, tab)) \<Rightarrow>
         if out = [] \<and> rc \<noteq> -1 then None else Some (Ok (Some (take n (concat out)), bufs(fd := buf), tab)))"

datatype app_call = A_connect int bytes int | A_write int bytes | A_close int | A_fcntl int int int

text \<open>The call of the stack itself.\<close>

fun direct :: "ipc_world \<Rightarrow> int \<Rightarrow> app_call \<Rightarrow> sock_table \<Rightarrow> (int \<times> sock_table) cres option" where
  "direct w pid (A_connect fd addr alen) tab =
     lvl_connect (w_out w) (w_iss w) (w_fuel w) (w_env w) pid fd (get_sockaddr addr 0) alen tab"
| "direct w pid (A_write fd buf) tab = Some (lvl_write (w_out w) (w_mem w) pid fd buf tab)"
| "direct w pid (A_close fd) tab = Some (lvl_close (w_out w) (w_mem w) pid fd tab)"
| "direct w pid (A_fcntl fd cmd arg) tab = Some (lvl_fcntl pid fd cmd arg tab)"

text \<open>The call of the library.\<close>

fun app_lib :: "'s exchange \<Rightarrow> (nat \<Rightarrow> u8) \<Rightarrow> int \<Rightarrow> app_call \<Rightarrow> 's lib \<Rightarrow> (int \<times> 's lib) lres" where
  "app_lib xchg junk pid (A_connect fd addr alen) l = lib_connect xchg junk pid fd addr alen l"
| "app_lib xchg junk pid (A_write fd buf) l = lib_write xchg junk pid fd buf l"
| "app_lib xchg junk pid (A_close fd) l = lib_close xchg junk pid fd l"
| "app_lib xchg junk pid (A_fcntl fd cmd arg) l = lib_fcntl xchg junk pid fd cmd arg l"

fun call_fd :: "app_call \<Rightarrow> int" where
  "call_fd (A_connect fd addr alen) = fd"
| "call_fd (A_write fd buf) = fd"
| "call_fd (A_close fd) = fd"
| "call_fd (A_fcntl fd cmd arg) = fd"

text \<open>Arguments that are C values of their types.\<close>

fun call_ok :: "app_call \<Rightarrow> bool" where
  "call_ok (A_connect fd addr alen) = (i32 fd \<and> 16 \<le> length addr \<and> i32 alen)"
| "call_ok (A_write fd buf) = (i32 fd \<and> vla_ok (18 + length buf))"
| "call_ok (A_close fd) = i32 fd"
| "call_ok (A_fcntl fd cmd arg) = (i32 fd \<and> (cmd = F_GETFL \<or> cmd = F_SETFL) \<and> i32 arg)"

text \<open>Which request the library sends, and which kind of answer it expects.\<close>

fun request :: "(nat \<Rightarrow> u8) \<Rightarrow> int \<Rightarrow> app_call \<Rightarrow> bytes" where
  "request junk pid (A_connect fd addr alen) = ipc_msg IPC_CONNECT pid @ le_int 4 fd @ take 16 addr @ le_int 4 alen"
| "request junk pid (A_write fd buf) = ipc_msg IPC_WRITE pid @ le_int 4 fd @ le_int 8 (int (length buf)) @ buf"
| "request junk pid (A_close fd) = ipc_msg IPC_CLOSE pid @ le_int 4 fd"
| "request junk pid (A_fcntl fd cmd arg) =
     ipc_msg IPC_FCNTL pid @ le_int 4 fd @ le_int 4 cmd @ (if cmd = F_GETFL then map junk [0..<36] else le_int 4 arg @ map junk [4..<36])"

fun call_type :: "app_call \<Rightarrow> int" where
  "call_type (A_connect fd addr alen) = IPC_CONNECT"
| "call_type (A_write fd buf) = IPC_WRITE"
| "call_type (A_close fd) = IPC_CLOSE"
| "call_type (A_fcntl fd cmd arg) = IPC_FCNTL"

lemma call_type_range [simp]: "0 \<le> call_type c" "call_type c < 65536"
  by (cases c; simp add: ipc_types)+

lemma request_fields [simp]:
  "msg_type (request junk pid c) = call_type c" "i32 pid \<Longrightarrow> msg_pid (request junk pid c) = pid"
  by (cases c; simp add: ipc_types)+

text \<open>The buffer that a message was read into.\<close>

lemma buf_of_message: "length b = IPC_BUFLEN \<Longrightarrow> length msg \<le> IPC_BUFLEN \<Longrightarrow> buf_write b 0 (take IPC_BUFLEN msg) = msg @ drop (length msg) b"
  by (simp add: buf_write_def)

lemma buf_of_long: "length b = IPC_BUFLEN \<Longrightarrow> IPC_BUFLEN \<le> length msg \<Longrightarrow> buf_write b 0 (take IPC_BUFLEN msg) = take IPC_BUFLEN msg"
  by (simp add: buf_write_def)

lemma buf_write_length: "length b = IPC_BUFLEN \<Longrightarrow> length (buf_write b 0 (take IPC_BUFLEN msg)) = IPC_BUFLEN"
  by (simp add: buf_write_def)

lemma get_sockaddr_take: "8 \<le> n \<Longrightarrow> n \<le> length addr \<Longrightarrow> get_sockaddr (take n addr @ rest) 0 = get_sockaddr addr 0"
  by (simp add: get_sockaddr_def get_u_def take_drop)

lemma demux_types:
  "msg_type msg = IPC_SOCKET \<Longrightarrow> demux_ipc_socket_call w msg rs tab = with_reads msg rs (ipc_socket msg tab)"
  "msg_type msg = IPC_CONNECT \<Longrightarrow> demux_ipc_socket_call w msg rs tab = with_reads msg rs (ipc_connect w msg tab)"
  "msg_type msg = IPC_WRITE \<Longrightarrow> demux_ipc_socket_call w msg rs tab = ipc_write w msg rs tab"
  "msg_type msg = IPC_READ \<Longrightarrow> demux_ipc_socket_call w msg rs tab = with_reads msg rs (ipc_read w msg tab)"
  "msg_type msg = IPC_CLOSE \<Longrightarrow> demux_ipc_socket_call w msg rs tab = with_reads msg rs (ipc_close w msg tab)"
  "msg_type msg = IPC_POLL \<Longrightarrow> demux_ipc_socket_call w msg rs tab = with_reads msg rs (ipc_poll w msg tab)"
  "msg_type msg = IPC_FCNTL \<Longrightarrow> demux_ipc_socket_call w msg rs tab = with_reads msg rs (ipc_fcntl msg tab)"
  "msg_type msg = IPC_GETSOCKOPT \<Longrightarrow> demux_ipc_socket_call w msg rs tab = ipc_getsockopt msg rs tab"
  "msg_type msg = IPC_GETPEERNAME \<Longrightarrow> demux_ipc_socket_call w msg rs tab = with_reads msg rs (ipc_getpeername w msg tab)"
  "msg_type msg = IPC_GETSOCKNAME \<Longrightarrow> demux_ipc_socket_call w msg rs tab = with_reads msg rs (ipc_getsockname w msg tab)"
  by (simp_all add: demux_ipc_socket_call_def ipc_types)

text \<open>What the server makes of a request: the call of the stack, and one answer with its return code.\<close>

definition served :: "ipc_world \<Rightarrow> (nat \<Rightarrow> u8) \<Rightarrow> int \<Rightarrow> app_call \<Rightarrow> bytes \<Rightarrow> sock_table \<Rightarrow> bool" where
  "served w junk pid c b tab \<longleftrightarrow>
     (let m = request junk pid c; buf = buf_write b 0 (take IPC_BUFLEN m) in
      \<forall>rc tab' rs. direct w pid c tab = Some (Ok (rc, tab')) \<longrightarrow>
        demux_ipc_socket_call w buf ((if IPC_BUFLEN < length m then [Some (drop IPC_BUFLEN m)] else []) @ rs) tab =
          Some (Ok (0, [ipc_msg (call_type c) pid @ ipc_err rc], buf, rs, tab')))"

lemma connect_served:
  assumes "i32 pid" and "call_ok (A_connect fd addr alen)" and "length b = IPC_BUFLEN"
  shows "served w junk pid (A_connect fd addr alen) b tab"
proof -
  define m where "m = request junk pid (A_connect fd addr alen)"
  have len: "length m \<le> IPC_BUFLEN" using assms(2) by (simp add: m_def IPC_BUFLEN_def)
  note b = buf_of_message [OF assms(3) len]
  have short: "\<not> IPC_BUFLEN < length m" using len by simp
  have f: "get_s 4 (m @ r) 6 = fd" "get_sockaddr (m @ r) 10 = get_sockaddr addr 0" "get_s 4 (m @ r) 26 = alen"
    "msg_type (m @ r) = IPC_CONNECT" "msg_pid (m @ r) = pid" for r
    using assms(1,2) by (simp_all add: m_def get_sockaddr_skip get_sockaddr_take field_simps_ipc ipc_types)
  show ?thesis unfolding served_def m_def [symmetric] Let_def b
    by (simp add: short demux_types(2) f ipc_connect_def with_reads_def ipc_write_rc_def)
qed

lemma close_served:
  assumes "i32 pid" and "call_ok (A_close fd)" and "length b = IPC_BUFLEN"
  shows "served w junk pid (A_close fd) b tab"
proof -
  define m where "m = request junk pid (A_close fd)"
  have len: "length m \<le> IPC_BUFLEN" using assms(2) by (simp add: m_def IPC_BUFLEN_def)
  note b = buf_of_message [OF assms(3) len]
  have short: "\<not> IPC_BUFLEN < length m" using len by simp
  have f: "get_s 4 (m @ r) 6 = fd" "msg_type (m @ r) = IPC_CLOSE" "msg_pid (m @ r) = pid" for r
    using assms(1,2) by (simp_all add: m_def field_simps_ipc ipc_types)
  show ?thesis unfolding served_def m_def [symmetric] Let_def b
    by (simp add: short demux_types(5) f ipc_close_def with_reads_def ipc_write_rc_def)
qed

lemma fcntl_served:
  assumes "i32 pid" and "call_ok (A_fcntl fd cmd arg)" and "length b = IPC_BUFLEN"
  shows "served w junk pid (A_fcntl fd cmd arg) b tab"
proof -
  define m where "m = request junk pid (A_fcntl fd cmd arg)"
  have len: "length m \<le> IPC_BUFLEN" using assms(2) by (auto simp: m_def IPC_BUFLEN_def)
  note b = buf_of_message [OF assms(3) len]
  have short: "\<not> IPC_BUFLEN < length m" using len by simp
  have c: "i32 cmd" "cmd = F_GETFL \<or> cmd = F_SETFL" using assms(2) by (auto simp: i32_def F_GETFL_def F_SETFL_def)
  have f: "get_s 4 (m @ r) 6 = fd" "get_s 4 (m @ r) 10 = cmd" "msg_type (m @ r) = IPC_FCNTL" "msg_pid (m @ r) = pid" for r
    using assms(1,2) c by (simp_all add: m_def field_simps_ipc ipc_types)
  have a: "get_s 4 (m @ r) 14 = arg" if "cmd = F_SETFL" for r
    using assms(2) that by (simp add: m_def field_simps_ipc F_GETFL_def F_SETFL_def i32_def)
  have g: "lvl_fcntl pid fd F_GETFL arg tab = lvl_fcntl pid fd F_GETFL 0 tab" by (simp add: lvl_fcntl_def Let_def split: option.splits)
  show ?thesis using c(2) unfolding served_def m_def [symmetric] Let_def b
    by (elim disjE) (simp_all add: short demux_types(7) f a g [unfolded F_GETFL_def] ipc_fcntl_def with_reads_def ipc_write_rc_def F_GETFL_def F_SETFL_def)
qed

lemma write_served:
  assumes "i32 pid" and "call_ok (A_write fd buf)" and "length b = IPC_BUFLEN"
  shows "served w junk pid (A_write fd buf) b tab"
proof -
  define m where "m = request junk pid (A_write fd buf)"
  have v: "vla_ok (length buf)" "int (length buf) < 2 ^ 64" using assms(2) by (simp_all add: vla_ok_def)
  have m: "m = ipc_msg IPC_WRITE pid @ le_int 4 fd @ le_int 8 (int (length buf)) @ buf" "length m = 18 + length buf" by (simp_all add: m_def)
  have hd: "get_s 4 (m @ r) 6 = fd" "get_u 8 (m @ r) 10 = int (length buf)" "msg_type (m @ r) = IPC_WRITE" "msg_pid (m @ r) = pid" for r
    using assms(1,2) v by (simp_all add: m field_simps_ipc ipc_types)
  show ?thesis
  proof (cases "length m \<le> IPC_BUFLEN")
    case True
    note b = buf_of_message [OF assms(3) True]
    have "\<not> length buf > IPC_BUFLEN - 12 - 6" "drop 18 m = buf" "\<not> IPC_BUFLEN < length m" using True m by (simp_all add: IPC_BUFLEN_def)
    then show ?thesis using v m(2) unfolding served_def m_def [symmetric] Let_def b
      by (simp add: demux_types(3) hd ipc_write_def Let_def ipc_write_rc_def)
  next
    case False
    then have long: "IPC_BUFLEN \<le> length m" "length buf > IPC_BUFLEN - 12 - 6" "IPC_BUFLEN < length m" using m by (simp_all add: IPC_BUFLEN_def)
    note b = buf_of_long [OF assms(3) long(1)]
    have t: "take IPC_BUFLEN m = ipc_msg IPC_WRITE pid @ le_int 4 fd @ le_int 8 (int (length buf)) @ take (IPC_BUFLEN - 18) buf"
      by (simp add: m(1) IPC_BUFLEN_def)
    have f: "get_s 4 (take IPC_BUFLEN m) 6 = fd" "get_u 8 (take IPC_BUFLEN m) 10 = int (length buf)"
      "msg_type (take IPC_BUFLEN m) = IPC_WRITE" "msg_pid (take IPC_BUFLEN m) = pid" "drop 18 (take IPC_BUFLEN m) = take (IPC_BUFLEN - 18) buf"
      using assms(1,2) v unfolding t by (simp_all add: field_simps_ipc ipc_types)
    have d: "drop IPC_BUFLEN m = drop (IPC_BUFLEN - 18) buf" by (simp add: m(1) IPC_BUFLEN_def)
    have j: "take (IPC_BUFLEN - 12 - 6) (take (IPC_BUFLEN - 18) buf) @ drop (IPC_BUFLEN - 18) buf = buf"
      by (simp add: IPC_BUFLEN_def)
    show ?thesis using v long(2,3) unfolding served_def m_def [symmetric] Let_def b d
      by (simp add: demux_types(3) f ipc_write_def Let_def ipc_write_rc_def j del: take_append drop_append take_take length_take diff_diff_left)
  qed
qed

lemma calls_served: "i32 pid \<Longrightarrow> call_ok c \<Longrightarrow> length b = IPC_BUFLEN \<Longrightarrow> served w junk pid c b tab"
  by (cases c) (simp_all only: connect_served write_served close_served fcntl_served)

text \<open>One request answered with its type, the process and a return code.\<close>

lemma transmit_answered:
  assumes d: "demux_ipc_socket_call w (buf_write (bufs fd) 0 (take IPC_BUFLEN m)) [Some (drop IPC_BUFLEN m)] tab =
      Some (Ok (0, [ipc_msg t pid @ ipc_err rc], buf, rs, tab'))"
    and t: "0 \<le> t" "t < 65536" "msg_type m = t" and p: "i32 pid" "msg_pid m = pid" and rc: "- (2 ^ 31) < rc" "rc < 2 ^ 31" and "chan l = (bufs, tab)"
  shows "transmit_lvlip (ipc_exchange w) junk fd m l =
    Done (if rc < 0 then -1 else rc, l\<lparr>chan := (bufs(fd := buf), tab'), errno := if rc < 0 then - rc else errno l\<rparr>)"
proof -
  have i: "i32 rc" using rc by (simp add: i32_def)
  let ?a = "ipc_msg t pid @ ipc_err rc"
  have la: "length ?a = 14" using i by simp
  have x: "ipc_exchange w fd m RCBUF_LEN (bufs, tab) = Some (Ok (Some ?a, bufs(fd := buf), tab'))"
    using d la i by (simp add: ipc_exchange_def RCBUF_LEN_def)
  define j where "j = drop 14 (map junk [0..<8 * RCBUF_LEN])"
  have b: "buf_write (map junk [0..<8 * RCBUF_LEN]) 0 (take RCBUF_LEN ?a) = ?a @ j"
    using la i by (simp add: buf_write_def j_def RCBUF_LEN_def del: upt_Suc)
  have f: "msg_type (?a @ j) = msg_type m" "msg_pid (?a @ j) = msg_pid m" "get_s 4 (?a @ j) 6 = (if rc < 0 then -1 else rc)"
    "get_s 4 (?a @ j) 10 = (if rc < 0 then - rc else 0)"
    using t p i rc by simp_all
  show ?thesis
    unfolding transmit_lvlip_def assms(9) x of_chan.simps lbind.simps prod.case Let_def option.case b f
    by auto
qed

lemma transmit_served:
  assumes "served w junk pid c (bufs fd) tab" and "direct w pid c tab = Some (Ok (rc, tab'))" and rc: "- (2 ^ 31) < rc" "rc < 2 ^ 31"
    and "chan l = (bufs, tab)" and "i32 pid"
  shows "transmit_lvlip (ipc_exchange w) junk fd (request junk pid c) l =
    Done (if rc < 0 then -1 else rc,
      l\<lparr>chan := (bufs(fd := buf_write (bufs fd) 0 (take IPC_BUFLEN (request junk pid c))), tab'), errno := if rc < 0 then - rc else errno l\<rparr>)"
proof -
  define m where "m = request junk pid c"
  let ?buf = "buf_write (bufs fd) 0 (take IPC_BUFLEN m)" and ?a = "ipc_msg (call_type c) pid @ ipc_err rc"
  have d: "demux_ipc_socket_call w ?buf ((if IPC_BUFLEN < length m then [Some (drop IPC_BUFLEN m)] else []) @ rs) tab =
      Some (Ok (0, [?a], ?buf, rs, tab'))" for rs
    using assms(1,2) unfolding served_def m_def Let_def by blast
  have "\<exists>rs. demux_ipc_socket_call w ?buf [Some (drop IPC_BUFLEN m)] tab = Some (Ok (0, [?a], ?buf, rs, tab'))"
    using d [of "[]"] d [of "[Some (drop IPC_BUFLEN m)]"] by (cases "IPC_BUFLEN < length m") auto
  then obtain rs where "demux_ipc_socket_call w ?buf [Some (drop IPC_BUFLEN m)] tab = Some (Ok (0, [?a], ?buf, rs, tab'))" by blast
  from transmit_answered [OF this _ _ _ assms(6) _ rc assms(5)] show ?thesis using assms(6) by (simp add: m_def)
qed

text \<open>All receive buffers of the server have their size.\<close>

definition bufs_ok :: "((int \<Rightarrow> bytes) \<times> sock_table) lib \<Rightarrow> bool" where
  "bufs_ok l \<longleftrightarrow> (\<forall>fd. length (fst (chan l) fd) = IPC_BUFLEN)"

lemma app_lib_request:
  assumes "lvlip_get_sock (call_fd c) (lvlip_socks l) = Ok (Some sock)" and "call_ok c"
  shows "app_lib xchg junk pid c l =
    lbind (transmit_lvlip xchg junk (lvlfd sock) (request junk pid c) l)
      (\<lambda>(rc, l). Done (rc, case c of A_close fd \<Rightarrow> free_socket (lvlfd sock) l | _ \<Rightarrow> l))"
proof -
  have d: "lbind r Done = r" for r :: "(int \<times> 'a lib) lres" by (cases r) auto
  show ?thesis using assms
    by (cases c) (auto simp: lib_connect_def lib_write_def lib_close_def lib_fcntl_def with_sock_def d Let_def F_GETFL_def F_SETFL_def)
qed

lemma library_call:
  assumes "lvlip_get_sock (call_fd c) (lvlip_socks l) = Ok (Some sock)" and "call_ok c" and "i32 pid" and "bufs_ok l"
    and "direct w pid c (snd (chan l)) = Some (Ok (rc, tab'))" and "- (2 ^ 31) < rc" and "rc < 2 ^ 31"
  shows "\<exists>l'. app_lib (ipc_exchange w) junk pid c l = Done (if rc < 0 then -1 else rc, l') \<and> snd (chan l') = tab' \<and>
    errno l' = (if rc < 0 then - rc else errno l) \<and> lvlip_socks l' = lvlip_socks l \<and> bufs_ok l'"
proof -
  obtain bufs tab where ch: "chan l = (bufs, tab)" by (cases "chan l") auto
  have len: "length (bufs (lvlfd sock)) = IPC_BUFLEN" using assms(4) ch by (simp add: bufs_ok_def)
  note s = calls_served [OF assms(3,2) len]
  have d: "direct w pid c tab = Some (Ok (rc, tab'))" using assms(5) ch by simp
  note t = transmit_served [OF s d assms(6,7) ch assms(3)]
  define l' where "l' = l\<lparr>chan := (bufs(lvlfd sock := buf_write (bufs (lvlfd sock)) 0 (take IPC_BUFLEN (request junk pid c))), tab'),
    errno := if rc < 0 then - rc else errno l\<rparr>"
  have l': "bufs_ok l'" "snd (chan l') = tab'" "errno l' = (if rc < 0 then - rc else errno l)" "lvlip_socks l' = lvlip_socks l"
    unfolding l'_def using assms(4) ch buf_write_length [OF len] by (auto simp: bufs_ok_def simp del: request.simps)
  have "app_lib (ipc_exchange w) junk pid c l =
      Done (if rc < 0 then -1 else rc, case c of A_close fd \<Rightarrow> free_socket (lvlfd sock) l' | _ \<Rightarrow> l')"
    unfolding app_lib_request [OF assms(1,2)] t lbind.simps prod.case l'_def ..
  moreover have "bufs_ok (free_socket fd l')" for fd using l'(1) by (simp add: bufs_ok_def free_socket_def)
  ultimately show ?thesis using l' by (cases c) (auto simp: free_socket_def)
qed

section \<open>Programs of calls\<close>

fun direct_run :: "int \<Rightarrow> (ipc_world \<times> app_call) list \<Rightarrow> sock_table \<Rightarrow> (int list \<times> sock_table) cres option" where
  "direct_run pid [] tab = Some (Ok ([], tab))"
| "direct_run pid ((w, c) # cs) tab =
     (case direct w pid c tab of
        Some (Ok (rc, tab)) \<Rightarrow> map_option (\<lambda>r. cbind r (\<lambda>(rcs, tab). Ok (rc # rcs, tab))) (direct_run pid cs tab)
      | Some (Fail e) \<Rightarrow> Some (Fail e)
      | Some UB \<Rightarrow> Some UB
      | None \<Rightarrow> None)"

text \<open>The return values with what \<open>errno\<close> is after each.\<close>

fun lib_run ::
  "(ipc_world \<Rightarrow> 's exchange) \<Rightarrow> (nat \<Rightarrow> u8) \<Rightarrow> int \<Rightarrow> (ipc_world \<times> app_call) list \<Rightarrow> 's lib \<Rightarrow> ((int \<times> int) list \<times> 's lib) lres" where
  "lib_run xchg junk pid [] l = Done ([], l)"
| "lib_run xchg junk pid ((w, c) # cs) l =
     lbind (app_lib (xchg w) junk pid c l) (\<lambda>(rc, l).
     lbind (lib_run xchg junk pid cs l) (\<lambda>(rcs, l'). Done ((rc, errno l) # rcs, l')))"

fun seen_as :: "int \<Rightarrow> int list \<Rightarrow> (int \<times> int) list" where
  "seen_as e [] = []"
| "seen_as e (rc # rcs) = (let e' = (if rc < 0 then - rc else e) in (if rc < 0 then -1 else rc, e') # seen_as e' rcs)"

lemma library_run:
  assumes "direct_run pid cs (snd (chan l)) = Some (Ok (rcs, tab'))" and "i32 pid" and "bufs_ok l"
    and "\<forall>(w, c)\<in>set cs. call_ok c \<and> (\<exists>sock. lvlip_get_sock (call_fd c) (lvlip_socks l) = Ok (Some sock))"
    and "\<forall>rc\<in>set rcs. - (2 ^ 31) < rc \<and> rc < 2 ^ 31"
  shows "\<exists>l'. lib_run ipc_exchange junk pid cs l = Done (seen_as (errno l) rcs, l') \<and> snd (chan l') = tab' \<and>
    lvlip_socks l' = lvlip_socks l \<and> bufs_ok l'"
  using assms
proof (induction cs arbitrary: l rcs)
  case (Cons wc cs)
  obtain w c where wc: "wc = (w, c)" by (cases wc)
  obtain rc tab1 where d: "direct w pid c (snd (chan l)) = Some (Ok (rc, tab1))"
    using Cons(2) by (auto simp: wc split: option.splits cres.splits)
  then obtain rcs' where r: "direct_run pid cs tab1 = Some (Ok (rcs', tab'))" "rcs = rc # rcs'"
    using Cons(2) by (auto simp: wc cbind_Ok_iff)
  obtain sock where s: "lvlip_get_sock (call_fd c) (lvlip_socks l) = Ok (Some sock)" "call_ok c" using Cons(5) wc by auto
  have b: "- (2 ^ 31) < rc" "rc < 2 ^ 31" using Cons(6) r(2) by simp_all
  obtain l1 where l1: "app_lib (ipc_exchange w) junk pid c l = Done (if rc < 0 then -1 else rc, l1)" "snd (chan l1) = tab1"
    "errno l1 = (if rc < 0 then - rc else errno l)" "lvlip_socks l1 = lvlip_socks l" "bufs_ok l1"
    using library_call [OF s Cons(3,4) d b] by blast
  have "\<exists>l'. lib_run ipc_exchange junk pid cs l1 = Done (seen_as (errno l1) rcs', l') \<and> snd (chan l') = tab' \<and>
      lvlip_socks l' = lvlip_socks l1 \<and> bufs_ok l'"
    by (rule Cons(1)) (use r Cons(3,5,6) l1 in \<open>auto\<close>)
  then show ?case using l1 r(2) unfolding wc lib_run.simps l1(1) lbind.simps prod.case by (auto simp: Let_def)
qed simp

section \<open>Reads, names and polls through the server\<close>

lemma read_served:
  assumes "i32 pid" and "i32 fd" and "vla_ok len" and "length b = IPC_BUFLEN"
    and "lvl_read (w_fuel w) (w_env w) pid fd len tab = Some (Ok (rc, d, tab'))"
  shows "demux_ipc_socket_call w (buf_write b 0 (take IPC_BUFLEN (ipc_msg IPC_READ pid @ le_int 4 fd @ le_int 8 (int len)))) rs tab =
    Some (Ok (0, [ipc_msg IPC_READ pid @ ipc_err rc @ le_int 4 fd @ le_int 8 rc @ take (nat rc) (d @ drop (length d) (replicate len 0))],
      buf_write b 0 (take IPC_BUFLEN (ipc_msg IPC_READ pid @ le_int 4 fd @ le_int 8 (int len))), rs, tab'))"
proof -
  define m where "m = ipc_msg IPC_READ pid @ le_int 4 fd @ le_int 8 (int len)"
  have "length m \<le> IPC_BUFLEN" by (simp add: m_def IPC_BUFLEN_def)
  note b = buf_of_message [OF assms(4) this]
  have l: "int len < 2 ^ 64" using assms(3) by (simp add: vla_ok_def)
  have f: "get_s 4 (m @ r) 6 = fd" "get_u 8 (m @ r) 10 = int len" "msg_type (m @ r) = IPC_READ" "msg_pid (m @ r) = pid" for r
    using assms(1,2) l by (simp_all add: m_def field_simps_ipc ipc_types)
  show ?thesis unfolding m_def [symmetric] b
    using assms(3,5) by (simp add: demux_types(4) f ipc_read_def with_reads_def Let_def)
qed

lemma library_read:
  assumes "lvlip_get_sock fd (lvlip_socks l) = Ok (Some sock)" and "i32 pid" and "i32 fd" and "vla_ok (26 + len)" and "bufs_ok l"
    and "lvl_read (w_fuel w) (w_env w) pid fd len (snd (chan l)) = Some (Ok (rc, d, tab'))"
    and "rc = int (length d)" and "length d \<le> len"
  shows "\<exists>l'. lib_read (ipc_exchange w) pid fd len l = Done (rc, Some (d @ replicate (len - length d) 0), l') \<and> snd (chan l') = tab' \<and>
    errno l' = errno l \<and> lvlip_socks l' = lvlip_socks l \<and> bufs_ok l'"
proof -
  obtain bufs tab where ch: "chan l = (bufs, tab)" by (cases "chan l") auto
  have len: "length (bufs (lvlfd sock)) = IPC_BUFLEN" using assms(5) ch by (simp add: bufs_ok_def)
  define m where "m = ipc_msg IPC_READ pid @ le_int 4 fd @ le_int 8 (int len)"
  define buf where "buf = buf_write (bufs (lvlfd sock)) 0 (take IPC_BUFLEN m)"
  define a where "a = ipc_msg IPC_READ pid @ ipc_err rc @ le_int 4 fd @ le_int 8 rc @ d"
  have v: "vla_ok len" "int len < 2 ^ 31" using assms(4) by (simp_all add: vla_ok_def)
  have i: "i32 rc" using assms(7,8) v by (simp add: i32_def)
  have la: "length a = 26 + length d" using i by (simp add: a_def)
  have "lvl_read (w_fuel w) (w_env w) pid fd len tab = Some (Ok (rc, d, tab'))" using assms(6) ch by simp
  from read_served [OF assms(2,3) v(1) len this]
  have "demux_ipc_socket_call w buf [Some (drop IPC_BUFLEN m)] tab = Some (Ok (0, [a], buf, [Some (drop IPC_BUFLEN m)], tab'))"
    using assms(7) by (simp add: buf_def m_def a_def)
  then have x: "ipc_exchange w (lvlfd sock) m (26 + len) (bufs, tab) = Some (Ok (Some a, bufs(lvlfd sock := buf), tab'))"
    using la assms(8) by (simp add: ipc_exchange_def buf_def)
  have r: "answer (26 + len) (Some a) = a @ replicate (len - length d) 0"
    using la assms(8) by (simp add: answer_def buf_write_def)
  have f: "msg_type (a @ z) = IPC_READ" "msg_pid (a @ z) = pid" "get_s 4 (a @ z) 6 = rc" "get_u 8 (a @ z) 18 = rc" "drop 26 (a @ z) = d @ z" for z
    using i assms(2,7,8) v unfolding a_def by (simp_all add: field_simps_ipc ipc_types)
  have "lib_read (ipc_exchange w) pid fd len l =
      Done (rc, Some (d @ replicate (len - length d) 0), l\<lparr>chan := (bufs(lvlfd sock := buf), tab')\<rparr>)"
    unfolding lib_read_def with_sock_def assms(1) cres.case option.case Let_def m_def [symmetric] ch x of_chan.simps lbind.simps prod.case r f
    using assms(4,7,8) by simp
  then show ?thesis using assms(5) buf_write_length [OF len] by (auto simp: bufs_ok_def ch buf_def)
qed

section \<open>The thread serves its requests in order\<close>

text \<open>A message as the reads of the thread deliver it.\<close>

definition chunks :: "bytes \<Rightarrow> bytes option list" where
  "chunks m = (if IPC_BUFLEN < length m then [Some (take IPC_BUFLEN m), Some (drop IPC_BUFLEN m)] else [Some m])"

definition answers :: "int \<Rightarrow> (ipc_world \<times> app_call) list \<Rightarrow> int list \<Rightarrow> bytes list" where
  "answers pid cs rcs = map2 (\<lambda>(w, c) rc. ipc_msg (call_type c) pid @ ipc_err rc) cs rcs"

lemma cbind_return: "cbind r Ok = r"
  by (cases r) simp_all

lemma cbind_assoc: "cbind (cbind r f) g = cbind r (\<lambda>x. cbind (f x) g)"
  by (cases r) simp_all

lemma outs_append:
  "map_option (\<lambda>r. cbind r (\<lambda>(fr, outs, tab). Ok (fr, x # outs, tab)))
     (map_option (\<lambda>r. cbind r (\<lambda>(fr, outs, tab). Ok (fr, ys @ outs, tab))) z) =
   map_option (\<lambda>r. cbind r (\<lambda>(fr, outs, tab). Ok (fr, (x # ys) @ outs, tab))) (z :: ('a \<times> 'b list \<times> 'c) cres option)"
  unfolding option.map_comp comp_def cbind_assoc case_prod_beta by simp

lemma request_nonempty: "request junk pid c \<noteq> []"
  by (cases c) (simp_all add: ipc_msg_def numeral_2_eq_2)

lemma loop_one:
  assumes "served (ws i) junk pid c b tab" and "direct (ws i) pid c tab = Some (Ok (rc, tab'))"
  shows "ipc_loop ws i b (chunks (request junk pid c) @ rs) tab =
    map_option (\<lambda>r. cbind r (\<lambda>(fr, outs, tab). Ok (fr, (ipc_msg (call_type c) pid @ ipc_err rc) # outs, tab)))
      (ipc_loop ws (Suc i) (buf_write b 0 (take IPC_BUFLEN (request junk pid c))) rs tab')"
proof -
  define m where "m = request junk pid c"
  define buf where "buf = buf_write b 0 (take IPC_BUFLEN m)"
  have d: "demux_ipc_socket_call (ws i) buf ((if IPC_BUFLEN < length m then [Some (drop IPC_BUFLEN m)] else []) @ rs) tab =
      Some (Ok (0, [ipc_msg (call_type c) pid @ ipc_err rc], buf, rs, tab'))"
    using assms unfolding served_def m_def buf_def Let_def by blast
  obtain x xs where ne: "take IPC_BUFLEN m = x # xs" using request_nonempty [of junk pid c] by (cases "take IPC_BUFLEN m") (auto simp: m_def IPC_BUFLEN_def)
  have c: "chunks m @ rs = Some (if IPC_BUFLEN < length m then x # xs else m) # (if IPC_BUFLEN < length m then [Some (drop IPC_BUFLEN m)] else []) @ rs"
    by (simp add: chunks_def ne)
  have b: "buf_write b 0 (take IPC_BUFLEN (if IPC_BUFLEN < length m then x # xs else m)) = buf"
    unfolding buf_def ne [symmetric] by simp
  have nn: "(if IPC_BUFLEN < length m then x # xs else m) = x # (if IPC_BUFLEN < length m then xs else tl m)"
    using ne by (cases m) (auto simp: IPC_BUFLEN_def)
  show ?thesis unfolding m_def [symmetric] buf_def [symmetric] c
    by (subst ipc_loop.simps) (unfold list.case option.case Let_def, subst nn, unfold list.case b d, simp add: nn [symmetric] b d)
qed

lemma loop_serves:
  assumes "direct_run pid cs tab = Some (Ok (rcs, tab'))" and "i32 pid" and "length b = IPC_BUFLEN" and "\<forall>(w, c)\<in>set cs. call_ok c"
    and "\<forall>k<length cs. ws (i + k) = fst (cs ! k)"
  shows "\<exists>b'. length b' = IPC_BUFLEN \<and>
    ipc_loop ws i b (concat (map (\<lambda>(w, c). chunks (request junk pid c)) cs) @ rs) tab =
      map_option (\<lambda>r. cbind r (\<lambda>(fr, outs, tab). Ok (fr, answers pid cs rcs @ outs, tab))) (ipc_loop ws (i + length cs) b' rs tab')"
  using assms
proof (induction cs arbitrary: i b tab rcs)
  case Nil
  then show ?case by (auto simp: answers_def cbind_return option.map_ident)
next
  case (Cons wc cs)
  obtain w c where wc: "wc = (w, c)" by (cases wc)
  obtain rc tab1 where d: "direct w pid c tab = Some (Ok (rc, tab1))"
    using Cons(2) by (auto simp: wc split: option.splits cres.splits)
  then obtain rcs' where r: "direct_run pid cs tab1 = Some (Ok (rcs', tab'))" "rcs = rc # rcs'"
    using Cons(2) by (auto simp: wc cbind_Ok_iff)
  have w: "ws i = w" using Cons(6) [rule_format, of 0] wc by simp
  have ws: "\<forall>k<length cs. ws (Suc i + k) = fst (cs ! k)"
  proof (intro allI impI)
    fix k assume "k < length cs"
    then show "ws (Suc i + k) = fst (cs ! k)" using Cons(6) [rule_format, of "Suc k"] by simp
  qed
  have ok: "call_ok c" "\<forall>(w, c)\<in>set cs. call_ok c" using Cons(5) wc by auto
  define b1 where "b1 = buf_write b 0 (take IPC_BUFLEN (request junk pid c))"
  have l1: "length b1 = IPC_BUFLEN" unfolding b1_def by (rule buf_write_length [OF Cons(4)])
  have s: "served (ws i) junk pid c b tab" by (rule calls_served [OF Cons(3) ok(1) Cons(4)])
  have d1: "direct (ws i) pid c tab = Some (Ok (rc, tab1))" using d w by simp
  note one = loop_one [of ws i, OF s d1, folded b1_def]
  obtain b' where b': "length b' = IPC_BUFLEN"
    "ipc_loop ws (Suc i) b1 (concat (map (\<lambda>(w, c). chunks (request junk pid c)) cs) @ rs) tab1 =
      map_option (\<lambda>r. cbind r (\<lambda>(fr, outs, tab). Ok (fr, answers pid cs rcs' @ outs, tab))) (ipc_loop ws (Suc i + length cs) b' rs tab')"
    using Cons(1) [OF r(1) Cons(3) l1 ok(2) ws] by blast
  have "ipc_loop ws i b (concat (map (\<lambda>(w, c). chunks (request junk pid c)) (wc # cs)) @ rs) tab =
      map_option (\<lambda>r. cbind r (\<lambda>(fr, outs, tab). Ok (fr, answers pid (wc # cs) rcs @ outs, tab))) (ipc_loop ws (i + length (wc # cs)) b' rs tab')"
    using one [of "concat (map (\<lambda>(w, c). chunks (request junk pid c)) cs) @ rs", unfolded b'(2) outs_append] unfolding wc r(2)
    by (simp add: answers_def)
  then show ?case using b'(1) by blast
qed

section \<open>Names and polls through the server\<close>

lemma peername_served:
  assumes "i32 pid" and "i32 fd" and "length b = IPC_BUFLEN" and "lvl_getpeername pid fd tab = Ok (rc, a, tab')"
  shows "demux_ipc_socket_call w (buf_write b 0 (take IPC_BUFLEN (ipc_msg IPC_GETPEERNAME pid @ le_int 4 fd @ map junk [0..<132]))) rs tab =
    Some (Ok (rc, [ipc_msg IPC_GETPEERNAME pid @ ipc_err rc @ le_int 4 fd @ sockname_bytes (w_junk w) a],
      buf_write b 0 (take IPC_BUFLEN (ipc_msg IPC_GETPEERNAME pid @ le_int 4 fd @ map junk [0..<132])), rs, tab'))"
proof -
  define m where "m = ipc_msg IPC_GETPEERNAME pid @ le_int 4 fd @ map junk [0..<132]"
  have "length m \<le> IPC_BUFLEN" by (simp add: m_def IPC_BUFLEN_def del: upt_Suc)
  note b = buf_of_message [OF assms(3) this]
  have f: "get_s 4 (m @ r) 6 = fd" "msg_type (m @ r) = IPC_GETPEERNAME" "msg_pid (m @ r) = pid" for r
    using assms(1,2) by (simp_all add: m_def field_simps_ipc ipc_types del: upt_Suc)
  show ?thesis unfolding m_def [symmetric] b
    using assms(4) by (simp add: demux_types(9) f ipc_getpeername_def with_reads_def Let_def)
qed

lemma library_getpeername:
  assumes "lvlip_get_sock fd (lvlip_socks l) = Ok (Some sock)" and "i32 pid" and "i32 fd" and "bufs_ok l" and "16 \<le> cap"
    and "lvl_getpeername pid fd (snd (chan l)) = Ok (0, Some a, tab')"
  shows "\<exists>l'. lib_getpeername (ipc_exchange w) junk pid fd cap l = Done (0, Some (16, sockaddr_bytes a @ map (w_junk w) [12..<20]), l') \<and>
    snd (chan l') = tab' \<and> errno l' = errno l \<and> lvlip_socks l' = lvlip_socks l \<and> bufs_ok l'"
proof -
  obtain bufs tab where ch: "chan l = (bufs, tab)" by (cases "chan l") auto
  have len: "length (bufs (lvlfd sock)) = IPC_BUFLEN" using assms(4) ch by (simp add: bufs_ok_def)
  define m where "m = ipc_msg IPC_GETPEERNAME pid @ le_int 4 fd @ map junk [0..<132]"
  define buf where "buf = buf_write (bufs (lvlfd sock)) 0 (take IPC_BUFLEN m)"
  define r where "r = ipc_msg IPC_GETPEERNAME pid @ ipc_err 0 @ le_int 4 fd @ le_int 4 16 @ sockaddr_bytes a @ map (w_junk w) [12..<132]"
  have i: "i32 0" "i32 16" by (simp_all add: i32_def)
  have lr: "length r = 150" using i by (simp add: r_def del: upt_Suc)
  have "lvl_getpeername pid fd tab = Ok (0, Some a, tab')" using assms(6) ch by simp
  from peername_served [OF assms(2,3) len this]
  have "demux_ipc_socket_call w buf [Some (drop IPC_BUFLEN m)] tab = Some (Ok (0, [r], buf, [Some (drop IPC_BUFLEN m)], tab'))"
    unfolding buf_def m_def r_def sockname_bytes_def option.case .
  then have x: "ipc_exchange w (lvlfd sock) m 150 (bufs, tab) = Some (Ok (Some r, bufs(lvlfd sock := buf), tab'))"
    using lr by (simp add: ipc_exchange_def buf_def)
  have an: "answer 150 (Some r) = r" using lr by (simp add: answer_def buf_write_def)
  have j: "map (w_junk w) [12..<132] = map (w_junk w) [12..<20] @ map (w_junk w) [20..<132]"
    using upt_add_eq_append [of 12 20 112] by (simp del: upt_Suc)
  have f: "msg_type r = IPC_GETPEERNAME" "msg_pid r = pid" "get_s 4 r 6 = 0" "get_u 4 r 18 = 16"
    using i assms(2) unfolding r_def by (simp_all add: field_simps_ipc ipc_types del: upt_Suc)
  have d: "take 16 (drop 22 r) = sockaddr_bytes a @ map (w_junk w) [12..<20]"
    using i unfolding r_def j by (simp del: upt_Suc)
  have "lib_getpeername (ipc_exchange w) junk pid fd cap l =
      Done (0, Some (16, sockaddr_bytes a @ map (w_junk w) [12..<20]), l\<lparr>chan := (bufs(lvlfd sock := buf), tab')\<rparr>)"
    unfolding lib_getpeername_def lib_getname_def with_sock_def assms(1) cres.case option.case Let_def m_def [symmetric] ch x of_chan.simps
      lbind.simps prod.case an f
    using assms(5) d by simp
  then show ?thesis using assms(4) buf_write_length [OF len] by (auto simp: bufs_ok_def ch buf_def)
qed

text \<open>A request to poll more descriptors than fit the receive buffer is read past its end.\<close>

lemma poll_overread:
  assumes "msg_type msg = IPC_POLL" and "1022 \<le> get_u 8 msg 6"
  shows "demux_ipc_socket_call w msg rs tab = Some UB"
  using assms(2) le_nat_iff [of "get_u 8 msg 6" 1022] by (simp add: demux_types(6) [OF assms(1)] ipc_poll_def with_reads_def Let_def IPC_BUFLEN_def)

definition same_poll :: "pollfd \<Rightarrow> pollfd \<Rightarrow> bool" where
  "same_poll p p' \<longleftrightarrow> pfd_fd p' = pfd_fd p \<and> pfd_events p' = pfd_events p"

lemma poll_scan_shape: "poll_scan pid fds tab = Ok (n, fds', tab') \<Longrightarrow> list_all2 same_poll fds fds'"
proof (induction fds arbitrary: tab n fds' tab')
  case (Cons p ps)
  show ?case
  proof (cases "get_socket pid (pfd_fd p) tab")
    case None
    then show ?thesis using Cons(2) by (auto simp: same_poll_def intro: list_all2_refl)
  next
    case (Some so)
    obtain p' n1 fds1 where "poll_scan pid ps (socket_release (socket_rd_acquire so) tab) = Ok (n1, fds1, tab')" "fds' = p' # fds1" "same_poll p p'"
      using Cons(2) Some by (auto simp: same_poll_def Let_def cbind_Ok_iff split: option.splits)
    then show ?thesis using Cons(1) by auto
  qed
qed simp

lemma lvl_poll_shape:
  "lvl_poll fuel i env pid fds timeout tab = Some (Ok (rc, fds', tab')) \<Longrightarrow> list_all2 same_poll fds fds'"
proof (induction fuel arbitrary: i fds timeout tab)
  case (Suc fuel)
  obtain n fds1 tab1 where s: "poll_scan pid fds tab = Ok (n, fds1, tab1)"
    using Suc(2) by (cases "poll_scan pid fds tab") auto
  note sh = poll_scan_shape [OF s]
  show ?case
  proof (cases "n = None \<or> the n > 0 \<or> timeout = 0")
    case True
    then have "fds' = fds1" using Suc(2) s by (cases n) auto
    then show ?thesis using sh by simp
  next
    case False
    then obtain polled where n: "n = Some polled" by auto
    let ?t = "if timeout > 0 then if timeout > 10 then timeout - 10 else 0 else timeout"
    have "lvl_poll fuel (Suc i) env pid fds1 ?t (env i tab1) = Some (Ok (rc, fds', tab'))"
      using Suc(2) s n False by simp
    note rest = Suc(1) [OF this]
    show ?thesis by (rule list_all2_trans [OF _ sh rest]) (simp add: same_poll_def)
  qed
qed simp

lemma poll_split_all:
  assumes "\<forall>p\<in>set fds. \<exists>sock. lvlip_get_sock (pfd_fd p) socks = Ok (Some sock)"
  shows "\<exists>fd. poll_split i fds socks = Ok ([i..<i + length fds], [], fd)"
  using assms
proof (induction fds arbitrary: i)
  case (Cons p ps)
  then obtain sock fd where "lvlip_get_sock (pfd_fd p) socks = Ok (Some sock)" "poll_split (Suc i) ps socks = Ok ([Suc i..<Suc i + length ps], [], fd)"
    by fastforce
  then show ?case by (simp add: upt_conv_Cons del: upt_Suc)
qed simp

lemma store_polled_index:
  "length (fold (\<lambda>(k, i) fds. fds[i := g k (fds ! i)]) kis fds) = length fds"
  "distinct (map snd kis) \<Longrightarrow> j < length fds \<Longrightarrow>
   fold (\<lambda>(k, i) fds. fds[i := g k (fds ! i)]) kis fds ! j =
     (case map_of (map (\<lambda>(k, i). (i, k)) kis) j of None \<Rightarrow> fds ! j | Some k \<Rightarrow> g k (fds ! j))"
proof -
  show "length (fold (\<lambda>(k, i) fds. fds[i := g k (fds ! i)]) kis fds) = length fds" for fds
    by (induction kis arbitrary: fds) auto
  show "distinct (map snd kis) \<Longrightarrow> j < length fds \<Longrightarrow> fold (\<lambda>(k, i) fds. fds[i := g k (fds ! i)]) kis fds ! j =
     (case map_of (map (\<lambda>(k, i). (i, k)) kis) j of None \<Rightarrow> fds ! j | Some k \<Rightarrow> g k (fds ! j))"
  proof (induction kis arbitrary: fds)
    case (Cons a kis)
    obtain k i where a: "a = (k, i)" by (cases a)
    have "map_of (map (\<lambda>(k, i). (i, k)) kis) i = None" if "i = j"
      using Cons(2) a that by (auto simp: map_of_eq_None_iff image_iff)
    then show ?case using Cons(1) [of "fds[i := g k (fds ! i)]"] Cons(2,3) a by (auto simp: nth_list_update split: option.splits)
  qed simp
qed

lemma map_of_upt: "j < n \<Longrightarrow> map_of (map (\<lambda>(k, i). (i, k)) (enumerate 0 [0..<n])) j = Some j"
  by (simp add: enumerate_eq_zip comp_def zip_map1 zip_map2 map_of_zip_map zip_same_conv_map map_of_map_restrict)

lemma store_polled_all:
  assumes "length fds' = length fds" and "list_all2 same_poll fds fds'" and "\<forall>k<length fds. get_pollfd rbuf (14 + 8 * k) = fds' ! k"
  shows "store_polled [0..<length fds] rbuf fds = fds'"
proof (rule nth_equalityI)
  let ?g = "\<lambda>k p. p\<lparr>pfd_events := pfd_events (get_pollfd rbuf (14 + 8 * k)), pfd_revents := pfd_revents (get_pollfd rbuf (14 + 8 * k))\<rparr>"
  have s: "store_polled [0..<length fds] rbuf fds = fold (\<lambda>(k, i) fds. fds[i := ?g k (fds ! i)]) (enumerate 0 [0..<length fds]) fds"
    by (simp add: store_polled_def Let_def)
  have ls: "length (store_polled [0..<length fds] rbuf fds) = length fds" unfolding s by (rule store_polled_index(1))
  then show "length (store_polled [0..<length fds] rbuf fds) = length fds'" using assms(1) by simp
  fix j assume "j < length (store_polled [0..<length fds] rbuf fds)"
  then have j: "j < length fds" using ls by simp
  have "distinct (map snd (enumerate 0 [0..<length fds]))" by simp
  then have "store_polled [0..<length fds] rbuf fds ! j = ?g j (fds ! j)"
    unfolding s using store_polled_index(2) [of _ j fds ?g] j map_of_upt [OF j] by simp
  also have "\<dots> = fds' ! j"
  proof -
    have "same_poll (fds ! j) (fds' ! j)" using assms(2) j by (simp add: list_all2_conv_all_nth)
    then have "(fds ! j)\<lparr>pfd_events := pfd_events (fds' ! j), pfd_revents := pfd_revents (fds' ! j)\<rparr> = fds' ! j"
      unfolding same_poll_def by (cases "fds ! j", cases "fds' ! j") auto
    then show ?thesis using assms(3) j by simp
  qed
  finally show "store_polled [0..<length fds] rbuf fds ! j = fds' ! j" .
qed

lemma poll_served:
  assumes "i32 pid" and "i32 timeout" and "\<forall>p\<in>set fds. i32 (pfd_fd p)" and "18 + 8 * length fds \<le> IPC_BUFLEN" and "length b = IPC_BUFLEN"
    and "lvl_poll (w_fuel w) 0 (w_pause w) pid fds timeout tab = Some (Ok (rc, fds', tab'))"
    and m: "m = ipc_msg IPC_POLL pid @ le_int 8 (int (length fds)) @ le_int 4 timeout @ concat (map ipc_pollfd fds)"
  shows "demux_ipc_socket_call w (buf_write b 0 (take IPC_BUFLEN m)) rs tab =
    Some (Ok (0, [ipc_msg IPC_POLL pid @ ipc_err rc @ concat (map ipc_pollfd fds')], buf_write b 0 (take IPC_BUFLEN m), rs, tab'))"
proof -
  have lc: "length (concat (map ipc_pollfd xs)) = 8 * length xs" for xs by (induction xs) simp_all
  have "length m \<le> IPC_BUFLEN" using assms(4) by (simp add: m lc)
  note b = buf_of_message [OF assms(5) this]
  have n: "int (length fds) < 2 ^ 64" using assms(4) by (simp add: IPC_BUFLEN_def)
  have f: "get_u 8 (m @ r) 6 = int (length fds)" "get_s 4 (m @ r) 14 = timeout" "msg_type (m @ r) = IPC_POLL" "msg_pid (m @ r) = pid" for r
    using assms(1,2) n by (simp_all add: m field_simps_ipc ipc_types)
  have p: "map (\<lambda>i. get_pollfd (m @ r) (18 + 8 * i)) [0..<length fds] = fds" for r
  proof -
    have "get_pollfd (m @ r) (18 + 8 * i) = get_pollfd (concat (map ipc_pollfd fds) @ r) (8 * i)" for i
      by (simp add: m get_pollfd_skip)
    then show ?thesis using get_pollfds [OF assms(3)] by simp
  qed
  have "vla_ok (8 * length fds)" "\<not> IPC_BUFLEN < 18 + 8 * length fds" using assms(4) by (simp_all add: vla_ok_def IPC_BUFLEN_def)
  then show ?thesis unfolding b
    using assms(6) by (simp add: demux_types(6) f p ipc_poll_def with_reads_def Let_def)
qed

lemma library_poll:
  assumes "\<forall>p\<in>set fds. i32 (pfd_fd p) \<and> (\<exists>sock. lvlip_get_sock (pfd_fd p) (lvlip_socks l) = Ok (Some sock))"
    and "fds \<noteq> []" and "18 + 8 * length fds \<le> IPC_BUFLEN" and "i32 pid" and "i32 timeout" and "bufs_ok l"
    and "lvl_poll (w_fuel w) 0 (w_pause w) pid fds timeout (snd (chan l)) = Some (Ok (rc, fds', tab'))" and "0 \<le> rc" and "rc < 2 ^ 31"
  shows "\<exists>l'. lib_poll (Suc fuel) (ipc_exchange w) kpoll pid fds timeout l = Done (rc, fds', l') \<and> snd (chan l') = tab' \<and>
    errno l' = errno l \<and> lvlip_socks l' = lvlip_socks l \<and> bufs_ok l'"
proof -
  obtain bufs tab where ch: "chan l = (bufs, tab)" by (cases "chan l") auto
  obtain fd where sp: "poll_split 0 fds (lvlip_socks l) = Ok ([0..<length fds], [], fd)"
    using poll_split_all [of fds "lvlip_socks l" 0] assms(1) by auto
  have len: "length (bufs fd) = IPC_BUFLEN" using assms(6) ch by (simp add: bufs_ok_def)
  define m where "m = ipc_msg IPC_POLL pid @ le_int 8 (int (length fds)) @ le_int 4 timeout @ concat (map ipc_pollfd fds)"
  define buf where "buf = buf_write (bufs fd) 0 (take IPC_BUFLEN m)"
  define a where "a = ipc_msg IPC_POLL pid @ ipc_err rc @ concat (map ipc_pollfd fds')"
  have lc: "length (concat (map ipc_pollfd xs)) = 8 * length xs" for xs by (induction xs) simp_all
  have d: "lvl_poll (w_fuel w) 0 (w_pause w) pid fds timeout tab = Some (Ok (rc, fds', tab'))" using assms(7) ch by simp
  note sh = lvl_poll_shape [OF d]
  have lf: "length fds' = length fds" using list_all2_lengthD [OF sh] by simp
  have i: "i32 rc" using assms(8,9) by (simp add: i32_def)
  have la: "length a = 14 + 8 * length fds" using i lf by (simp add: a_def lc)
  have i32s: "\<forall>p\<in>set fds. i32 (pfd_fd p)" using assms(1) by blast
  have "demux_ipc_socket_call w buf [Some (drop IPC_BUFLEN m)] tab = Some (Ok (0, [a], buf, [Some (drop IPC_BUFLEN m)], tab'))"
    unfolding buf_def a_def by (rule poll_served [OF assms(4,5) i32s assms(3) len d m_def])
  then have x: "ipc_exchange w fd m (14 + 8 * length fds) (bufs, tab) = Some (Ok (Some a, bufs(fd := buf), tab'))"
    using la by (simp add: ipc_exchange_def buf_def)
  have an: "answer (14 + 8 * length fds) (Some a) = a" using la by (simp add: answer_def buf_write_def)
  have f: "msg_type a = IPC_POLL" "msg_pid a = pid" "get_s 4 a 6 = rc"
    using i assms(4,8) unfolding a_def by (simp_all add: ipc_types)
  have g: "\<forall>k<length fds. get_pollfd a (14 + 8 * k) = fds' ! k"
  proof (intro allI impI)
    fix k assume k: "k < length fds"
    have "\<forall>p\<in>set fds'. i32 (pfd_fd p)"
      using i32s sh by (auto dest!: all2_set [OF sh] simp: same_poll_def)
    from get_pollfds [OF this, of "[]"] k lf have "get_pollfd (concat (map ipc_pollfd fds')) (8 * k) = fds' ! k"
      by (metis (no_types, lifting) add_0 append_Nil2 diff_zero length_upt nth_map nth_upt)
    then show "get_pollfd a (14 + 8 * k) = fds' ! k" using i unfolding a_def by (simp add: get_pollfd_skip)
  qed
  note st = store_polled_all [OF lf sh g]
  have mn: "concat (map (\<lambda>i. ipc_pollfd (fds ! i)) [0..<length fds]) = concat (map ipc_pollfd fds)"
    by (metis (mono_tags) map_nth map_map comp_apply map_cong)
  have "poll_rounds (Suc fuel) 0 (ipc_exchange w) kpoll pid [0..<length fds] [] fd timeout False fds l =
      Done (rc, fds', l\<lparr>chan := (bufs(fd := buf), tab')\<rparr>)"
    using assms(2,8) x an f st by (simp add: mn m_def [symmetric] ch)
  then have "lib_poll (Suc fuel) (ipc_exchange w) kpoll pid fds timeout l = Done (rc, fds', l\<lparr>chan := (bufs(fd := buf), tab')\<rparr>)"
    by (simp add: lib_poll_def sp del: poll_rounds.simps)
  then show ?thesis using assms(6) buf_write_length [OF len] by (auto simp: bufs_ok_def ch buf_def)
qed

section \<open>Opening a socket\<close>

lemma socket_served:
  assumes "i32 pid" and "i32 domain" and "i32 type" and "i32 protocol" and "length b = IPC_BUFLEN" and "lvl_socket pid domain type protocol tab = Ok (rc, tab')"
  shows "demux_ipc_socket_call w (buf_write b 0 (take IPC_BUFLEN (ipc_msg IPC_SOCKET pid @ le_int 4 domain @ le_int 4 type @ le_int 4 protocol))) rs tab =
    Some (Ok (0, [ipc_msg IPC_SOCKET pid @ ipc_err rc],
      buf_write b 0 (take IPC_BUFLEN (ipc_msg IPC_SOCKET pid @ le_int 4 domain @ le_int 4 type @ le_int 4 protocol)), rs, tab'))"
proof -
  define m where "m = ipc_msg IPC_SOCKET pid @ le_int 4 domain @ le_int 4 type @ le_int 4 protocol"
  have len: "length m \<le> IPC_BUFLEN" by (simp add: m_def IPC_BUFLEN_def)
  note b = buf_of_message [OF assms(5) len]
  have f: "get_s 4 (m @ r) 6 = domain" "get_s 4 (m @ r) 10 = type" "get_s 4 (m @ r) 14 = protocol" "msg_type (m @ r) = IPC_SOCKET" "msg_pid (m @ r) = pid" for r
    using assms(1-4) by (simp_all add: m_def field_simps_ipc ipc_types)
  show ?thesis unfolding m_def [symmetric] b
    by (simp add: demux_types(1) f ipc_socket_def with_reads_def ipc_write_rc_def assms(6))
qed

lemma find_new_sock:
  "\<forall>s\<in>set ss. \<not> ls_freed s \<and> ls_fd s \<noteq> fd \<Longrightarrow> lvlip_get_sock fd (ss @ [\<lparr>lvlfd = x, ls_fd = fd, ls_freed = False\<rparr>]) = Ok (Some \<lparr>lvlfd = x, ls_fd = fd, ls_freed = False\<rparr>)"
  by (induction ss) auto

text \<open>\<open>socket()\<close> of the library, with the connection that the server accepts for it.\<close>

lemma library_socket:
  assumes "is_socket_supported domain type protocol" and "i32 pid" "i32 domain" "i32 type" "i32 protocol"
    and conn: "conn (chan l) = (fd, ret, bufs, tab)" "fd \<noteq> -1" "ret \<noteq> -1" and "length (bufs fd) = IPC_BUFLEN"
    and "lvl_socket pid domain type protocol tab = Ok (rc, tab')" and rc: "0 \<le> rc" "rc < 2 ^ 31"
  shows "\<exists>l'. lib_socket (ipc_exchange w) junk conn pid domain type protocol l = Done (rc, l') \<and> snd (chan l') = tab' \<and> errno l' = errno l \<and>
    (\<forall>f. f \<noteq> fd \<longrightarrow> fst (chan l') f = bufs f) \<and> length (fst (chan l') fd) = IPC_BUFLEN \<and>
    lvlip_socks l' = lvlip_socks l @ [\<lparr>lvlfd = fd, ls_fd = rc, ls_freed = False\<rparr>] \<and> lvlip_socks_count l' = lvlip_socks_count l + 1"
proof -
  define m where "m = ipc_msg IPC_SOCKET pid @ le_int 4 domain @ le_int 4 type @ le_int 4 protocol"
  let ?buf = "buf_write (bufs fd) 0 (take IPC_BUFLEN m)"
  let ?l = "l\<lparr>chan := (bufs, tab), lvlip_socks := lvlip_socks l @ [\<lparr>lvlfd = fd, ls_fd = 0, ls_freed = False\<rparr>], lvlip_socks_count := lvlip_socks_count l + 1\<rparr>"
  have d: "demux_ipc_socket_call w ?buf [Some (drop IPC_BUFLEN m)] tab = Some (Ok (0, [ipc_msg IPC_SOCKET pid @ ipc_err rc], ?buf, [Some (drop IPC_BUFLEN m)], tab'))"
    unfolding m_def by (rule socket_served [OF assms(2-5,9,10)])
  have ch: "chan ?l = (bufs, tab)" by simp
  have t: "0 \<le> IPC_SOCKET" "IPC_SOCKET < 65536" "msg_type m = IPC_SOCKET" "msg_pid m = pid"
    using assms(2) by (simp_all add: m_def ipc_types)
  have "- (2 ^ 31) < rc" using rc(1) by simp
  from transmit_answered [OF d t(1-3) assms(2) t(4) this rc(2) ch, of junk]
  have "transmit_lvlip (ipc_exchange w) junk fd m ?l = Done (rc, ?l\<lparr>chan := (bufs(fd := ?buf), tab'), errno := errno l\<rparr>)" using rc(1) by simp
  moreover have "init_socket conn (chan l) = Some (fd, bufs, tab)" using conn by (simp add: init_socket_def)
  moreover have "length ?buf = IPC_BUFLEN" by (rule buf_write_length [OF assms(9)])
  ultimately show ?thesis using assms(1) rc(1) by (simp add: lib_socket_def m_def [symmetric] Let_def)
qed

end
