(* ===== verification/Net_Rx.thy ===== *)
theory Net_Rx
  imports Tcp_Fec_Tx Socket_Inv
begin

text \<open>
  The receive thread of the stack (\<open>netdev_rx_loop\<close> in \<open>src/netdev.c\<close>) from a frame to the socket it is for, and the
  translation table of \<open>src/arp.c\<close> over a whole run: the locale \<open>neighbour_table\<close> is what \<open>dst_neigh_output\<close> relies on,
  interpreted on the cache.
\<close>

section \<open>The translation table\<close>

text \<open>What the cache means: a finite map from protocol to hardware addresses.\<close>

definition arp_wf :: "arp_cache_entry list \<Rightarrow> bool" where
  "arp_wf cache \<longleftrightarrow> distinct (map ae_sip cache) \<and> (\<forall>e\<in>set cache. ae_hwtype e = ARP_ETHERNET \<and> ae_state e = ARP_RESOLVED)"

definition arp_map :: "arp_cache_entry list \<Rightarrow> u32 \<Rightarrow> bytes option" where
  "arp_map cache sip = arp_get_hwaddr sip cache"

lemma arp_map_None: "arp_wf cache \<Longrightarrow> arp_map cache sip = None \<longleftrightarrow> sip \<notin> ae_sip ` set cache"
  by (induction cache) (auto simp: arp_wf_def arp_map_def)

lemma update_arp_map:
  assumes "arp_wf cache" and "ah_hwtype h = ARP_ETHERNET" and "update_arp_translation_table h d cache = (m, cache')"
  shows "arp_wf cache'" and "ae_sip ` set cache' = ae_sip ` set cache" and "m = (ad_sip d \<in> ae_sip ` set cache)"
    and "arp_map cache' = (if m then (arp_map cache)(ad_sip d \<mapsto> ad_smac d) else arp_map cache)"
proof -
  have "map ae_sip cache' = map ae_sip cache \<and> (\<forall>e\<in>set cache'. ae_hwtype e = ARP_ETHERNET \<and> ae_state e = ARP_RESOLVED) \<and>
      m = (ad_sip d \<in> ae_sip ` set cache) \<and> arp_map cache' = (if m then (arp_map cache)(ad_sip d \<mapsto> ad_smac d) else arp_map cache)"
    using assms
  proof (induction cache arbitrary: m cache')
    case (Cons e es)
    have e: "ae_hwtype e = ARP_ETHERNET" "ae_state e = ARP_RESOLVED" and wf: "arp_wf es" using Cons.prems(1) by (auto simp: arp_wf_def)
    show ?case
    proof (cases "ae_sip e = ad_sip d")
      case True
      then have "m" "cache' = e\<lparr>ae_smac := ad_smac d\<rparr> # es" using Cons.prems(2,3) e by auto
      then show ?thesis using True e wf by (auto simp: arp_map_def arp_wf_def)
    next
      case False
      obtain m' es' where u: "update_arp_translation_table h d es = (m', es')" by fastforce
      then have c: "m = m'" "cache' = e # es'" using Cons.prems(3) False by auto
      show ?thesis using Cons.IH [OF wf Cons.prems(2) u] c False e by (auto simp: arp_map_def fun_eq_iff)
    qed
  qed (auto simp: arp_map_def)
  then have f: "map ae_sip cache' = map ae_sip cache" "\<forall>e\<in>set cache'. ae_hwtype e = ARP_ETHERNET \<and> ae_state e = ARP_RESOLVED"
    "m = (ad_sip d \<in> ae_sip ` set cache)" "arp_map cache' = (if m then (arp_map cache)(ad_sip d \<mapsto> ad_smac d) else arp_map cache)"
    by blast+
  show "arp_wf cache'" using f(1,2) assms(1) by (simp add: arp_wf_def)
  show "ae_sip ` set cache' = ae_sip ` set cache" using arg_cong [OF f(1), of set] by simp
  show "m = (ad_sip d \<in> ae_sip ` set cache)" "arp_map cache' = (if m then (arp_map cache)(ad_sip d \<mapsto> ad_smac d) else arp_map cache)"
    by (fact f(3), fact f(4))
qed

text \<open>What an accepted packet does to the table: \<open>me\<close> says whether it is addressed to this host, and only
  then a new neighbour is entered.\<close>

definition arp_learn :: "bool \<Rightarrow> u32 \<Rightarrow> bytes \<Rightarrow> arp_cache_entry list \<Rightarrow> arp_cache_entry list" where
  "arp_learn me sip smac cache =
     (let h = \<lparr>ah_hwtype = ARP_ETHERNET, ah_protype = ARP_IPV4, ah_hwsize = 6, ah_prosize = 4, ah_opcode = ARP_REQUEST\<rparr>;
          d = \<lparr>ad_smac = smac, ad_sip = sip, ad_dmac = [], ad_dip = 0\<rparr>;
          (merge, cache) = update_arp_translation_table h d cache
      in if me \<and> \<not> merge then insert_arp_translation_table h d cache else cache)"

text \<open>The contract that \<open>dst_neigh_output\<close> relies on: a lookup gives the address last announced.\<close>

locale neighbour_table =
  fixes wf :: "'t \<Rightarrow> bool" and look :: "'t \<Rightarrow> u32 \<Rightarrow> bytes option" and learn :: "bool \<Rightarrow> u32 \<Rightarrow> bytes \<Rightarrow> 't \<Rightarrow> 't"
  assumes learn_wf: "wf t \<Longrightarrow> wf (learn me a m t)"
    and look_learn: "wf t \<Longrightarrow> look (learn me a m t) b = (if b = a \<and> (me \<or> look t a \<noteq> None) then Some m else look t b)"
begin

abbreviation learn_all :: "(bool \<times> u32 \<times> bytes) list \<Rightarrow> 't \<Rightarrow> 't" where
  "learn_all evs t \<equiv> fold (\<lambda>(me, a, m). learn me a m) evs t"

lemma learn_all_wf: "wf t \<Longrightarrow> wf (learn_all evs t)"
  by (induction evs arbitrary: t) (auto intro: learn_wf)

lemma known_stays: "wf t \<Longrightarrow> look t b \<noteq> None \<Longrightarrow> look (learn_all evs t) b \<noteq> None"
proof (induction evs arbitrary: t)
  case (Cons ev evs)
  obtain me a m where ev: "ev = (me, a, m)" by (cases ev)
  have "look (learn me a m t) b \<noteq> None" using Cons.prems by (simp add: look_learn del: not_None_eq)
  then show ?case using Cons.IH [OF learn_wf [OF Cons.prems(1)]] by (simp add: ev)
qed simp

lemma quiet_unchanged: "wf t \<Longrightarrow> \<forall>(me, a, m)\<in>set evs. a \<noteq> b \<Longrightarrow> look (learn_all evs t) b = look t b"
proof (induction evs arbitrary: t)
  case (Cons ev evs)
  obtain me a m where ev: "ev = (me, a, m)" by (cases ev)
  have "look (learn_all evs (learn me a m t)) b = look (learn me a m t) b" using Cons learn_wf by auto
  also have "\<dots> = look t b" using Cons.prems ev by (auto simp: look_learn)
  finally show ?case by (simp add: ev)
qed simp

lemma last_announcement_wins:
  assumes "wf t" and "me \<or> look t a \<noteq> None" and "\<forall>(me', a', m')\<in>set later. a' \<noteq> a"
  shows "look (learn_all (earlier @ (me, a, m) # later) t) a = Some m"
proof -
  let ?t = "learn_all earlier t"
  have "wf ?t" by (rule learn_all_wf [OF assms(1)])
  moreover have "me \<or> look ?t a \<noteq> None" using assms(2) known_stays [OF assms(1)] by blast
  ultimately have "wf (learn me a m ?t)" "look (learn me a m ?t) a = Some m" by (auto intro: learn_wf simp: look_learn)
  then show ?thesis using quiet_unchanged [OF _ assms(3)] by simp
qed

end

lemma get_hwaddr_append: "arp_get_hwaddr b (cache @ es) = (case arp_get_hwaddr b cache of Some m \<Rightarrow> Some m | None \<Rightarrow> arp_get_hwaddr b es)"
  by (induction cache) auto

lemma arp_learn_wf: "arp_wf cache \<Longrightarrow> arp_wf (arp_learn me a m cache)"
proof -
  assume wf: "arp_wf cache"
  let ?h = "\<lparr>ah_hwtype = ARP_ETHERNET, ah_protype = ARP_IPV4, ah_hwsize = 6, ah_prosize = 4, ah_opcode = ARP_REQUEST\<rparr>"
  let ?d = "\<lparr>ad_smac = m, ad_sip = a, ad_dmac = [], ad_dip = 0\<rparr>"
  obtain mg c where u: "update_arp_translation_table ?h ?d cache = (mg, c)" by fastforce
  have "ah_hwtype ?h = ARP_ETHERNET" by simp
  note f = update_arp_map [OF wf this u]
  show ?thesis using f(1-3) by (auto simp: arp_learn_def u insert_arp_translation_table_def arp_wf_def arp_entry_alloc_def)
qed

lemma arp_map_learn:
  assumes wf: "arp_wf cache"
  shows "arp_map (arp_learn me a m cache) b = (if b = a \<and> (me \<or> arp_map cache a \<noteq> None) then Some m else arp_map cache b)"
proof -
  let ?h = "\<lparr>ah_hwtype = ARP_ETHERNET, ah_protype = ARP_IPV4, ah_hwsize = 6, ah_prosize = 4, ah_opcode = ARP_REQUEST\<rparr>"
  let ?d = "\<lparr>ad_smac = m, ad_sip = a, ad_dmac = [], ad_dip = 0\<rparr>"
  obtain mg c where u: "update_arp_translation_table ?h ?d cache = (mg, c)" by fastforce
  have "ah_hwtype ?h = ARP_ETHERNET" by simp
  note f = update_arp_map [OF wf this u]
  have mg: "mg \<longleftrightarrow> arp_map cache a \<noteq> None" using f(3) arp_map_None [OF wf, of a] by simp
  have new: "arp_map (c @ [arp_entry_alloc ?h ?d]) b = (case arp_map c b of Some x \<Rightarrow> Some x | None \<Rightarrow> if b = a then Some m else None)"
    by (auto simp: arp_map_def get_hwaddr_append arp_entry_alloc_def split: option.splits)
  show ?thesis
  proof (cases mg)
    case True
    then show ?thesis using f(4) mg by (simp add: arp_learn_def u)
  next
    case False
    then show ?thesis using f(4) mg new by (cases "arp_map cache b") (auto simp: arp_learn_def u insert_arp_translation_table_def)
  qed
qed

interpretation arp: neighbour_table arp_wf arp_map arp_learn
  by unfold_locales (simp_all add: arp_learn_wf arp_map_learn)

text \<open>A received packet is one such announcement, or is ignored.\<close>

definition arp_accepts :: "sk_buff \<Rightarrow> bool" where
  "arp_accepts skb \<longleftrightarrow> (let h = arp_hdr_of (drop ETH_HDR_LEN (skb_head skb)) in ah_hwtype h = ARP_ETHERNET \<and> ah_protype h = ARP_IPV4)"

definition arp_data :: "sk_buff \<Rightarrow> arp_ipv4" where
  "arp_data skb = arp_ipv4_of (drop (ETH_HDR_LEN + ARP_HDR_LEN) (skb_head skb))"

lemma update_arp_header:
  "ah_hwtype h = ah_hwtype h' \<Longrightarrow> ad_sip d = ad_sip d' \<Longrightarrow> ad_smac d = ad_smac d' \<Longrightarrow>
     update_arp_translation_table h d cache = update_arp_translation_table h' d' cache"
  by (induction cache) simp_all

lemma arp_rcv_learns:
  "fst (arp_rcv tun skb nc) =
     (if arp_accepts skb
      then nc\<lparr>net_arp := arp_learn (dev_addr (net_dev nc) = ad_dip (arp_data skb)) (ad_sip (arp_data skb)) (ad_smac (arp_data skb)) (net_arp nc)\<rparr>
      else nc)"
proof -
  let ?h = "arp_hdr_of (drop ETH_HDR_LEN (skb_head skb))" and ?d = "arp_data skb"
  let ?h' = "\<lparr>ah_hwtype = ARP_ETHERNET, ah_protype = ARP_IPV4, ah_hwsize = 6, ah_prosize = 4, ah_opcode = ARP_REQUEST\<rparr>"
  let ?d' = "\<lparr>ad_smac = ad_smac ?d, ad_sip = ad_sip ?d, ad_dmac = [], ad_dip = 0\<rparr>"
  have "update_arp_translation_table ?h ?d (net_arp nc) = update_arp_translation_table ?h' ?d' (net_arp nc)" if "ah_hwtype ?h = ARP_ETHERNET"
    by (rule update_arp_header) (simp_all add: that)
  moreover have "arp_entry_alloc ?h ?d = arp_entry_alloc ?h' ?d'" if "ah_hwtype ?h = ARP_ETHERNET"
    using that by (simp add: arp_entry_alloc_def)
  ultimately show ?thesis
    by (auto simp: arp_rcv_def arp_accepts_def arp_data_def [symmetric] Let_def arp_learn_def netdev_get_def insert_arp_translation_table_def
        split: prod.splits)
qed

section \<open>The receive thread\<close>

text \<open>One frame through \<open>netdev_receive\<close>, \<open>ip_rcv\<close> and \<open>tcp_in\<close>: the network state, the sockets and the frames
  sent in answer by ARP and ICMP.  What TCP sends is in the log of its connection.\<close>

definition stack_rx ::
  "(bytes \<Rightarrow> int) \<Rightarrow> bool \<times> fec_rs_ctx option \<Rightarrow> bool \<Rightarrow> bytes \<Rightarrow> net \<times> sock_table \<Rightarrow> ((net \<times> sock_table) \<times> bytes list) cres" where
  "stack_rx tun shared mem frame st =
     (let (nc, tab) = st; (v, nc, frames) = netdev_rx tun frame nc in
      case v of
        RxIp (IpTcp skb) \<Rightarrow> cbind (tcp_in_sock (ip_of tun nc) shared mem skb tab) (\<lambda>tab. Ok ((nc, tab), frames))
      | _ \<Rightarrow> Ok ((nc, tab), frames))"

text \<open>The loop over the values of \<open>running\<close> it finds and the results of its reads, \<open>None\<close> for an error; at the
  end of the list it is asleep in the next read.  \<open>env i\<close> is what the other threads do to the sockets during
  the \<open>i\<close>-th read.  The flag says whether the thread has ended.\<close>

fun netdev_rx_loop ::
  "(bytes \<Rightarrow> int) \<Rightarrow> bool \<times> fec_rs_ctx option \<Rightarrow> bool \<Rightarrow> (nat \<Rightarrow> sock_table \<Rightarrow> sock_table) \<Rightarrow> nat \<Rightarrow> (bool \<times> bytes option) list \<Rightarrow>
   net \<times> sock_table \<Rightarrow> (bool \<times> (net \<times> sock_table) \<times> bytes list) cres" where
  "netdev_rx_loop tun shared mem env i [] st = Ok (False, st, [])"
| "netdev_rx_loop tun shared mem env i ((running, nread) # rs) st =
     (if \<not> running then Ok (True, st, [])
      else let st = (fst st, env i (snd st)) in
        case nread of
          None \<Rightarrow> Ok (True, st, [])
        | Some frame \<Rightarrow>
            cbind (stack_rx tun shared mem frame st) (\<lambda>(st, sent).
            cbind (netdev_rx_loop tun shared mem env (Suc i) rs st) (\<lambda>(ended, st, sent').
              Ok (ended, st, sent @ sent'))))"

text \<open>The frames it takes before it ends, and what a frame announces or carries.\<close>

fun taken_frames :: "(bool \<times> bytes option) list \<Rightarrow> bytes list" where
  "taken_frames [] = []"
| "taken_frames ((running, nread) # rs) =
     (if \<not> running then [] else case nread of None \<Rightarrow> [] | Some frame \<Rightarrow> frame # taken_frames rs)"

definition rx_skb :: "bytes \<Rightarrow> sk_buff" where
  "rx_skb frame = (let skb = alloc_skb 0 BUFLEN in
     skb\<lparr>skb_head := buf_write (skb_head skb) 0 (take BUFLEN frame), skb_len := of_nat (length (take BUFLEN frame))\<rparr>)"

definition frame_arp :: "u32 \<Rightarrow> bytes \<Rightarrow> (bool \<times> u32 \<times> bytes) list" where
  "frame_arp me frame =
     (let skb = rx_skb frame; d = arp_data skb in
      if get_be16 (skb_head skb) 12 = ETH_P_ARP \<and> arp_accepts skb then [(me = ad_dip d, ad_sip d, ad_smac d)] else [])"

definition frame_segment :: "bytes \<Rightarrow> sk_buff option" where
  "frame_segment frame =
     (let skb = rx_skb frame in
      if get_be16 (skb_head skb) 12 = ETH_P_IP then (case ip_rcv skb of IpTcp s \<Rightarrow> Some s | _ \<Rightarrow> None) else None)"

definition frame_for :: "bytes \<Rightarrow> socket \<Rightarrow> bool" where
  "frame_for frame so \<longleftrightarrow>
     (case (frame_segment frame, so_sk so) of
        (Some skb, Some sk) \<Rightarrow>
          let th = tcp_hdr (tcp_init_segment skb) in sk_sport sk = th_dport th \<and> sk_dport sk = th_sport th
      | _ \<Rightarrow> False)"

lemma netdev_rx_skb: "netdev_rx tun frame nc = netdev_receive tun (rx_skb frame) nc"
  by (simp add: netdev_rx_def rx_skb_def Let_def)

lemma stack_rx_eq:
  "stack_rx tun shared mem frame (nc, tab) =
     (let nc' = nc\<lparr>net_arp := arp.learn_all (frame_arp (dev_addr (net_dev nc)) frame) (net_arp nc)\<rparr>; sent = snd (snd (netdev_rx tun frame nc)) in
      case frame_segment frame of
        Some skb \<Rightarrow> cbind (tcp_in_sock (ip_of tun nc') shared mem skb tab) (\<lambda>tab. Ok ((nc', tab), sent))
      | None \<Rightarrow> Ok ((nc', tab), sent))"
proof -
  let ?ty = "get_be16 (skb_head (rx_skb frame)) 12"
  have ne: "ETH_P_ARP \<noteq> ETH_P_IP" by (simp add: ETH_P_ARP_def ETH_P_IP_def)
  consider "?ty = ETH_P_ARP" | "?ty = ETH_P_IP" | "?ty \<noteq> ETH_P_ARP" "?ty \<noteq> ETH_P_IP" by blast
  then show ?thesis
  proof cases
    case 1
    obtain nc' fs where r: "arp_rcv tun (rx_skb frame) nc = (nc', fs)" by fastforce
    have nr: "netdev_rx tun frame nc = (RxArp, nc', fs)" using 1 r by (simp add: netdev_rx_skb netdev_receive_def Let_def)
    have "nc' = nc\<lparr>net_arp := arp.learn_all (frame_arp (dev_addr (net_dev nc)) frame) (net_arp nc)\<rparr>"
      using arp_rcv_learns [of tun "rx_skb frame" nc] 1 r by (simp add: frame_arp_def Let_def)
    then show ?thesis using 1 ne nr by (simp add: stack_rx_def frame_segment_def Let_def)
  next
    case 2
    have "frame_arp (dev_addr (net_dev nc)) frame = []" using 2 ne by (simp add: frame_arp_def Let_def)
    then show ?thesis using 2 ne
      by (cases "ip_rcv (rx_skb frame)") (simp_all add: stack_rx_def netdev_rx_skb netdev_receive_def frame_segment_def Let_def)
  next
    case 3
    then show ?thesis by (simp add: stack_rx_def netdev_rx_skb netdev_receive_def frame_segment_def frame_arp_def Let_def)
  qed
qed

lemma segment_frame:
  assumes "tcp_in_sock out shared mem skb tab = Ok tab'" and "table_wf tab"
  shows "table_wf tab'" and "so \<in> set (sockets tab) \<Longrightarrow>
    \<not> (\<exists>sk. so_sk so = Some sk \<and> sk_sport sk = th_dport (tcp_hdr (tcp_init_segment skb)) \<and> sk_dport sk = th_sport (tcp_hdr (tcp_init_segment skb))) \<Longrightarrow>
    so \<in> set (sockets tab')"
  using segment_touches [OF assms(2,1)] assms(2) touches_wf touches_other by blast+

lemma stack_rx_Ok:
  assumes "stack_rx tun shared mem frame (nc, tab) = Ok ((nc', tab'), sent)" and "table_wf tab"
  shows "nc' = nc\<lparr>net_arp := arp.learn_all (frame_arp (dev_addr (net_dev nc)) frame) (net_arp nc)\<rparr>" and "table_wf tab'"
    and "so \<in> set (sockets tab) \<Longrightarrow> \<not> frame_for frame so \<Longrightarrow> so \<in> set (sockets tab')"
proof -
  let ?nc = "nc\<lparr>net_arp := arp.learn_all (frame_arp (dev_addr (net_dev nc)) frame) (net_arp nc)\<rparr>"
  have e: "nc' = ?nc" and c: "case frame_segment frame of None \<Rightarrow> tab' = tab | Some skb \<Rightarrow> tcp_in_sock (ip_of tun ?nc) shared mem skb tab = Ok tab'"
    using assms(1) unfolding stack_rx_eq by (auto simp: Let_def cbind_Ok_iff split: option.splits)
  show "nc' = ?nc" by (fact e)
  show "table_wf tab'" using c segment_frame(1) assms(2) by (auto split: option.splits)
  assume so: "so \<in> set (sockets tab)" "\<not> frame_for frame so"
  show "so \<in> set (sockets tab')"
  proof (cases "frame_segment frame")
    case (Some skb)
    have "\<not> (\<exists>sk. so_sk so = Some sk \<and> sk_sport sk = th_dport (tcp_hdr (tcp_init_segment skb)) \<and> sk_dport sk = th_sport (tcp_hdr (tcp_init_segment skb)))"
      using so(2) Some by (auto simp: frame_for_def Let_def)
    moreover have "tcp_in_sock (ip_of tun ?nc) shared mem skb tab = Ok tab'" using c Some by simp
    ultimately show ?thesis using segment_frame(2) assms(2) so(1) by blast
  qed (use c so(1) in simp)
qed

text \<open>What the loop leaves: a well-formed table, the neighbours announced in the frames, and every socket that
  no frame was for.\<close>

lemma rx_loop_Ok:
  assumes "netdev_rx_loop tun shared mem env i rs (nc, tab) = Ok (ended, (nc', tab'), sent)" and "table_wf tab"
    and env: "\<forall>j tab. table_wf tab \<longrightarrow> table_wf (env j tab)"
  shows "nc' = nc\<lparr>net_arp := arp.learn_all (concat (map (frame_arp (dev_addr (net_dev nc))) (taken_frames rs))) (net_arp nc)\<rparr>" and "table_wf tab'"
    and "so \<in> set (sockets tab) \<Longrightarrow> \<forall>f\<in>set (taken_frames rs). \<not> frame_for f so \<Longrightarrow>
      \<forall>j tab. so \<in> set (sockets tab) \<longrightarrow> so \<in> set (sockets (env j tab)) \<Longrightarrow> so \<in> set (sockets tab')"
    and "ended = (\<exists>(running, nread)\<in>set rs. \<not> running \<or> nread = None)"
proof -
  have "nc' = nc\<lparr>net_arp := arp.learn_all (concat (map (frame_arp (dev_addr (net_dev nc))) (taken_frames rs))) (net_arp nc)\<rparr> \<and> table_wf tab' \<and>
    (so \<in> set (sockets tab) \<longrightarrow> (\<forall>f\<in>set (taken_frames rs). \<not> frame_for f so) \<longrightarrow>
      (\<forall>j tab. so \<in> set (sockets tab) \<longrightarrow> so \<in> set (sockets (env j tab))) \<longrightarrow> so \<in> set (sockets tab')) \<and>
    ended = (\<exists>(running, nread)\<in>set rs. \<not> running \<or> nread = None)"
    using assms(1,2)
  proof (induction rs arbitrary: i nc tab sent)
    case (Cons r rs)
    obtain running nread where r: "r = (running, nread)" by (cases r)
    show ?case
    proof (cases "running \<and> nread \<noteq> None")
      case False
      then show ?thesis using Cons.prems env r by auto
    next
      case True
      then obtain f where f: "running" "nread = Some f" by blast
      obtain nc1 tab1 s1 s2 where s: "stack_rx tun shared mem f (nc, env i tab) = Ok ((nc1, tab1), s1)"
        "netdev_rx_loop tun shared mem env (Suc i) rs (nc1, tab1) = Ok (ended, (nc', tab'), s2)"
        using Cons.prems(1) f r by (auto simp: cbind_Ok_iff)
      have "table_wf (env i tab)" using env Cons.prems(2) by blast
      note a = stack_rx_Ok [OF s(1) this]
      note b = Cons.IH [OF s(2) a(2)]
      show ?thesis using a(1,3) b f r by auto
    qed
  qed simp
  then show "nc' = nc\<lparr>net_arp := arp.learn_all (concat (map (frame_arp (dev_addr (net_dev nc))) (taken_frames rs))) (net_arp nc)\<rparr>" and "table_wf tab'"
    and "so \<in> set (sockets tab) \<Longrightarrow> \<forall>f\<in>set (taken_frames rs). \<not> frame_for f so \<Longrightarrow>
      \<forall>j tab. so \<in> set (sockets tab) \<longrightarrow> so \<in> set (sockets (env j tab)) \<Longrightarrow> so \<in> set (sockets tab')"
    and "ended = (\<exists>(running, nread)\<in>set rs. \<not> running \<or> nread = None)"
    by blast+
qed

end
