(* ===== verification/Process.thy ===== *)
theory Process
  imports Net_Rx Ipc List_Head Tcp_State
begin

text \<open>
  The process around the stack: \<open>src/main.c\<close>, \<open>src/cli.c\<close>, \<open>src/tuntap_if.c\<close>, the thread that accepts connections of
  applications (\<open>start_ipc_listener\<close> in \<open>src/ipc.c\<close>) and the release of everything at the end.  System calls are
  parameters: their results are given, and a sleeping call is the end of a list.
\<close>

section \<open>Results of a process\<close>

text \<open>A step of the process goes on, ends it with a status (\<open>exit\<close>), or has no defined meaning.\<close>

datatype 'a proc = Run 'a | Exit int | Crash

fun pbind :: "'a proc \<Rightarrow> ('a \<Rightarrow> 'b proc) \<Rightarrow> 'b proc" where
  "pbind (Run x) f = f x"
| "pbind (Exit c) f = Exit c"
| "pbind Crash f = Crash"

lemma pbind_Run_iff: "pbind p f = Run y \<longleftrightarrow> (\<exists>x. p = Run x \<and> f x = Run y)"
  by (cases p) auto

lemma pbind_Exit_iff: "pbind p f = Exit c \<longleftrightarrow> p = Exit c \<or> (\<exists>x. p = Run x \<and> f x = Exit c)"
  by (cases p) auto

lemma pbind_Crash_iff: "pbind p f = Crash \<longleftrightarrow> p = Crash \<or> (\<exists>x. p = Run x \<and> f x = Crash)"
  by (cases p) auto

lemmas pbind_iffs = pbind_Run_iff pbind_Exit_iff pbind_Crash_iff

text \<open>What the operating system answers.  \<open>sys_opts\<close> are the characters that \<open>getopt\<close> returns before -1;
  \<open>sys_ioctl fd name\<close> is the result of \<open>TUNSETIFF\<close> with the interface name found in the request afterwards;
  \<open>sys_create\<close> and \<open>sys_join\<close> are indexed by the thread.\<close>

record sys =
  sys_opts :: string
  sys_sigmask :: int
  sys_open :: "string \<Rightarrow> int"
  sys_ioctl :: "int \<Rightarrow> string \<Rightarrow> int \<times> string"
  sys_system :: "string \<Rightarrow> int"
  sys_prctl :: "int \<Rightarrow> int"
  sys_create :: "nat \<Rightarrow> int"
  sys_join :: "nat \<Rightarrow> int"

text \<open>The globals of the process.  The lists of routes and of ARP entries are the fields \<open>ps_routes\<close> and
  \<open>ps_arp\<close>; \<open>loop\<close> and \<open>netdev\<close> are null pointers before \<open>netdev_init\<close>.\<close>

record process =
  ps_debug :: bool
  ps_running :: bool
  ps_blocked :: "int list"
  ps_tun_fd :: int
  ps_dev :: "string option"
  ps_cmds :: "string list"
  ps_loop :: "netdev option"
  ps_netdev :: "netdev option"
  ps_routes :: "rtentry list"
  ps_arp :: "arp_cache_entry list"
  ps_shared :: "bool \<times> fec_rs_ctx option"
  ps_tab :: sock_table
  ps_ipc :: ipc_threads
  ps_dropped :: "int list"
  ps_created :: "nat list"
  ps_cancelled :: "nat list"

definition ps_start :: "fec_rs_ctx \<Rightarrow> process" where
  "ps_start ctx = \<lparr>ps_debug = False, ps_running = True, ps_blocked = [], ps_tun_fd = 0, ps_dev = None, ps_cmds = [],
     ps_loop = None, ps_netdev = None, ps_routes = [], ps_arp = [], ps_shared = (False, Some ctx), ps_tab = sock_table_init,
     ps_ipc = \<lparr>th_socks = [], socket_count = 0, th_closed = []\<rparr>, ps_dropped = [], ps_created = [], ps_cancelled = []\<rparr>"

definition SIGINT :: int where "SIGINT = 2"
definition SIGQUIT :: int where "SIGQUIT = 3"
definition CAP_NET_ADMIN :: int where "CAP_NET_ADMIN = 12"
definition CAP_SETPCAP :: int where "CAP_SETPCAP = 8"
definition THREAD_CORE :: nat where "THREAD_CORE = 0"
definition THREAD_TIMERS :: nat where "THREAD_TIMERS = 1"
definition THREAD_IPC :: nat where "THREAD_IPC = 2"
definition THREAD_SIGNAL :: nat where "THREAD_SIGNAL = 3"
definition CMDBUFLEN :: nat where "CMDBUFLEN = 100"

section \<open>Command line\<close>

fun parse_opts :: "string \<Rightarrow> bool \<Rightarrow> bool proc" where
  "parse_opts [] debug = Run debug"
| "parse_opts (opt # opts) debug = (if opt = CHR ''d'' then parse_opts opts True else Exit 1)"

definition parse_cli :: "sys \<Rightarrow> process \<Rightarrow> process proc" where
  "parse_cli sys ps = pbind (parse_opts (sys_opts sys) (ps_debug ps)) (\<lambda>d. Run (ps\<lparr>ps_debug := d\<rparr>))"

section \<open>The tap device\<close>

definition tapaddr :: string where "tapaddr = ''10.0.0.5''"
definition taproute :: string where "taproute = ''10.0.0.0/24''"

text \<open>The command line is cut to the buffer of \<open>run_cmd\<close>, and logged here.\<close>

definition run_cmd :: "sys \<Rightarrow> string \<Rightarrow> process \<Rightarrow> int \<times> process" where
  "run_cmd sys cmd ps = (let buf = take (CMDBUFLEN - 1) cmd in (sys_system sys buf, ps\<lparr>ps_cmds := ps_cmds ps @ [buf]\<rparr>))"

definition set_if_route :: "sys \<Rightarrow> string \<Rightarrow> string \<Rightarrow> process \<Rightarrow> int \<times> process" where
  "set_if_route sys dev cidr = run_cmd sys (''ip route add dev '' @ dev @ '' '' @ cidr)"

definition set_if_address :: "sys \<Rightarrow> string \<Rightarrow> string \<Rightarrow> process \<Rightarrow> int \<times> process" where
  "set_if_address sys dev cidr = run_cmd sys (''ip address add dev '' @ dev @ '' local '' @ cidr)"

definition set_if_up :: "sys \<Rightarrow> string \<Rightarrow> process \<Rightarrow> int \<times> process" where
  "set_if_up sys dev = run_cmd sys (''ip link set dev '' @ dev @ '' up'')"

text \<open>\<open>dev\<close> is a buffer of ten bytes; a longer name of the interface is written past its end.\<close>

definition tun_alloc :: "sys \<Rightarrow> string \<Rightarrow> (int \<times> string) proc" where
  "tun_alloc sys dev =
     (let fd = sys_open sys ''/dev/net/tun'';
          fd = (if fd < 0 then sys_open sys ''/dev/net/tap'' else fd) in
      if fd < 0 then Exit 1
      else let (err, name) = sys_ioctl sys fd dev in
        if err < 0 then Run (err, dev)
        else if 10 \<le> length name then Crash
        else Run (fd, name))"

definition tun_init :: "sys \<Rightarrow> process \<Rightarrow> process proc" where
  "tun_init sys ps =
     pbind (tun_alloc sys (take 9 ''tap0'')) (\<lambda>(fd, dev).
       let ps = ps\<lparr>ps_tun_fd := fd, ps_dev := Some dev\<rparr>;
           (_, ps) = set_if_up sys dev ps;
           (_, ps) = set_if_route sys dev taproute ps;
           (_, ps) = set_if_address sys dev tapaddr ps
       in Run ps)"

definition free_tun :: "process \<Rightarrow> process" where
  "free_tun ps = ps\<lparr>ps_dev := None\<rparr>"

section \<open>Initialisation\<close>

definition ps_netdev_init :: "process \<Rightarrow> process" where
  "ps_netdev_init ps = (let (lo, dev) = netdev_init in ps\<lparr>ps_loop := Some lo, ps_netdev := Some dev\<rparr>)"

definition ps_route_init :: "process \<Rightarrow> process proc" where
  "ps_route_init ps =
     (case (ps_loop ps, ps_netdev ps) of
        (Some lo, Some dev) \<Rightarrow> Run (ps\<lparr>ps_routes := ps_routes ps @ route_init lo dev\<rparr>)
      | _ \<Rightarrow> Crash)"

definition arp_init :: "process \<Rightarrow> process" where
  "arp_init ps = ps"

definition tcp_init :: "process \<Rightarrow> process" where
  "tcp_init ps = (let (rc, sh) = tcp_fec_init_shared (ps_shared ps) in ps\<lparr>ps_shared := sh\<rparr>)"

definition init_signals :: "sys \<Rightarrow> process \<Rightarrow> process proc" where
  "init_signals sys ps =
     (if sys_sigmask sys \<noteq> 0 then Exit 1 else Run (ps\<lparr>ps_blocked := [SIGINT, SIGQUIT]\<rparr>))"

definition init_stack :: "sys \<Rightarrow> process \<Rightarrow> process proc" where
  "init_stack sys ps =
     pbind (tun_init sys ps) (\<lambda>ps.
     pbind (ps_route_init (ps_netdev_init ps)) (\<lambda>ps. Run (tcp_init (arp_init ps))))"

definition init_security :: "sys \<Rightarrow> process \<Rightarrow> process proc" where
  "init_security sys ps =
     (if sys_prctl sys CAP_NET_ADMIN = -1 then Exit 1
      else if sys_prctl sys CAP_SETPCAP = -1 then Exit 1
      else Run (ps\<lparr>ps_dropped := [CAP_NET_ADMIN, CAP_SETPCAP]\<rparr>))"

text \<open>A thread that could not be created is only reported.\<close>

definition create_thread :: "sys \<Rightarrow> nat \<Rightarrow> process \<Rightarrow> process" where
  "create_thread sys i ps = (if sys_create sys i \<noteq> 0 then ps else ps\<lparr>ps_created := ps_created ps @ [i]\<rparr>)"

definition run_threads :: "sys \<Rightarrow> process \<Rightarrow> process" where
  "run_threads sys ps =
     create_thread sys THREAD_SIGNAL (create_thread sys THREAD_IPC (create_thread sys THREAD_TIMERS (create_thread sys THREAD_CORE ps)))"

definition startup :: "sys \<Rightarrow> process \<Rightarrow> process proc" where
  "startup sys ps =
     pbind (parse_cli sys ps) (\<lambda>ps.
     pbind (init_signals sys ps) (\<lambda>ps.
     pbind (init_stack sys ps) (\<lambda>ps.
     pbind (init_security sys ps) (\<lambda>ps. Run (run_threads sys ps)))))"

text \<open>Joining a thread that was never created goes through an identifier that was never assigned.\<close>

fun join_threads :: "sys \<Rightarrow> nat list \<Rightarrow> process \<Rightarrow> process proc" where
  "join_threads sys [] ps = Run ps"
| "join_threads sys (i # is) ps =
     (if i \<notin> set (ps_created ps) then Crash
      else if sys_join sys i \<noteq> 0 then Exit 1
      else join_threads sys is ps)"

definition wait_for_threads :: "sys \<Rightarrow> process \<Rightarrow> process proc" where
  "wait_for_threads sys ps = join_threads sys [0..<3] ps"

section \<open>What start-up achieves\<close>

lemma parse_opts_iff:
  "parse_opts opts d = Run d' \<longleftrightarrow> set opts \<subseteq> {CHR ''d''} \<and> d' = (d \<or> opts \<noteq> [])"
  "parse_opts opts d = Exit c \<longleftrightarrow> \<not> set opts \<subseteq> {CHR ''d''} \<and> c = 1"
  "parse_opts opts d \<noteq> Crash"
  by (induction opts arbitrary: d) auto

definition tap_opened :: "sys \<Rightarrow> int" where
  "tap_opened sys = (if sys_open sys ''/dev/net/tun'' < 0 then sys_open sys ''/dev/net/tap'' else sys_open sys ''/dev/net/tun'')"

text \<open>The kernel answers \<open>TUNSETIFF\<close> for a plain name with that name.\<close>

definition kernel_names :: "sys \<Rightarrow> bool" where
  "kernel_names sys \<longleftrightarrow> (\<forall>fd. fst (sys_ioctl sys fd ''tap0'') \<ge> 0 \<longrightarrow> snd (sys_ioctl sys fd ''tap0'') = ''tap0'')"

lemma tun_alloc_cases:
  assumes "kernel_names sys"
  shows "tun_alloc sys ''tap0'' =
    (if tap_opened sys < 0 then Exit 1
     else Run (if fst (sys_ioctl sys (tap_opened sys) ''tap0'') < 0 then fst (sys_ioctl sys (tap_opened sys) ''tap0'') else tap_opened sys, ''tap0''))"
proof (cases "tap_opened sys < 0")
  case False
  have "tun_alloc sys ''tap0'' =
      (let (err, name) = sys_ioctl sys (tap_opened sys) ''tap0'' in
        if err < 0 then Run (err, ''tap0'') else if 10 \<le> length name then Crash else Run (tap_opened sys, name))"
    unfolding tun_alloc_def Let_def tap_opened_def [symmetric] using False by simp
  moreover have "0 \<le> fst (sys_ioctl sys (tap_opened sys) ''tap0'') \<Longrightarrow> snd (sys_ioctl sys (tap_opened sys) ''tap0'') = ''tap0''"
    using assms by (simp add: kernel_names_def)
  ultimately show ?thesis using False by (auto simp: case_prod_beta)
qed (simp add: tun_alloc_def tap_opened_def Let_def)

definition tap_commands :: "string list" where
  "tap_commands = [''ip link set dev tap0 up'', ''ip route add dev tap0 10.0.0.0/24'', ''ip address add dev tap0 local 10.0.0.5'']"

text \<open>The process is up exactly when the options are known, the signals are blocked, one of the device files
  opens and both capabilities are dropped; nothing else is looked at.  In all other cases it exits with 1.\<close>

definition starts :: "sys \<Rightarrow> bool" where
  "starts sys \<longleftrightarrow> set (sys_opts sys) \<subseteq> {CHR ''d''} \<and> sys_sigmask sys = 0 \<and> 0 \<le> tap_opened sys \<and>
     sys_prctl sys CAP_NET_ADMIN \<noteq> -1 \<and> sys_prctl sys CAP_SETPCAP \<noteq> -1"

definition started :: "sys \<Rightarrow> process \<Rightarrow> process" where
  "started sys ps = run_threads sys (ps\<lparr>ps_debug := ps_debug ps \<or> sys_opts sys \<noteq> [], ps_blocked := [SIGINT, SIGQUIT],
     ps_tun_fd := (let err = fst (sys_ioctl sys (tap_opened sys) ''tap0'') in if err < 0 then err else tap_opened sys),
     ps_dev := Some ''tap0'', ps_cmds := ps_cmds ps @ tap_commands, ps_loop := Some (fst netdev_init), ps_netdev := Some (snd netdev_init),
     ps_routes := ps_routes ps @ route_init (fst netdev_init) (snd netdev_init), ps_shared := snd (tcp_fec_init_shared (ps_shared ps)),
     ps_dropped := [CAP_NET_ADMIN, CAP_SETPCAP]\<rparr>)"

lemma init_stack_cases:
  assumes "kernel_names sys"
  shows "init_stack sys ps = (if tap_opened sys < 0 then Exit 1 else
    Run (ps\<lparr>ps_tun_fd := (let err = fst (sys_ioctl sys (tap_opened sys) ''tap0'') in if err < 0 then err else tap_opened sys),
     ps_dev := Some ''tap0'', ps_cmds := ps_cmds ps @ tap_commands, ps_loop := Some (fst netdev_init), ps_netdev := Some (snd netdev_init),
     ps_routes := ps_routes ps @ route_init (fst netdev_init) (snd netdev_init), ps_shared := snd (tcp_fec_init_shared (ps_shared ps))\<rparr>))"
  using tun_alloc_cases [OF assms]
  by (simp add: init_stack_def tun_init_def Let_def case_prod_beta set_if_up_def set_if_route_def set_if_address_def run_cmd_def
      CMDBUFLEN_def tap_commands_def tapaddr_def taproute_def ps_netdev_init_def ps_route_init_def arp_init_def tcp_init_def)

lemma startup_cases:
  assumes "kernel_names sys"
  shows "startup sys ps = (if starts sys then Run (started sys ps) else Exit 1)"
proof (cases "parse_opts (sys_opts sys) (ps_debug ps)")
  case (Run d)
  then have "set (sys_opts sys) \<subseteq> {CHR ''d''}" "d = (ps_debug ps \<or> sys_opts sys \<noteq> [])" using parse_opts_iff(1) by blast+
  then show ?thesis using Run
    by (simp add: startup_def parse_cli_def init_signals_def init_security_def init_stack_cases [OF assms] starts_def started_def not_less)
next
  case (Exit c)
  then have "\<not> set (sys_opts sys) \<subseteq> {CHR ''d''}" "c = 1" using parse_opts_iff(2) by blast+
  then show ?thesis using Exit by (simp add: startup_def parse_cli_def starts_def)
qed (simp add: parse_opts_iff(3))

section \<open>Addresses as text\<close>

text \<open>\<open>inet_pton\<close> for IPv4: four decimal numbers up to 255 without leading zeros, separated by dots.\<close>

fun split_dots :: "string \<Rightarrow> string list" where
  "split_dots [] = [[]]"
| "split_dots (c # cs) =
     (if c = CHR ''.'' then [] # split_dots cs
      else (case split_dots cs of [] \<Rightarrow> [[c]] | s # ss \<Rightarrow> (c # s) # ss))"

definition digit :: "char \<Rightarrow> nat option" where
  "digit c = (let n = of_char c :: nat in if 48 \<le> n \<and> n \<le> 57 then Some (n - 48) else None)"

fun octet_from :: "nat \<Rightarrow> string \<Rightarrow> nat option" where
  "octet_from n [] = (if n \<le> 255 then Some n else None)"
| "octet_from n (c # cs) = (case digit c of None \<Rightarrow> None | Some d \<Rightarrow> octet_from (10 * n + d) cs)"

definition octet :: "string \<Rightarrow> nat option" where
  "octet s = (if s = [] \<or> (1 < length s \<and> hd s = CHR ''0'') then None else octet_from 0 s)"

definition ip_parse :: "string \<Rightarrow> u32 proc" where
  "ip_parse s =
     (case map octet (split_dots s) of
        [Some a, Some b, Some c, Some d] \<Rightarrow> Run (of_be32 (of_nat a) (of_nat b) (of_nat c) (of_nat d))
      | _ \<Rightarrow> Exit 1)"

definition digit_char :: "nat \<Rightarrow> char" where "digit_char d = char_of (48 + d)"

definition show_octet :: "nat \<Rightarrow> string" where
  "show_octet n =
     (if n < 10 then [digit_char n]
      else if n < 100 then [digit_char (n div 10), digit_char (n mod 10)]
      else [digit_char (n div 100), digit_char (n div 10 mod 10), digit_char (n mod 10)])"

definition show_ip :: "u8 \<Rightarrow> u8 \<Rightarrow> u8 \<Rightarrow> u8 \<Rightarrow> string" where
  "show_ip a b c d = show_octet (unat a) @ ''.'' @ show_octet (unat b) @ ''.'' @ show_octet (unat c) @ ''.'' @ show_octet (unat d)"

lemma digit_char: "d < 10 \<Longrightarrow> digit (digit_char d) = Some d" "d < 10 \<Longrightarrow> digit_char d \<noteq> CHR ''.''" "d < 10 \<Longrightarrow> d \<noteq> 0 \<Longrightarrow> digit_char d \<noteq> CHR ''0''"
proof -
  assume d: "d < 10"
  then have v: "of_char (digit_char d) = (48 + d :: nat)" by (simp add: digit_char_def)
  show "digit (digit_char d) = Some d" using d v by (simp add: digit_def)
  show "digit_char d \<noteq> CHR ''.''" using v by auto
  show "d \<noteq> 0 \<Longrightarrow> digit_char d \<noteq> CHR ''0''" using v by auto
qed

lemma octet_digits:
  assumes "a < 10" and "b < 10" and "c < 10"
  shows "octet [digit_char a] = Some a" and "a \<noteq> 0 \<Longrightarrow> octet [digit_char a, digit_char b] = Some (10 * a + b)"
    and "a \<noteq> 0 \<Longrightarrow> 100 * a + 10 * b + c \<le> 255 \<Longrightarrow> octet [digit_char a, digit_char b, digit_char c] = Some (100 * a + 10 * b + c)"
  using assms by (simp_all add: octet_def digit_char)

lemma octet_cases:
  assumes "n < 256"
  obtains a where "a < 10" "n = a" "show_octet n = [digit_char a]"
    | a b where "0 < a" "a < 10" "b < 10" "n = 10 * a + b" "show_octet n = [digit_char a, digit_char b]"
    | a b c where "0 < a" "a < 10" "b < 10" "c < 10" "n = 100 * a + 10 * b + c" "show_octet n = [digit_char a, digit_char b, digit_char c]"
proof -
  consider "n < 10" | "\<not> n < 10" "n < 100" | "\<not> n < 100" by linarith
  then show thesis
  proof cases
    case 1
    then show thesis using that(1) [of n] by (simp add: show_octet_def)
  next
    case 2
    then have "0 < n div 10" "n div 10 < 10" by presburger+
    then show thesis using 2 that(2) [of "n div 10" "n mod 10"] by (simp add: show_octet_def)
  next
    case 3
    have d: "0 < n div 100" "n div 100 < 10" using 3 assms by (simp_all add: div_less_iff_less_mult div_greater_zero_iff)
    have "n div 10 div 10 = n div 100" by (simp add: div_mult2_eq [symmetric])
    then have "n = 100 * (n div 100) + 10 * (n div 10 mod 10) + n mod 10"
      using div_mult_mod_eq [of n 10] div_mult_mod_eq [of "n div 10" 10] by linarith
    note d = d this
    have s: "show_octet n = [digit_char (n div 100), digit_char (n div 10 mod 10), digit_char (n mod 10)]" using 3 by (simp add: show_octet_def)
    show thesis by (rule that(3) [OF d(1,2) _ _ d(3) s]) simp_all
  qed
qed

lemma octet_show: "n < 256 \<Longrightarrow> octet (show_octet n) = Some n"
proof -
  assume n: "n < 256"
  then show ?thesis
  proof (cases rule: octet_cases)
    case (3 a b c)
    then show ?thesis using octet_digits(3) [of a b c] n by simp
  qed (simp_all add: octet_digits)
qed

lemma show_octet_no_dot: "n < 256 \<Longrightarrow> CHR ''.'' \<notin> set (show_octet n)"
  by (erule octet_cases) (auto dest: digit_char(2))

lemma split_dots_ne: "split_dots s \<noteq> []"
  by (cases s) (auto split: list.splits)

lemma split_dots_plain: "CHR ''.'' \<notin> set s \<Longrightarrow> split_dots s = [s]"
  by (induction s) auto

lemma split_dots_append: "CHR ''.'' \<notin> set s \<Longrightarrow> split_dots (s @ CHR ''.'' # t) = s # split_dots t"
  by (induction s) auto

text \<open>Every address is the value of its dotted form.\<close>

lemma ip_parse_show: "ip_parse (show_ip a b c d) = Run (of_be32 a b c d)"
proof -
  have b: "unat x < 256" for x :: u8 using unsigned_less [of x] by simp
  have "split_dots (show_ip a b c d) = [show_octet (unat a), show_octet (unat b), show_octet (unat c), show_octet (unat d)]"
    using show_octet_no_dot [OF b] by (simp add: show_ip_def split_dots_append split_dots_plain)
  then show ?thesis by (simp add: ip_parse_def octet_show [OF b])
qed

text \<open>The addresses of the two devices and the gateway are those of the texts in the sources; the gateway is
  the address of the stack itself.\<close>

lemma device_addresses:
  "ip_parse ''127.0.0.1'' = Run (dev_addr (fst netdev_init))" "ip_parse ''10.0.0.5'' = Run (dev_addr (snd netdev_init))"
  "ip_parse tapaddr = Run (rt_gateway (last (route_init (fst netdev_init) (snd netdev_init))))"
  "rt_gateway (last (route_init (fst netdev_init) (snd netdev_init))) = dev_addr (snd netdev_init)"
proof -
  have t: "show_ip 127 0 0 1 = ''127.0.0.1''" "show_ip 10 0 0 5 = ''10.0.0.5''" by code_simp+
  show "ip_parse ''127.0.0.1'' = Run (dev_addr (fst netdev_init))"
    using ip_parse_show [of 127 0 0 1] unfolding t by (simp add: netdev_init_def netdev_alloc_def of_be32_def)
  show g: "ip_parse ''10.0.0.5'' = Run (dev_addr (snd netdev_init))"
    using ip_parse_show [of 10 0 0 5] unfolding t by (simp add: netdev_init_def netdev_alloc_def of_be32_def)
  show "rt_gateway (last (route_init (fst netdev_init) (snd netdev_init))) = dev_addr (snd netdev_init)"
    by (simp add: route_init_def route_add_def route_alloc_def netdev_init_def netdev_alloc_def)
  then show "ip_parse tapaddr = Run (rt_gateway (last (route_init (fst netdev_init) (snd netdev_init))))"
    using g by (simp add: tapaddr_def)
qed

section \<open>The thread that accepts connections\<close>

text \<open>\<open>accept\<close> with its result and that of the \<open>pthread_create\<close> that follows; at the end of the list it is asleep
  in \<open>accept\<close>.\<close>

fun accept_loop :: "(int \<times> int) list \<Rightarrow> ipc_threads \<Rightarrow> ipc_threads proc" where
  "accept_loop [] st = Run st"
| "accept_loop ((datasock, created) # as) st =
     (if datasock = -1 then Exit 1
      else let st = ipc_alloc_thread datasock st in
        if created \<noteq> 0 then Exit 1 else accept_loop as st)"

record listener =
  ln_socket :: int
  ln_bind :: int
  ln_listen :: int
  ln_chmod :: int
  ln_accepts :: "(int \<times> int) list"

definition sockname :: string where "sockname = ''/tmp/lvlip.socket''"
definition SUN_PATH_LEN :: nat where "SUN_PATH_LEN = 108"

definition start_ipc_listener :: "listener \<Rightarrow> ipc_threads \<Rightarrow> ipc_threads proc" where
  "start_ipc_listener ln st =
     (if min (length sockname) SUN_PATH_LEN = SUN_PATH_LEN then Exit (-1)
      else if ln_socket ln < 0 then Exit 1
      else if ln_bind ln = -1 then Exit 1
      else if ln_listen ln = -1 then Exit 1
      else if ln_chmod ln = -1 then Exit 1
      else accept_loop (ln_accepts ln) st)"

text \<open>The records while connections come and go: a thread that ends after its last request removes its record,
  one that ends on a failed request only closes its descriptor.\<close>

datatype conn_event = Accepted int | Ended int | Failed_Request int

fun conn_step :: "conn_event \<Rightarrow> ipc_threads \<Rightarrow> ipc_threads" where
  "conn_step (Accepted fd) st = ipc_alloc_thread fd st"
| "conn_step (Ended fd) st = ipc_free_thread fd st"
| "conn_step (Failed_Request fd) st = st\<lparr>th_closed := fd # th_closed st\<rparr>"

definition threads_wf :: "ipc_threads \<Rightarrow> bool" where
  "threads_wf st \<longleftrightarrow> socket_count st = int (length (th_socks st))"

lemma conn_steps_wf: "threads_wf st \<Longrightarrow> threads_wf (fold conn_step evs st)"
proof (induction evs arbitrary: st)
  case (Cons e evs)
  have "threads_wf (conn_step e st)"
  proof (cases e)
    case (Ended fd)
    have "fd \<in> set (th_socks st) \<Longrightarrow> int (length (th_socks st) - 1) = int (length (th_socks st)) - 1" by (cases "th_socks st") auto
    then show ?thesis using Cons.prems Ended by (auto simp: threads_wf_def ipc_free_thread_def length_remove1)
  qed (use Cons.prems in \<open>simp_all add: threads_wf_def ipc_alloc_thread_def\<close>)
  then show ?case using Cons.IH by simp
qed simp

lemma accept_loop_Run:
  "accept_loop as st = Run st' \<longleftrightarrow> (\<forall>(d, c)\<in>set as. d \<noteq> -1 \<and> c = 0) \<and> st' = fold conn_step (map (Accepted \<circ> fst) as) st"
  by (induction as arbitrary: st) (auto simp: Let_def split: if_splits)

lemma accept_records: "th_socks (fold conn_step (map (Accepted \<circ> fst) as) st) = th_socks st @ map fst as"
  by (induction as arbitrary: st) (auto simp: ipc_alloc_thread_def)

definition listens :: "listener \<Rightarrow> bool" where
  "listens ln \<longleftrightarrow> 0 \<le> ln_socket ln \<and> ln_bind ln \<noteq> -1 \<and> ln_listen ln \<noteq> -1 \<and> ln_chmod ln \<noteq> -1 \<and> (\<forall>(d, c)\<in>set (ln_accepts ln). d \<noteq> -1 \<and> c = 0)"

lemma listener_cases:
  assumes "threads_wf st"
  shows "if listens ln
    then \<exists>st'. start_ipc_listener ln st = Run st' \<and> th_socks st' = th_socks st @ map fst (ln_accepts ln) \<and> threads_wf st'
    else start_ipc_listener ln st = Exit 1"
proof -
  have s: "min (length sockname) SUN_PATH_LEN \<noteq> SUN_PATH_LEN" by (simp add: sockname_def SUN_PATH_LEN_def)
  have ne: "accept_loop as st \<noteq> Crash \<and> (\<forall>c. accept_loop as st = Exit c \<longrightarrow> c = 1)" for as st
    by (induction as arbitrary: st) (auto simp: Let_def split: if_splits)
  show ?thesis
  proof (cases "listens ln")
    case True
    then have "accept_loop (ln_accepts ln) st = Run (fold conn_step (map (Accepted \<circ> fst) (ln_accepts ln)) st)"
      by (simp add: accept_loop_Run listens_def)
    then show ?thesis using True s conn_steps_wf [OF assms] by (auto simp: start_ipc_listener_def listens_def accept_records)
  next
    case False
    have "accept_loop (ln_accepts ln) st = Exit 1" if "\<not> (\<forall>(d, c)\<in>set (ln_accepts ln). d \<noteq> -1 \<and> c = 0)"
      using ne [of "ln_accepts ln" st] that accept_loop_Run [of "ln_accepts ln" st] by (cases "accept_loop (ln_accepts ln) st") auto
    then show ?thesis using False s by (auto simp: start_ipc_listener_def listens_def)
  qed
qed

section \<open>The signal thread\<close>

text \<open>The results of \<open>sigwait\<close> with the signal it stores; the variable holds nothing before the first success.
  Cancelling a thread that was never created has no defined meaning.  \<open>None\<close>: still waiting.\<close>

fun stop_stack_handler :: "(int \<times> int) list \<Rightarrow> int option \<Rightarrow> process \<Rightarrow> process proc option" where
  "stop_stack_handler [] signo ps = None"
| "stop_stack_handler ((err, s) # ws) signo ps =
     (let signo = (if err = 0 then Some s else signo) in
      case signo of
        None \<Rightarrow> Some Crash
      | Some s \<Rightarrow>
          if s = SIGINT \<or> s = SIGQUIT
          then Some (if {THREAD_IPC, THREAD_CORE, THREAD_TIMERS} \<subseteq> set (ps_created ps)
            then Run (ps\<lparr>ps_running := False, ps_cancelled := ps_cancelled ps @ [THREAD_IPC, THREAD_CORE, THREAD_TIMERS]\<rparr>)
            else Crash)
          else stop_stack_handler ws (Some s) ps)"

lemma stop_on_signal:
  assumes "\<forall>(err, s)\<in>set before. err = 0 \<and> s \<noteq> SIGINT \<and> s \<noteq> SIGQUIT" and "s = SIGINT \<or> s = SIGQUIT"
    and "{THREAD_IPC, THREAD_CORE, THREAD_TIMERS} \<subseteq> set (ps_created ps)"
  shows "stop_stack_handler (before @ (0, s) # later) signo ps =
    Some (Run (ps\<lparr>ps_running := False, ps_cancelled := ps_cancelled ps @ [THREAD_IPC, THREAD_CORE, THREAD_TIMERS]\<rparr>))"
  using assms by (induction before arbitrary: signo) auto

text \<open>A failure of the first \<open>sigwait\<close> reads the variable before it was written.\<close>

lemma stop_uninitialised: "err \<noteq> 0 \<Longrightarrow> stop_stack_handler ((err, s) # ws) None ps = Some Crash"
  by simp

section \<open>Shutdown\<close>

text \<open>The two lists as they are in memory: unlink and free every node.\<close>

definition unlink_free :: "addr \<Rightarrow> list_heap \<Rightarrow> list_heap cres" where
  "unlink_free item h = cbind (list_del item h) (\<lambda>h. if h item = None then UB else Ok (h(item := None)))"

definition free_arp :: "addr \<Rightarrow> list_heap \<Rightarrow> list_heap cres option" where
  "free_arp arp_cache h = for_each_safe unlink_free arp_cache h"

definition free_routes :: "addr \<Rightarrow> list_heap \<Rightarrow> list_heap cres option" where
  "free_routes routes h = for_each_safe unlink_free routes h"

lemma heap_reads: "q \<noteq> e \<Longrightarrow> get_next q (h(e := None)) = get_next q h" "q \<noteq> e \<Longrightarrow> get_prev q (h(e := None)) = get_prev q h"
  by (simp_all add: get_next_def get_prev_def)

lemma heap_same: "get_next q h' = get_next q h \<Longrightarrow> get_prev q h' = get_prev q h \<Longrightarrow> h' q = h q"
  by (auto simp: get_next_def get_prev_def split: option.splits)

lemma unlink_one:
  assumes "ring h head (e # ys)"
  shows "\<exists>h'. unlink_free e h = Ok h' \<and> ring h' head ys \<and> dom h' = dom h - {e} \<and>
    (\<forall>q. q \<notin> set (head # e # ys) \<longrightarrow> h' q = h q)"
proof -
  obtain h1 where h1: "list_del e h = Ok h1" "ring h1 head ys" "untouched (set (head # ys)) h h1"
    using ring_del [of h head "[]" e ys] assms by auto
  have d: "e \<in> dom h" using assms by (auto simp: ring_def dest: links_defined)
  have u: "dom h1 = dom h" "\<forall>q. q \<notin> set (head # ys) \<longrightarrow> h1 q = h q" using h1(3) heap_same by (auto simp: untouched_def)
  have ne: "e \<notin> set (head # ys)" using assms by (auto simp: ring_def)
  have "links (h1(e := None)) head ys head = links h1 head ys head"
    by (rule links_frame; intro ballI heap_reads; use ne in auto)
  then have "ring (h1(e := None)) head ys" using h1(2) by (simp add: ring_def)
  moreover have "h1 e \<noteq> None" using d u(1) by auto
  ultimately show ?thesis using h1(1) u by (auto simp: unlink_free_def)
qed

lemma unlink_loop:
  assumes "ring h head (e # ys)"
  shows "\<exists>h'. list_for_each_safe unlink_free head e (hd (ys @ [head])) h = Some (Ok h') \<and> ring h' head [] \<and>
    dom h' = dom h - set (e # ys) \<and> (\<forall>q. q \<notin> set (head # e # ys) \<longrightarrow> h' q = h q)"
  using assms
proof (induction ys arbitrary: h e)
  case (Nil h e)
  have ne: "e \<noteq> head" using Nil.prems by (auto simp: ring_def)
  obtain h1 where h1: "unlink_free e h = Ok h1" "ring h1 head []" "dom h1 = dom h - {e}" "\<forall>q. q \<notin> {head, e} \<longrightarrow> h1 q = h q"
    using unlink_one [OF Nil.prems] by auto
  then have "get_next head h1 = Ok head" by (simp add: ring_def)
  then show ?case using ne h1 by (simp add: list_for_each_safe.simps [of _ head e] list_for_each_safe.simps [of _ head head])
next
  case (Cons y ys h e)
  have ne: "e \<noteq> head" using Cons.prems by (auto simp: ring_def)
  obtain h1 where h1: "unlink_free e h = Ok h1" and r: "ring h1 head (y # ys)" and d: "dom h1 = dom h - {e}"
    and f: "\<forall>q. q \<notin> set (head # e # y # ys) \<longrightarrow> h1 q = h q"
    using unlink_one [OF Cons.prems] by blast
  have "get_next y h1 = Ok (hd (ys @ [head]))" using ring_at(2) [of h1 head "[]" y ys] r by simp
  then have step: "list_for_each_safe unlink_free head e y h = list_for_each_safe unlink_free head y (hd (ys @ [head])) h1"
    using ne h1 by (simp add: list_for_each_safe.simps [of _ head e])
  obtain h2 where "list_for_each_safe unlink_free head y (hd (ys @ [head])) h1 = Some (Ok h2)" "ring h2 head []" "dom h2 = dom h1 - set (y # ys)"
    "\<forall>q. q \<notin> set (head # y # ys) \<longrightarrow> h2 q = h1 q" using Cons.IH [OF r] by blast
  then show ?case using step d f by auto
qed

lemma free_list_Ok:
  assumes "ring h head xs"
  shows "\<exists>h'. for_each_safe unlink_free head h = Some (Ok h') \<and> ring h' head [] \<and> dom h' = dom h - set xs \<and>
    (\<forall>q. q \<notin> set (head # xs) \<longrightarrow> h' q = h q)"
proof (cases xs)
  case Nil
  then show ?thesis using assms by (auto simp: ring_def for_each_safe_def list_for_each_safe.simps)
next
  case (Cons y ys)
  then have "get_next head h = Ok y" "get_next y h = Ok (hd (ys @ [head]))" using assms ring_at(2) [of h head "[]" y ys] by (auto simp: ring_def)
  then show ?thesis using unlink_loop [of h head y ys] assms Cons by (simp add: for_each_safe_def)
qed

text \<open>Aborting a connection always succeeds: one segment with the reset flag, then \<open>tcp_done\<close>.\<close>

lemma zero_hdr_hl: "th_hl zero_hdr = 0"
  by (simp add: zero_hdr_def tcphdr_of_def nibbles_def)

lemma send_reset_Ok:
  "\<exists>rc t seg. tcp_send_reset out tsk = Ok (rc, t) \<and> tx_log t = tx_log tsk @ [seg] \<and> th_rst (tcp_hdr seg)"
proof -
  obtain s t where a: "tcp_alloc_skb 0 0 tsk = (s, t)" by fastforce
  have t: "t = tsk\<lparr>next_skb := next_skb tsk + 1\<rparr>" by (rule alloc_laid(6) [OF a])
  have len: "length (skb_head s) = 54" and hdr: "tcp_hdr s = zero_hdr"
    using a by (auto simp: tcp_alloc_skb_def alloc_skb_def skb_reserve_def hdr_lens Let_def tcp_hdr_def zero_hdr_def)
  let ?s = "set_tcp_hdr (zero_hdr\<lparr>th_rst := True\<rparr>) s" and ?t = "upd_tcb (\<lambda>t. t\<lparr>snd_una := snd_nxt t\<rparr>) t"
  have sl: "length (skb_head ?s) = 54" using len by (simp add: set_tcp_hdr_def length_buf_write in_bounds_def hdr_lens)
  have sh: "tcp_hdr ?s = zero_hdr\<lparr>th_rst := True\<rparr>" using len by (simp add: tcp_hdr_set)
  let ?th = "tcp_fill_header (snd_nxt (tcb ?t)) ?t (tcp_hdr ?s)"
  have th: "th_hl ?th = 5" "th_rst ?th" by (simp_all add: tcp_fill_header_def sh zero_hdr_hl TCP_DOFFSET_def)
  let ?u = "set_tcp_hdr ?th (skb_push ?s (unat (th_hl ?th) * 4))"
  have ul: "54 \<le> length (skb_head ?u)" using sl by (simp add: set_tcp_hdr_def skb_push_def length_buf_write in_bounds_def hdr_lens)
  let ?seg = "tcp_seal_header (sk_saddr ?t) (sk_daddr ?t) ?th ?u"
  have "th_rst (tcp_hdr ?seg)" using th(2) ul by (simp add: tcp_seal_header_def Let_def tcp_hdr_set tcp_hdr_to_net_def)
  moreover obtain rc s' where "out (sk_daddr ?t) ?seg = (rc, s')" by fastforce
  then have "tcp_send_reset out tsk = Ok (rc, ?t\<lparr>tx_log := tx_log ?t @ [?seg]\<rparr>)"
    using th(1) by (simp add: tcp_send_reset_def a hdr transmit_and_free_def tcp_transmit_skb_def Let_def)
  moreover have "tx_log ?t = tx_log tsk" by (simp add: t)
  ultimately show ?thesis by auto
qed

lemma tcp_done_tx [simp]: "tx_log (tcp_done tsk) = tx_log tsk"
  by (auto simp: tcp_done_def socket_delete_def tcp_free_def wait_wakeup_sleep_def tcp_fec_release_def tcp_clear_queues_def tcp_clear_timers_def
      tcp_set_state_def tcp_stop_rto_timer_def tcp_stop_delack_timer_def cancel_linger_def tcp_release_rto_timer_def tcp_release_delack_timer_def
      Let_def split: cres.splits option.splits)

lemma cmap_all2: "\<forall>x\<in>set xs. \<exists>y. f x = Ok y \<and> P x y \<Longrightarrow> \<exists>ys. cmap f xs = Ok ys \<and> list_all2 P xs ys"
  by (induction xs) force+

definition aborted :: "socket \<Rightarrow> socket \<Rightarrow> bool" where
  "aborted so so' \<longleftrightarrow> same_socket so so' \<and>
     (\<exists>sk sk' seg. so_sk so = Some sk \<and> so_sk so' = Some sk' \<and> sk_state sk' = TCP_CLOSING \<and> tx_log sk' = tx_log sk @ [seg] \<and> th_rst (tcp_hdr seg))"

lemma inet_abort_Ok:
  assumes "so_sk so = Some sk"
  shows "\<exists>so'. inet_abort out so = Ok so' \<and> aborted so so'"
proof -
  obtain rc t seg where r: "tcp_send_reset out sk = Ok (rc, t)" "tx_log t = tx_log sk @ [seg]" "th_rst (tcp_hdr seg)"
    using send_reset_Ok [of out sk] by blast
  then have "inet_abort out so = Ok (so\<lparr>so_sk := Some (tcp_done t)\<rparr>)" using assms by (simp add: inet_abort_def tcp_abort_def)
  moreover have "aborted so (so\<lparr>so_sk := Some (tcp_done t)\<rparr>)"
    using assms r by (auto simp: aborted_def same_socket_def state_simps)
  ultimately show ?thesis by blast
qed

lemma abort_sockets_Ok:
  assumes "table_wf tab"
  shows "\<exists>tab'. abort_sockets out tab = Ok tab' \<and> table_wf tab' \<and> list_all2 aborted (sockets tab) (sockets tab')"
proof -
  let ?f = "\<lambda>so. if so_ops so then inet_abort out so else UB"
  have "\<exists>so'. ?f so = Ok so' \<and> aborted so so'" if "so \<in> set (sockets tab)" for so
  proof -
    have "so_ops so" "so_sk so \<noteq> None" using assms that by (auto simp: table_wf_def socket_ok_def)
    then show ?thesis using inet_abort_Ok [of so] by auto
  qed
  then have "\<exists>ss. cmap ?f (sockets tab) = Ok ss \<and> list_all2 aborted (sockets tab) ss"
    by (intro cmap_all2) blast
  then obtain ss where ss: "cmap ?f (sockets tab) = Ok ss" "list_all2 aborted (sockets tab) ss" by blast
  then have "abort_sockets out tab = Ok (tab\<lparr>sockets := ss\<rparr>)" by (simp add: abort_sockets_def)
  then show ?thesis using ss(2) abort_keeps [OF assms] by auto
qed

definition net_of :: "process \<Rightarrow> net option" where
  "net_of ps =
     (case (ps_loop ps, ps_netdev ps) of
        (Some lo, Some dev) \<Rightarrow> Some \<lparr>net_loop = lo, net_dev = dev, net_routes = ps_routes ps, net_arp = ps_arp ps\<rparr>
      | _ \<Rightarrow> None)"

definition free_netdev :: "process \<Rightarrow> process" where
  "free_netdev ps = ps\<lparr>ps_loop := None, ps_netdev := None\<rparr>"

text \<open>\<open>arp_cache\<close> and \<open>routes\<close> are the addresses of the two list heads; \<open>None\<close> is a loop that does not end.\<close>

definition free_stack :: "(bytes \<Rightarrow> int) \<Rightarrow> addr \<Rightarrow> addr \<Rightarrow> process \<Rightarrow> list_heap \<Rightarrow> (process \<times> list_heap) cres option" where
  "free_stack tun arp_cache routes ps h =
     (case net_of ps of
        None \<Rightarrow> Some UB
      | Some nc \<Rightarrow>
          (case abort_sockets (ip_of tun nc) (ps_tab ps) of
             Ok tab \<Rightarrow>
               Option.bind (free_arp arp_cache h) (\<lambda>r.
                 case r of
                   Ok h \<Rightarrow> Option.bind (free_routes routes h) (\<lambda>r. Some (cbind r (\<lambda>h.
                     Ok (free_tun (free_netdev (ps\<lparr>ps_tab := tab, ps_arp := [], ps_routes := []\<rparr>)), h))))
                 | Fail c \<Rightarrow> Some (Fail c)
                 | UB \<Rightarrow> Some UB)
           | Fail c \<Rightarrow> Some (Fail c)
           | UB \<Rightarrow> Some UB))"

text \<open>\<open>main\<close>: \<open>life\<close> is what the threads make of the process until those that are joined have ended.\<close>

definition stack_main ::
  "sys \<Rightarrow> (process \<Rightarrow> process \<times> list_heap) \<Rightarrow> (bytes \<Rightarrow> int) \<Rightarrow> addr \<Rightarrow> addr \<Rightarrow> process \<Rightarrow> (process \<times> list_heap) proc option" where
  "stack_main sys life tun arp_cache routes ps =
     (case pbind (startup sys ps) (\<lambda>ps. let (ps, h) = life ps in pbind (wait_for_threads sys ps) (\<lambda>ps. Run (ps, h))) of
        Run (ps, h) \<Rightarrow>
          map_option (\<lambda>r. case r of Ok x \<Rightarrow> Run x | Fail c \<Rightarrow> Exit c | UB \<Rightarrow> Crash) (free_stack tun arp_cache routes ps h)
      | Exit c \<Rightarrow> Some (Exit c)
      | Crash \<Rightarrow> Some Crash)"

definition released :: "process \<Rightarrow> list_heap \<Rightarrow> addr \<Rightarrow> addr list \<Rightarrow> addr \<Rightarrow> addr list \<Rightarrow> process \<Rightarrow> list_heap \<Rightarrow> bool" where
  "released ps h arp_cache as routes rs ps' h' \<longleftrightarrow>
     ps_dev ps' = None \<and> net_of ps' = None \<and> ring h' arp_cache [] \<and> ring h' routes [] \<and> dom h' = dom h - set as - set rs \<and>
     table_wf (ps_tab ps') \<and> list_all2 aborted (sockets (ps_tab ps)) (sockets (ps_tab ps'))"

lemma free_stack_releases:
  assumes "net_of ps \<noteq> None" and "table_wf (ps_tab ps)" and as: "ring h arp_cache as" and rs: "ring h routes rs"
    and dj: "set (arp_cache # as) \<inter> set (routes # rs) = {}"
  shows "\<exists>ps' h'. free_stack tun arp_cache routes ps h = Some (Ok (ps', h')) \<and> released ps h arp_cache as routes rs ps' h'"
proof -
  obtain nc where nc: "net_of ps = Some nc" using assms(1) by blast
  obtain tab where tab: "abort_sockets (ip_of tun nc) (ps_tab ps) = Ok tab" "table_wf tab" "list_all2 aborted (sockets (ps_tab ps)) (sockets tab)"
    using abort_sockets_Ok [OF assms(2)] by blast
  obtain h1 where h1: "free_arp arp_cache h = Some (Ok h1)" "ring h1 arp_cache []" "dom h1 = dom h - set as"
    "\<forall>q. q \<notin> set (arp_cache # as) \<longrightarrow> h1 q = h q"
    using free_list_Ok [OF as] unfolding free_arp_def by blast
  have "links h1 routes rs routes = links h routes rs routes"
    by (rule links_frame; use h1(4) dj in \<open>auto simp: get_next_def get_prev_def\<close>)
  then have "ring h1 routes rs" using rs by (simp add: ring_def)
  then obtain h2 where h2: "free_routes routes h1 = Some (Ok h2)" "ring h2 routes []" "dom h2 = dom h1 - set rs"
    "\<forall>q. q \<notin> set (routes # rs) \<longrightarrow> h2 q = h1 q"
    using free_list_Ok unfolding free_routes_def by blast
  have "links h2 arp_cache [] arp_cache = links h1 arp_cache [] arp_cache"
    by (rule links_frame; use h2(4) dj in \<open>auto simp: get_next_def get_prev_def\<close>)
  then have "ring h2 arp_cache []" using h1(2) by (simp add: ring_def)
  then show ?thesis using nc tab h1(1,3) h2(1-3)
    by (auto simp: free_stack_def released_def free_tun_def free_netdev_def net_of_def)
qed

lemma threads_created:
  assumes "i < 3" and "sys_create sys i = 0"
  shows "i \<in> set (ps_created (started sys ps))"
proof -
  have "i = THREAD_CORE \<or> i = THREAD_TIMERS \<or> i = THREAD_IPC" using assms(1) by (auto simp: THREAD_CORE_def THREAD_TIMERS_def THREAD_IPC_def)
  then show ?thesis using assms(2) by (auto simp: started_def run_threads_def create_thread_def)
qed

lemma join_Run: "(\<forall>i\<in>set is. i \<in> set (ps_created ps) \<and> sys_join sys i = 0) \<Longrightarrow> join_threads sys is ps = Run ps"
  by (induction "is") auto

lemma join_missing:
  "\<exists>i\<in>set is. i \<notin> set (ps_created ps) \<Longrightarrow> (\<forall>i\<in>set is. sys_join sys i = 0) \<Longrightarrow> join_threads sys is ps = Crash"
  by (induction "is") auto

lemma stack_main_releases:
  assumes "kernel_names sys" and "starts sys" and "\<forall>i<3. sys_create sys i = 0" and "\<forall>i<3. sys_join sys i = 0"
    and "life (started sys ps) = (ps1, h)" and "ps_created ps1 = ps_created (started sys ps)" and "net_of ps1 \<noteq> None" and "table_wf (ps_tab ps1)"
    and "ring h arp_cache as" and "ring h routes rs" and "set (arp_cache # as) \<inter> set (routes # rs) = {}"
  shows "\<exists>ps' h'. stack_main sys life tun arp_cache routes ps = Some (Run (ps', h')) \<and> released ps1 h arp_cache as routes rs ps' h'"
proof -
  have "wait_for_threads sys ps1 = Run ps1" unfolding wait_for_threads_def
    by (rule join_Run) (use assms(3,4,6) threads_created in auto)
  then show ?thesis using free_stack_releases [OF assms(7-11), of tun] assms(2,5)
    by (auto simp: stack_main_def startup_cases [OF assms(1)])
qed

text \<open>When one of the three threads could not be created, the process goes on and then joins it.\<close>

lemma stack_main_joins_missing:
  assumes "kernel_names sys" and "starts sys" and "i < 3" and "sys_create sys i \<noteq> 0" and "\<forall>i<3. sys_join sys i = 0"
    and "ps_created (fst (life (started sys ps))) = ps_created (started sys ps)" and "ps_created ps = []"
  shows "stack_main sys life tun arp_cache routes ps = Some Crash"
proof -
  have "\<forall>j\<in>set (ps_created (started sys ps)). sys_create sys j = 0"
    using assms(7) by (auto simp: started_def run_threads_def create_thread_def)
  then have "i \<notin> set (ps_created (started sys ps))" using assms(4) by blast
  then have "\<exists>i\<in>set [0..<3]. i \<notin> set (ps_created (fst (life (started sys ps))))" using assms(3,6) by auto
  then have "wait_for_threads sys (fst (life (started sys ps))) = Crash"
    unfolding wait_for_threads_def by (rule join_missing) (use assms(5) in auto)
  then show ?thesis using assms(2) by (simp add: stack_main_def startup_cases [OF assms(1)] case_prod_beta)
qed

text \<open>When \<open>TUNSETIFF\<close> fails, start-up goes on with the error number for a descriptor.\<close>

lemma tap_failure_ignored:
  assumes "kernel_names sys" and "starts sys" and "fst (sys_ioctl sys (tap_opened sys) ''tap0'') < 0"
  shows "\<exists>ps'. startup sys ps = Run ps' \<and> ps_tun_fd ps' < 0"
  using assms(2,3) by (simp add: startup_cases [OF assms(1)] started_def run_threads_def create_thread_def Let_def)

lemma started_net:
  "net_of (started sys (ps_start ctx)) =
     Some \<lparr>net_loop = fst netdev_init, net_dev = snd netdev_init, net_routes = route_init (fst netdev_init) (snd netdev_init), net_arp = []\<rparr>"
  "ps_shared (started sys (ps_start ctx)) = (True, Some fec_shared_ctx)"
  "table_wf (ps_tab (started sys (ps_start ctx)))" "threads_wf (ps_ipc (started sys (ps_start ctx)))"
  by (simp_all add: started_def run_threads_def create_thread_def net_of_def ps_start_def tcp_fec_init_shared_def fec_rs_init_Some init_wf threads_wf_def)

end
