(* ===== verification/Apps.thy ===== *)
theory Apps
  imports Socket
begin

text \<open>
  The two example programs \<open>apps/curl/curl.c\<close> and \<open>apps/curl-poll/curl-poll.c\<close>: an HTTP request over a socket, the answer on
  the standard output.  The results of their calls are parameters; of the output only the answer is kept, not the
  diagnostics.
\<close>

section \<open>Shared pieces\<close>

definition MAX_HOSTNAME :: nat where "MAX_HOSTNAME = 50"
definition RLEN :: nat where "RLEN = 4096"

definition strnlen :: "bytes \<Rightarrow> nat \<Rightarrow> nat" where
  "strnlen s n = min (length s) n"

text \<open>\<open>printf\<close> of a buffer as a string: up to the first zero byte; without one it reads past the buffer.\<close>

definition print_buf :: "bytes \<Rightarrow> bytes cres" where
  "print_buf buf = (if 0 \<in> set buf then Ok (takeWhile (\<lambda>b. b \<noteq> 0) buf) else UB)"

text \<open>\<open>getaddrinfo\<close>: an error, or the list of addresses.  Without one \<open>get_address\<close> returns 1; on an error the
  program exits with status 1.\<close>

datatype 'a resolved = Res_Error int | Res_List "'a list"

fun get_address :: "'a resolved \<Rightarrow> (int \<times> 'a option) cres" where
  "get_address (Res_Error s) = Fail 1"
| "get_address (Res_List []) = Ok (1, None)"
| "get_address (Res_List (a # as)) = Ok (0, Some a)"

definition ascii :: "string \<Rightarrow> bytes" where
  "ascii s = map (\<lambda>c. of_nat (of_char c)) s"

definition http_request :: "bytes \<Rightarrow> bytes \<Rightarrow> bytes" where
  "http_request host port =
     ascii ''GET / HTTP/1.1'' @ [13, 10] @ ascii ''Host: '' @ host @ ascii '':'' @ port @ [13, 10] @
     ascii ''Connection: close'' @ [13, 10, 13, 10]"

text \<open>What \<open>snprintf\<close> leaves in 512 bytes.\<close>

definition request_str :: "bytes \<Rightarrow> bytes \<Rightarrow> bytes" where
  "request_str host port = take 511 (http_request host port)"

definition args_ok :: "bytes list \<Rightarrow> bool" where
  "args_ok argv \<longleftrightarrow> \<not> (length argv \<noteq> 3 \<or> strnlen (argv ! 1) MAX_HOSTNAME = MAX_HOSTNAME) \<and> strnlen (argv ! 2) 6 \<noteq> 6"

text \<open>What the calls of a run return: the resolver, \<open>connect\<close>, \<open>errno\<close> after it, \<open>fcntl\<close>, and the result of \<open>write\<close> as a
  function of the request.\<close>

record app_calls =
  ac_resolve :: "sockaddr_in resolved"
  ac_fcntl :: int
  ac_connect :: int
  ac_errno :: int
  ac_write :: "bytes \<Rightarrow> int"

section \<open>\<open>curl\<close>\<close>

text \<open>The loop over the results of \<open>read\<close>: \<open>None\<close> for -1, \<open>Some []\<close> at the end of the stream.  The exit status and
  the output; \<open>None\<close> when the program is asleep in a read.  The buffer keeps what earlier reads left in it.\<close>

fun curl_loop :: "bytes \<Rightarrow> bytes option list \<Rightarrow> (int \<times> bytes) cres option" where
  "curl_loop buf [] = None"
| "curl_loop buf (None # rs) = Some (Ok (1, []))"
| "curl_loop buf (Some [] # rs) = Some (Ok (0, []))"
| "curl_loop buf (Some (b # bs) # rs) =
     (let buf = buf_write buf 0 (take RLEN (b # bs)) in
      case print_buf buf of
        Ok out \<Rightarrow> map_option (\<lambda>r. cbind r (\<lambda>(rc, out'). Ok (rc, out @ out'))) (curl_loop buf rs)
      | Fail c \<Rightarrow> Some (Fail c)
      | UB \<Rightarrow> Some UB)"

definition curl_main :: "app_calls \<Rightarrow> bytes list \<Rightarrow> bytes option list \<Rightarrow> (int \<times> bytes) cres option" where
  "curl_main ac argv rs =
     (if \<not> args_ok argv then Some (Ok (1, []))
      else case get_address (ac_resolve ac) of
        UB \<Rightarrow> Some UB
      | Fail c \<Rightarrow> Some (Ok (c, []))
      | Ok (rc, _) \<Rightarrow>
          if rc \<noteq> 0 then Some (Ok (1, []))
          else if ac_connect ac = -1 then Some (Ok (1, []))
          else let str = request_str (argv ! 1) (argv ! 2) in
            if ac_write ac str \<noteq> int (length str) then Some (Ok (1, []))
            else curl_loop (replicate RLEN 0) rs)"

section \<open>\<open>curl-poll\<close>\<close>

text \<open>A round of its loop: the result of \<open>poll\<close>, the events, the result of the \<open>read\<close> that follows \<open>POLLIN\<close>.\<close>

fun curl_poll_loop :: "(int \<times> u16 \<times> bytes option) list \<Rightarrow> (int \<times> bytes) cres option" where
  "curl_poll_loop [] = None"
| "curl_poll_loop ((ret, revents, nread) # ps) =
     (if ret < 0 then Some (Ok (1, []))
      else if revents AND POLLIN \<noteq> 0 then
        (case nread of
           None \<Rightarrow> Some (Ok (1, []))
         | Some [] \<Rightarrow> Some (Ok (0, []))
         | Some chunk \<Rightarrow>
             (case print_buf (buf_write (replicate RLEN 0) 0 (take RLEN chunk)) of
                Ok out \<Rightarrow>
                  if revents AND (POLLHUP OR POLLERR) \<noteq> 0 then Some (Ok (0, out))
                  else map_option (\<lambda>r. cbind r (\<lambda>(rc, out'). Ok (rc, out @ out'))) (curl_poll_loop ps)
              | Fail c \<Rightarrow> Some (Fail c)
              | UB \<Rightarrow> Some UB))
      else if revents AND (POLLHUP OR POLLERR) \<noteq> 0 then Some (Ok (0, []))
      else curl_poll_loop ps)"

text \<open>\<open>first\<close> is the \<open>poll\<close> for writing; a failed assertion is the exit status 134 of \<open>abort\<close>.\<close>

definition curl_poll_main :: "app_calls \<Rightarrow> bytes list \<Rightarrow> int \<times> u16 \<Rightarrow> (int \<times> u16 \<times> bytes option) list \<Rightarrow> (int \<times> bytes) cres option" where
  "curl_poll_main ac argv first ps =
     (if \<not> args_ok argv then Some (Ok (1, []))
      else case get_address (ac_resolve ac) of
        UB \<Rightarrow> Some UB
      | Fail c \<Rightarrow> Some (Ok (c, []))
      | Ok (rc, _) \<Rightarrow>
          if rc \<noteq> 0 then Some (Ok (1, []))
          else if ac_fcntl ac = -1 then Some (Ok (1, []))
          else if ac_connect ac = -1 \<and> ac_errno ac \<noteq> EINPROGRESS then Some (Ok (1, []))
          else if fst first < 1 then Some (Ok (1, []))
          else if snd first AND POLLOUT = 0 then Some (Ok (134, []))
          else let str = request_str (argv ! 1) (argv ! 2) in
            if ac_write ac str \<noteq> int (length str) then Some (Ok (1, []))
            else curl_poll_loop ps)"

section \<open>What the programs print\<close>

lemma request_fits: "args_ok argv \<Longrightarrow> request_str (argv ! 1) (argv ! 2) = http_request (argv ! 1) (argv ! 2)"
proof -
  assume a: "args_ok argv"
  then have "length (argv ! 1) < 50" "length (argv ! 2) < 6" by (auto simp: args_ok_def strnlen_def MAX_HOSTNAME_def min_def split: if_splits)
  then have "length (http_request (argv ! 1) (argv ! 2)) \<le> 511" by (simp add: http_request_def ascii_def)
  then show ?thesis by (simp add: request_str_def)
qed

text \<open>A chunk that a program prints completely: shorter than the buffer and without zero bytes.\<close>

definition printable :: "bytes \<Rightarrow> bool" where
  "printable c \<longleftrightarrow> c \<noteq> [] \<and> length c < RLEN \<and> 0 \<notin> set c"

lemma print_fresh:
  assumes "printable c"
  shows "print_buf (buf_write (replicate RLEN 0) 0 (take RLEN c)) = Ok c"
proof -
  have "replicate (RLEN - length c) (0 :: u8) = 0 # replicate (RLEN - length c - 1) 0" using assms by (cases "RLEN - length c") (auto simp: printable_def)
  then have "buf_write (replicate RLEN 0) 0 (take RLEN c) = c @ 0 # replicate (RLEN - length c - 1) 0"
    using assms by (simp add: buf_write_def printable_def)
  moreover have "takeWhile (\<lambda>b. b \<noteq> 0) (c @ 0 # xs) = c" for xs using assms by (auto simp: printable_def takeWhile_append)
  ultimately show ?thesis by (simp add: print_buf_def)
qed

lemma curl_poll_prints:
  assumes "\<forall>c\<in>set cs. printable c" and "0 \<le> ret" and "ev AND POLLIN \<noteq> 0" and "ev AND (POLLHUP OR POLLERR) = 0"
  shows "curl_poll_loop (map (\<lambda>c. (ret, ev, Some c)) cs @ (ret, ev, Some []) # rest) = Some (Ok (0, concat cs))"
  using assms(1)
proof (induction cs)
  case (Cons c cs)
  obtain b bs where c: "c = b # bs" using Cons.prems by (cases c) (auto simp: printable_def)
  then show ?case using Cons assms(2-4) print_fresh [of c] by simp
qed (use assms in simp)

text \<open>A read that fills the buffer leaves no zero byte behind it.\<close>

lemma curl_poll_overread:
  assumes "length c = RLEN" and "0 \<notin> set c" and "0 \<le> ret" and "ev AND POLLIN \<noteq> 0"
  shows "curl_poll_loop ((ret, ev, Some c) # rest) = Some UB"
proof -
  obtain b bs where c: "c = b # bs" using assms(1) by (cases c) (auto simp: RLEN_def)
  have "print_buf (buf_write (replicate RLEN 0) 0 (take RLEN c)) = UB" using assms(1,2) by (simp add: print_buf_def buf_write_def)
  then show ?thesis using assms(3,4) c by simp
qed

text \<open>\<open>curl\<close> does not clear its buffer: what a shorter read leaves behind of a longer one is printed again.\<close>

lemma curl_prints_again:
  assumes "printable (c @ d)" and "c \<noteq> []" and "length c = length e" and "0 \<notin> set e"
  shows "curl_loop (replicate RLEN 0) [Some (c @ d), Some e, Some []] = Some (Ok (0, (c @ d) @ e @ d))"
proof -
  let ?b = "buf_write (replicate RLEN 0) 0 (take RLEN (c @ d))"
  have p1: "print_buf ?b = Ok (c @ d)" by (rule print_fresh [OF assms(1)])
  have l: "length (c @ d) < RLEN" "length e < RLEN" using assms(1,3) by (auto simp: printable_def)
  have b: "?b = c @ d @ replicate (RLEN - length (c @ d)) 0" using l by (simp add: buf_write_def)
  have "buf_write ?b 0 (take RLEN e) = (e @ d) @ replicate (RLEN - length (c @ d)) 0"
    unfolding b using l assms(3) by (simp add: buf_write_def)
  also have "\<dots> = buf_write (replicate RLEN 0) 0 (take RLEN (e @ d))" using l assms(3) by (simp add: buf_write_def)
  finally have "print_buf (buf_write ?b 0 (take RLEN e)) = Ok (e @ d)"
    using print_fresh [of "e @ d"] assms by (cases "e = []") (auto simp: printable_def)
  moreover obtain x xs where "e = x # xs" using assms(2,3) by (cases e) auto
  moreover obtain y ys where "c @ d = y # ys" using assms(2) by (cases c) auto
  ultimately show ?thesis using p1 by (simp add: Let_def)
qed

text \<open>It prints the stream when no chunk is shorter than the one before.\<close>

lemma curl_prints:
  assumes "\<forall>c\<in>set cs. printable c" and "sorted (map length cs)"
  shows "curl_loop (replicate RLEN 0) (map Some cs @ Some [] # rest) = Some (Ok (0, concat cs))"
proof -
  have "curl_loop (p @ replicate (RLEN - length p) 0) (map Some cs @ Some [] # rest) = Some (Ok (0, concat cs))"
    if "\<forall>c\<in>set cs. length p \<le> length c" for p using assms that
  proof (induction cs arbitrary: p)
    case (Cons c cs)
    have c: "printable c" "length p \<le> length c" using Cons.prems by auto
    then have w: "buf_write (p @ replicate (RLEN - length p) 0) 0 (take RLEN c) = c @ replicate (RLEN - length c) 0"
      by (simp add: buf_write_def printable_def)
    have "buf_write (replicate RLEN 0) 0 (take RLEN c) = c @ replicate (RLEN - length c) 0" using c(1) by (simp add: buf_write_def printable_def)
    then have "print_buf (c @ replicate (RLEN - length c) 0) = Ok c" using print_fresh [OF c(1)] by simp
    moreover have "curl_loop (c @ replicate (RLEN - length c) 0) (map Some cs @ Some [] # rest) = Some (Ok (0, concat cs))"
      using Cons.IH [of c] Cons.prems by auto
    moreover obtain b bs where "c = b # bs" using c(1) by (cases c) (auto simp: printable_def)
    ultimately show ?case using w by (simp add: Let_def)
  qed simp
  from this [of "[]"] show ?thesis by simp
qed

end
