(* ===== verification/Spec2Isabelle.thy ===== *)
theory Spec2Isabelle
  imports Main Prelude Poly GF256 Fec_Poly Fec_Codec Fec_Sim Fec_Shim Wire Skbuff Timer Checksum Tcp_Sock Tcp_Output Tcp_Data Tcp_Stream Tcp_Input Tcp Tcp_Fec_Rx Tcp_State Tcp_Fec_Block Ip Tcp_Fec_Tx List_Head Socket Socket_Inv Ipc Liblevelip Ipc_Client Net_Rx Process Apps
begin

text \<open>
  A user-space TCP/IP stack with forward error correction: the verification library.

  \<^bold>\<open>The program.\<close>  The stack reads Ethernet frames from a tap device (\<open>src/netdev.c\<close>), answers
  ARP and ICMP echo (\<open>src/arp.c\<close>, \<open>src/icmpv4.c\<close>), hands IP packets to TCP (\<open>src/ip_input.c\<close>,
  \<open>src/tcp.c\<close>, \<open>src/tcp_input.c\<close>), queues and transmits segments (\<open>src/tcp_output.c\<close>,
  \<open>src/ip_output.c\<close>, \<open>src/dst.c\<close>, \<open>src/route.c\<close>), reassembles the byte stream
  (\<open>src/tcp_data.c\<close>) and runs its timers in a thread of their own (\<open>src/timer.c\<close>).  On top of
  TCP sits a block erasure code over GF(256) (\<open>src/fec.c\<close>, \<open>src/fec_codec.c\<close>): the sender groups
  \<open>k\<close> data segments into a block and adds \<open>r\<close> repair segments out of band, the receiver rebuilds
  lost segments from any \<open>k\<close> of the \<open>k + r\<close>.
  Applications reach the stack through a preloaded library (\<open>tools/liblevelip.c\<close>) that turns their
  socket calls into messages on a Unix socket; a server thread per connection (\<open>src/ipc.c\<close>) decodes them
  and calls the socket layer (\<open>src/socket.c\<close>, \<open>src/inet.c\<close>, \<open>src/sock.c\<close>), which owns the connections.  \<open>src/main.c\<close>
  brings the tap device, the tables and the threads up and releases everything at the end.

  \<^bold>\<open>The theories\<close>, in the order of the dependencies:
  \<^item> \<open>Prelude\<close>: machine words, the result type \<open>cres\<close> of a C call (a value, an error return
    code, or undefined behaviour), byte buffers with bounds, shared list lemmas.
  \<^item> \<open>Poly\<close>: polynomials over a field as coefficient lists; Lagrange interpolation.
  \<^item> \<open>GF256\<close>: \<open>fec_rs_init\<close> and the table-driven operations of \<open>include/fec.h\<close>; the type \<open>gf\<close>
    on bytes is a field whose operations they compute.
  \<^item> \<open>Fec_Poly\<close>: \<open>src/fec.c\<close>, encoding, recovery of one coefficient, interpolation.
  \<^item> \<open>Fec_Codec\<close>: \<open>src/fec_codec.c\<close>, the block encoder and decoder.
  \<^item> \<open>Wire\<close>: headers and options on the wire (\<open>include/tcp.h\<close>, \<open>include/ip.h\<close>,
    \<open>include/fec_frame.h\<close>), the option walker \<open>src/tcp_optparse.c\<close>, the SYN option builder.
  \<^item> \<open>Skbuff\<close>: packet buffers and queues; the locale \<open>fifo\<close> is the contract of a queue,
    interpreted on \<open>sk_buff_head\<close>.
  \<^item> \<open>Timer\<close>: \<open>src/timer.c\<close>.  \<open>Checksum\<close>: the Internet checksum of \<open>src/utils.c\<close>.
  \<^item> \<open>Tcp_Sock\<close>: the connection (\<open>struct tcp_sock\<close>, \<open>tcb\<close>, \<open>tcp_fec\<close>), its timers, queues and
    teardown, the RTT estimator and the SACK calculation of \<open>src/tcp.c\<close>.
  \<^item> \<open>Tcp_Output\<close>, \<open>Tcp_Data\<close>, \<open>Tcp_Input\<close>, \<open>Tcp\<close>: the files of the same names.  \<open>Tcp\<close> ends with
    the connection as a step relation, one step per user call, segment or timer callback.
  \<^item> \<open>Tcp_Stream\<close>: the receive path over whole runs: the invariant behind the byte-stream properties.
  \<^item> \<open>Tcp_State\<close>: the state diagram of a connection and its phases.
  \<^item> \<open>Tcp_Fec_Rx\<close>, \<open>Tcp_Fec_Block\<close>: the receiving side of the block code in \<open>tcp_fec_input\<close>: what a slot
    holds when every symbol is honest, and that enough symbols complete a block.
  \<^item> \<open>Ip\<close>: everything below TCP (\<open>src/netdev.c\<close>, \<open>src/route.c\<close>, \<open>src/arp.c\<close>, \<open>src/dst.c\<close>, \<open>src/ip_output.c\<close>,
    \<open>src/ip_input.c\<close>, \<open>src/icmpv4.c\<close>).
  \<^item> \<open>Tcp_Fec_Tx\<close>: the sending side of the block code, from \<open>tcp_send\<close> to the bytes of a segment and
    what the receiver reads from them.
  \<^item> \<open>Fec_Sim\<close>: the loss simulator \<open>tools/fec-sim.c\<close>; its counter of failed recoveries stays 0.
  \<^item> \<open>Fec_Shim\<close>: the flat interface of the live demo (\<open>tools/fec-demo/fecsim_shim.c\<close>); encoding, loss and recovery
    through it give the sources back, or the return code 1.
  \<^item> \<open>List_Head\<close>: the pointer lists of \<open>include/list.h\<close> on an explicit memory.
  \<^item> \<open>Socket\<close>: the socket table and the user calls; \<open>Socket_Inv\<close>: its invariant, the locale \<open>object_table\<close>
    (what a lookup returns after an update), interpreted on the table, and the stack as a step relation.
  \<^item> \<open>Ipc\<close>: messages, handlers and connection threads of the server; \<open>Liblevelip\<close>: the library;
    \<open>Ipc_Client\<close>: the two composed.
  \<^item> \<open>Net_Rx\<close>: the receive thread, from a frame to its socket, and the translation table over a whole run; the
    locale \<open>neighbour_table\<close> is what the output path asks of it, interpreted on the cache.
  \<^item> \<open>Process\<close>: command line, tap device, start-up, signals, the accepting thread, shutdown and \<open>main\<close>.
  \<^item> \<open>Apps\<close>: the example programs \<open>apps/curl\<close> and \<open>apps/curl-poll\<close>; what they print of a stream.

  \<^bold>\<open>How the code is modelled.\<close>  A C function is a definition of the same name (a prefix \<open>lvl_\<close> or \<open>lib_\<close>
  where the source has a leading underscore or the name of a libc call).  Structures are records,
  \<open>uint8_t\<close> to \<open>uint32_t\<close> are words, \<open>int\<close> is \<open>int\<close> where no overflow can occur.  A call returns \<open>Ok\<close> with
  its result and the new state, \<open>Fail\<close> with a return code, or \<open>UB\<close>: an access outside a buffer, through a
  missing pointer or into freed memory.  \<open>out :: ip_layer\<close> is what TCP calls to transmit; \<open>tx_log\<close> records
  the segments handed to it, and \<open>ip_of\<close> is the stack's own \<open>ip_output\<close> in that place.

  \<^bold>\<open>What is shown.\<close>  C1--C6: the codec over GF(256) is a field-based erasure code: any \<open>k\<close> symbols
  rebuild a block, fewer are refused, the counters are exact.  C7--C10: options and headers survive
  encoding and parsing, and where the walker reads too far.  C11, C12: queues and timers.  C13: the
  receive thread keeps the tables, and neighbours are reached where they last announced themselves.  C14: the process
  from \<open>main\<close> to its return.  C15: a packet that \<open>ip_output\<close> sends is one that \<open>ip_rcv\<close> accepts.  C16--C21: the reader only ever sees a prefix of the
  peer's stream, loss, repetition and reordering notwithstanding, also with coded segments, and gets all
  of it once the segments, or enough symbols, have arrived; SACK blocks; the retransmission timeout.
  C22--C27: the socket table stays well formed, sockets do not influence each other, \<open>poll\<close> ends in time.
  C28--C35: programs that use the library see the stack's own calls; where the library and the server do not
  keep that promise.  C36, C37: the state diagram.  C38, C39: the blocks that \<open>tcp_send\<close> emits are what the
  receiver's theorems ask for, provided the layer below reports success as 0, which the device does not.
  C40: pointer lists are lists.

  \<^bold>\<open>Bounds and fuel.\<close>  \<open>tcp_receive\<close> and \<open>connect_wait\<close> sleep until another thread changes the connection:
  that change is a parameter (\<open>env\<close>) and the number of wake-ups is fuel; one round suffices for a read of a
  non-empty queue, and running out of fuel is the value \<open>None\<close>, not a result.  \<open>lvl_poll\<close> is bounded by its
  timeout, which C24 proves enough; \<open>poll_rounds\<close> likewise.  \<open>vla_ok\<close> bounds the server's arrays by an 8 MB
  stack.  Byte streams are at most \<open>2 ^ 32\<close> minus the window long, so that sequence numbers do not wrap,
  since the code compares them as plain integers.

  \<^bold>\<open>System calls\<close> of the process, the server and the programs are parameters: lists or functions of results.
  The end of such a list is a call that has not returned yet.  What the threads do between the start and the join
  of \<open>main\<close> is the parameter \<open>life\<close>, what other threads do to the sockets during a read of the receive thread the
  parameter \<open>env\<close>; the theorems ask of them only that the invariants are kept.

  \<^bold>\<open>Not modelled.\<close>  Locks: each call is one step.  The lookup of the C library's functions with \<open>dlsym\<close> in the library
  (a call that goes there is the result \<open>Real\<close>), the debug printing, the function tables (\<open>net_ops\<close>, \<open>sock_ops\<close>,
  whose only instance is TCP), the unused stubs of \<open>src/inet.c\<close> and the unused \<open>parse_ipv4_string\<close>.  Of
  \<open>tools/fec-sim.c\<close> the argument conversion and the printed row are left out.  \<open>tests/\<close> are drivers of the code above.
\<close>

section \<open>The block code, end to end\<close>

text \<open>A whole transfer of one block: initialise an encoder, stage the sources, generate the
  parity, then feed a decoder with the symbols that arrive (\<open>arrivals\<close>, slot numbers of the
  \<open>k + r\<close> symbols, in any order and possibly repeated) and recover.  Pointers are slot numbers.\<close>

definition enc_blank :: "nat fec_encoder" where
  "enc_blank = \<lparr>enc_ctx = None, enc_k = 0, enc_r = 0, enc_sym_len = 0, enc_src_x = [], enc_red_x = [],
     enc_filled = 0, enc_src = []\<rparr>"

definition slot_arrival :: "nat \<Rightarrow> nat \<Rightarrow> nat arrival" where
  "slot_arrival k p = (if p < k then Source p p else Redundant (p - k) p)"

definition codec_transfer :: "bytes list \<Rightarrow> int \<Rightarrow> nat \<Rightarrow> nat list \<Rightarrow> bytes option list cres" where
  "codec_transfer S r L arrivals =
     cbind (fec_encoder_init (Some enc_blank) (Some fec_shared_ctx) (int (length S)) r L None) (\<lambda>enc.
     cbind (fill_encoder [0..<length S] enc) (\<lambda>enc.
     cbind (fec_encoder_generate (\<lambda>p. Some (S ! p)) (Some enc) (Some (map Some (replicate (nat r) (replicate L 0)))) True) (\<lambda>parity.
     cbind (fec_decoder_init (Some dec_zero) (Some fec_shared_ctx) (int (length S)) r L None) (\<lambda>dec.
     fec_decoder_recover (\<lambda>p. Some ((S @ parity) ! p))
       (Some (fold absorb (map (slot_arrival (length S)) arrivals) dec))
       (Some (map Some (replicate (length S) (replicate L 0)))) True))))"

lemma slot_arrivals:
  "arrived_src (map (slot_arrival k) as) = {p \<in> set as. p < k}"
  "arrived_red (map (slot_arrival k) as) = (\<lambda>p. p - k) ` {p \<in> set as. k \<le> p}"
  by (auto simp: arrived_src_def arrived_red_def slot_arrival_def image_iff split: if_splits)

lemma card_slot_arrivals:
  "card (arrived_src (map (slot_arrival k) as)) + card (arrived_red (map (slot_arrival k) as)) = card (set as)"
proof -
  have "card ((\<lambda>p. p - k) ` {p \<in> set as. k \<le> p}) = card {p \<in> set as. k \<le> p}"
    by (rule card_image) (auto simp: inj_on_def)
  moreover have "card {p \<in> set as. p < k} + card {p \<in> set as. k \<le> p} = card ({p \<in> set as. p < k} \<union> {p \<in> set as. k \<le> p})"
    by (rule card_Un_disjoint [symmetric]) auto
  moreover have "{p \<in> set as. p < k} \<union> {p \<in> set as. k \<le> p} = set as" by auto
  ultimately show ?thesis unfolding slot_arrivals by simp
qed

lemma map_nth_Some: "map (\<lambda>p. Some (S ! p)) [0..<length S] = map Some S"
  by (rule nth_equalityI) auto

text \<open>The transfer reduces to the decoder's last call on the state after the arrivals.\<close>

lemma codec_transfer_eq:
  assumes "S \<noteq> []" and "length S \<le> 128" and "0 < r" and "r \<le> 32" and "\<forall>s\<in>set S. length s = L"
  shows "\<exists>d. fec_decoder_init (Some dec_zero) (Some fec_shared_ctx) (int (length S)) r L None = Ok d \<and>
           codec_transfer S r L as =
             fec_decoder_recover (\<lambda>p. Some ((S @ map (code_symbol S L) (red_points None (length S) (nat r))) ! p))
               (Some (fold absorb (map (slot_arrival (length S)) as) d))
               (Some (map Some (replicate (length S) (replicate L 0)))) True"
proof -
  have k: "0 < length S" using assms(1) by simp
  obtain e where e: "fec_encoder_init (Some enc_blank) (Some fec_shared_ctx) (int (length S)) r L None = Ok e"
    using default_inits(1) [OF k assms(2-4)] by blast
  obtain d where d: "fec_decoder_init (Some dec_zero) (Some fec_shared_ctx) (int (length S)) r L None = Ok d"
    using default_inits(2) [OF k assms(2-4)] by blast
  obtain e' where e': "fill_encoder [0..<length S] e = Ok e'"
    "fec_encoder_generate (\<lambda>p. Some (S ! p)) (Some e') (Some (map Some (replicate (nat r) (replicate L 0)))) True =
       Ok (map (code_symbol S L) (red_points None (length S) (nat r)))"
    using encode_block [OF e assms(5) map_nth_Some, of "replicate (nat r) (replicate L 0)"] by auto
  show ?thesis using e e' d by (simp add: codec_transfer_def)
qed

lemma slot_arrivals_honest:
  assumes "\<forall>p\<in>set as. p < length S + nat r"
  shows "\<forall>a\<in>set (map (slot_arrival (length S)) as).
           honest (\<lambda>p. Some ((S @ map (code_symbol S L) (red_points None (length S) (nat r))) ! p)) S L
             (red_points None (length S) (nat r)) a"
  using assms by (auto simp: slot_arrival_def nth_append)

text \<open>C1. Any \<open>k\<close> distinct symbols of a block of \<open>k\<close> sources and \<open>r\<close> repairs, in whatever order
  they arrive, give back every missing source symbol byte for byte.\<close>

theorem codec_recovers_any_k_symbols:
  assumes "S \<noteq> []" and "length S \<le> 128" and "0 < r" and "r \<le> 32" and "\<forall>s\<in>set S. length s = L"
    and "\<forall>p\<in>set arrivals. p < length S + nat r" and "length S \<le> card (set arrivals)"
  shows "codec_transfer S r L arrivals =
           Ok (map (\<lambda>i. Some (if i \<in> set arrivals then replicate L 0 else S ! i)) [0..<length S])"
proof -
  obtain d where d: "fec_decoder_init (Some dec_zero) (Some fec_shared_ctx) (int (length S)) r L None = Ok d"
    "codec_transfer S r L arrivals =
       fec_decoder_recover (\<lambda>p. Some ((S @ map (code_symbol S L) (red_points None (length S) (nat r))) ! p))
         (Some (fold absorb (map (slot_arrival (length S)) arrivals) d))
         (Some (map Some (replicate (length S) (replicate L 0)))) True"
    using codec_transfer_eq [OF assms(1-5)] by blast
  have "distinct (source_points (length S) @ red_points None (length S) (nat r))"
    using assms by (intro distinct_default_points) simp
  from decode_arrivals [OF d(1) assms(5) this slot_arrivals_honest [OF assms(6), of L],
      of "replicate (length S) (replicate L 0)"]
  have "codec_transfer S r L arrivals =
      Ok (map (\<lambda>i. if i \<in> arrived_src (map (slot_arrival (length S)) arrivals)
                  then Some (replicate (length S) (replicate L 0) ! i) else Some (S ! i)) [0..<length S])"
    using d(2) assms(7) by (simp add: card_slot_arrivals)
  then show ?thesis by (auto simp: slot_arrivals)
qed

theorem codec_recovers_any_k_symbols_witness:
  "codec_transfer [[104, 105], [33, 0]] 2 2 [3, 2, 3] = Ok [Some [104, 105], Some [33, 0]]"
  using codec_recovers_any_k_symbols [of "[[104, 105], [33, 0]]" 2 2 "[3, 2, 3]"]
  by (simp add: upt_rec card_insert_if)

text \<open>C2. With fewer than \<open>k\<close> distinct symbols the decoder refuses and returns -1.\<close>

theorem codec_refuses_fewer_symbols:
  assumes "S \<noteq> []" and "length S \<le> 128" and "0 < r" and "r \<le> 32" and "\<forall>s\<in>set S. length s = L"
    and "\<forall>p\<in>set arrivals. p < length S + nat r" and "card (set arrivals) < length S"
  shows "codec_transfer S r L arrivals = Fail (-1)"
proof -
  obtain d where d: "fec_decoder_init (Some dec_zero) (Some fec_shared_ctx) (int (length S)) r L None = Ok d"
    "codec_transfer S r L arrivals =
       fec_decoder_recover (\<lambda>p. Some ((S @ map (code_symbol S L) (red_points None (length S) (nat r))) ! p))
         (Some (fold absorb (map (slot_arrival (length S)) arrivals) d))
         (Some (map Some (replicate (length S) (replicate L 0)))) True"
    using codec_transfer_eq [OF assms(1-5)] by blast
  from decode_too_few [OF d(1) slot_arrivals_honest [OF assms(6), of L]]
  show ?thesis using d(2) assms(7) by (simp add: card_slot_arrivals)
qed

theorem codec_refuses_fewer_symbols_witness:
  "codec_transfer [[104, 105], [33, 0]] 2 2 [3, 3] = Fail (-1)"
  using codec_refuses_fewer_symbols [of "[[104, 105], [33, 0]]" 2 2 "[3, 3]"] by simp

text \<open>C3. The encoder constructor accepts exactly the geometries with \<open>1 \<le> k \<le> 128\<close>,
  \<open>1 \<le> r \<le> 32\<close>, and pairwise distinct evaluation points none of which is a repair at 0.\<close>

theorem encoder_accepts_exactly:
  "is_ok (fec_encoder_init (Some enc) (Some ctx) k r L red_x) \<longleftrightarrow>
     0 < k \<and> k \<le> 128 \<and> 0 < r \<and> r \<le> 32 \<and> \<not> red_x_short red_x (nat r) \<and>
     distinct (source_points (nat k) @ red_points red_x (nat k) (nat r)) \<and>
     0 \<notin> set (red_points red_x (nat k) (nat r))"
  by (rule encoder_init_iff)

text \<open>C4. One lost coefficient packet: the repair packet computed at a nonzero point gives it back.\<close>

theorem single_coefficient_roundtrip:
  assumes "ps \<noteq> []" and "length ps \<le> 255" and "\<forall>p\<in>set ps. length p = L" and "m < length ps" and "x \<noteq> 0"
  shows "cbind (fec_poly_encode_redundant (Some fec_shared_ctx) (Some (map Some ps)) (int (length ps)) L x
                  (Some (replicate L 0)))
           (\<lambda>red. fec_poly_recover_missing_coefficient (Some fec_shared_ctx) (Some ((map Some ps)[m := None]))
                    (int (length ps)) L (int m) x (Some red) (Some (replicate L 0))) = Ok (ps ! m)"
proof -
  have rd: "readable ps L" using assms(3) by (simp add: readable_def list_all_iff)
  obtain red where red: "fec_poly_encode_redundant (Some fec_shared_ctx) (Some (map Some ps)) (int (length ps)) L x
      (Some (replicate L 0)) = Ok red" "length red = L"
    "\<forall>off<L. gf_of (red ! off) = peval (lane ps off) (gf_of x)"
    using encode_redundant_Ok [of "map Some ps" ps "int (length ps)" L "replicate L 0" x] assms rd by auto
  have "fec_poly_recover_missing_coefficient (Some fec_shared_ctx) (Some ((map Some ps)[m := None]))
      (int (length ps)) L (int m) x (Some red) (Some (replicate L 0)) = Ok (take L (ps ! m))"
    by (rule recover_missing_Ok) (use assms rd red in auto)
  then show ?thesis using red assms(3,4) by simp
qed

theorem single_coefficient_roundtrip_witness:
  "cbind (fec_poly_encode_redundant (Some fec_shared_ctx) (Some [Some [1], Some [2], Some [3]]) 3 1 7 (Some [0]))
     (\<lambda>red. fec_poly_recover_missing_coefficient (Some fec_shared_ctx) (Some [Some [1], None, Some [3]])
              3 1 1 7 (Some red) (Some [0])) = Ok [2]"
  using single_coefficient_roundtrip [of "[[1], [2], [3]]" 1 1 7] by simp

text \<open>C5. The table-driven GF(256) operations, on the tables \<open>fec_rs_init\<close> builds, are a field:
  addition is its own inverse, multiplication is commutative, associative and distributes,
  and division undoes multiplication by every nonzero element.\<close>

theorem gf256_is_a_field:
  "fec_rs_init (Some c0) = Ok fec_shared_ctx \<and>
   gf256_add a a = 0 \<and>
   gf256_mul fec_shared_ctx a b = gf256_mul fec_shared_ctx b a \<and>
   gf256_mul fec_shared_ctx (gf256_mul fec_shared_ctx a b) c = gf256_mul fec_shared_ctx a (gf256_mul fec_shared_ctx b c) \<and>
   gf256_mul fec_shared_ctx a (gf256_add b c) =
     gf256_add (gf256_mul fec_shared_ctx a b) (gf256_mul fec_shared_ctx a c) \<and>
   gf256_mul fec_shared_ctx 1 a = a \<and>
   gf256_div fec_shared_ctx (gf256_mul fec_shared_ctx a b) b = (if b = 0 then 0 else a) \<and>
   gf256_div fec_shared_ctx a b = gf256_mul fec_shared_ctx a (gf256_inv fec_shared_ctx b)"
proof -
  have "gf_of (gf256_mul fec_shared_ctx a (gf256_add b c)) =
      gf_of (gf256_add (gf256_mul fec_shared_ctx a b) (gf256_mul fec_shared_ctx a c))"
    by (simp add: gf_simps distrib_left)
  moreover have "gf_of (gf256_div fec_shared_ctx (gf256_mul fec_shared_ctx a b) b) = gf_of (if b = 0 then 0 else a)"
    using gf_of_eq_0 [of b] by (simp add: gf_simps)
  ultimately show ?thesis
    unfolding gf_of_inject_iff
    by (intro conjI fec_rs_init_Some mul_1 div_inv mul_commute mul_assoc) (simp_all add: gf256_add_def)
qed

section \<open>The decoder's bookkeeping\<close>

datatype 'p dec_op = AddSource int 'p | AddRedundant int 'p | Reset

fun run_dec_op :: "'p dec_op \<Rightarrow> 'p fec_decoder \<Rightarrow> 'p fec_decoder" where
  "run_dec_op (AddSource i p) d = cres_val d (fec_decoder_add_source (Some d) i (Some p))"
| "run_dec_op (AddRedundant i p) d = cres_val d (fec_decoder_add_redundant (Some d) i (Some p))"
| "run_dec_op Reset d = the (fec_decoder_reset (Some d))"

lemma run_dec_op_wf: "dec_wf d \<Longrightarrow> dec_wf (run_dec_op a d)"
proof (cases a)
  case (AddSource i p)
  then show "dec_wf d \<Longrightarrow> ?thesis"
    using dec_wf_add_source [of d i p] by (cases "fec_decoder_add_source (Some d) i (Some p)") auto
next
  case (AddRedundant i p)
  then show "dec_wf d \<Longrightarrow> ?thesis"
    using dec_wf_add_redundant [of d i p] by (cases "fec_decoder_add_redundant (Some d) i (Some p)") auto
qed (simp add: dec_wf_reset)

text \<open>C6. Whatever calls follow initialisation, the decoder's counters equal the numbers of present
  flags inside the block, so \<open>fec_decoder_complete\<close> and \<open>fec_decoder_recoverable\<close> tell the truth.\<close>

theorem decoder_counts_are_exact:
  assumes "fec_decoder_init dec (Some fec_shared_ctx) k r L red_x = Ok d"
  shows "dec_src_count (fold run_dec_op ops d) =
           int (card {i. i < nat k \<and> dec_src_present (fold run_dec_op ops d) ! i}) \<and>
         dec_red_count (fold run_dec_op ops d) =
           int (card {j. j < nat r \<and> dec_red_present (fold run_dec_op ops d) ! j}) \<and>
         (fec_decoder_complete (Some (fold run_dec_op ops d)) \<longleftrightarrow>
            {i. i < nat k \<and> dec_src_present (fold run_dec_op ops d) ! i} = {..<nat k})"
proof -
  have kr: "dec_k (run_dec_op a d) = dec_k d \<and> dec_r (run_dec_op a d) = dec_r d" for a and d :: "'a fec_decoder"
    by (cases a) (auto simp: fec_decoder_add_source_def fec_decoder_add_redundant_def fec_decoder_reset_def)
  have "dec_wf (fold run_dec_op ops d') \<and> dec_k (fold run_dec_op ops d') = dec_k d' \<and>
      dec_r (fold run_dec_op ops d') = dec_r d'" if "dec_wf d'" for d' :: "'a fec_decoder"
    using that by (induction ops arbitrary: d') (simp_all add: run_dec_op_wf kr)
  then have wf: "dec_wf (fold run_dec_op ops d)" "dec_k (fold run_dec_op ops d) = k" "dec_r (fold run_dec_op ops d) = r"
    using dec_wf_init [OF assms] by simp_all
  let ?A = "{i. i < nat k \<and> dec_src_present (fold run_dec_op ops d) ! i}"
  have src: "dec_src_count (fold run_dec_op ops d) = int (card ?A)"
    using wf by (simp add: dec_wf_def length_filter_conv_card cong: conj_cong)
  have sub: "?A \<subseteq> {..<nat k}" by auto
  have "card ?A = nat k \<longleftrightarrow> ?A = {..<nat k}"
    using card_subset_eq [OF finite_lessThan sub] by (metis card_lessThan)
  moreover have "0 < k" using wf by (simp add: dec_wf_def)
  then have "int (card ?A) = k \<longleftrightarrow> card ?A = nat k" by linarith
  ultimately have "fec_decoder_complete (Some (fold run_dec_op ops d)) \<longleftrightarrow> ?A = {..<nat k}"
    unfolding fec_decoder_complete_def option.case src wf(2) by blast
  moreover have "dec_red_count (fold run_dec_op ops d) =
      int (card {j. j < nat r \<and> dec_red_present (fold run_dec_op ops d) ! j})"
    using wf by (simp add: dec_wf_def length_filter_conv_card cong: conj_cong)
  ultimately show ?thesis using src by blast
qed

theorem decoder_counts_are_exact_witness:
  "\<exists>d. fec_decoder_init (Some dec_zero) (Some fec_shared_ctx) 8 2 512 None = Ok d \<and>
     dec_src_count (fold run_dec_op [AddSource 3 7, AddSource 3 9, AddRedundant 1 8] d) =
       int (card {i. i < 8 \<and> dec_src_present (fold run_dec_op [AddSource 3 7, AddSource 3 9, AddRedundant 1 8] d) ! i})"
proof -
  obtain d where d: "fec_decoder_init (Some dec_zero) (Some fec_shared_ctx) 8 2 512 None = Ok d"
    using default_inits(2) [of 8 2 dec_zero fec_shared_ctx 512] by auto
  show ?thesis
    using d decoder_counts_are_exact [OF d, of "[AddSource 3 7, AddSource 3 9, AddRedundant 1 8]"] by auto
qed

section \<open>Wire formats\<close>

text \<open>C7. The option walker computes the meaning of the option list: on the encoding of any list of
  well-formed options it returns the fold of the options' effects, whatever follows an end-of-list byte.\<close>

theorem option_walker_refines_option_list:
  assumes "\<forall>op\<in>set ops. opt_wf op" and "length (concat (map opt_bytes ops)) + n < 256"
    and "6 \<le> length post" and "n = 0 \<or> post ! 0 = TCP_OPT_END"
  shows "tcp_walk_options (pre @ concat (map opt_bytes ops) @ post) (length pre)
           (of_nat (length (concat (map opt_bytes ops)) + n)) out = Ok (fold opt_effect ops out)"
  by (rule walk_refines [OF assms])

theorem option_walker_refines_option_list_witness:
  "tcp_walk_options ([] @ concat (map opt_bytes [Noop, Opt TCP_OPT_TS (replicate 8 0), Opt TCP_OPT_SACK_OK []]) @ replicate 6 0)
     (length ([] :: bytes)) (of_nat (length (concat (map opt_bytes [Noop, Opt TCP_OPT_TS (replicate 8 0), Opt TCP_OPT_SACK_OK []])) + 3)) no_opts =
   Ok (fold opt_effect [Noop, Opt TCP_OPT_TS (replicate 8 0), Opt TCP_OPT_SACK_OK []] no_opts)"
  by (rule option_walker_refines_option_list) (simp_all add: opt_consts)

text \<open>C8. On arbitrary bytes the walk terminates without leaving the allocation, provided six bytes
  are readable after the option area, and those bytes never influence the result.\<close>

theorem option_walker_safe_and_local:
  assumes "in_bounds m1 ptr (unat optlen + 6)" and "in_bounds m2 ptr (unat optlen + 6)"
    and "\<forall>i<unat optlen. m1 ! (ptr + i) = m2 ! (ptr + i)"
  shows "\<exists>res. tcp_walk_options m1 ptr optlen out = Ok res \<and> tcp_walk_options m2 ptr optlen out = Ok res"
  using walk_safe [OF assms(1), of out] walk_local [OF assms(3,1,2), of out] by auto

theorem option_walker_safe_and_local_witness:
  "\<exists>res. tcp_walk_options [30, 2, 9, 9, 9, 9, 9, 9] 0 2 no_opts = Ok res \<and>
         tcp_walk_options [30, 2, 0, 0, 0, 0, 0, 0] 0 2 no_opts = Ok res"
proof -
  have "\<forall>i<unat (2::u8). ([30, 2, 9, 9, 9, 9, 9, 9] :: bytes) ! (0 + i) = [30, 2, 0, 0, 0, 0, 0, 0] ! (0 + i)"
    by (auto simp: less_2_cases_iff)
  then show ?thesis
    using option_walker_safe_and_local [of "[30, 2, 9, 9, 9, 9, 9, 9]" 0 2 "[30, 2, 0, 0, 0, 0, 0, 0]" no_opts]
    by (simp add: in_bounds_def)
qed


text \<open>C10. Negotiation round trip: the option area a SYN is built with parses back to what was offered
  (SACK, FEC with the default geometry, and the MSS if it is in the accepted range).\<close>

theorem syn_options_parse_back:
  assumes "tcp_syn_options mss sack fec = (optlen, opts)" and "6 \<le> length post"
  shows "tcp_walk_options (pre @ fst (tcp_write_syn_options opts optlen) @ post) (length pre) (of_nat optlen) no_opts =
           Ok \<lparr>po_sack_ok = sack, po_ts_seen = False, po_fec_perm = fec,
               po_mss = (if 536 < mss \<and> mss \<le> 1460 then mss else 0)\<rparr> \<and>
         length (fst (tcp_write_syn_options opts optlen)) = optlen \<and> optlen \<le> TCP_OPT_MAX \<and> optlen mod 4 = 0"
  using syn_options_roundtrip [OF assms] syn_area_length [OF assms(1)] by (simp add: TCP_OPT_MAX_def)

theorem syn_options_parse_back_witness:
  "tcp_syn_options 1460 True True = (16, \<lparr>opt_mss = 1460, opt_sack = True, opt_fec = True\<rparr>) \<and>
   tcp_walk_options ([] @ fst (tcp_write_syn_options \<lparr>opt_mss = 1460, opt_sack = True, opt_fec = True\<rparr> 16) @ replicate 6 0)
     (length ([] :: bytes)) (of_nat 16) no_opts =
   Ok \<lparr>po_sack_ok = True, po_ts_seen = False, po_fec_perm = True, po_mss = (if 536 < (1460 :: u16) \<and> (1460 :: u16) \<le> 1460 then 1460 else 0)\<rparr>"
proof -
  have e: "tcp_syn_options 1460 True True = (16, \<lparr>opt_mss = 1460, opt_sack = True, opt_fec = True\<rparr>)"
    by (simp add: syn_options_cases)
  show ?thesis using e syn_options_parse_back [OF e, of "replicate 6 0" "[]"] by simp
qed

section \<open>Queues, timers, checksums\<close>



text \<open>C12. Over any number of passes of the timer thread the callbacks started, together with the
  timers still live, are exactly the timers live at the start: each fires at most once, a
  cancelled one never does, none is lost.\<close>

theorem timers_fire_at_most_once:
  "mset (snd (run_steps n ts)) + mset (live (ts_list (fst (run_steps n ts)))) = mset (live (ts_list ts))"
  by (rule run_steps_live)

text \<open>A timer whose handle is still held survives a pass with its expiry, so the handle a
  connection keeps in \<open>retransmit\<close> stays valid.\<close>

theorem held_timer_survives:
  assumes "t \<in> set (ts_list ts)" and "tm_refcnt t \<noteq> 0"
  shows "\<exists>t'\<in>set (ts_list (fst (timers_step ts))).
           tm_id t' = tm_id t \<and> tm_refcnt t' = tm_refcnt t \<and> tm_expires t' = tm_expires t"
  using tick_keeps_held [OF assms, of "ts_tick ts + 10"]
  by (simp add: timers_step_def timers_tick_def case_prod_beta)

theorem held_timer_survives_witness:
  "\<exists>t'\<in>set (ts_list (fst (timers_step (snd (timer_add 5 () timers_init))))).
     tm_id t' = 0 \<and> tm_refcnt t' = 1 \<and> tm_expires t' = 5"
  using held_timer_survives [of "\<lparr>tm_id = 0, tm_refcnt = 1, tm_expires = 5, tm_cancelled = False, tm_handler = ()\<rparr>"
      "snd (timer_add 5 () timers_init)"]
  by (simp add: timer_add_def timer_insert_def timers_init_def timer_get_tick_def)

text \<open>The Internet checksum verifies: a region whose checksum field was filled in with the
  checksum computed over the region with that field zero has checksum zero.\<close>

theorem checksum_of_checksummed_is_zero:
  assumes "even (length xs)" and "length xs + length ys \<le> 65536"
  shows "checksum (xs @ le16 (checksum (xs @ le16 0 @ ys) 0) @ ys) 0 = 0"
proof -
  have "word_sum xs + word_sum ys \<le> 65535 * ((length xs + 1) div 2) + 65535 * ((length ys + 1) div 2)"
    using word_sum_bound [of xs] word_sum_bound [of ys] by linarith
  also have "\<dots> = 65535 * ((length xs + 1) div 2 + (length ys + 1) div 2)" by simp
  also have "\<dots> \<le> 65535 * 32769" using assms(2) by (intro mult_le_mono2) linarith
  finally have "unat (0::u32) + word_sum xs + word_sum ys + 65536 < 2 ^ 32" by simp
  then show ?thesis by (rule checksum_verifies [OF assms(1)])
qed

theorem checksum_of_checksummed_is_zero_witness:
  "checksum ([0x45, 0] @ le16 (checksum ([0x45, 0] @ le16 0 @ [1, 2, 3]) 0) @ [1, 2, 3]) 0 = 0"
  by (rule checksum_of_checksummed_is_zero) simp_all

section \<open>Network layer\<close>

lemma iphdr_split: "iphdr_bytes ih = (take 10 (iphdr_bytes ih)) @ le16 (ip_csum ih) @ drop 12 (iphdr_bytes ih)"
  by (simp add: iphdr_bytes_def le16_def be16_def)

lemma iphdr_csum_parts:
  "take 10 (iphdr_bytes (ih\<lparr>ip_csum := c\<rparr>)) = take 10 (iphdr_bytes ih)"
  "drop 12 (iphdr_bytes (ih\<lparr>ip_csum := c\<rparr>)) = drop 12 (iphdr_bytes ih)"
  by (simp_all add: iphdr_bytes_def le16_def be16_def)

lemma sent_header_sums_to_zero:
  assumes "ip_csum ih = 0" and "ip_ihl ih = 5"
  shows "checksum (iphdr_bytes (ip_send_check ih)) 0 = 0"
proof -
  let ?xs = "take 10 (iphdr_bytes ih)" and ?ys = "drop 12 (iphdr_bytes ih)"
  have "take (4 * unat (ip_ihl ih)) (iphdr_bytes ih) = ?xs @ le16 0 @ ?ys"
    using iphdr_split [of ih] assms by simp
  then have "iphdr_bytes (ip_send_check ih) = ?xs @ le16 (checksum (?xs @ le16 0 @ ?ys) 0) @ ?ys"
    using iphdr_split [of "ip_send_check ih"] by (simp add: ip_send_check_def iphdr_csum_parts)
  then show ?thesis using checksum_verifies [of ?xs 0 ?ys] word_sum_bound [of ?xs] word_sum_bound [of ?ys] by simp
qed

lemma netdev_transmit_spec:
  assumes "skb_data skb = 14" and "14 \<le> length (skb_head skb)" and "dev_addr_len dev = 6"
    and "length (dev_hwaddr dev) = 6" and "length dmac = 6" and "netdev_transmit tun dev dmac ty skb = (rc, skb', frames)"
  shows "skb_head skb' = dmac @ dev_hwaddr dev @ be16 ty @ drop 14 (skb_head skb)" and "skb_len skb' = skb_len skb + 14"
    and "frames = [take (unat (skb_len skb')) (skb_head skb')]" and "rc = tun (take (unat (skb_len skb')) (skb_head skb'))"
proof -
  obtain h t where h: "skb_head skb = h @ t" "length h = 14" using assms(2) by (metis append_take_drop_id length_take min.absorb2)
  have w: "buf_write (buf_write (buf_write (h @ t) 0 dmac) 6 (dev_hwaddr dev)) 12 (be16 ty) = dmac @ dev_hwaddr dev @ be16 ty @ t"
    using assms(4,5) h(2) by (simp add: buf_write_def)
  have d: "drop 14 (skb_head skb) = t" using h by simp
  have t6: "take 6 dmac = dmac" "take 6 (dev_hwaddr dev) = dev_hwaddr dev" using assms(4,5) by simp_all
  show "skb_head skb' = dmac @ dev_hwaddr dev @ be16 ty @ drop 14 (skb_head skb)"
    using assms(1,3,6) w unfolding d
    by (auto simp: netdev_transmit_def Let_def skb_push_def skb_store_def ETH_HDR_LEN_def h(1) t6)
  show "skb_len skb' = skb_len skb + 14"
    "frames = [take (unat (skb_len skb')) (skb_head skb')]" "rc = tun (take (unat (skb_len skb')) (skb_head skb'))"
    using assms(1,6)
    by (auto simp: netdev_transmit_def Let_def skb_push_def skb_store_def skb_bytes_def ETH_HDR_LEN_def)
qed

text \<open>C15. What \<open>ip_output\<close> sends, \<open>ip_rcv\<close> accepts: when the next hop is resolved, one frame goes to the
  device and the device's return code is returned; the packet in it has a valid checksum, the
  addresses and the length of the packet, and is handed to TCP.\<close>

theorem ip_output_accepted_by_ip_rcv:
  assumes "54 \<le> length (skb_head skb)" and "skb_data skb = 34" and "skb_protocol skb = 6"
    and "route_lookup nc daddr = Some rt" and "dev_addr_len (rt_dev rt) = 6" and "length (dev_hwaddr (rt_dev rt)) = 6"
    and "arp_get_hwaddr (if rt_flags rt AND RT_GATEWAY \<noteq> 0 then rt_gateway rt else daddr) (net_arp nc) = Some dmac"
    and "length dmac = 6" and "ip_output tun nc daddr skb = (rc, skb', frames)"
  shows "frames = [take (unat (skb_len skb + 34)) (skb_head skb')] \<and> rc = tun (take (unat (skb_len skb + 34)) (skb_head skb')) \<and>
         (\<exists>s. ip_rcv skb' = IpTcp s \<and> ip_daddr (ip_hdr s) = daddr \<and>
           ip_saddr (ip_hdr s) = dev_addr (rt_dev rt) \<and> ip_tot_len (ip_hdr s) = ucast (skb_len skb + 20))"
proof -
  let ?s1 = "skb_push skb IP_HDR_LEN"
  let ?ih = "ip_fill_header (dev_addr (rt_dev rt)) daddr ?s1 (ip_hdr skb)"
  let ?s2 = "set_ip_hdr ?ih ?s1"
  have len: "54 \<le> length (skb_head ?s1)" using assms(1) by simp
  have hdr: "ip_hdr ?s2 = ?ih" using len by (rule ip_hdr_set)
  have f: "ip_daddr ?ih = htonl daddr" "ip_saddr ?ih = htonl (dev_addr (rt_dev rt))" "ip_ihl ?ih = 5"
    "ip_version ?ih = 4" "ip_ttl ?ih = 64" "ip_proto ?ih = 6" "ip_tot_len ?ih = htons (ucast (skb_len skb + 20))"
    using assms(3) by (simp_all add: ip_fill_header_def ip_send_check_def skb_push_def IP_HDR_LEN_def)
  have out: "netdev_transmit tun (rt_dev rt) dmac ETH_P_IP ?s2 = (rc, skb', frames)"
    using assms(7,9)
    unfolding ip_output_def assms(4) option.case Let_def dst_neigh_output_def hdr f(1) htonl_htonl by simp
  have s2: "skb_data ?s2 = 14" "skb_len ?s2 = skb_len skb + 20" "length (skb_head ?s2) = length (skb_head skb)"
    using assms(1,2) by (simp_all add: set_ip_hdr_def skb_push_def length_buf_write in_bounds_def hdr_lens)
  note n = netdev_transmit_spec [OF s2(1) _ assms(5,6,8) out, unfolded s2]
  have n1: "drop 14 (skb_head skb') = drop 14 (skb_head ?s2)" using n(1) assms(1,6,8) by simp
  have len': "length (skb_head skb') = length (skb_head skb)" using n(1) assms(1,6,8) s2(3) by simp
  have ip': "drop ETH_HDR_LEN (skb_head skb') = iphdr_bytes ?ih @ drop 34 (skb_head skb)"
    using n1 len by (simp add: set_ip_hdr_def buf_write_drop hdr_lens)
  then have hdr': "ip_hdr skb' = ?ih" by (simp add: ip_hdr_def)
  have "checksum (take (4 * unat (ip_ihl ?ih)) (drop ETH_HDR_LEN (skb_head skb'))) 0 = 0"
    using f(3) ip' sent_header_sums_to_zero by (simp add: ip_fill_header_def)
  then have "ip_rcv skb' = IpTcp (set_ip_hdr (ip_hdr_to_host ?ih) skb')"
    using hdr' f by (simp add: ip_rcv_def)
  moreover have "ip_hdr (set_ip_hdr (ip_hdr_to_host ?ih) skb') = ip_hdr_to_host ?ih"
    using assms(1) len' by (intro ip_hdr_set) simp
  ultimately show ?thesis using n assms(1) f by (simp add: ip_hdr_to_host_def add.assoc)
qed

definition host_net :: net where
  "host_net = \<lparr>net_loop = fst netdev_init, net_dev = snd netdev_init,
     net_routes = route_init (fst netdev_init) (snd netdev_init),
     net_arp = [\<lparr>ae_hwtype = 1, ae_sip = 0x0a000001, ae_smac = [2, 0, 0, 0, 0, 1], ae_state = ARP_RESOLVED\<rparr>]\<rparr>"

lemma host_net_route:
  "route_lookup host_net 0x0a000001 = Some (route_alloc 0x0a000005 0 0xffffff00 RT_HOST 0 (snd netdev_init))"
  by (simp add: route_lookup_def host_net_def route_init_def route_add_def netdev_init_def netdev_alloc_def route_alloc_def)

definition bare_segment :: sk_buff where
  "bare_segment = (alloc_skb 0 54)\<lparr>skb_data := 34, skb_protocol := 6, skb_len := 20\<rparr>"

theorem ip_output_accepted_by_ip_rcv_witness:
  "\<exists>s. ip_rcv (fst (snd (ip_output (\<lambda>f. int (length f)) host_net 0x0a000001 bare_segment))) = IpTcp s \<and>
       ip_daddr (ip_hdr s) = 0x0a000001 \<and> ip_saddr (ip_hdr s) = 0x0a000005 \<and> ip_tot_len (ip_hdr s) = 40"
proof -
  obtain rc skb' frames where out: "ip_output (\<lambda>f. int (length f)) host_net 0x0a000001 bare_segment = (rc, skb', frames)"
    by (metis prod_cases3)
  have arp: "arp_get_hwaddr (if rt_flags (route_alloc 0x0a000005 0 0xffffff00 RT_HOST 0 (snd netdev_init)) AND RT_GATEWAY \<noteq> 0
      then rt_gateway (route_alloc 0x0a000005 0 0xffffff00 RT_HOST 0 (snd netdev_init)) else 0x0a000001) (net_arp host_net) =
      Some [2, 0, 0, 0, 0, 1]"
    by (simp add: route_alloc_def host_net_def RT_HOST_def RT_GATEWAY_def)
  show ?thesis
    using ip_output_accepted_by_ip_rcv [OF _ _ _ host_net_route _ _ arp _ out] out
    by (simp add: bare_segment_def alloc_skb_def route_alloc_def netdev_init_def netdev_alloc_def)
qed

section \<open>The byte stream\<close>

text \<open>C16. Whatever slices of the peer's stream arrive, overlapping, repeated and in any order, and
  however the reads are interleaved, no step fails, what the user has read followed by what is
  queued for reading is a prefix of the stream, and \<open>rcv_nxt\<close> points behind that prefix.\<close>

theorem reader_sees_a_prefix:
  assumes "rx_open base tsk" and "base \<noteq> 0" and "unat base + length W < 2 ^ 32" and "length ops < 2 ^ 32 - 1"
    and "\<forall>skb\<in>set (deliveries ops). slice_of W base skb \<and> skb_end_seq skb = skb_seq skb + skb_dlen skb"
    and "\<forall>n. Read n \<in> set ops \<longrightarrow> n < 2 ^ 32"
  shows "\<exists>d tsk' n. run_rx out ops tsk = Ok (d, tsk') \<and> n \<le> length W \<and>
           d @ pending (sk_receive_queue tsk') = take n W \<and> rcv_nxt (tcb tsk') = base + of_nat n"
proof -
  have nz: "skb_seq skb \<noteq> 0 \<and> skb_end_seq skb \<noteq> 0"
    if h: "slice_of W base skb" "skb_end_seq skb = skb_seq skb + skb_dlen skb" for skb
  proof -
    obtain off where off: "off + unat (skb_dlen skb) \<le> length W" "skb_seq skb = base + of_nat off"
      using h(1) by (auto simp: slice_of_def)
    then have "skb_end_seq skb = base + of_nat (off + unat (skb_dlen skb))" using h(2) by (simp add: add.assoc)
    then have "unat (skb_end_seq skb) = unat base + (off + unat (skb_dlen skb))"
      using unat_base [of base "off + unat (skb_dlen skb)"] off(1) assms(3) by simp
    moreover have "unat (skb_seq skb) = unat base + off" using off assms(3) by (simp add: unat_base)
    moreover have "0 < unat base" using assms(2) by (simp add: unat_gt_0)
    ultimately show ?thesis by auto
  qed
  have "\<forall>op\<in>set ops. honest_op W base op" by (rule honest_ops) (use nz assms(5,6) in blast)+
  then obtain d tsk' where "run_rx out ops tsk = Ok (d, tsk')" "rx_inv W base d (length ops) tsk'"
    using run_rx_inv [OF _ rx_open_inv [OF assms(1)], of W ops out] assms(3,4) by auto
  then show ?thesis by (auto simp: rx_inv_def stream_inv_def)
qed

text \<open>C17. Nothing is lost: when the segments of a stream, cut anywhere, arrive once each in an
  arbitrary order, interleaved with reads, everything is read or ready to be read.\<close>

theorem stream_arrives_complete:
  assumes "rx_open base tsk" and "base \<noteq> 0" and "unat base + length W < 2 ^ 32" and "length ops < 2 ^ 32 - 1"
    and "tiles W base 0 segs" and "distinct (map skb_id segs)" and "mset (deliveries ops) = mset segs"
    and "\<forall>n. Read n \<in> set ops \<longrightarrow> n < 2 ^ 32"
  shows "\<exists>d tsk'. run_rx out ops tsk = Ok (d, tsk') \<and> d @ pending (sk_receive_queue tsk') = W"
proof -
  let ?hi = "unat base + length W"
  note t = tiles_range [OF assms(5,3)]
  have til: "tiling (unat base) ?hi (set segs)" using tiles_tiling [OF assms(5,3,6)] by simp
  have eq: "set (deliveries ops) = set segs" "distinct (deliveries ops)"
    using assms(6,7) by (metis set_mset_mset, metis distinct_map mset_eq_imp_distinct_iff)
  have b: "0 < unat base" using assms(2) by (simp add: unat_gt_0)
  have good: "slice_of W base s \<and> skb_seq s \<noteq> 0 \<and> skb_end_seq s \<noteq> 0" if s: "s \<in> set segs" for s
  proof -
    have "0 < unat (skb_seq s)" using t(1) [OF s] b by linarith
    moreover have "unat (skb_end_seq s) = unat (skb_seq s) + unat (skb_dlen s)"
      using t(3,4) [OF s] assms(3) by (simp add: unat_word_ariths)
    ultimately show ?thesis using t(5) [OF s] by auto
  qed
  have hon: "\<forall>op\<in>set ops. honest_op W base op" by (rule honest_ops) (use good eq(1) assms(8) in auto)
  have g: "gathered (unat base) ?hi (set segs) {} tsk" "settled tsk"
    using assms(1) til t(1) by (auto simp: gathered_def settled_def rx_open_def skb_queue_init_def q_wf_def tiling_def word_less_nat_alt)
      (metis unsigned_word_eqI)
  obtain d tsk' where r: "run_rx out ops tsk = Ok (d, tsk')" "rx_inv W base d (length ops) tsk'"
    "gathered (unat base) ?hi (set segs) (set segs) tsk'" "settled tsk'"
    using run_rx_gathers [OF til assms(3) _ _ rx_open_inv [OF assms(1)] g, where ops = ops and out = out and W = W] good eq assms(3,4) hon by auto
  obtain n where n: "n \<le> length W" "rcv_nxt (tcb tsk') = base + of_nat n" "d @ pending (sk_receive_queue tsk') = take n W"
    using r(2) by (auto simp: rx_inv_def stream_inv_def)
  have "unat base + n = ?hi" using all_gathered [OF til r(3,4)] n(1,2) assms(3) by (simp add: unat_base)
  then show ?thesis using r(1) n(3) by auto
qed

definition demo_sock :: tcp_sock where
  "demo_sock = (tcp_alloc_sock timers_init 0)\<lparr>sk_state := TCP_ESTABLISHED, sacks_allowed := 4,
     tcb := tcb_zero\<lparr>rcv_nxt := 1000, rcv_wnd := 44477, snd_una := 500, snd_nxt := 500\<rparr>\<rparr>"

definition demo_segment :: "nat \<Rightarrow> u32 \<Rightarrow> bytes \<Rightarrow> sk_buff" where
  "demo_segment i seq d = (alloc_skb i 0)\<lparr>skb_head := d, skb_seq := seq, skb_dlen := of_nat (length d),
     skb_end_seq := seq + of_nat (length d)\<rparr>"

lemma demo_open: "rx_open 1000 demo_sock"
  by (simp add: rx_open_def demo_sock_def tcp_alloc_sock_def sack_ready_def tcb_zero_def)

lemmas demo_simps = demo_segment_def alloc_skb_def slice_of_def seg_ok_def skb_pay_def in_bounds_def buf_read_def

theorem reader_sees_a_prefix_witness:
  "\<exists>d tsk' n. run_rx (\<lambda>_ s. (0, s)) [Deliver (demo_segment 1 1002 [3, 4]), Read 8, Deliver (demo_segment 2 1001 [2, 3])] demo_sock =
       Ok (d, tsk') \<and> n \<le> length [1, 2, 3, 4 :: u8] \<and>
     d @ pending (sk_receive_queue tsk') = take n [1, 2, 3, 4] \<and> rcv_nxt (tcb tsk') = 1000 + of_nat n"
proof (rule reader_sees_a_prefix [OF demo_open])
  have "slice_of [1, 2, 3, 4] 1000 (demo_segment 1 1002 [3, 4])" by (simp add: demo_simps exI [of _ 2])
  moreover have "slice_of [1, 2, 3, 4] 1000 (demo_segment 2 1001 [2, 3])" by (simp add: demo_simps exI [of _ 1])
  ultimately show "\<forall>skb\<in>set (deliveries [Deliver (demo_segment 1 1002 [3, 4]), Read 8, Deliver (demo_segment 2 1001 [2, 3])]).
      slice_of [1, 2, 3, 4] 1000 skb \<and> skb_end_seq skb = skb_seq skb + skb_dlen skb"
    by (simp add: demo_segment_def)
qed (auto)

theorem stream_arrives_complete_witness:
  "\<exists>d tsk'. run_rx (\<lambda>_ s. (0, s)) [Deliver (demo_segment 1 1002 [3, 4]), Read 8, Deliver (demo_segment 2 1000 [1, 2]), Read 1] demo_sock =
       Ok (d, tsk') \<and> d @ pending (sk_receive_queue tsk') = [1, 2, 3, 4]"
  by (rule stream_arrives_complete [OF demo_open, of _ _ "[demo_segment 2 1000 [1, 2], demo_segment 1 1002 [3, 4]]"])
    (auto simp: demo_simps add_mset_commute)

text \<open>C18. The SACK blocks a receiver reports are the maximal runs of adjacent segments of its
  out-of-order queue, in queue order, up to the number the options leave room for.\<close>

theorem sack_blocks_are_maximal_runs:
  assumes "sacklen tsk = 0" and "length (sacks tsk) = 4" and "0 < sacks_allowed tsk" and "sacks_allowed tsk \<le> 4"
    and "\<forall>x\<in>set (q_list (ofo_queue tsk)). skb_seq x \<noteq> 0 \<and> skb_end_seq x \<noteq> 0"
  shows "\<exists>tsk'. tcp_calculate_sacks tsk = Ok tsk' \<and> unat (sacklen tsk') \<le> unat (sacks_allowed tsk) \<and>
           map blk (take (unat (sacklen tsk')) (sacks tsk')) =
             take (unat (sacks_allowed tsk)) (sack_runs (map seg (q_list (ofo_queue tsk))))"
  using calculate_sacks_runs [OF assms] by blast

theorem sack_blocks_are_maximal_runs_witness:
  "\<exists>tsk'. tcp_calculate_sacks (demo_sock\<lparr>ofo_queue := \<lparr>q_list = [demo_segment 1 1002 [3, 4], demo_segment 2 1004 [5]], qlen = 2\<rparr>\<rparr>) = Ok tsk' \<and>
     unat (sacklen tsk') \<le> 4 \<and> map blk (take (unat (sacklen tsk')) (sacks tsk')) = [(1002, 1005)]"
  using sack_blocks_are_maximal_runs
    [of "demo_sock\<lparr>ofo_queue := \<lparr>q_list = [demo_segment 1 1002 [3, 4], demo_segment 2 1004 [5]], qlen = 2\<rparr>\<rparr>"]
  by (simp add: demo_sock_def tcp_alloc_sock_def demo_segment_def)




section \<open>The coded byte stream\<close>

text \<open>C20. Coding never corrupts the stream: whatever source segments, repair segments and untagged
  segments of the peer's coded stream arrive at \<open>tcp_input_state\<close>, of any number of blocks, lost,
  repeated and in any order, interleaved with reads, every call returns and what the user has read
  or can read is a prefix of the stream.\<close>

theorem coded_stream_stays_intact:
  assumes "rx_open base tsk" and "idle tsk" and "tsk_fec tsk = Some fec" and "fec_fresh fec"
    and "base \<noteq> 0" and "unat base + length W < 2 ^ 32" and "129 * length ops < 2 ^ 32 - 1"
    and "\<forall>op\<in>set ops. coded_op W base blocks fec (snd_una (tcb tsk)) op"
  shows "\<exists>d tsk' n. run_input out shared ops tsk = Ok (d, tsk') \<and> n \<le> length W \<and>
           d @ pending (sk_receive_queue tsk') = take n W \<and> rcv_nxt (tcb tsk') = base + of_nat n"
proof -
  have "fec_rx_inv W base blocks fec [] 0 (snd_una (tcb tsk)) tsk"
    using rx_open_inv [OF assms(1)] assms(2,3) fec_ok_fresh [OF assms(4)] by (auto simp: fec_rx_inv_def same_geometry_def)
  from run_input_inv [OF assms(5,6) this _ assms(8), of out shared] assms(7) obtain d tsk' where
    "run_input out shared ops tsk = Ok (d, tsk')" "rx_inv W base d (129 * length ops) tsk'" by (auto simp: fec_rx_inv_def)
  then show ?thesis by (auto simp: rx_inv_def stream_inv_def)
qed


text \<open>A small coded transfer: a block of two segments, of which the first is lost.\<close>

definition demo_hdr :: "u32 \<Rightarrow> tcphdr" where
  "demo_hdr seq = \<lparr>th_sport = 80, th_dport = 4000, th_seq = seq, th_ack_seq = 500, th_rsvd = 0, th_hl = 7, th_fin = False,
     th_syn = False, th_rst = False, th_psh = False, th_ack = True, th_urg = False, th_ece = False, th_cwr = False,
     th_win = 1000, th_csum = 0, th_urp = 0\<rparr>"

definition demo_coded :: "nat \<Rightarrow> u8 \<Rightarrow> u8 \<Rightarrow> u32 \<Rightarrow> bytes \<Rightarrow> sk_buff" where
  "demo_coded i ty idx seq d =
     (alloc_skb i 0)\<lparr>skb_head := replicate 34 0 @ tcphdr_bytes (demo_hdr seq) @
        tcp_opt_fec_bytes \<lparr>fo_type = ty, fo_index = idx, fo_block_id = 7\<rparr> @ d,
      skb_payload := 62, skb_seq := seq, skb_dlen := of_nat (length d), skb_end_seq := seq + of_nat (length d)\<rparr>"

definition demo_bytes :: bytes where "demo_bytes = replicate 512 9 @ [1, 2, 3]"

definition demo_block :: fec_block where
  "demo_block = \<lparr>fb_syms = [replicate 512 9, [1, 2, 3] @ replicate 509 0], fb_off = 0, fb_tail = 3\<rparr>"

definition demo_source :: "nat \<Rightarrow> sk_buff" where
  "demo_source i = (if i = 0 then demo_coded 1 FEC_SYM_SOURCE 0 1000 (replicate 512 9) else demo_coded 2 FEC_SYM_SOURCE 1 1512 [1, 2, 3])"

definition demo_repair :: sk_buff where
  "demo_repair = demo_coded 3 FEC_SYM_REPAIR 0 500
     (fec_repair_hdr_bytes \<lparr>rh_version = 1, rh_k = 2, rh_r = 2, rh_repair_index = 0, rh_block_id = 7, rh_base_seq = 1000,
        rh_sym_len = 512, rh_tail_len = 3\<rparr> @ fb_parity 512 2 demo_block 0)"

definition demo_fec_sock :: tcp_sock where
  "demo_fec_sock = snd (tcp_fec_enable (Some fec_shared_ctx) True True (demo_sock\<lparr>next_skb := 10\<rparr>))"

lemma demo_coded_simps:
  assumes "length d < 1000"
  shows "tcp_hdr (demo_coded i ty idx seq d) = demo_hdr seq"
    and "th_data (demo_coded i ty idx seq d) = tcp_opt_fec_bytes \<lparr>fo_type = ty, fo_index = idx, fo_block_id = 7\<rparr> @ d"
    and "skb_pay (demo_coded i ty idx seq d) = d" and "seg_ok (demo_coded i ty idx seq d)"
    and "skb_seq (demo_coded i ty idx seq d) = seq" and "unat (skb_dlen (demo_coded i ty idx seq d)) = length d"
    and "skb_end_seq (demo_coded i ty idx seq d) = seq + skb_dlen (demo_coded i ty idx seq d)" and "skb_id (demo_coded i ty idx seq d) = i"
    and "d \<noteq> [] \<Longrightarrow> plain_data 500 (demo_coded i ty idx seq d)"
    and "j < 256 \<Longrightarrow> idx = of_nat j \<Longrightarrow> tagged ty 7 j (demo_coded i ty idx seq d)"
proof -
  have l: "length (tcp_opt_fec_bytes \<lparr>fo_type = ty, fo_index = idx, fo_block_id = 7\<rparr>) = 8"
    by (simp add: tcp_opt_fec_bytes_def be_simps)
  have u: "unat (of_nat (length d) :: u32) = length d" using assms by (simp add: unat_of_nat)
  show h: "tcp_hdr (demo_coded i ty idx seq d) = demo_hdr seq"
    by (simp add: demo_coded_def tcp_hdr_def hdr_lens)
  show t: "th_data (demo_coded i ty idx seq d) = tcp_opt_fec_bytes \<lparr>fo_type = ty, fo_index = idx, fo_block_id = 7\<rparr> @ d"
    by (simp add: demo_coded_def th_data_def hdr_lens)
  show "skb_pay (demo_coded i ty idx seq d) = d" "seg_ok (demo_coded i ty idx seq d)"
    using l u by (simp_all add: demo_coded_def skb_pay_def seg_ok_def buf_read_def in_bounds_def)
  show "skb_seq (demo_coded i ty idx seq d) = seq" "unat (skb_dlen (demo_coded i ty idx seq d)) = length d"
    "skb_end_seq (demo_coded i ty idx seq d) = seq + skb_dlen (demo_coded i ty idx seq d)" "skb_id (demo_coded i ty idx seq d) = i"
    using u by (simp_all add: demo_coded_def alloc_skb_def)
  show "plain_data 500 (demo_coded i ty idx seq d)" if "d \<noteq> []"
    unfolding plain_data_def h using that u by (simp add: demo_hdr_def demo_coded_def alloc_skb_def word_less_nat_alt)
  show "tagged ty 7 j (demo_coded i ty idx seq d)" if "j < 256" "idx = of_nat j"
    unfolding tagged_def h t using that by (simp add: demo_hdr_def tcp_hlen_def)
qed

lemma demo_fec:
  "\<exists>fec. tsk_fec demo_fec_sock = Some fec \<and> fec_fresh fec \<and> fec_k fec = 8 \<and> fec_r fec = 2 \<and> fec_sym_len fec = 512 \<and>
     rx_open 1000 demo_fec_sock \<and> idle demo_fec_sock \<and> snd_una (tcb demo_fec_sock) = 500 \<and>
     rcv_wnd (tcb demo_fec_sock) = 44477 \<and> next_skb demo_fec_sock = 10"
proof -
  let ?s = "demo_sock\<lparr>next_skb := 10\<rparr>"
  have "tsk_fec ?s = None" by (simp add: demo_sock_def tcp_alloc_sock_def)
  from fec_enable_fresh [OF this] obtain fec where
    f: "tcp_fec_enable (Some fec_shared_ctx) True True ?s = (0, ?s\<lparr>tsk_fec := Some fec\<rparr>)" "fec_fresh fec"
    "fec_k fec = 8" "fec_r fec = 2" "fec_sym_len fec = 512"
    by (auto simp: TCP_FEC_DEFAULT_K_def TCP_FEC_DEFAULT_R_def TCP_FEC_DEFAULT_SYM_LEN_def)
  then have d: "demo_fec_sock = ?s\<lparr>tsk_fec := Some fec\<rparr>" by (simp add: demo_fec_sock_def)
  have "rx_open 1000 demo_fec_sock" using demo_open by (simp add: d rx_open_def sack_ready_def)
  moreover have "idle demo_fec_sock"
    by (simp add: d idle_def demo_sock_def tcp_alloc_sock_def skb_queue_empty_def skb_queue_len_def skb_queue_init_def tcb_zero_def)
  ultimately show ?thesis using f(2-5) by (simp add: d demo_sock_def tcb_zero_def)
qed

lemma demo_blocks:
  "block_of demo_bytes 512 demo_block" "whole_block demo_bytes 512 demo_block"
  by (auto simp: block_of_def whole_block_def block_ok_def demo_block_def demo_bytes_def fb_len_def less_Suc_eq numeral_2_eq_2)

lemma demo_sources:
  assumes "fec_k fec = 8" and "fec_sym_len fec = 512"
  shows "block_segs demo_bytes 1000 fec demo_block [demo_source 0, demo_source 1]"
    and "\<forall>i<2. source_segment demo_bytes 1000 fec demo_block i ([demo_source 0, demo_source 1] ! i) \<and>
           tagged FEC_SYM_SOURCE 7 i ([demo_source 0, demo_source 1] ! i) \<and> plain_data 500 ([demo_source 0, demo_source 1] ! i)"
proof -
  have l: "length (fb_syms demo_block) = 2" "fb_len 512 demo_block 0 = 512" "fb_len 512 demo_block (Suc 0) = 3" "fb_off demo_block = 0"
    by (simp_all add: demo_block_def fb_len_def)
  have s0: "source_segment demo_bytes 1000 fec demo_block 0 (demo_source 0)"
    using demo_blocks(1) assms l by (simp add: source_segment_def demo_source_def demo_coded_simps demo_bytes_def)
  have s1: "source_segment demo_bytes 1000 fec demo_block (Suc 0) (demo_source 1)"
    using demo_blocks(1) assms l by (simp add: source_segment_def demo_source_def demo_coded_simps demo_bytes_def)
  have t: "tagged FEC_SYM_SOURCE 7 0 (demo_source 0)" "tagged FEC_SYM_SOURCE 7 (Suc 0) (demo_source 1)"
    "plain_data 500 (demo_source 0)" "plain_data 500 (demo_source 1)"
    by (simp_all add: demo_source_def demo_coded_simps)
  show "\<forall>i<2. source_segment demo_bytes 1000 fec demo_block i ([demo_source 0, demo_source 1] ! i) \<and>
           tagged FEC_SYM_SOURCE 7 i ([demo_source 0, demo_source 1] ! i) \<and> plain_data 500 ([demo_source 0, demo_source 1] ! i)"
    using s0 s1 t by (auto simp: less_Suc_eq numeral_2_eq_2)
  then show "block_segs demo_bytes 1000 fec demo_block [demo_source 0, demo_source 1]"
    using l by (auto simp: block_segs_def plain_data_def numeral_2_eq_2 less_Suc_eq)
qed

lemma demo_repairs:
  assumes "fec_k fec = 8" and "fec_r fec = 2" and "fec_sym_len fec = 512"
  shows "repair_segment demo_bytes 1000 fec demo_block 0 demo_repair" and "tagged FEC_SYM_REPAIR 7 0 demo_repair"
    and "plain_data 500 demo_repair"
proof -
  let ?h = "\<lparr>rh_version = 1, rh_k = 2, rh_r = 2, rh_repair_index = 0, rh_block_id = 7, rh_base_seq = 1000, rh_sym_len = 512, rh_tail_len = 3\<rparr>"
  define d where "d = fec_repair_hdr_bytes ?h @ fb_parity 512 2 demo_block 0"
  have p: "length d = 528" "length d < 1000" "d \<noteq> []"
    by (auto simp: d_def fec_repair_hdr_bytes_def be_simps fb_parity_def)
  have r: "demo_repair = demo_coded 3 FEC_SYM_REPAIR 0 500 d" by (simp add: demo_repair_def d_def)
  show "tagged FEC_SYM_REPAIR 7 0 demo_repair" "plain_data 500 demo_repair"
    unfolding r by (rule demo_coded_simps(10) [OF p(2)], simp, simp) (rule demo_coded_simps(9) [OF p(2,3)])
  have pay: "skb_pay demo_repair = d" "seg_ok demo_repair" "unat (skb_dlen demo_repair) = 528"
    unfolding r using demo_coded_simps(3,4,6) [OF p(2)] p(1) by simp_all
  show "repair_segment demo_bytes 1000 fec demo_block 0 demo_repair"
    unfolding repair_segment_def pay d_def using pay(2) assms demo_blocks(1)
    by (auto simp: demo_block_def intro!: exI [of _ ?h])
qed

theorem coded_stream_stays_intact_witness:
  "\<exists>d tsk' n. run_input (\<lambda>_ s. (0, s)) (True, None) [Deliver (demo_source 1), Read 5, Deliver demo_repair] demo_fec_sock = Ok (d, tsk') \<and>
     n \<le> length demo_bytes \<and> d @ pending (sk_receive_queue tsk') = take n demo_bytes \<and> rcv_nxt (tcb tsk') = 1000 + of_nat n"
proof -
  obtain fec where f: "tsk_fec demo_fec_sock = Some fec" "fec_fresh fec" "fec_k fec = 8" "fec_r fec = 2" "fec_sym_len fec = 512"
    "rx_open 1000 demo_fec_sock" "idle demo_fec_sock" "snd_una (tcb demo_fec_sock) = 500"
    using demo_fec by blast
  have "source_segment demo_bytes 1000 fec demo_block 1 (demo_source 1)" "tagged FEC_SYM_SOURCE 7 1 (demo_source 1)" "plain_data 500 (demo_source 1)"
    using demo_sources(2) [OF f(3,5), rule_format, of 1] by simp_all
  then have "\<forall>op\<in>set [Deliver (demo_source 1), Read 5, Deliver demo_repair].
      coded_op demo_bytes 1000 (\<lambda>_. demo_block) fec (snd_una (tcb demo_fec_sock)) op"
    using demo_repairs [OF f(3-5)] unfolding f(8) coded_op_def coded_ok_def by auto
  from coded_stream_stays_intact [OF f(6,7,1,2) _ _ _ this] show ?thesis by (simp add: demo_bytes_def)
qed


section \<open>The socket layer\<close>

definition demo_socket :: socket where
  "demo_socket = \<lparr>so_ptr = 0, so_fd = 4097, so_pid = 7, so_refcnt = 1, so_type = 1, so_ops = True,
     so_sk = Some (tcp_alloc_sock timers_init 0)\<rparr>"

definition demo_table :: sock_table where
  "demo_table = sock_table_init\<lparr>sockets := [demo_socket], sock_amount := 1, next_fd := 4098, next_ptr := 1\<rparr>"

lemma demo_table_wf: "table_wf demo_table"
  by (simp add: table_wf_def socket_ok_def demo_table_def demo_socket_def sock_table_init_def)

lemma demo_get: "get_socket 7 4097 demo_table = Some demo_socket" "sockets demo_table = [demo_socket]"
  by (simp_all add: get_socket_def demo_table_def demo_socket_def sock_table_init_def)

lemma demo_created: "lvl_socket 7 2 1 0 sock_table_init = Ok (4097, demo_table)"
  using socket_cases [OF init_wf, of 2 7 1 0]
  by (simp add: Let_def demo_table_def demo_socket_def sock_table_init_def SOCK_STREAM_def timers_init_def)

lemma demo_run: "sys_run out sock_table_init [New_Socket 7] demo_table"
  using run_snoc [OF run_nil on_socket [OF demo_created]] by simp

text \<open>
  C22. Whatever calls, segments, timer callbacks and aborts happen from the start of the program, no two
  sockets share an address or a descriptor, every listed socket has its operations, its connection
  and a reference count of at least one, and no listed or formerly listed socket structure has
  been passed to \<open>free\<close>.
\<close>

theorem socket_table_invariant:
  assumes "sys_run out sock_table_init es tab"
  shows "distinct (map so_ptr (sockets tab)) \<and> distinct (map so_fd (sockets tab)) \<and> freed tab = [] \<and>
    sock_amount tab \<le> int (length (sockets tab)) \<and>
    (\<forall>so\<in>set (sockets tab). so_ops so \<and> so_sk so \<noteq> None \<and> 1 \<le> so_refcnt so \<and> 4097 \<le> so_fd so \<and> so_fd so < next_fd tab)"
  using run_keeps [OF assms init_wf] by (auto simp: table_wf_def socket_ok_def)

theorem socket_table_invariant_witness:
  "sys_run (\<lambda>_ s. (0, s)) sock_table_init [New_Socket 7] demo_table \<and> sockets demo_table = [demo_socket] \<and>
   distinct (map so_fd (sockets demo_table)) \<and> freed demo_table = []"
  using socket_table_invariant [OF demo_run [of "\<lambda>_ s. (0, s)"]] demo_run demo_get(2) by blast

text \<open>
  C23. Calls by other processes or on other descriptors, segments for other ports, timers of other
  sockets, new sockets and the clock leave a socket exactly as it is, and its owner still finds
  it under its descriptor.
\<close>

theorem sockets_are_isolated:
  assumes "sys_run out tab es tab'" and "table_wf tab" and "get_socket pid fd tab = Some so" and "\<forall>e\<in>set es. \<not> concerns e so"
  shows "get_socket pid fd tab' = Some so"
proof -
  have so: "so \<in> set (sockets tab) \<and> so_pid so = pid \<and> so_fd so = fd" using wf_get_iff [OF assms(2)] assms(3) by blast
  then have "so \<in> set (sockets tab')" using run_frame [OF assms(1,2) _ assms(4)] by blast
  then show ?thesis using wf_get_iff [OF run_keeps [OF assms(1,2)]] so by blast
qed

theorem sockets_are_isolated_witness:
  "\<exists>tab'. sys_run (\<lambda>_ s. (0, s)) demo_table [Call 8 4097] tab' \<and> get_socket 7 4097 tab' = Some demo_socket"
proof -
  have "get_socket 8 4097 demo_table = None" by (simp add: get_socket_def demo_table_def demo_socket_def sock_table_init_def)
  from missing_call(4) [OF this, of "\<lambda>_ s. (0, s)" True]
  have "sys_run (\<lambda>_ s. (0, s)) demo_table [Call 8 4097] demo_table" using run_snoc [OF run_nil on_close] by fastforce
  moreover have "\<forall>e\<in>set [Call 8 4097]. \<not> concerns e demo_socket" by (simp add: demo_socket_def)
  ultimately show ?thesis using sockets_are_isolated [OF _ demo_table_wf demo_get(1)] by blast
qed



text \<open>
  C25. On a well-formed table the calls that query or set attributes and a pass of \<open>_poll\<close> return: no
  pointer they follow is missing.  The table is well formed after them.
\<close>

theorem attribute_calls_are_defined:
  assumes "table_wf tab"
  shows "(\<exists>rc tab'. lvl_fcntl pid fd cmd arg tab = Ok (rc, tab') \<and> table_wf tab') \<and>
    (\<exists>rc v tab'. lvl_getsockopt pid fd level optname tab = Ok (rc, v, tab') \<and> table_wf tab') \<and>
    (\<exists>rc a tab'. lvl_getpeername pid fd tab = Ok (rc, a, tab') \<and> table_wf tab') \<and>
    (\<exists>rc a tab'. lvl_getsockname pid fd tab = Ok (rc, a, tab') \<and> table_wf tab') \<and>
    (\<exists>n fds'. poll_scan pid fds tab = Ok (n, fds', tab))"
proof (cases "get_socket pid fd tab")
  case None
  then show ?thesis using assms poll_scan_keeps [OF assms, of pid fds] by (simp add: missing_call) blast
next
  case (Some so)
  then have so: "so_ops so \<and> so_sk so \<noteq> None" using get_Some [OF Some] wf_member [OF assms] by blast
  then obtain sk where sk: "so_sk so = Some sk" by blast
  note t = touches_wf [OF fcntl_touches [OF assms Some]] touches_wf [OF query_touches(1) [OF assms Some]]
    touches_wf [OF query_touches(2) [OF assms Some]] touches_wf [OF query_touches(3) [OF assms Some]]
  have "\<exists>rc tab'. lvl_fcntl pid fd cmd arg tab = Ok (rc, tab')" using Some sk by (simp add: lvl_fcntl_def Let_def)
  moreover have "\<exists>rc v tab'. lvl_getsockopt pid fd level optname tab = Ok (rc, v, tab')" using Some sk by (simp add: lvl_getsockopt_def Let_def)
  moreover have "\<exists>rc a tab'. lvl_getpeername pid fd tab = Ok (rc, a, tab')" "\<exists>rc a tab'. lvl_getsockname pid fd tab = Ok (rc, a, tab')"
    using Some sk so by (simp_all add: lvl_getpeername_def lvl_getsockname_def Let_def case_prod_beta)
  ultimately show ?thesis using t poll_scan_keeps [OF assms, of pid fds] by blast
qed

theorem attribute_calls_are_defined_witness:
  "\<exists>rc tab'. lvl_fcntl 7 4097 F_GETFL 0 demo_table = Ok (rc, tab') \<and> table_wf tab'"
  using attribute_calls_are_defined [OF demo_table_wf, where pid = 7 and fd = 4097 and cmd = F_GETFL and arg = 0] by blast

text \<open>
  C26. Once a socket was freed, its pending garbage-collection timer finds nothing to free, whatever
  is stored through old pointers to sockets in between.
\<close>

theorem freed_socket_is_not_collected_again:
  assumes "table_wf tab" and "so \<in> set (sockets tab)" and "socket_free so tab = Ok tab'"
  shows "socket_garbage_collect (so_ptr so) (fold put_socket vs tab') = Ok (fold put_socket vs tab')"
proof -
  have "1 \<le> so_refcnt so" using wf_member [OF assms(1,2)] by blast
  note f = free_keeps [OF assms(1,2) same_socket_simps(1) this assms(3)]
  have "socket_find (so_ptr so) tab' = None"
  proof (cases "socket_find (so_ptr so) tab'")
    case (Some s)
    then have "s \<in> set (sockets tab) - {so} \<and> so_ptr s = so_ptr so" using wf_find_iff [OF f(1)] f(2) by blast
    moreover have "inj_on so_ptr (set (sockets tab))" using assms(1) by (simp add: table_wf_def distinct_map)
    ultimately show ?thesis using assms(2) by (blast dest: inj_onD)
  qed
  then have "socket_find (so_ptr so) (fold put_socket vs tab') = None" using st.stores_keep_keys by blast
  then show ?thesis by (simp add: socket_garbage_collect_def)
qed

theorem freed_socket_is_not_collected_again_witness:
  "\<exists>tab'. socket_free demo_socket demo_table = Ok tab' \<and> socket_garbage_collect 0 (fold put_socket [demo_socket] tab') = Ok (fold put_socket [demo_socket] tab')"
proof -
  have "\<exists>tab'. socket_free demo_socket demo_table = Ok tab'"
    by (simp add: socket_free_def inet_free_def sock_free_def Let_def demo_socket_def socket_wr_acquire_def tcp_alloc_sock_def
        skb_queue_free_def skb_queue_init_def)
  then obtain tab' where t: "socket_free demo_socket demo_table = Ok tab'" ..
  have "demo_socket \<in> set (sockets demo_table)" "so_ptr demo_socket = 0" by (simp_all add: demo_table_def demo_socket_def)
  then show ?thesis using freed_socket_is_not_collected_again [OF demo_table_wf _ t, of "[demo_socket]"] t by auto
qed

text \<open>
  C27. \<open>_socket\<close> for an Internet stream socket returns a descriptor that no socket had before; under it
  its process finds a closed, unconnected socket, and every other socket is as it was.
\<close>

theorem new_socket_is_usable:
  assumes "table_wf tab"
  shows "\<exists>tab' so sk. lvl_socket pid AF_INET 1 protocol tab = Ok (next_fd tab, tab') \<and> table_wf tab' \<and>
    (\<forall>s\<in>set (sockets tab). so_fd s \<noteq> next_fd tab) \<and> set (sockets tab') = insert so (set (sockets tab)) \<and>
    get_socket pid (next_fd tab) tab' = Some so \<and> so_sk so = Some sk \<and> sk_state sk = TCP_CLOSE \<and> so_state sk = SS_UNCONNECTED"
proof -
  let ?so = "\<lparr>so_ptr = next_ptr tab, so_fd = next_fd tab, so_pid = pid, so_refcnt = 1, so_type = 1, so_ops = True,
     so_sk = Some (tcp_alloc_sock (timers_init\<lparr>ts_tick := net_tick tab\<rparr>) 0)\<rparr>"
  obtain tab' where t: "lvl_socket pid AF_INET 1 protocol tab = Ok (next_fd tab, tab')" "set (sockets tab') = insert ?so (set (sockets tab))"
    using socket_cases [OF assms, of AF_INET pid 1 protocol] by (auto simp: Let_def SOCK_STREAM_def AF_INET_def)
  note k = socket_keeps(1) [OF assms t(1)]
  have "get_socket pid (next_fd tab) tab' = Some ?so" using wf_get_iff [OF k] t(2) by simp
  moreover have "\<forall>s\<in>set (sockets tab). so_fd s \<noteq> next_fd tab" using assms by (auto simp: table_wf_def socket_ok_def)
  moreover have "\<exists>sk. so_sk ?so = Some sk \<and> sk_state sk = TCP_CLOSE \<and> so_state sk = SS_UNCONNECTED" by (simp add: tcp_alloc_sock_def)
  ultimately show ?thesis using t k by blast
qed

theorem new_socket_is_usable_witness:
  "\<exists>tab' so sk. lvl_socket 7 AF_INET 1 0 demo_table = Ok (4098, tab') \<and> get_socket 7 4098 tab' = Some so \<and> so_sk so = Some sk \<and> sk_state sk = TCP_CLOSE"
  using new_socket_is_usable [OF demo_table_wf, of 7 0] by (auto simp: demo_table_def)

lemma fcntl_set_get:
  assumes "table_wf tab" and "get_socket pid fd tab = Some so" and "- (2 ^ 31) \<le> flags" and "flags < 2 ^ 31"
  shows "\<exists>tab1 tab2. lvl_fcntl pid fd F_SETFL flags tab = Ok (0, tab1) \<and> lvl_fcntl pid fd F_GETFL arg tab1 = Ok (flags, tab2)"
proof -
  have so: "so \<in> set (sockets tab)" "so_pid so = pid" "so_fd so = fd" using get_Some [OF assms(2)] by blast+
  note w = wf_member [OF assms(1) so(1)]
  then obtain sk where sk: "so_sk so = Some sk" by blast
  define s1 where "s1 = (socket_wr_acquire so)\<lparr>so_sk := Some (sk\<lparr>so_flags := of_int flags\<rparr>)\<rparr>"
  define tab1 where "tab1 = socket_release s1 tab"
  have s1: "same_socket so s1" "2 \<le> so_refcnt s1" "so_ops s1" "so_sk s1 \<noteq> None" using w by (simp_all add: s1_def)
  note r = release_keeps [OF assms(1) so(1) s1]
  have one: "lvl_fcntl pid fd F_SETFL flags tab = Ok (0, tab1)"
    using assms(2) sk by (simp add: lvl_fcntl_def Let_def F_GETFL_def F_SETFL_def tab1_def s1_def)
  let ?s = "s1\<lparr>so_refcnt := so_refcnt s1 - 1\<rparr>"
  have "?s \<in> set (sockets tab1)" unfolding tab1_def r(2) by simp
  moreover have "so_pid ?s = pid" "so_fd ?s = fd" using so s1(1) by (simp_all add: same_socket_def)
  ultimately have g: "get_socket pid fd tab1 = Some ?s" using wf_get_iff [OF r(1) [folded tab1_def]] by blast
  have "sint (of_int flags :: u32) = flags" using assms(3,4) by (simp add: signed_of_int signed_take_bit_int_eq_self)
  then have "\<exists>tab2. lvl_fcntl pid fd F_GETFL arg tab1 = Ok (flags, tab2)" using g by (simp add: lvl_fcntl_def Let_def s1_def)
  then show ?thesis using one by blast
qed

text \<open>
  \<open>F_GETFL\<close> returns what \<open>F_SETFL\<close> last set on the descriptor.
\<close>

theorem fcntl_flags_roundtrip:
  assumes "table_wf tab" and "get_socket pid fd tab = Some so" and "- (2 ^ 31) \<le> flags" and "flags < 2 ^ 31"
  shows "\<exists>tab1 tab2. lvl_fcntl pid fd F_SETFL flags tab = Ok (0, tab1) \<and> lvl_fcntl pid fd F_GETFL arg tab1 = Ok (flags, tab2)"
  by (rule fcntl_set_get [OF assms])

theorem fcntl_flags_roundtrip_witness:
  "\<exists>tab1 tab2. lvl_fcntl 7 4097 F_SETFL 2050 demo_table = Ok (0, tab1) \<and> lvl_fcntl 7 4097 F_GETFL 0 tab1 = Ok (2050, tab2)"
  using fcntl_flags_roundtrip [OF demo_table_wf demo_get(1), of 2050 0] by simp

section \<open>Applications and the stack\<close>

definition demo_lib :: "((int \<Rightarrow> bytes) \<times> sock_table) lib" where
  "demo_lib = \<lparr>lvlip_socks = [\<lparr>lvlfd = 3, ls_fd = 4097, ls_freed = False\<rparr>], lvlip_socks_count = 1, errno = 0, lib_closed = [],
     chan = (\<lambda>_. replicate 8192 0, demo_table)\<rparr>"

definition demo_world :: ipc_world where
  "demo_world = \<lparr>w_out = \<lambda>_ s. (0, s), w_iss = 0, w_mem = True, w_fuel = 1, w_env = \<lambda>_ s. s, w_pause = \<lambda>_ t. t, w_junk = \<lambda>_. 0\<rparr>"

lemma demo_lib_ok: "bufs_ok demo_lib" "lvlip_get_sock 4097 (lvlip_socks demo_lib) = Ok (Some \<lparr>lvlfd = 3, ls_fd = 4097, ls_freed = False\<rparr>)"
    "snd (chan demo_lib) = demo_table" "errno demo_lib = 0"
  by (simp_all add: demo_lib_def bufs_ok_def IPC_BUFLEN_def)



text \<open>A read that finds enough bytes, or any at all on a non-blocking socket, takes them in one round.\<close>

lemma receive_queued:
  assumes "q_wf (sk_receive_queue sk)" and "\<forall>s\<in>set (q_list (sk_receive_queue sk)). seg_ok s"
    and "length (pending (sk_receive_queue sk)) < 2 ^ 32" and "0 < len" and "len < 2 ^ 32" and "sk_state sk = TCP_ESTABLISHED"
    and "len \<le> length (pending (sk_receive_queue sk)) \<or> so_flags sk AND O_NONBLOCK \<noteq> 0 \<and> pending (sk_receive_queue sk) \<noteq> []"
  shows "\<exists>sk'. tcp_read (Suc fuel) env len sk =
    Some (Ok (int (length (take len (pending (sk_receive_queue sk)))), take len (pending (sk_receive_queue sk)), sk'))"
proof -
  let ?d = "take len (pending (sk_receive_queue sk))"
  obtain q f p where d: "tcp_data_dequeue len sk = Ok (?d, sk\<lparr>sk_receive_queue := q, tsk_flags := f, sk_poll_events := p\<rparr>)"
    using data_dequeue_spec [OF assms(1-3,5)] by blast
  have "take len P \<noteq> []" "length (take len P) = len \<or> B" if "len \<le> length P \<or> B \<and> P \<noteq> []" for B and P :: bytes
    using that assms(4) by auto
  from this [OF assms(7)] have e: "?d \<noteq> []" "length ?d = len \<or> so_flags sk AND O_NONBLOCK \<noteq> 0" .
  have "\<exists>sk'. tcp_receive_loop (Suc fuel) 0 env len [] sk = Some (Ok (int (length ?d), ?d, sk'))"
    using assms(4) d e by (auto simp: Let_def)
  then show ?thesis using assms(6) by (auto simp: tcp_read_def tcp_receive_def)
qed

text \<open>
  C30. An application that reads from an established connection gets the bytes at the head of its
  receive queue, through the library, the IPC messages, the socket layer and TCP's reassembly
  queue: as many as it asked for, or all there are when the socket does not block.
\<close>

theorem application_reads_queued_bytes:
  assumes "get_socket pid fd (snd (chan l)) = Some so" and "so_ops so" and "so_sk so = Some sk" and "sk_state sk = TCP_ESTABLISHED"
    and "q_wf (sk_receive_queue sk)" and "\<forall>s\<in>set (q_list (sk_receive_queue sk)). seg_ok s" and "length (pending (sk_receive_queue sk)) < 2 ^ 32"
    and "len \<le> length (pending (sk_receive_queue sk)) \<or> so_flags sk AND O_NONBLOCK \<noteq> 0 \<and> pending (sk_receive_queue sk) \<noteq> []"
    and "0 < len" and "vla_ok (26 + len)" and "lvlip_get_sock fd (lvlip_socks l) = Ok (Some sock)" and "i32 pid" and "i32 fd" and "bufs_ok l"
    and "0 < w_fuel w"
  shows "\<exists>l'. lib_read (ipc_exchange w) pid fd len l =
    Done (int (length (take len (pending (sk_receive_queue sk)))),
      Some (take len (pending (sk_receive_queue sk)) @ replicate (len - length (pending (sk_receive_queue sk))) 0), l')"
proof -
  let ?d = "take len (pending (sk_receive_queue sk))"
  have l: "len < 2 ^ 32" using assms(10) by (simp add: vla_ok_def)
  obtain n where n: "w_fuel w = Suc n" using assms(15) by (cases "w_fuel w") auto
  obtain sk' where "tcp_read (Suc n) (w_env w) len sk = Some (Ok (int (length ?d), ?d, sk'))"
    using receive_queued [OF assms(5-7,9) l assms(4,8)] by blast
  then obtain tab' where r: "lvl_read (w_fuel w) (w_env w) pid fd len (snd (chan l)) = Some (Ok (int (length ?d), ?d, tab'))"
    using assms(1-3) by (simp add: lvl_read_def inet_read_def n)
  have "length ?d \<le> len" "len - length ?d = len - length (pending (sk_receive_queue sk))" by simp_all
  then show ?thesis using library_read [OF assms(11-13,10,14) r refl] by auto
qed

definition demo_reader :: socket where
  "demo_reader = demo_socket\<lparr>so_sk := Some (demo_sock\<lparr>sk_receive_queue := skb_queue_tail skb_queue_init (demo_segment 1 1000 [5, 6, 7])\<rparr>)\<rparr>"

theorem application_reads_queued_bytes_witness:
  "\<exists>l'. lib_read (ipc_exchange demo_world) 7 4097 2 (demo_lib\<lparr>chan := (\<lambda>_. replicate 8192 0, demo_table\<lparr>sockets := [demo_reader]\<rparr>)\<rparr>) =
     Done (2, Some [5, 6], l')"
proof -
  let ?sk = "demo_sock\<lparr>sk_receive_queue := skb_queue_tail skb_queue_init (demo_segment 1 1000 [5, 6, 7])\<rparr>"
  let ?l = "demo_lib\<lparr>chan := (\<lambda>_. replicate 8192 0, demo_table\<lparr>sockets := [demo_reader]\<rparr>)\<rparr>"
  have q: "pending (sk_receive_queue ?sk) = [5, 6, 7]" "q_wf (sk_receive_queue ?sk)" "\<forall>s\<in>set (q_list (sk_receive_queue ?sk)). seg_ok s"
    by (simp_all add: skb_queue_tail_def skb_queue_init_def q_wf_def demo_simps)
  have s: "get_socket 7 4097 (snd (chan ?l)) = Some demo_reader" "so_ops demo_reader" "so_sk demo_reader = Some ?sk" "sk_state ?sk = TCP_ESTABLISHED"
    by (simp_all add: get_socket_def demo_reader_def demo_socket_def demo_sock_def)
  have b: "bufs_ok ?l" "lvlip_get_sock 4097 (lvlip_socks ?l) = Ok (Some \<lparr>lvlfd = 3, ls_fd = 4097, ls_freed = False\<rparr>)"
    by (simp_all add: bufs_ok_def IPC_BUFLEN_def demo_lib_def)
  have "\<exists>l'. lib_read (ipc_exchange demo_world) 7 4097 2 ?l =
      Done (int (length (take 2 (pending (sk_receive_queue ?sk)))),
        Some (take 2 (pending (sk_receive_queue ?sk)) @ replicate (2 - length (pending (sk_receive_queue ?sk))) 0), l')"
    by (rule application_reads_queued_bytes [OF s q(2,3) _ _ _ _ b(2) _ _ b(1)])
      (unfold q(1), simp_all add: vla_ok_def i32_def demo_world_def)
  then show ?thesis unfolding q(1) by simp
qed

text \<open>
  C31. \<open>poll\<close> on descriptors of the stack returns the count and the events that the stack's own \<open>_poll\<close>
  finds, for as many descriptors as a message holds.
\<close>

theorem library_poll_is_stack_poll:
  assumes "\<forall>p\<in>set fds. i32 (pfd_fd p) \<and> (\<exists>sock. lvlip_get_sock (pfd_fd p) (lvlip_socks l) = Ok (Some sock))"
    and "fds \<noteq> []" and "18 + 8 * length fds \<le> IPC_BUFLEN" and "i32 pid" and "i32 timeout" and "bufs_ok l"
    and "lvl_poll (w_fuel w) 0 (w_pause w) pid fds timeout (snd (chan l)) = Some (Ok (rc, fds', tab'))" and "0 \<le> rc" and "rc < 2 ^ 31"
  shows "\<exists>l'. lib_poll (Suc fuel) (ipc_exchange w) kpoll pid fds timeout l = Done (rc, fds', l') \<and> snd (chan l') = tab' \<and> errno l' = errno l"
  using library_poll [OF assms] by blast

theorem library_poll_is_stack_poll_witness:
  "\<exists>l'. lib_poll 1 (ipc_exchange demo_world) (\<lambda>_ ps _. (0, ps)) 7 [\<lparr>pfd_fd = 4097, pfd_events = 1, pfd_revents = 9\<rparr>] 0 demo_lib =
     Done (0, [\<lparr>pfd_fd = 4097, pfd_events = 1, pfd_revents = 0\<rparr>], l')"
proof -
  have "\<exists>tab'. lvl_poll (w_fuel demo_world) 0 (w_pause demo_world) 7 [\<lparr>pfd_fd = 4097, pfd_events = 1, pfd_revents = 9\<rparr>] 0 (snd (chan demo_lib)) =
      Some (Ok (0, [\<lparr>pfd_fd = 4097, pfd_events = 1, pfd_revents = 0\<rparr>], tab'))"
    by (simp add: demo_world_def demo_lib_ok demo_get socket_rd_acquire_def Let_def demo_socket_def tcp_alloc_sock_def)
  then obtain tab' where t: "lvl_poll (w_fuel demo_world) 0 (w_pause demo_world) 7 [\<lparr>pfd_fd = 4097, pfd_events = 1, pfd_revents = 9\<rparr>] 0
      (snd (chan demo_lib)) = Some (Ok (0, [\<lparr>pfd_fd = 4097, pfd_events = 1, pfd_revents = 0\<rparr>], tab'))" ..
  have "\<exists>l'. lib_poll (Suc 0) (ipc_exchange demo_world) (\<lambda>_ ps _. (0, ps)) 7 [\<lparr>pfd_fd = 4097, pfd_events = 1, pfd_revents = 9\<rparr>] 0 demo_lib =
      Done (0, [\<lparr>pfd_fd = 4097, pfd_events = 1, pfd_revents = 0\<rparr>], l') \<and> snd (chan l') = tab' \<and> errno l' = errno demo_lib"
    by (rule library_poll_is_stack_poll [OF _ _ _ _ _ demo_lib_ok(1) t]) (simp_all add: demo_lib_ok IPC_BUFLEN_def i32_def)
  then show ?thesis by (metis One_nat_def)
qed

text \<open>
  C32. The thread of a connection serves the requests it reads one after the other, also a write that
  needs a second read: the stack ends in the state after the calls in that order, the answers
  carry their return codes, and at the end of the connection its thread record is gone and its
  descriptor closed.
\<close>

theorem thread_serves_requests_in_order:
  assumes "direct_run pid cs tab = Some (Ok (rcs, tab'))" and "i32 pid" and "length buf = IPC_BUFLEN" and "\<forall>(w, c)\<in>set cs. call_ok c"
    and "\<forall>k<length cs. ws k = fst (cs ! k)" and "sock \<in> set (th_socks st)"
  shows "socket_ipc_open ws buf sock (concat (map (\<lambda>(w, c). chunks (request junk pid c)) cs) @ [Some []]) tab st =
    Some (Ok (answers pid cs rcs, tab',
      st\<lparr>th_socks := remove1 sock (th_socks st), socket_count := socket_count st - 1, th_closed := sock # th_closed st\<rparr>))"
proof -
  have ws: "\<forall>k<length cs. ws (0 + k) = fst (cs ! k)" using assms(5) by simp
  obtain b' where "ipc_loop ws 0 buf (concat (map (\<lambda>(w, c). chunks (request junk pid c)) cs) @ [Some []]) tab =
      map_option (\<lambda>r. cbind r (\<lambda>(fr, outs, tab). Ok (fr, answers pid cs rcs @ outs, tab))) (ipc_loop ws (0 + length cs) b' [Some []] tab')"
    using loop_serves [OF assms(1-4) ws, where rs = "[Some []]"] by blast
  moreover have "ipc_loop ws (0 + length cs) b' [Some []] tab' = Some (Ok (True, [], tab'))" by (simp add: ipc_loop.simps)
  ultimately show ?thesis using assms(6) by (simp add: socket_ipc_open_def ipc_free_thread_def)
qed

theorem thread_serves_requests_in_order_witness:
  "socket_ipc_open (\<lambda>_. demo_world) (replicate 8192 0) 5 (concat (map (\<lambda>(w, c). chunks (request (\<lambda>_. 0) 8 c)) [(demo_world, A_close 4097)]) @ [Some []])
     demo_table \<lparr>th_socks = [5], socket_count = 1, th_closed = []\<rparr> =
   Some (Ok ([ipc_msg IPC_CLOSE 8 @ ipc_err (- EBADF)], demo_table, \<lparr>th_socks = [], socket_count = 0, th_closed = [5]\<rparr>))"
proof -
  have "get_socket 8 4097 demo_table = None" by (simp add: get_socket_def demo_table_def demo_socket_def sock_table_init_def)
  then have "direct_run 8 [(demo_world, A_close 4097)] demo_table = Some (Ok ([- EBADF], demo_table))" by (simp add: missing_call)
  note thread_serves_requests_in_order [OF this, of "replicate 8192 0" "\<lambda>_. demo_world" 5 "\<lparr>th_socks = [5], socket_count = 1, th_closed = []\<rparr>" "\<lambda>_. 0"]
  then show ?thesis by (simp add: answers_def i32_def IPC_BUFLEN_def)
qed



text \<open>
  C34. \<open>getpeername\<close> of the library gives the address and the port of the peer in the layout of
  \<open>struct sockaddr_in\<close>; the eight bytes of \<open>sin_zero\<close> are whatever the server had on its stack.
\<close>

theorem library_getpeername_gives_the_peer:
  assumes "get_socket pid fd (snd (chan l)) = Some so" and "so_ops so" and "so_sk so = Some sk"
    and "lvlip_get_sock fd (lvlip_socks l) = Ok (Some sock)" and "i32 pid" and "i32 fd" and "bufs_ok l" and "16 \<le> cap"
  shows "\<exists>l' a. lib_getpeername (ipc_exchange w) junk pid fd cap l = Done (0, Some (16, a @ map (w_junk w) [12..<20]), l') \<and>
    get_sockaddr a 0 = \<lparr>sin_family = of_int AF_INET, sin_port = htons (sk_dport sk), s_addr = htonl (sk_daddr sk)\<rparr>"
proof -
  let ?a = "\<lparr>sin_family = of_int AF_INET, sin_port = htons (sk_dport sk), s_addr = htonl (sk_daddr sk)\<rparr>"
  obtain tab' where "lvl_getpeername pid fd (snd (chan l)) = Ok (0, Some ?a, tab')"
    using assms(1-3) by (simp add: lvl_getpeername_def inet_getpeername_def Let_def)
  from library_getpeername [OF assms(4-8) this] obtain l' where
    "lib_getpeername (ipc_exchange w) junk pid fd cap l = Done (0, Some (16, sockaddr_bytes ?a @ map (w_junk w) [12..<20]), l')" by blast
  moreover have "get_sockaddr (sockaddr_bytes ?a) 0 = ?a" using sockaddr_fields(2) [of ?a "[]"] by simp
  ultimately show ?thesis by blast
qed

theorem library_getpeername_gives_the_peer_witness:
  "\<exists>l' a. lib_getpeername (ipc_exchange demo_world) (\<lambda>_. 0) 7 4097 16 demo_lib = Done (0, Some (16, a @ map (\<lambda>_. 0) [12..<20]), l') \<and>
     sin_family (get_sockaddr a 0) = 2"
proof -
  have s: "get_socket 7 4097 (snd (chan demo_lib)) = Some demo_socket" "so_ops demo_socket" "so_sk demo_socket = Some (tcp_alloc_sock timers_init 0)"
    by (simp_all add: demo_lib_ok demo_get) (simp_all add: demo_socket_def)
  have j: "w_junk demo_world = (\<lambda>_. 0)" by (simp add: demo_world_def)
  obtain l' a where "lib_getpeername (ipc_exchange demo_world) (\<lambda>_. 0) 7 4097 16 demo_lib = Done (0, Some (16, a @ map (w_junk demo_world) [12..<20]), l')"
    "sin_family (get_sockaddr a 0) = of_int AF_INET"
    using library_getpeername_gives_the_peer [OF s demo_lib_ok(2) _ _ demo_lib_ok(1), of 16 demo_world "\<lambda>_. 0"] by (auto simp: i32_def)
  then show ?thesis unfolding j by (auto simp: AF_INET_def)
qed




text \<open>
  C36. Whatever happens to a connection (user call, segment, timer callback), its state stays or takes
  an edge that the diagram \<open>tcp_edge\<close> has for that kind of event: a read or a write takes none, a segment
  only the edges of the receive path, a timer only those that give the connection up or start its
  close.
\<close>

theorem connection_follows_the_diagram:
  assumes "tcp_step out shared mem e tsk t"
  shows "sk_state t = sk_state tsk \<or> sk_state t \<in> tcp_edge e (sk_state tsk)"
  using step_edge [OF assms] by simp

definition demo_syn_sent :: tcp_sock where
  "demo_syn_sent = (tcp_alloc_sock timers_init 0)\<lparr>sk_state := TCP_SYN_SENT\<rparr>"

lemma demo_gives_up: "tcp_step out shared mem E_close demo_syn_sent (tcp_done demo_syn_sent)"
  by (rule step_close [where rc = 0]) (simp add: tcp_close_def demo_syn_sent_def)

theorem connection_follows_the_diagram_witness:
  "sk_state (tcp_done demo_syn_sent) \<noteq> sk_state demo_syn_sent \<and> sk_state (tcp_done demo_syn_sent) \<in> tcp_edge E_close (sk_state demo_syn_sent)"
  using connection_follows_the_diagram [OF demo_gives_up [of "\<lambda>_ s. (0, s)" "(False, None)" True]]
  by (simp add: demo_syn_sent_def state_simps)

text \<open>
  C37. A connection never goes back: over any sequence of events the phase of its life (closed, opening,
  established, one side closed, both closing, finished) only grows.  In particular a connection that
  has been closed from either side is never established again, and one that is finished
  (\<open>TCP_CLOSING\<close>, \<open>TCP_TIME_WAIT\<close>) stays finished.
\<close>

theorem connection_never_goes_back:
  assumes "tcp_run out shared mem tsk es t"
  shows "phase (sk_state tsk) \<le> phase (sk_state t) \<and>
    (sk_state tsk \<notin> {TCP_CLOSE, TCP_LISTEN, TCP_SYN_SENT, TCP_SYN_RECEIVED, TCP_ESTABLISHED} \<longrightarrow> sk_state t \<noteq> TCP_ESTABLISHED) \<and>
    (sk_state tsk \<in> {TCP_CLOSING, TCP_TIME_WAIT} \<longrightarrow> sk_state t \<in> {TCP_CLOSING, TCP_TIME_WAIT})"
proof -
  have p: "phase (sk_state tsk) \<le> phase (sk_state t)" by (rule run_phase [OF assms])
  have "sk_state tsk \<notin> {TCP_CLOSE, TCP_LISTEN, TCP_SYN_SENT, TCP_SYN_RECEIVED, TCP_ESTABLISHED} \<Longrightarrow> sk_state t \<noteq> TCP_ESTABLISHED"
    using p by (cases "sk_state tsk") auto
  moreover have "sk_state tsk \<in> {TCP_CLOSING, TCP_TIME_WAIT} \<Longrightarrow> sk_state t \<in> {TCP_CLOSING, TCP_TIME_WAIT}"
    using p by (cases "sk_state t") auto
  ultimately show ?thesis using p by blast
qed

lemma demo_finished: "tcp_run out shared mem (tcp_done demo_syn_sent) [E_close] ((tcp_done demo_syn_sent)\<lparr>sk_err := - EBADF\<rparr>)"
proof -
  have "tcp_step out shared mem E_close (tcp_done demo_syn_sent) ((tcp_done demo_syn_sent)\<lparr>sk_err := - EBADF\<rparr>)"
    by (rule step_close [where rc = "-1"]) (simp add: tcp_close_def state_simps)
  from tcp_run.run_snoc [OF tcp_run.run_Nil this] show ?thesis by simp
qed

theorem connection_never_goes_back_witness:
  "phase (sk_state (tcp_done demo_syn_sent)) \<le> phase (sk_state ((tcp_done demo_syn_sent)\<lparr>sk_err := - EBADF\<rparr>)) \<and>
   sk_state ((tcp_done demo_syn_sent)\<lparr>sk_err := - EBADF\<rparr>) \<noteq> TCP_ESTABLISHED \<and>
   sk_state ((tcp_done demo_syn_sent)\<lparr>sk_err := - EBADF\<rparr>) \<in> {TCP_CLOSING, TCP_TIME_WAIT}"
  using connection_never_goes_back [OF demo_finished [of "\<lambda>_ s. (0, s)" "(False, None)" True]] by (simp add: state_simps)

section \<open>The sending side of the block code\<close>

text \<open>
  C38. On an idle connection with forward error correction, and an IP layer that reports success as 0,
  a write of at most one block becomes one block that the receiver can use: after the write and the
  flush, the first segment and \<open>r\<close> repair segments have been transmitted; every frame that carries one of
  them arrives as the honest source or repair symbol that it is, and so does each queued segment when
  it is (re)transmitted at its sequence number.
\<close>

theorem write_becomes_an_honest_block:
  assumes "fec_idle tsk fec" and "W \<noteq> []" and "length W \<le> unat (fec_k fec) * unat (fec_sym_len fec)" and "unat (fec_sym_len fec) + 24 < 2 ^ 16"
    and "ip_transparent out" and "\<forall>d s. fst (out d s) = 0" and "same_geometry fec peer"
  shows "\<exists>t t' s0 ss. tcp_send out True W tsk = Ok (int (length W), t) \<and> tcp_fec_flush out True t = Ok (0, t') \<and>
    tx_log t' = tx_log tsk @ s0 # ss \<and> length ss = unat (fec_r fec) \<and> length (q_list (sk_write_queue t')) = nsegs (unat (fec_sym_len fec)) W \<and>
    arrives_as_source W (snd_nxt (tcb tsk)) peer (write_block (unat (fec_sym_len fec)) W) (tx_block_id fec) 0 (rcv_nxt (tcb tsk)) s0 \<and>
    (\<forall>j<unat (fec_r fec).
       arrives_as_repair W (snd_nxt (tcb tsk)) peer (write_block (unat (fec_sym_len fec)) W) (tx_block_id fec) j (rcv_nxt (tcb tsk)) (ss ! j)) \<and>
    (\<forall>i<nsegs (unat (fec_sym_len fec)) W. \<forall>out2 t2. \<exists>s.
       tcp_transmit_skb out2 (skb_reset_header (q_list (sk_write_queue t') ! i)) (snd_nxt (tcb tsk) + of_nat (i * unat (fec_sym_len fec))) t2 =
         (let (rc, s2) = out2 (sk_daddr t2) s in Ok (rc, s2, t2\<lparr>tx_log := tx_log t2 @ [s]\<rparr>)) \<and>
       arrives_as_source W (snd_nxt (tcb tsk)) peer (write_block (unat (fec_sym_len fec)) W) (tx_block_id fec) i (rcv_nxt (tcb t2)) s)"
proof -
  let ?L = "unat (fec_sym_len fec)" and ?r = "unat (fec_r fec)"
  let ?n = "nsegs ?L W" and ?base = "snd_nxt (tcb tsk)"
  have g: "0 < ?L" "unat (fec_k fec) \<le> 128" using assms(1) by (simp_all add: fec_idle_def fec_tx_wf_def fec_geometry_def)
  have n: "0 < ?n" "?n \<le> unat (fec_k peer)" and p: "?L = unat (fec_sym_len peer)" "unat (fec_k peer) \<le> 128"
    using nsegs_iff [OF g(1), of 0 W] nsegs_le [OF g(1) assms(3)] assms(2,7) g(2) by (simp_all add: same_geometry_def)
  obtain t t' t1 f1 ss where s: "tcp_send out True W tsk = Ok (int (length W), t)" "tcp_fec_flush out True t = Ok (0, t')"
    and fl: "filling W fec tsk ?n f1 t1" and t': "sk_write_queue t' = sk_write_queue t1" "tx_log t' = tx_log t1 @ ss"
    and rs: "repairs_sent t1 f1 (of_nat ?n) (tx_tail_len f1) (zip [0..<?r] (block_parity (write_syms ?L W ?n) ?L ?r)) ss"
    using write_and_flush [OF assms(5,6,1,2,3)] by blast
  obtain s0 th where s0: "tx_log t1 = tx_log tsk @ [s0]" "data_hdr th" "sent_as ?base tsk th (source_bytes (tx_block_id fec) (of_nat 0) (wchunk ?L W 0)) s0"
    using fl n(1) by (auto simp: filling_def log_first_def)
  have q: "length (q_list (sk_write_queue t')) = ?n" "\<forall>i<?n. source_ready (tx_block_id fec) i (wchunk ?L W i) (q_list (sk_write_queue t') ! i)"
    using fl t'(1) by (simp_all add: filling_def queue_holds_def)
  have len: "length ss = ?r" using list_all2_lengthD [OF rs [unfolded repairs_sent_def]] by (simp add: block_parity_def red_points_def)
  have src: "arrives_as_source W ?base peer (write_block ?L W) (tx_block_id fec) i (rcv_nxt (tcb t2)) s"
    if "sent_as (?base + of_nat (i * ?L)) t2 th (source_bytes (tx_block_id fec) (of_nat i) (wchunk ?L W i)) s" "data_hdr th" "i < ?n" for i th t2 s
    by (rule source_arrives [OF that(1,2) p(1) assms(4) g(1) assms(2) n(2) p(2) that(3) refl])
  have red: "\<forall>j<?r. arrives_as_repair W ?base peer (write_block ?L W) (tx_block_id fec) j (rcv_nxt (tcb tsk)) (ss ! j)"
    using repair_arrives [OF fl refl n(1) rs refl assms(4) refl _ assms(2,7)] by blast
  have queued: "\<exists>s. tcp_transmit_skb out2 (skb_reset_header (q_list (sk_write_queue t') ! i)) (?base + of_nat (i * ?L)) t2 =
         (let (rc, s2) = out2 (sk_daddr t2) s in Ok (rc, s2, t2\<lparr>tx_log := tx_log t2 @ [s]\<rparr>)) \<and>
       arrives_as_source W ?base peer (write_block ?L W) (tx_block_id fec) i (rcv_nxt (tcb t2)) s" if i: "i < ?n" for i out2 t2
  proof -
    have "length (wchunk ?L W i) < 2 ^ 16" using assms(4) by (simp add: wchunk_def)
    from queued_transmit [OF q(2) [rule_format, OF i] this, of out2 "?base + of_nat (i * ?L)" t2] show ?thesis using src i by blast
  qed
  show ?thesis
    using s t'(2) s0(1) len q(1) src [of 0 tsk th s0] s0(2,3) n(1) red queued
    by (intro exI [of _ t] exI [of _ t'] exI [of _ s0] exI [of _ ss] conjI) simp_all
qed

lemma demo_fec_idle:
  "\<exists>fec. fec_idle demo_fec_sock fec \<and> fec_k fec = 8 \<and> fec_r fec = 2 \<and> fec_sym_len fec = 512 \<and> tx_block_id fec = 0 \<and> tx_log demo_fec_sock = []"
proof -
  let ?s = "demo_sock\<lparr>next_skb := 10\<rparr>"
  have "tsk_fec ?s = None" "inflight ?s = 0" "q_list (sk_write_queue ?s) = []" "tx_log ?s = []"
    by (simp_all add: demo_sock_def tcp_alloc_sock_def skb_queue_init_def)
  then show ?thesis using enable_idle [of ?s] by (auto simp: demo_fec_sock_def)
qed

lemma demo_nsegs: "nsegs 512 [1, 2, 3] = 1"
  by (simp add: nsegs_def)

theorem write_becomes_an_honest_block_witness:
  "\<exists>fec t t' s0 ss. tsk_fec demo_fec_sock = Some fec \<and> tcp_send (\<lambda>_ s. (0, s)) True [1, 2, 3] demo_fec_sock = Ok (3, t) \<and>
    tcp_fec_flush (\<lambda>_ s. (0, s)) True t = Ok (0, t') \<and> tx_log t' = s0 # ss \<and> length ss = 2 \<and>
    (\<forall>j<2. arrives_as_repair [1, 2, 3] (snd_nxt (tcb demo_fec_sock)) fec (write_block 512 [1, 2, 3]) 0 j (rcv_nxt (tcb demo_fec_sock)) (ss ! j))"
proof -
  obtain fec where f: "fec_idle demo_fec_sock fec" "fec_k fec = 8" "fec_r fec = 2" "fec_sym_len fec = 512" "tx_block_id fec = 0" "tx_log demo_fec_sock = []"
    using demo_fec_idle by blast
  have "ip_transparent (\<lambda>_ s. (0, s))" by (simp add: ip_transparent_def)
  from write_becomes_an_honest_block [OF f(1) _ _ _ this, of "[1, 2, 3]" fec] f(2-6)
  obtain t t' s0 ss where "tcp_send (\<lambda>_ s. (0, s)) True [1, 2, 3] demo_fec_sock = Ok (3, t)" "tcp_fec_flush (\<lambda>_ s. (0, s)) True t = Ok (0, t')"
    "tx_log t' = s0 # ss" "length ss = 2"
    "\<forall>j<2. arrives_as_repair [1, 2, 3] (snd_nxt (tcb demo_fec_sock)) fec (write_block 512 [1, 2, 3]) 0 j (rcv_nxt (tcb demo_fec_sock)) (ss ! j)"
    by (auto simp: same_geometry_def)
  moreover have "tsk_fec demo_fec_sock = Some fec" using f(1) by (simp add: fec_idle_def)
  ultimately show ?thesis by blast
qed

text \<open>
  C39. With the stack's own IP output, whose result is what the \<open>write\<close> on the tap device returned, a
  byte count or -1 and never 0, the emission of a block stops after its first repair segment: the flush
  reports -1, one repair instead of \<open>r\<close> has been handed to IP, and the block stays open under the same
  number with all its symbols.
\<close>

theorem device_count_stops_the_repairs:
  assumes "fec_idle tsk fec" and "W \<noteq> []" and "nsegs (unat (fec_sym_len fec)) W < unat (fec_k fec)"
    and "dev_ok nc" and "\<forall>f. tun f \<noteq> 0"
  shows "\<exists>t t' s0 s1 fec'. tcp_send (ip_of tun nc) True W tsk = Ok (int (length W), t) \<and> tcp_fec_flush (ip_of tun nc) True t = Ok (-1, t') \<and>
    tx_log t' = tx_log tsk @ [s0, s1] \<and> tsk_fec t' = Some fec' \<and> unat (tx_filled fec') = nsegs (unat (fec_sym_len fec)) W \<and>
    tx_block_id fec' = tx_block_id fec"
proof -
  let ?L = "unat (fec_sym_len fec)"
  let ?n = "nsegs ?L W"
  have L: "0 < ?L" using assms(1) by (simp add: fec_idle_def fec_tx_wf_def fec_geometry_def)
  have n: "0 < ?n" using nsegs_iff [OF L, of 0 W] assms(2) by simp
  have "length W \<le> ?n * ?L" using nsegs_iff [OF L, of ?n W] by simp
  also have "\<dots> \<le> unat (fec_k fec) * ?L" using assms(3) by (intro mult_le_mono1) simp
  finally have le: "length W \<le> unat (fec_k fec) * ?L" .
  obtain f1 t1 where fl: "filling W fec tsk ?n f1 t1"
    and s: "tcp_send (ip_of tun nc) True W tsk = cbind (fec_complete_block (ip_of tun nc) True t1) (\<lambda>t. Ok (int (length W), tcp_rearm_user_timeout t))"
    using send_fills [OF ip_of_transparent [OF assms(4)] assms(1,2) le, of tun True] by auto
  let ?t = "tcp_rearm_user_timeout t1"
  have snd: "tcp_send (ip_of tun nc) True W tsk = Ok (int (length W), ?t)" using s complete_open [OF fl] assms(3) by simp
  have f: "tsk_fec t1 = Some f1" "unat (tx_filled f1) = ?n" "tx_block_id f1 = tx_block_id fec" using fl by (simp_all add: filling_def staged_def)
  obtain s0 where s0: "tx_log t1 = tx_log tsk @ [s0]" using fl n by (auto simp: filling_def log_first_def)
  obtain s1 where e: "tcp_fec_emit_block (ip_of tun nc) True f1 (tx_filled f1) (tx_tail_len f1) ?t =
      Ok (-1, ?t\<lparr>next_skb := next_skb ?t + 1, tx_log := tx_log ?t @ [s1], tsk_fec := Some (with_parity f1 (write_syms (unat (fec_sym_len f1)) W ?n))\<rparr>)"
    using emit_once [OF fl n, of "ip_of tun nc" ?t] ip_of_nonzero [OF assms(5)] by auto
  let ?t' = "?t\<lparr>next_skb := next_skb ?t + 1, tx_log := tx_log ?t @ [s1], tsk_fec := Some (with_parity f1 (write_syms (unat (fec_sym_len f1)) W ?n))\<rparr>"
  have "tx_filled f1 \<noteq> 0" using f(2) n by auto
  then have "tcp_fec_flush (ip_of tun nc) True ?t = Ok (-1, ?t')" using f(1) e by (simp add: tcp_fec_flush_def)
  then show ?thesis using snd s0 f
    by (intro exI [of _ ?t] exI [of _ ?t'] exI [of _ s0] exI [of _ s1] exI [of _ "with_parity f1 (write_syms (unat (fec_sym_len f1)) W ?n)"] conjI)
      (simp_all add: with_parity_def)
qed

lemma host_net_dev_ok: "dev_ok host_net"
  by (auto simp: dev_ok_def route_lookup_def host_net_def route_init_def route_add_def netdev_init_def netdev_alloc_def route_alloc_def split: if_splits)

theorem device_count_stops_the_repairs_witness:
  "\<exists>t t' s0 s1. tcp_send (ip_of (\<lambda>f. if f = [] then -1 else int (length f)) host_net) True [1, 2, 3] demo_fec_sock = Ok (3, t) \<and>
    tcp_fec_flush (ip_of (\<lambda>f. if f = [] then -1 else int (length f)) host_net) True t = Ok (-1, t') \<and> tx_log t' = [s0, s1]"
proof -
  obtain fec where f: "fec_idle demo_fec_sock fec" "fec_k fec = 8" "fec_sym_len fec = 512" "tx_log demo_fec_sock = []" using demo_fec_idle by blast
  have "nsegs (unat (fec_sym_len fec)) [1, 2, 3] < unat (fec_k fec)" using f(2,3) demo_nsegs by simp
  moreover have "\<forall>f :: bytes. (if f = [] then -1 else int (length f)) \<noteq> 0" by auto
  ultimately show ?thesis using device_count_stops_the_repairs [OF f(1) _ _ host_net_dev_ok, of "[1, 2, 3]" "\<lambda>f. if f = [] then -1 else int (length f)"] f(4) by force
qed

section \<open>Linked lists\<close>

text \<open>
  C40. The pointer lists under every queue and table are lists: after \<open>list_init\<close> and any sequence of
  \<open>list_add\<close>, \<open>list_add_tail\<close>, \<open>list_del\<close> and loops that unlink elements on the way, on nodes that exist and
  are in the list or not as the operation needs, every store went through a valid pointer, the loop
  \<open>list_for_each\<close> ends and visits exactly the elements of the abstract list in order, and \<open>list_empty\<close>
  tells whether there are any; a list that shares no node with this one is still visited as before.
\<close>

theorem pointer_lists_are_lists:
  assumes "head \<in> dom h" and "ops_ok h head ops []"
  shows "\<exists>h0 h'. list_init head h = Ok h0 \<and> run_ops head ops h0 = Some (Ok h') \<and>
    for_each head h' = Some (Ok (fold spec_op ops [])) \<and> list_empty head h' = Ok (fold spec_op ops [] = []) \<and>
    (\<forall>head2 ys. ring h head2 ys \<and> set (head2 # ys) \<inter> ({head} \<union> (\<Union>x\<in>set ops. op_nodes x)) = {} \<longrightarrow> for_each head2 h' = Some (Ok ys))"
proof -
  let ?A = "{head} \<union> (\<Union>x\<in>set ops. op_nodes x)"
  obtain h0 where h0: "list_init head h = Ok h0" "ring h0 head []" "untouched {head} h h0" using ring_init [OF assms(1)] by blast
  have d: "dom h0 = dom h" using h0(3) by (simp add: untouched_def)
  have "ops_ok h0 head ops []" using assms(2) ops_ok_dom [OF d] by blast
  from ring_ops [OF h0(2) this] obtain h' where h': "run_ops head ops h0 = Some (Ok h')" "ring h' head (fold spec_op ops [])"
    "untouched (set [head] \<union> (\<Union>x\<in>set ops. op_nodes x)) h0 h'" by blast
  have "untouched ?A h h'" by (rule untouched_trans [OF h0(3) h'(3)]) auto
  then have "for_each head2 h' = Some (Ok ys)" if "ring h head2 ys" "set (head2 # ys) \<inter> ?A = {}" for head2 ys
    using ring_for_each ring_untouched [OF that(1) _ that(2)] by blast
  then show ?thesis using h0(1) h'(1) ring_for_each [OF h'(2)] ring_empty [OF h'(2)] by blast
qed

theorem pointer_lists_are_lists_witness:
  "\<exists>h0 h'. list_init 0 (\<lambda>_. Some \<lparr>lh_next = 7, lh_prev = 7\<rparr>) = Ok h0 \<and>
    run_ops 0 [L_add_tail 1, L_add_tail 2, L_add 3, L_del 1, L_purge (\<lambda>e. e = 3)] h0 = Some (Ok h') \<and> for_each 0 h' = Some (Ok [2])"
proof -
  have "ops_ok (\<lambda>_. Some \<lparr>lh_next = 7, lh_prev = 7\<rparr>) 0 [L_add_tail 1, L_add_tail 2, L_add 3, L_del 1, L_purge (\<lambda>e. e = 3)] []" by simp
  from pointer_lists_are_lists [OF _ this] show ?thesis by auto
qed

section \<open>The whole process\<close>

text \<open>
  C13. The receive thread over any sequence of frames, whatever the other threads do to the sockets in
  between: the socket table and the translation table stay well formed, devices and routes stay as they
  are, a socket that no frame was for is unchanged, a neighbour is reached under the hardware address it last
  announced, and the thread ends exactly when it finds \<open>running\<close> cleared or a read fails.
\<close>

theorem receive_thread_keeps_the_stack:
  assumes "netdev_rx_loop tun shared mem env 0 rs (nc, tab) = Ok (ended, (nc', tab'), sent)"
    and "table_wf tab" and "arp_wf (net_arp nc)" and "\<forall>j tab. table_wf tab \<longrightarrow> table_wf (env j tab)"
  shows "table_wf tab' \<and> arp_wf (net_arp nc') \<and> net_dev nc' = net_dev nc \<and> net_loop nc' = net_loop nc \<and> net_routes nc' = net_routes nc \<and>
    (\<forall>so\<in>set (sockets tab). (\<forall>f\<in>set (taken_frames rs). \<not> frame_for f so) \<longrightarrow>
       (\<forall>j tab. so \<in> set (sockets tab) \<longrightarrow> so \<in> set (sockets (env j tab))) \<longrightarrow> so \<in> set (sockets tab')) \<and>
    (\<forall>earlier me a m later. concat (map (frame_arp (dev_addr (net_dev nc))) (taken_frames rs)) = earlier @ (me, a, m) # later \<longrightarrow>
       (\<forall>(me', a', m')\<in>set later. a' \<noteq> a) \<longrightarrow> me \<or> arp_get_hwaddr a (net_arp nc) \<noteq> None \<longrightarrow> arp_get_hwaddr a (net_arp nc') = Some m) \<and>
    (ended \<longleftrightarrow> (\<exists>(running, nread)\<in>set rs. \<not> running \<or> nread = None))"
proof -
  note r = rx_loop_Ok [OF assms(1,2,4)]
  have "arp_wf (net_arp nc')" unfolding r(1) using arp.learn_all_wf [OF assms(3)] by simp
  moreover have "net_dev nc' = net_dev nc" "net_loop nc' = net_loop nc" "net_routes nc' = net_routes nc" by (simp_all add: r(1))
  moreover have "arp_get_hwaddr a (net_arp nc') = Some m"
    if "concat (map (frame_arp (dev_addr (net_dev nc))) (taken_frames rs)) = earlier @ (me, a, m) # later"
      "\<forall>(me', a', m')\<in>set later. a' \<noteq> a" "me \<or> arp_get_hwaddr a (net_arp nc) \<noteq> None" for earlier me a m later
    using arp.last_announcement_wins [OF assms(3) that(3) [folded arp_map_def] that(2), of earlier m]
    by (simp add: r(1) that(1) arp_map_def)
  ultimately show ?thesis using r(2-4) by blast
qed

definition demo_net :: net where
  "demo_net = \<lparr>net_loop = fst netdev_init, net_dev = snd netdev_init, net_routes = route_init (fst netdev_init) (snd netdev_init), net_arp = []\<rparr>"

text \<open>A request of 10.0.0.1 at 02:00:00:00:00:01 for the address of the stack.\<close>

definition demo_request :: bytes where
  "demo_request = replicate 6 0xff @ [2, 0, 0, 0, 0, 1] @ [8, 6] @ [0, 1, 8, 0, 6, 4, 0, 1] @ [2, 0, 0, 0, 0, 1] @ [10, 0, 0, 1] @ replicate 6 0 @ [10, 0, 0, 5]"

lemma demo_request_announces: "frame_arp 0x0a000005 demo_request = [(True, 0x0a000001, [2, 0, 0, 0, 0, 1])]" "frame_segment demo_request = None"
  by code_simp+

theorem receive_thread_keeps_the_stack_witness:
  "\<exists>nc' sent. netdev_rx_loop (\<lambda>f. int (length f)) (False, None) True (\<lambda>_ t. t) 0 [(True, Some demo_request), (False, None)] (demo_net, sock_table_init) =
      Ok (True, (nc', sock_table_init), sent) \<and> arp_get_hwaddr 0x0a000001 (net_arp nc') = Some [2, 0, 0, 0, 0, 1]"
proof -
  let ?rs = "[(True, Some demo_request), (False, None)]"
  have d: "dev_addr (net_dev demo_net) = 0x0a000005" by (simp add: demo_net_def netdev_init_def netdev_alloc_def)
  obtain nc' sent where l: "netdev_rx_loop (\<lambda>f. int (length f)) (False, None) True (\<lambda>_ t. t) 0 ?rs (demo_net, sock_table_init) =
      Ok (True, (nc', sock_table_init), sent)"
    by (simp add: stack_rx_eq demo_request_announces(2) Let_def)
  have c: "concat (map (frame_arp (dev_addr (net_dev demo_net))) (taken_frames ?rs)) = [] @ (True, 0x0a000001, [2, 0, 0, 0, 0, 1]) # []"
    by (simp add: d demo_request_announces)
  have "arp_wf (net_arp demo_net)" by (simp add: demo_net_def arp_wf_def)
  from receive_thread_keeps_the_stack [OF l init_wf this]
  have "concat (map (frame_arp (dev_addr (net_dev demo_net))) (taken_frames ?rs)) = earlier @ (me, a, m) # later \<longrightarrow>
       (\<forall>(me', a', m')\<in>set later. a' \<noteq> a) \<longrightarrow> me \<or> arp_get_hwaddr a (net_arp demo_net) \<noteq> None \<longrightarrow> arp_get_hwaddr a (net_arp nc') = Some m"
    for earlier me a m later by blast
  from this [of "[]" True "0x0a000001" "[2, 0, 0, 0, 0, 1]" "[]"] have "arp_get_hwaddr 0x0a000001 (net_arp nc') = Some [2, 0, 0, 0, 0, 1]"
    unfolding c by simp
  then show ?thesis using l by blast
qed

text \<open>
  C14. From \<open>main\<close> to its return: when the options are known, the signals can be blocked, a device file opens, the
  capabilities can be dropped and the threads can be created, the process starts, and once the threads have
  ended it sends a reset on every connection, unlinks and frees every node of the two lists exactly once
  without following an invalid pointer, and releases both devices and the name of the tap.  When a thread
  could not be created it joins one that never existed; in every other case it exits with status 1.
\<close>

theorem process_starts_and_releases:
  assumes "kernel_names sys" and "\<forall>i<3. sys_join sys i = 0" and "ps_created ps = []"
    and "life (started sys ps) = (ps1, h)" and "ps_created ps1 = ps_created (started sys ps)"
    and "net_of ps1 \<noteq> None" and "table_wf (ps_tab ps1)"
    and "ring h arp_cache as" and "ring h routes rs" and "set (arp_cache # as) \<inter> set (routes # rs) = {}"
  shows "if \<not> starts sys then stack_main sys life tun arp_cache routes ps = Some (Exit 1)
    else if \<exists>i<3. sys_create sys i \<noteq> 0 then stack_main sys life tun arp_cache routes ps = Some Crash
    else \<exists>ps' h'. stack_main sys life tun arp_cache routes ps = Some (Run (ps', h')) \<and> released ps1 h arp_cache as routes rs ps' h'"
proof -
  have "stack_main sys life tun arp_cache routes ps = Some (Exit 1)" if "\<not> starts sys"
    using that by (simp add: stack_main_def startup_cases [OF assms(1)])
  moreover have "stack_main sys life tun arp_cache routes ps = Some Crash" if "starts sys" "i < 3" "sys_create sys i \<noteq> 0" for i
    by (rule stack_main_joins_missing [where life = life, OF assms(1) that assms(2) _ assms(3)]) (simp add: assms(4,5))
  moreover have "\<exists>ps' h'. stack_main sys life tun arp_cache routes ps = Some (Run (ps', h')) \<and> released ps1 h arp_cache as routes rs ps' h'"
    if "starts sys" "\<forall>i<3. sys_create sys i = 0"
    by (rule stack_main_releases [where life = life, OF assms(1) that assms(2,4-10)])
  ultimately show ?thesis by auto
qed

definition demo_sys :: sys where
  "demo_sys = \<lparr>sys_opts = ''d'', sys_sigmask = 0, sys_open = \<lambda>p. if p = ''/dev/net/tun'' then 3 else -1, sys_ioctl = \<lambda>fd n. (0, n), sys_system = \<lambda>_. 0,
     sys_prctl = \<lambda>_. 0, sys_create = \<lambda>_. 0, sys_join = \<lambda>_. 0\<rparr>"

text \<open>Two list heads, one entry in the translation table and three routes.\<close>

definition demo_heap :: list_heap where
  "demo_heap = [0 \<mapsto> \<lparr>lh_next = 2, lh_prev = 2\<rparr>, 2 \<mapsto> \<lparr>lh_next = 0, lh_prev = 0\<rparr>,
     1 \<mapsto> \<lparr>lh_next = 3, lh_prev = 5\<rparr>, 3 \<mapsto> \<lparr>lh_next = 4, lh_prev = 1\<rparr>, 4 \<mapsto> \<lparr>lh_next = 5, lh_prev = 3\<rparr>, 5 \<mapsto> \<lparr>lh_next = 1, lh_prev = 4\<rparr>]"

lemma demo_rings: "ring demo_heap 0 [2]" "ring demo_heap 1 [3, 4, 5]"
  by (simp_all add: ring_def demo_heap_def get_next_def get_prev_def)

theorem process_starts_and_releases_witness:
  "\<exists>ps' h'. stack_main demo_sys (\<lambda>ps. (ps, demo_heap)) (\<lambda>f. 0) 0 1 (ps_start fec_shared_ctx) = Some (Run (ps', h')) \<and>
     released (started demo_sys (ps_start fec_shared_ctx)) demo_heap 0 [2] 1 [3, 4, 5] ps' h'"
proof -
  have "kernel_names demo_sys" "\<forall>i<3. sys_join demo_sys i = 0" "ps_created (ps_start fec_shared_ctx) = []"
    by (simp_all add: kernel_names_def demo_sys_def ps_start_def)
  moreover have "net_of (started demo_sys (ps_start fec_shared_ctx)) \<noteq> None" by (simp add: started_net)
  moreover have "set (0 # [2]) \<inter> set (1 # [3, 4, 5]) = ({} :: nat set)" by simp
  moreover have "starts demo_sys" "\<not> (\<exists>i<3. sys_create demo_sys i \<noteq> 0)" by (simp_all add: starts_def demo_sys_def tap_opened_def)
  ultimately show ?thesis
    using process_starts_and_releases [where life = "\<lambda>ps. (ps, demo_heap)", OF _ _ _ refl refl _ started_net(3) demo_rings, of demo_sys fec_shared_ctx "\<lambda>f. 0"]
    by (auto simp del: One_nat_def split: if_splits)
qed

text \<open>
  C28. \<open>socket\<close> of the library opens a connection to the server and asks for a socket: the stack does what its
  own \<open>_socket\<close> does, the application gets that descriptor, and from then on the library finds the
  connection under it; \<open>errno\<close> and the connections of other sockets are untouched.
\<close>

theorem library_socket_is_stack_socket:
  assumes "is_socket_supported domain type protocol" and "i32 pid" "i32 domain" "i32 type" "i32 protocol"
    and "conn (chan l) = (fd, ret, bufs, tab)" "fd \<noteq> -1" "ret \<noteq> -1" and "length (bufs fd) = IPC_BUFLEN"
    and "lvl_socket pid domain type protocol tab = Ok (rc, tab')" and "0 \<le> rc" and "rc < 2 ^ 31"
    and "\<forall>s\<in>set (lvlip_socks l). \<not> ls_freed s \<and> ls_fd s \<noteq> rc"
  shows "\<exists>l'. lib_socket (ipc_exchange w) junk conn pid domain type protocol l = Done (rc, l') \<and> snd (chan l') = tab' \<and> errno l' = errno l \<and>
    (\<forall>f. f \<noteq> fd \<longrightarrow> fst (chan l') f = bufs f) \<and>
    lvlip_get_sock rc (lvlip_socks l') = Ok (Some \<lparr>lvlfd = fd, ls_fd = rc, ls_freed = False\<rparr>) \<and>
    (\<forall>s\<in>set (lvlip_socks l). s \<in> set (lvlip_socks l')) \<and> lvlip_socks_count l' = lvlip_socks_count l + 1"
  using library_socket [where conn = conn and bufs = bufs and l = l and w = w and junk = junk, OF assms(1-12)] find_new_sock [OF assms(13), of fd] by auto

definition demo_server :: ipc_world where
  "demo_server = \<lparr>w_out = \<lambda>_ s. (0, s), w_iss = 0, w_mem = True, w_fuel = 1, w_env = \<lambda>_ s. s, w_pause = \<lambda>_ t. t, w_junk = \<lambda>_. 0\<rparr>"

theorem library_socket_is_stack_socket_witness:
  "\<exists>l' tab'. lib_socket (ipc_exchange demo_server) (\<lambda>_. 0) (\<lambda>s. (5, 0, s)) 7 2 1 0
       \<lparr>lvlip_socks = [], lvlip_socks_count = 0, errno = 0, lib_closed = [], chan = (\<lambda>_. replicate 8192 0, sock_table_init)\<rparr> = Done (4097, l') \<and>
     lvl_socket 7 2 1 0 sock_table_init = Ok (4097, tab') \<and> snd (chan l') = tab' \<and>
     lvlip_get_sock 4097 (lvlip_socks l') = Ok (Some \<lparr>lvlfd = 5, ls_fd = 4097, ls_freed = False\<rparr>)"
proof -
  let ?l = "\<lparr>lvlip_socks = [], lvlip_socks_count = 0, errno = 0, lib_closed = [], chan = (\<lambda>_ :: int. replicate 8192 (0 :: u8), sock_table_init)\<rparr>"
  have s: "is_socket_supported 2 1 0" by (simp add: is_socket_supported_def AF_INET_def)
  have i: "i32 7" "i32 2" "i32 1" "i32 0" by (simp_all add: i32_def)
  have c: "(\<lambda>s. (5 :: int, 0 :: int, s)) (chan ?l) = (5, 0, \<lambda>_. replicate 8192 0, sock_table_init)" by simp
  have b: "length ((\<lambda>_ :: int. replicate 8192 (0 :: u8)) 5) = IPC_BUFLEN" by (simp add: IPC_BUFLEN_def)
  obtain tab' where t: "lvl_socket 7 2 1 0 sock_table_init = Ok (4097, tab')"
    by (simp add: lvl_socket_def alloc_socket_def inet_create_def sock_table_init_def SOCK_STREAM_def AF_INET_def Let_def)
  show ?thesis
    using library_socket_is_stack_socket [OF s i, where conn = "\<lambda>s. (5, 0, s)" and bufs = "\<lambda>_. replicate 8192 0" and l = ?l, OF c _ _ b t, of demo_server "\<lambda>_. 0"] t by auto
qed

end
